(* ===== verification/Htrace_Prelude.thy ===== *)
theory Htrace_Prelude
  imports Main "HOL-Library.Multiset"
begin

text \<open>
  Prelude of the development: the collections of rewrite rules the component theories share,
  and the generic list functions that the JavaScript sources use from the language or from
  underscore (\<open>Array.prototype.sort\<close>, \<open>_.without\<close>), with their laws.

  Three interfaces are stated here as locales. \<open>comparator\<close> is what \<open>Array.prototype.sort\<close> asks of
  its argument; \<open>codec\<close> is a printer with a parser that inverts it; \<open>event_machine\<close> is a machine whose
  steps keep an invariant, which holds then after any run (the requests of jQuery and the models that
  backbone saves are such machines).
\<close>

named_theorems js_num \<open>arithmetic and comparison of JavaScript numbers\<close>
named_theorems js_str \<open>character classes, decimal strings\<close>
named_theorems store_simps \<open>reads and writes of the span store\<close>
named_theorems draw_simps \<open>drawing commands of the widgets\<close>

section \<open>Sums as results of code that may throw\<close>

fun bind_sum :: "'e + 'a \<Rightarrow> ('a \<Rightarrow> 'e + 'b) \<Rightarrow> 'e + 'b" where
  "bind_sum (Inl e) f = Inl e"
| "bind_sum (Inr a) f = f a"

lemma bind_sum_Inr_iff:
  "bind_sum x f = Inr b \<longleftrightarrow> (\<exists>a. x = Inr a \<and> f a = Inr b)"
  by (cases x) auto

fun map_sum_list :: "('a \<Rightarrow> 'e + 'b) \<Rightarrow> 'a list \<Rightarrow> 'e + 'b list" where
  "map_sum_list f [] = Inr []"
| "map_sum_list f (x # xs) =
     (case f x of
        Inl e \<Rightarrow> Inl e
      | Inr y \<Rightarrow> (case map_sum_list f xs of Inl e \<Rightarrow> Inl e | Inr ys \<Rightarrow> Inr (y # ys)))"

lemma map_sum_list_InrD: "map_sum_list f xs = Inr ys \<Longrightarrow> list_all2 (\<lambda>x y. f x = Inr y) xs ys"
  by (induction xs arbitrary: ys) (auto split: sum.splits)

lemma map_sum_list_InrI: "list_all2 (\<lambda>x y. f x = Inr y) xs ys \<Longrightarrow> map_sum_list f xs = Inr ys"
  by (induction rule: list_all2_induct) auto

text \<open>The error that comes out is that of the first element which has one.\<close>

lemma map_sum_list_InlD:
  "map_sum_list f xs = Inl e \<Longrightarrow> \<exists>us x vs ys. xs = us @ x # vs \<and> f x = Inl e \<and> map_sum_list f us = Inr ys"
proof (induction xs)
  case Nil
  then show ?case by simp
next
  case (Cons a xs)
  show ?case
  proof (cases "f a")
    case (Inl d)
    with Cons.prems have "a # xs = [] @ a # xs \<and> f a = Inl e \<and> map_sum_list f [] = Inr []" by simp
    then show ?thesis by blast
  next
    case (Inr b)
    with Cons.prems have "map_sum_list f xs = Inl e" by (auto split: sum.splits)
    with Cons.IH obtain us x vs ys where
      "xs = us @ x # vs" "f x = Inl e" "map_sum_list f us = Inr ys" by blast
    with Inr have "a # xs = (a # us) @ x # vs \<and> f x = Inl e \<and> map_sum_list f (a # us) = Inr (b # ys)"
      by simp
    then show ?thesis by blast
  qed
qed

section \<open>Sorting with a comparison function\<close>

text \<open>
  \<open>Array.prototype.sort(cmp)\<close>: a stable sort (as ECMAScript requires since 2019) that takes the
  sign of \<open>cmp a b\<close>; an element moves before another only when \<open>cmp\<close> says so strictly.
\<close>

fun insert_by :: "('a \<Rightarrow> 'a \<Rightarrow> int) \<Rightarrow> 'a \<Rightarrow> 'a list \<Rightarrow> 'a list" where
  "insert_by cmp x [] = [x]"
| "insert_by cmp x (y # ys) = (if cmp x y \<le> 0 then x # y # ys else y # insert_by cmp x ys)"

fun sort_by :: "('a \<Rightarrow> 'a \<Rightarrow> int) \<Rightarrow> 'a list \<Rightarrow> 'a list" where
  "sort_by cmp [] = []"
| "sort_by cmp (x # xs) = insert_by cmp x (sort_by cmp xs)"

fun sorted_by :: "('a \<Rightarrow> 'a \<Rightarrow> int) \<Rightarrow> 'a list \<Rightarrow> bool" where
  "sorted_by cmp [] = True"
| "sorted_by cmp (x # xs) = ((\<forall>y\<in>set xs. cmp x y \<le> 0) \<and> sorted_by cmp xs)"

lemma mset_insert_by [simp]: "mset (insert_by cmp x xs) = add_mset x (mset xs)"
  by (induction xs) auto

lemma set_insert_by [simp]: "set (insert_by cmp x xs) = insert x (set xs)"
  by (induction xs) auto

lemma mset_sort_by [simp]: "mset (sort_by cmp xs) = mset xs"
  by (induction xs) auto

lemma set_sort_by [simp]: "set (sort_by cmp xs) = set xs"
  by (induction xs) auto

lemma length_sort_by [simp]: "length (sort_by cmp xs) = length xs"
  by (metis mset_sort_by size_mset)

lemma insert_by_least: "\<forall>y\<in>set ys. cmp x y \<le> 0 \<Longrightarrow> insert_by cmp x ys = x # ys"
  by (cases ys) auto

lemma sort_by_id: "sorted_by cmp xs \<Longrightarrow> sort_by cmp xs = xs"
  by (induction xs) (auto simp: insert_by_least)

lemma filter_insert_by_neg: "\<not> P x \<Longrightarrow> filter P (insert_by cmp x xs) = filter P xs"
  by (induction xs) auto

lemma sort_by_cong:
  assumes "\<And>a b. a \<in> set xs \<Longrightarrow> b \<in> set xs \<Longrightarrow> cmp a b = cmp' a b"
  shows "sort_by cmp xs = sort_by cmp' xs"
proof -
  have ins: "(\<And>b. b \<in> set ys \<Longrightarrow> cmp x b = cmp' x b) \<Longrightarrow> insert_by cmp x ys = insert_by cmp' x ys"
    for x ys by (induction ys) auto
  show ?thesis using assms
    by (induction xs) (auto intro!: ins)
qed

lemma sorted_by_append:
  "sorted_by cmp (xs @ ys) \<longleftrightarrow>
     sorted_by cmp xs \<and> sorted_by cmp ys \<and> (\<forall>x\<in>set xs. \<forall>y\<in>set ys. cmp x y \<le> 0)"
  by (induction xs) auto

lemma sorted_by_unique:
  assumes antisym: "\<And>a b. cmp a b \<le> 0 \<Longrightarrow> cmp b a \<le> 0 \<Longrightarrow> a = b"
  shows "sorted_by cmp xs \<Longrightarrow> sorted_by cmp ys \<Longrightarrow> mset xs = mset ys \<Longrightarrow> xs = ys"
proof (induction xs arbitrary: ys)
  case Nil
  then show ?case by simp
next
  case (Cons x xs)
  then obtain y zs where ys: "ys = y # zs" by (cases ys) auto
  have sets: "set (x # xs) = set (y # zs)"
    using Cons.prems(3) unfolding ys by (rule mset_eq_setD)
  have "x = y"
  proof (rule ccontr)
    assume "x \<noteq> y"
    then have "y \<in> set xs" "x \<in> set zs" using sets by auto
    then show False using Cons.prems(1,2) ys antisym \<open>x \<noteq> y\<close> by auto
  qed
  then show ?case using Cons ys by simp
qed

text \<open>The contract of a comparison function on the values that satisfy \<open>ok\<close>.\<close>

locale comparator =
  fixes cmp :: "'a \<Rightarrow> 'a \<Rightarrow> int"
    and ok :: "'a \<Rightarrow> bool"
  assumes cmp_total: "ok a \<Longrightarrow> ok b \<Longrightarrow> cmp a b \<le> 0 \<or> cmp b a \<le> 0"
    and cmp_trans: "ok a \<Longrightarrow> ok b \<Longrightarrow> ok c \<Longrightarrow> cmp a b \<le> 0 \<Longrightarrow> cmp b c \<le> 0 \<Longrightarrow> cmp a c \<le> 0"
begin

lemma insert_by_sorted:
  "ok x \<Longrightarrow> \<forall>y\<in>set ys. ok y \<Longrightarrow> sorted_by cmp ys \<Longrightarrow> sorted_by cmp (insert_by cmp x ys)"
proof (induction ys)
  case Nil
  then show ?case by simp
next
  case (Cons y ys)
  show ?case
  proof (cases "cmp x y \<le> 0")
    case True
    have "cmp x z \<le> 0" if "z \<in> set ys" for z
      using True that Cons.prems by (intro cmp_trans [of x y z]) auto
    with True Cons.prems show ?thesis by simp
  next
    case False
    then have "cmp y x \<le> 0"
      using Cons.prems cmp_total [of x y] by simp
    with False Cons show ?thesis by simp
  qed
qed

lemma sort_by_sorted: "\<forall>y\<in>set ys. ok y \<Longrightarrow> sorted_by cmp (sort_by cmp ys)"
  by (induction ys) (simp_all add: insert_by_sorted)

text \<open>Stability: the elements of one equivalence class keep their order.\<close>

lemma filter_insert_by_pos:
  assumes "ok x" and "\<forall>y\<in>set ys. ok y" and "sorted_by cmp ys"
    and "\<forall>y\<in>set ys. P y \<longrightarrow> cmp x y \<le> 0" and "P x"
  shows "filter P (insert_by cmp x ys) = x # filter P ys"
  using assms by (induction ys) auto

lemma sort_by_stable:
  assumes "\<forall>y\<in>set ys. ok y" and "ok a"
  shows "filter (\<lambda>b. cmp a b \<le> 0 \<and> cmp b a \<le> 0) (sort_by cmp ys)
       = filter (\<lambda>b. cmp a b \<le> 0 \<and> cmp b a \<le> 0) ys"
  using assms
proof (induction ys)
  case Nil
  then show ?case by simp
next
  case (Cons x xs)
  let ?P = "\<lambda>b. cmp a b \<le> 0 \<and> cmp b a \<le> 0"
  have IH: "filter ?P (sort_by cmp xs) = filter ?P xs"
    using Cons by simp
  show ?case
  proof (cases "?P x")
    case True
    have "\<forall>y\<in>set (sort_by cmp xs). ?P y \<longrightarrow> cmp x y \<le> 0"
      using True Cons.prems cmp_trans [of x a] by auto
    moreover have "sorted_by cmp (sort_by cmp xs)"
      using Cons.prems by (auto intro!: sort_by_sorted)
    ultimately have "filter ?P (insert_by cmp x (sort_by cmp xs)) = x # filter ?P (sort_by cmp xs)"
      using True Cons.prems filter_insert_by_pos [of x "sort_by cmp xs" ?P] by auto
    then show ?thesis using IH True by simp
  next
    case False
    then show ?thesis using IH by (simp add: filter_insert_by_neg)
  qed
qed

end

section \<open>Printers and parsers\<close>

locale codec =
  fixes enc :: "'a \<Rightarrow> 'b"
    and dec :: "'b \<Rightarrow> 'e + 'a"
    and ok :: "'a \<Rightarrow> bool"
  assumes dec_enc: "ok a \<Longrightarrow> dec (enc a) = Inr a"
begin

lemma enc_inj: "ok a \<Longrightarrow> ok b \<Longrightarrow> enc a = enc b \<Longrightarrow> a = b"
  by (metis dec_enc sum.inject(2))

lemma enc_inj_on: "inj_on enc {a. ok a}"
  by (auto intro!: inj_onI enc_inj)

end

section \<open>Lists\<close>

lemma length_filter_mset: "mset xs = mset ys \<Longrightarrow> length (filter P xs) = length (filter P ys)"
  by (metis mset_filter size_mset)

text \<open>\<open>_.without(array, x)\<close>: every element that is identical to \<open>x\<close> goes.\<close>

definition without :: "'a list \<Rightarrow> 'a \<Rightarrow> 'a list" where
  "without xs x = filter (\<lambda>y. y \<noteq> x) xs"

lemma set_without [simp]: "set (without xs x) = set xs - {x}"
  by (auto simp: without_def)

lemma without_absent [simp]: "x \<notin> set xs \<Longrightarrow> without xs x = xs"
  unfolding without_def by (rule filter_True) auto

lemma distinct_without [simp]: "distinct xs \<Longrightarrow> distinct (without xs x)"
  by (simp add: without_def)

lemma Max_insert_Max:
  fixes h :: "'a::linorder"
  assumes "finite B" "B \<noteq> {}" "finite C"
  shows "Max (insert (max h (Max B)) C) = Max (insert h (B \<union> C))"
proof (cases "C = {}")
  case True
  with assms show ?thesis by simp
next
  case False
  with assms show ?thesis by (simp add: Max_Un max.assoc)
qed

lemma without_hd: "distinct (x # xs) \<Longrightarrow> without (x # xs) x = xs"
  by (simp add: without_def) (rule filter_True, auto)

lemma without_Cons: "without (y # ys) x = (if y = x then without ys x else y # without ys x)"
  by (simp add: without_def)

section \<open>A machine and its invariant\<close>

text \<open>The runs in which every event is allowed in the state in which it happens.\<close>

fun allowed_run :: "('ev \<Rightarrow> 's \<Rightarrow> bool) \<Rightarrow> ('ev \<Rightarrow> 's \<Rightarrow> 's) \<Rightarrow> 'ev list \<Rightarrow> 's \<Rightarrow> bool" where
  "allowed_run allowed step [] s = True"
| "allowed_run allowed step (e # es) s = (allowed e s \<and> allowed_run allowed step es (step e s))"

lemma allowed_run_True [simp]: "allowed_run (\<lambda>e s. True) step es s"
  by (induction es arbitrary: s) simp_all

locale event_machine =
  fixes step :: "'ev \<Rightarrow> 's \<Rightarrow> 's"
    and inv :: "'s \<Rightarrow> bool"
    and allowed :: "'ev \<Rightarrow> 's \<Rightarrow> bool"
  assumes inv_step: "inv s \<Longrightarrow> allowed e s \<Longrightarrow> inv (step e s)"
begin

lemma inv_run: "inv s \<Longrightarrow> allowed_run allowed step es s \<Longrightarrow> inv (fold step es s)"
  by (induction es arbitrary: s) (simp_all add: inv_step)

end

end
