(* ===== verification/Js_Number.thy ===== *)
theory Js_Number
  imports Htrace_Prelude Complex_Main
begin

text \<open>
  The numbers of the JavaScript sources: a finite number is an exact rational (rounding of
  doubles is not modelled: every integer up to \<open>2 ^ 53\<close>, which covers all valid times in
  milliseconds, and every half of one up to \<open>2 ^ 52\<close> is a double, so the time arithmetic of
  the viewer is exact), with the two infinities and \<open>NaN\<close> as IEEE 754 and ECMAScript have
  them. The sign of zero is not kept. \<open>Undef\<close> is \<open>undefined\<close> found where a number is
  expected: it behaves as \<open>NaN\<close> in arithmetic and comparison.
\<close>

datatype jsnum = Num rat | PosInf | NegInf | NaN | Undef

fun js_add :: "jsnum \<Rightarrow> jsnum \<Rightarrow> jsnum" where
  "js_add (Num a) (Num b) = Num (a + b)"
| "js_add (Num a) PosInf = PosInf"
| "js_add PosInf (Num b) = PosInf"
| "js_add PosInf PosInf = PosInf"
| "js_add (Num a) NegInf = NegInf"
| "js_add NegInf (Num b) = NegInf"
| "js_add NegInf NegInf = NegInf"
| "js_add _ _ = NaN"

fun js_neg :: "jsnum \<Rightarrow> jsnum" where
  "js_neg (Num a) = Num (- a)"
| "js_neg PosInf = NegInf"
| "js_neg NegInf = PosInf"
| "js_neg _ = NaN"

definition js_inf :: "rat \<Rightarrow> jsnum" where
  "js_inf s = (if 0 < s then PosInf else if s < 0 then NegInf else NaN)"

fun js_sgn :: "jsnum \<Rightarrow> rat" where
  "js_sgn (Num a) = sgn a"
| "js_sgn PosInf = 1"
| "js_sgn NegInf = -1"
| "js_sgn _ = 0"

fun js_is_nan :: "jsnum \<Rightarrow> bool" where
  "js_is_nan NaN = True"
| "js_is_nan Undef = True"
| "js_is_nan _ = False"

fun js_mul :: "jsnum \<Rightarrow> jsnum \<Rightarrow> jsnum" where
  "js_mul (Num a) (Num b) = Num (a * b)"
| "js_mul x y = (if js_is_nan x \<or> js_is_nan y then NaN else js_inf (js_sgn x * js_sgn y))"

text \<open>Division by zero gives an infinity or \<open>NaN\<close>, never an error.\<close>

fun js_div :: "jsnum \<Rightarrow> jsnum \<Rightarrow> jsnum" where
  "js_div (Num a) (Num b) = (if b = 0 then js_inf (sgn a) else Num (a / b))"
| "js_div (Num a) PosInf = Num 0"
| "js_div (Num a) NegInf = Num 0"
| "js_div PosInf (Num b) = (if b < 0 then NegInf else PosInf)"
| "js_div NegInf (Num b) = (if b < 0 then PosInf else NegInf)"
| "js_div _ _ = NaN"

fun js_lt :: "jsnum \<Rightarrow> jsnum \<Rightarrow> bool" where
  "js_lt (Num a) (Num b) = (a < b)"
| "js_lt (Num a) PosInf = True"
| "js_lt NegInf (Num b) = True"
| "js_lt NegInf PosInf = True"
| "js_lt _ _ = False"

fun js_eq :: "jsnum \<Rightarrow> jsnum \<Rightarrow> bool" where
  "js_eq (Num a) (Num b) = (a = b)"
| "js_eq PosInf PosInf = True"
| "js_eq NegInf NegInf = True"
| "js_eq Undef Undef = True"
| "js_eq _ _ = False"

text \<open>\<open><=\<close> is false as soon as one side is not a number (also for two \<open>undefined\<close>).\<close>

definition js_le :: "jsnum \<Rightarrow> jsnum \<Rightarrow> bool" where
  "js_le x y = (\<not> js_is_nan x \<and> \<not> js_is_nan y \<and> (js_lt x y \<or> js_eq x y))"

text \<open>The operators of the language on these numbers, so that formulas read as in the code.\<close>

instantiation jsnum :: "{zero, one, plus, minus, uminus, times, inverse, ord}"
begin

definition zero_jsnum :: jsnum where "zero_jsnum = Num 0"
definition one_jsnum :: jsnum where "one_jsnum = Num 1"
definition plus_jsnum :: "jsnum \<Rightarrow> jsnum \<Rightarrow> jsnum" where "plus_jsnum = js_add"
definition uminus_jsnum :: "jsnum \<Rightarrow> jsnum" where "uminus_jsnum = js_neg"
definition minus_jsnum :: "jsnum \<Rightarrow> jsnum \<Rightarrow> jsnum" where "minus_jsnum x y = js_add x (js_neg y)"
definition times_jsnum :: "jsnum \<Rightarrow> jsnum \<Rightarrow> jsnum" where "times_jsnum = js_mul"
definition divide_jsnum :: "jsnum \<Rightarrow> jsnum \<Rightarrow> jsnum" where "divide_jsnum = js_div"
definition inverse_jsnum :: "jsnum \<Rightarrow> jsnum" where "inverse_jsnum = js_div (Num 1)"
definition less_jsnum :: "jsnum \<Rightarrow> jsnum \<Rightarrow> bool" where "less_jsnum = js_lt"
definition less_eq_jsnum :: "jsnum \<Rightarrow> jsnum \<Rightarrow> bool" where "less_eq_jsnum = js_le"

instance ..

end

text \<open>\<open>Math.min\<close>, \<open>Math.max\<close> and \<open>Math.floor\<close>; a number as a condition.\<close>

definition js_min :: "jsnum \<Rightarrow> jsnum \<Rightarrow> jsnum" where
  "js_min x y = (if js_is_nan x \<or> js_is_nan y then NaN else if y < x then y else x)"

definition js_max :: "jsnum \<Rightarrow> jsnum \<Rightarrow> jsnum" where
  "js_max x y = (if js_is_nan x \<or> js_is_nan y then NaN else if x < y then y else x)"

fun js_floor :: "jsnum \<Rightarrow> jsnum" where
  "js_floor (Num a) = Num (of_int \<lfloor>a\<rfloor>)"
| "js_floor Undef = NaN"
| "js_floor x = x"

text \<open>\<open>ToInteger\<close> of the date functions: towards zero.\<close>

definition rat_trunc :: "rat \<Rightarrow> int" where
  "rat_trunc r = (if 0 \<le> r then \<lfloor>r\<rfloor> else \<lceil>r\<rceil>)"

fun js_truthy :: "jsnum \<Rightarrow> bool" where
  "js_truthy (Num a) = (a \<noteq> 0)"
| "js_truthy PosInf = True"
| "js_truthy NegInf = True"
| "js_truthy _ = False"

fun is_num :: "jsnum \<Rightarrow> bool" where
  "is_num (Num _) = True"
| "is_num _ = False"

fun num_val :: "jsnum \<Rightarrow> rat" where
  "num_val (Num a) = a"
| "num_val _ = 0"

section \<open>Computation rules on finite numbers\<close>

lemma js_num_arith [js_num, simp]:
  "Num a + Num b = Num (a + b)"
  "Num a - Num b = Num (a - b)"
  "Num a * Num b = Num (a * b)"
  "- Num a = Num (- a)"
  "(0::jsnum) = Num 0"
  "(1::jsnum) = Num 1"
  by (simp_all add: plus_jsnum_def minus_jsnum_def times_jsnum_def uminus_jsnum_def
      zero_jsnum_def one_jsnum_def)

lemma js_num_div [js_num, simp]: "b \<noteq> 0 \<Longrightarrow> Num a / Num b = Num (a / b)"
  by (simp add: divide_jsnum_def)

lemma js_num_div_zero [js_num]:
  "Num a / Num 0 = (if 0 < a then PosInf else if a < 0 then NegInf else NaN)"
  by (simp add: divide_jsnum_def js_inf_def)

lemma js_num_cmp [js_num, simp]:
  "Num a < Num b \<longleftrightarrow> a < b"
  "Num a \<le> Num b \<longleftrightarrow> a \<le> b"
  by (auto simp: less_jsnum_def less_eq_jsnum_def js_le_def)

lemma js_num_minmax [js_num, simp]:
  "js_min (Num a) (Num b) = Num (min a b)"
  "js_max (Num a) (Num b) = Num (max a b)"
  by (auto simp: js_min_def js_max_def min_def max_def)

text \<open>Anything that is not a number is contagious, and compares false.\<close>

lemma js_nan_arith [js_num, simp]:
  "NaN + y = NaN" "x + NaN = NaN" "Undef + y = NaN" "x + Undef = NaN"
  "NaN - y = NaN" "x - NaN = NaN" "Undef - y = NaN" "x - Undef = NaN"
  "NaN * y = NaN" "x * NaN = NaN" "Undef * y = NaN" "x * Undef = NaN"
  "NaN / y = NaN" "x / NaN = NaN" "Undef / y = NaN" "x / Undef = NaN"
  by ((cases x; cases y; simp add: plus_jsnum_def minus_jsnum_def times_jsnum_def divide_jsnum_def)+)

lemma js_nan_cmp [js_num, simp]:
  "\<not> NaN < y" "\<not> x < NaN" "\<not> Undef < y" "\<not> x < Undef"
  "\<not> NaN \<le> y" "\<not> x \<le> NaN" "\<not> Undef \<le> y" "\<not> x \<le> Undef"
  by (cases x; cases y; simp add: less_jsnum_def less_eq_jsnum_def js_le_def)+

lemma js_nan_minmax [js_num, simp]:
  "js_min NaN y = NaN" "js_min x NaN = NaN" "js_max NaN y = NaN" "js_max x NaN = NaN"
  "js_min Undef y = NaN" "js_min x Undef = NaN" "js_max Undef y = NaN" "js_max x Undef = NaN"
  by (simp_all add: js_min_def js_max_def)

lemma is_num_iff: "is_num x \<longleftrightarrow> x = Num (num_val x)"
  by (cases x) auto

lemma is_numE: "is_num x \<Longrightarrow> (\<And>a. x = Num a \<Longrightarrow> P) \<Longrightarrow> P"
  by (cases x) auto

lemma is_num_closed [simp]:
  "is_num x \<Longrightarrow> is_num y \<Longrightarrow> is_num (x + y)"
  "is_num x \<Longrightarrow> is_num y \<Longrightarrow> is_num (x - y)"
  "is_num x \<Longrightarrow> is_num y \<Longrightarrow> is_num (x * y)"
  "is_num x \<Longrightarrow> is_num y \<Longrightarrow> is_num (js_min x y)"
  "is_num x \<Longrightarrow> is_num y \<Longrightarrow> is_num (js_max x y)"
  "is_num x \<Longrightarrow> is_num (js_floor x)"
  by (auto elim!: is_numE)

section \<open>Folding minima and maxima\<close>

lemma fold_js_min_nums:
  "fold (\<lambda>x acc. js_min acc (Num (f x))) xs (Num a) = Num (Min (insert a (f ` set xs)))"
proof (induction xs arbitrary: a)
  case Nil
  then show ?case by simp
next
  case (Cons x xs)
  have "Min (insert (min a (f x)) (f ` set xs)) = Min (insert a (insert (f x) (f ` set xs)))"
    by (cases "set xs = {}") (auto simp: Min_insert min.assoc)
  then show ?case using Cons by simp
qed

lemma fold_js_max_nums:
  "fold (\<lambda>x acc. js_max acc (Num (f x))) xs (Num a) = Num (Max (insert a (f ` set xs)))"
proof (induction xs arbitrary: a)
  case Nil
  then show ?case by simp
next
  case (Cons x xs)
  have "Max (insert (max a (f x)) (f ` set xs)) = Max (insert a (insert (f x) (f ` set xs)))"
    by (cases "set xs = {}") (auto simp: Max_insert max.assoc)
  then show ?case using Cons by simp
qed

text \<open>The comparison function the sources write three times: by \<open><\<close> and \<open>>\<close> on a numeric field.\<close>

definition num_cmp :: "('a \<Rightarrow> jsnum) \<Rightarrow> 'a \<Rightarrow> 'a \<Rightarrow> int" where
  "num_cmp key a b = (if key a < key b then -1 else if key b < key a then 1 else 0)"

lemma num_cmp_le_iff:
  "is_num (key a) \<Longrightarrow> is_num (key b) \<Longrightarrow> num_cmp key a b \<le> 0 \<longleftrightarrow> num_val (key a) \<le> num_val (key b)"
  by (auto simp: num_cmp_def elim!: is_numE)

interpretation num_cmp: comparator "num_cmp key" "\<lambda>a. is_num (key a)" for key
  by unfold_locales (auto simp: num_cmp_le_iff)

lemma sorted_by_num_cmp:
  assumes "\<forall>a\<in>set xs. is_num (key a)"
  shows "sorted_by (num_cmp key) xs \<longleftrightarrow> sorted (map (num_val \<circ> key) xs)"
  using assms by (induction xs) (auto simp: num_cmp_le_iff)

lemma sort_by_num_cmp_sorted:
  assumes "\<forall>a\<in>set xs. is_num (key a)"
  shows "sorted (map (num_val \<circ> key) (sort_by (num_cmp key) xs))"
  using assms num_cmp.sort_by_sorted [of xs key] sorted_by_num_cmp [of "sort_by (num_cmp key) xs" key]
  by simp

end
