(* ===== verification/Js_String.thy ===== *)
theory Js_String
  imports Js_Number
begin

text \<open>
  The string functions of the language that the sources use. A string is the list of its UTF-16
  code units; code units above 255 are outside the model.
\<close>

definition code :: "char \<Rightarrow> nat" where
  "code c = of_char c"

lemma code_less [simp]: "code c < 256"
  by (simp add: code_def)

definition is_digit :: "char \<Rightarrow> bool" where
  "is_digit c = (48 \<le> code c \<and> code c \<le> 57)"

text \<open>The regular expression class \<open>[0-9a-fA-F]\<close>.\<close>

definition is_hex_digit :: "char \<Rightarrow> bool" where
  "is_hex_digit c =
     (is_digit c \<or> (97 \<le> code c \<and> code c \<le> 102) \<or> (65 \<le> code c \<and> code c \<le> 70))"

text \<open>
  The class \<open>\s\<close>, which is also what \<open>trim\<close> removes: tab, line feed, vertical tab, form feed,
  carriage return, space, no-break space.
\<close>

definition is_space :: "char \<Rightarrow> bool" where
  "is_space c = (code c \<in> {9, 10, 11, 12, 13, 32, 160})"

definition trim :: "string \<Rightarrow> string" where
  "trim s = rev (dropWhile is_space (rev (dropWhile is_space s)))"

section \<open>Decimal numbers\<close>

definition digit_char :: "nat \<Rightarrow> char" where
  "digit_char n = char_of (48 + n)"

definition digit_val :: "char \<Rightarrow> nat" where
  "digit_val c = code c - 48"

fun nat_string :: "nat \<Rightarrow> string" where
  "nat_string n = (if n < 10 then [digit_char n] else nat_string (n div 10) @ [digit_char (n mod 10)])"

declare nat_string.simps [simp del]

definition int_string :: "int \<Rightarrow> string" where
  "int_string n = (if n < 0 then CHR ''-'' # nat_string (nat (- n)) else nat_string (nat n))"

definition digits_val :: "string \<Rightarrow> nat" where
  "digits_val s = foldl (\<lambda>acc c. 10 * acc + digit_val c) 0 s"

definition all_digits :: "string \<Rightarrow> bool" where
  "all_digits s = list_all is_digit s"

text \<open>
  \<open>parseInt(s, 10)\<close>: leading white space, an optional sign, then the longest run of digits;
  \<open>NaN\<close> when there is none.
\<close>

definition parse_int :: "string \<Rightarrow> jsnum" where
  "parse_int s =
     (let t = dropWhile is_space s;
          neg = (case t of c # _ \<Rightarrow> c = CHR ''-'' | [] \<Rightarrow> False);
          u = (case t of c # cs \<Rightarrow> if c = CHR ''-'' \<or> c = CHR ''+'' then cs else t | [] \<Rightarrow> t);
          ds = takeWhile is_digit u
      in if ds = [] then NaN
         else if neg then Num (- of_nat (digits_val ds)) else Num (of_nat (digits_val ds)))"

text \<open>\<open>s.indexOf(p) == 0\<close>.\<close>

fun starts_with :: "string \<Rightarrow> string \<Rightarrow> bool" where
  "starts_with [] s = True"
| "starts_with (p # ps) [] = False"
| "starts_with (p # ps) (c # cs) = (p = c \<and> starts_with ps cs)"

lemma starts_with_iff: "starts_with p s \<longleftrightarrow> (\<exists>r. s = p @ r)"
  by (induction p s rule: starts_with.induct) auto

section \<open>Laws\<close>

lemma code_digit_char [js_str, simp]: "n < 10 \<Longrightarrow> code (digit_char n) = 48 + n"
  by (simp add: code_def digit_char_def)

lemma is_digit_digit_char [js_str, simp]: "n < 10 \<Longrightarrow> is_digit (digit_char n)"
  by (simp add: is_digit_def)

lemma digit_val_digit_char [js_str, simp]: "n < 10 \<Longrightarrow> digit_val (digit_char n) = n"
  by (simp add: digit_val_def)

lemma digit_val_less: "is_digit c \<Longrightarrow> digit_val c < 10"
  unfolding is_digit_def digit_val_def by arith

lemma digit_char_digit_val: "is_digit c \<Longrightarrow> digit_char (digit_val c) = c"
  by (simp add: is_digit_def digit_val_def digit_char_def code_def)

lemma all_digits_simps [js_str, simp]:
  "all_digits []"
  "all_digits (c # s) \<longleftrightarrow> is_digit c \<and> all_digits s"
  "all_digits (s @ t) \<longleftrightarrow> all_digits s \<and> all_digits t"
  by (simp_all add: all_digits_def)

lemma all_digits_nat_string [js_str, simp]: "all_digits (nat_string n)"
proof (induction n rule: nat_string.induct)
  case (1 n)
  then show ?case by (subst nat_string.simps) simp
qed

lemma nat_string_not_Nil [simp]: "nat_string n \<noteq> []"
  by (subst nat_string.simps) simp

lemma digits_val_snoc [js_str]: "digits_val (s @ [c]) = 10 * digits_val s + digit_val c"
  by (simp add: digits_val_def)

lemma digits_val_Nil [js_str, simp]: "digits_val [] = 0"
  by (simp add: digits_val_def)

lemma digits_val_nat_string [js_str, simp]: "digits_val (nat_string n) = n"
proof (induction n rule: nat_string.induct)
  case (1 n)
  show ?case
  proof (cases "n < 10")
    case True
    then show ?thesis by (subst nat_string.simps) (simp add: digits_val_def)
  next
    case False
    with 1 have "digits_val (nat_string (n div 10)) = n div 10" by simp
    with False show ?thesis by (subst nat_string.simps) (simp add: digits_val_snoc)
  qed
qed

lemma digits_val_zero_Cons [js_str]: "digits_val (CHR ''0'' # s) = digits_val s"
  by (simp add: digits_val_def digit_val_def code_def)

lemma length_nat_string_le:
  "n < 10 ^ k \<Longrightarrow> 0 < k \<Longrightarrow> length (nat_string n) \<le> k"
proof (induction n arbitrary: k rule: nat_string.induct)
  case (1 n)
  show ?case
  proof (cases "n < 10")
    case True
    with 1 show ?thesis by (subst nat_string.simps) simp
  next
    case False
    obtain j where k: "k = Suc j" using \<open>0 < k\<close> by (cases k) auto
    with False "1.prems" have "0 < j" by (cases j) auto
    moreover have "n div 10 < 10 ^ j"
      using "1.prems"(1) k by (simp add: less_mult_imp_div_less mult.commute)
    ultimately have "length (nat_string (n div 10)) \<le> j" using False "1.IH" by blast
    with False k show ?thesis by (subst nat_string.simps) simp
  qed
qed

lemma takeWhile_all_digits: "all_digits s \<Longrightarrow> takeWhile is_digit s = s"
  by (simp add: all_digits_def list_all_iff takeWhile_eq_all_conv)

lemma digit_not_space [js_str]: "is_digit c \<Longrightarrow> \<not> is_space c"
  by (auto simp: is_digit_def is_space_def)

lemma digit_not_sign: "is_digit c \<Longrightarrow> c \<noteq> CHR ''-'' \<and> c \<noteq> CHR ''+''"
  by (auto simp: is_digit_def code_def)

lemma parse_int_digits:
  assumes "all_digits s" and "s \<noteq> []"
  shows "parse_int s = Num (of_nat (digits_val s))"
proof -
  obtain c cs where s: "s = c # cs" using assms(2) by (cases s) auto
  with assms(1) have "is_digit c" by simp
  with s have "dropWhile is_space s = s" and "c \<noteq> CHR ''-''" and "c \<noteq> CHR ''+''"
    using digit_not_space digit_not_sign by auto
  with s assms show ?thesis
    by (simp add: parse_int_def Let_def takeWhile_all_digits)
qed

lemma parse_int_nat_string [simp]: "parse_int (nat_string n) = Num (of_nat n)"
  by (simp add: parse_int_digits)

text \<open>\<open>parseInt\<close> gives a whole number or \<open>NaN\<close>, never anything else.\<close>

lemma parse_int_whole: "parse_int s = NaN \<or> (\<exists>n::int. parse_int s = Num (of_int n))"
proof -
  have "\<exists>n::int. Num (of_nat k) = Num (of_int n)" and "\<exists>n::int. Num (- of_nat k) = Num (of_int n)"
    for k
    by (metis of_int_of_nat_eq, metis of_int_minus of_int_of_nat_eq)
  then show ?thesis by (simp add: parse_int_def Let_def)
qed

lemma dropWhile_idem: "dropWhile P (dropWhile P xs) = dropWhile P xs"
  by (induction xs) auto

lemma trim_all_space_iff: "trim s = [] \<longleftrightarrow> (\<forall>c\<in>set s. is_space c)"
proof -
  have "trim s = [] \<longleftrightarrow> dropWhile is_space s = []"
    by (metis (no_types, lifting) dropWhile_eq_Nil_conv dropWhile_idem hd_dropWhile hd_in_set
        rev.simps(1) rev_rev_ident set_rev trim_def)
  then show ?thesis by (simp add: dropWhile_eq_Nil_conv)
qed

end
