(* ===== verification/Js_Date.thy ===== *)
theory Js_Date
  imports Js_Number
begin

text \<open>
  The UTC date arithmetic of the language (ECMAScript's \<open>Day\<close>, \<open>DayFromYear\<close>, \<open>YearFromTime\<close>,
  \<open>MakeDay\<close>, \<open>MakeDate\<close>, \<open>TimeClip\<close>, \<open>Date.UTC\<close>, \<open>getUTC*\<close>, \<open>setUTCFullYear\<close>), which moment.js
  calls for every date of the viewer. A time is a whole number of milliseconds since the epoch.
\<close>

definition msPerDay :: int where "msPerDay = 86400000"

definition day_of :: "int \<Rightarrow> int" where "day_of t = t div msPerDay"

definition time_within_day :: "int \<Rightarrow> int" where "time_within_day t = t mod msPerDay"

definition is_leap_year :: "int \<Rightarrow> bool" where
  "is_leap_year y = ((y mod 4 = 0 \<and> y mod 100 \<noteq> 0) \<or> y mod 400 = 0)"

definition day_from_year :: "int \<Rightarrow> int" where
  "day_from_year y =
     365 * (y - 1970) + (y - 1969) div 4 - (y - 1901) div 100 + (y - 1601) div 400"

text \<open>
  The year of a day: a first guess from the mean length of the Gregorian year, which is off by at
  most one, corrected.
\<close>

definition year_from_day :: "int \<Rightarrow> int" where
  "year_from_day d =
     (let g = 1970 + (400 * d) div 146097
      in if d < day_from_year g then g - 1
         else if day_from_year (g + 1) \<le> d then g + 1 else g)"

text \<open>The number of days before month \<open>m\<close> (January is 0), in a year that is leap or not.\<close>

definition month_start :: "bool \<Rightarrow> int \<Rightarrow> int" where
  "month_start leap m =
     (let l = (if leap then 1 else 0)
      in if m \<le> 0 then 0 else if m = 1 then 31 else if m = 2 then 59 + l
         else if m = 3 then 90 + l else if m = 4 then 120 + l else if m = 5 then 151 + l
         else if m = 6 then 181 + l else if m = 7 then 212 + l else if m = 8 then 243 + l
         else if m = 9 then 273 + l else if m = 10 then 304 + l else if m = 11 then 334 + l
         else 365 + l)"

definition month_in_year :: "bool \<Rightarrow> int \<Rightarrow> int" where
  "month_in_year leap d =
     (if d < month_start leap 1 then 0 else if d < month_start leap 2 then 1
      else if d < month_start leap 3 then 2 else if d < month_start leap 4 then 3
      else if d < month_start leap 5 then 4 else if d < month_start leap 6 then 5
      else if d < month_start leap 7 then 6 else if d < month_start leap 8 then 7
      else if d < month_start leap 9 then 8 else if d < month_start leap 10 then 9
      else if d < month_start leap 11 then 10 else 11)"

definition utc_year :: "int \<Rightarrow> int" where
  "utc_year t = year_from_day (day_of t)"

definition day_in_year :: "int \<Rightarrow> int" where
  "day_in_year t = day_of t - day_from_year (utc_year t)"

definition utc_month :: "int \<Rightarrow> int" where
  "utc_month t = month_in_year (is_leap_year (utc_year t)) (day_in_year t)"

definition utc_date :: "int \<Rightarrow> int" where
  "utc_date t = day_in_year t - month_start (is_leap_year (utc_year t)) (utc_month t) + 1"

definition utc_hours :: "int \<Rightarrow> int" where "utc_hours t = (t div 3600000) mod 24"
definition utc_minutes :: "int \<Rightarrow> int" where "utc_minutes t = (t div 60000) mod 60"
definition utc_seconds :: "int \<Rightarrow> int" where "utc_seconds t = (t div 1000) mod 60"
definition utc_milliseconds :: "int \<Rightarrow> int" where "utc_milliseconds t = t mod 1000"

definition make_time :: "int \<Rightarrow> int \<Rightarrow> int \<Rightarrow> int \<Rightarrow> int" where
  "make_time h mi s ms = h * 3600000 + mi * 60000 + s * 1000 + ms"

definition make_day :: "int \<Rightarrow> int \<Rightarrow> int \<Rightarrow> int" where
  "make_day y m d =
     (let ym = y + m div 12
      in day_from_year ym + month_start (is_leap_year ym) (m mod 12) + d - 1)"

definition make_date :: "int \<Rightarrow> int \<Rightarrow> int" where
  "make_date day time = day * msPerDay + time"

definition maxTime :: int where "maxTime = 8640000000000000"

text \<open>\<open>TimeClip\<close>: \<open>None\<close> is the time value \<open>NaN\<close> of an invalid \<open>Date\<close>.\<close>

definition time_clip :: "int \<Rightarrow> int option" where
  "time_clip t = (if \<bar>t\<bar> \<le> maxTime then Some t else None)"

text \<open>\<open>Date.UTC\<close> reads the years 0 to 99 as 1900 to 1999.\<close>

definition date_utc :: "int \<Rightarrow> int \<Rightarrow> int \<Rightarrow> int \<Rightarrow> int \<Rightarrow> int \<Rightarrow> int \<Rightarrow> int option" where
  "date_utc y m d h mi s ms =
     (let yr = (if 0 \<le> y \<and> y \<le> 99 then 1900 + y else y)
      in time_clip (make_date (make_day yr m d) (make_time h mi s ms)))"

definition set_utc_full_year :: "int \<Rightarrow> int \<Rightarrow> int option" where
  "set_utc_full_year t y =
     time_clip (make_date (make_day y (utc_month t) (utc_date t)) (time_within_day t))"

section \<open>The calendar is consistent\<close>

lemma div_succ:
  fixes x b :: int
  assumes "0 < b"
  shows "(x + 1) div b = x div b + (if (x + 1) mod b = 0 then 1 else 0)"
proof -
  have x: "x = b * (x div b) + x mod b" by simp
  have r: "0 \<le> x mod b" "x mod b < b" using assms by simp_all
  show ?thesis
  proof (cases "x mod b = b - 1")
    case True
    then have "x + 1 = b * (x div b + 1)" using x by (subst x) (simp add: distrib_left)
    then show ?thesis using assms by (metis mod_mult_self1_is_0 nonzero_mult_div_cancel_left less_irrefl)
  next
    case False
    with r have r': "0 \<le> x mod b + 1" "x mod b + 1 < b" by linarith+
    have x': "x + 1 = b * (x div b) + (x mod b + 1)" by simp
    have "(x + 1) div b = x div b" "(x + 1) mod b = x mod b + 1"
      using int_div_pos_eq [OF x' r'] int_mod_pos_eq [OF x' r'] by simp_all
    then show ?thesis using r by simp
  qed
qed

lemma div_next:
  fixes y k b :: int
  assumes "0 < b"
  shows "(y + 1 - (1 + b * k)) div b = (y - (1 + b * k)) div b + (if y mod b = 0 then 1 else 0)"
proof -
  have "y + 1 - (1 + b * k) = y + (- k) * b" "y - (1 + b * k) + 1 = y + (- k) * b"
    by (simp_all add: algebra_simps)
  then show ?thesis
    using div_succ [OF assms, of "y - (1 + b * k)"] mod_mult_self1 [of y "- k" b] by (simp only:)
qed

lemma day_from_year_Suc:
  "day_from_year (y + 1) = day_from_year y + (if is_leap_year y then 366 else 365)"
proof -
  obtain a b c where abc: "a = (y - 1969) div 4" "b = (y - 1901) div 100" "c = (y - 1601) div 400"
    by simp
  obtain P Q R where P: "P = (y mod 4 = 0)" and Q: "Q = (y mod 100 = 0)" and R: "R = (y mod 400 = 0)"
    by simp
  have "R \<longrightarrow> Q" "Q \<longrightarrow> P"
    using dvd_trans [of 100 400 y] dvd_trans [of 4 100 y] by (simp_all add: P Q R mod_eq_0_iff_dvd)
  moreover have "(y + 1 - 1969) div 4 = a + (if P then 1 else 0)"
    "(y + 1 - 1901) div 100 = b + (if Q then 1 else 0)"
    "(y + 1 - 1601) div 400 = c + (if R then 1 else 0)"
    using div_next [of 4 y 492] div_next [of 100 y 19] div_next [of 400 y 4]
    unfolding abc P Q R by (simp_all only: arith_simps zero_less_numeral simp_thms numeral_One [symmetric])
  ultimately show ?thesis
    unfolding day_from_year_def is_leap_year_def abc [symmetric] P [symmetric] Q [symmetric] R [symmetric]
    by auto
qed

lemma div_bounds:
  fixes a :: int
  assumes "0 < b"
  shows "b * (a div b) \<le> a" "a < b * (a div b) + b"
proof -
  show "b * (a div b) \<le> a"
    using assms by (metis mult.commute pos_mod_sign div_mult_mod_eq le_add_same_cancel1)
  show "a < b * (a div b) + b"
    using assms by (metis add_less_cancel_left mult_div_mod_eq pos_mod_bound)
qed

lemma year_from_day_bounds:
  "day_from_year (year_from_day d) \<le> d" "d < day_from_year (year_from_day d + 1)"
proof -
  define q where "q = (400 * d) div 146097"
  define g where "g = 1970 + q"
  have q: "146097 * q \<le> 400 * d" "400 * d < 146097 * q + 146097"
    using div_bounds [of 146097 "400 * d"] by (auto simp: q_def)
  have f: "400 * day_from_year y \<le> 146097 * (y - 1970) + 1200"
          "146097 * (y - 1970) - 1200 \<le> 400 * day_from_year y" for y
  proof -
    obtain a b c where abc: "a = (y - 1969) div 4" "b = (y - 1901) div 100" "c = (y - 1601) div 400"
      by simp
    then have "4 * a \<le> y - 1969" "y - 1969 < 4 * a + 4" "100 * b \<le> y - 1901"
      "y - 1901 < 100 * b + 100" "400 * c \<le> y - 1601" "y - 1601 < 400 * c + 400"
      by (auto simp only: intro!: div_bounds)
    note bnds = this
    have "400 * (365 * (y - 1970) + a - b + c) \<le> 146097 * (y - 1970) + 1200"
      using bnds by (simp add: algebra_simps)
    moreover have "146097 * (y - 1970) - 1200 \<le> 400 * (365 * (y - 1970) + a - b + c)"
      using bnds by (simp add: algebra_simps)
    ultimately show "400 * day_from_year y \<le> 146097 * (y - 1970) + 1200"
      "146097 * (y - 1970) - 1200 \<le> 400 * day_from_year y"
      by (simp_all only: day_from_year_def abc)
  qed
  have lo: "day_from_year (g - 1) \<le> d"
    using f(1) [of "g - 1"] q by (simp add: g_def)
  have hi: "d < day_from_year (g + 2)"
    using f(2) [of "g + 2"] q by (simp add: g_def)
  have y: "year_from_day d = (if d < day_from_year g then g - 1
         else if day_from_year (g + 1) \<le> d then g + 1 else g)"
    by (simp add: year_from_day_def g_def q_def Let_def)
  show "day_from_year (year_from_day d) \<le> d" "d < day_from_year (year_from_day d + 1)"
    using lo hi y by (auto simp: add.commute)
qed

lemma day_from_year_mono: "y \<le> z \<Longrightarrow> day_from_year y \<le> day_from_year z"
proof (induction "nat (z - y)" arbitrary: z)
  case 0
  then show ?case by simp
next
  case (Suc n)
  then have "day_from_year y \<le> day_from_year (z - 1)" by simp
  also have "\<dots> \<le> day_from_year z" using day_from_year_Suc [of "z - 1"] by simp
  finally show ?case .
qed

lemma year_from_day_unique:
  assumes "day_from_year y \<le> d" "d < day_from_year (y + 1)"
  shows "year_from_day d = y"
proof (rule ccontr)
  let ?z = "year_from_day d"
  assume "?z \<noteq> y"
  then consider "?z + 1 \<le> y" | "y + 1 \<le> ?z" by linarith
  then show False
    using assms year_from_day_bounds [of d] day_from_year_mono by cases fastforce+
qed

lemma day_in_year_bounds:
  "0 \<le> day_in_year t" "day_in_year t < (if is_leap_year (utc_year t) then 366 else 365)"
  using year_from_day_bounds [of "day_of t"] day_from_year_Suc [of "utc_year t"]
  by (auto simp: day_in_year_def utc_year_def)

lemma month_in_year_bounds: "0 \<le> month_in_year l d" "month_in_year l d \<le> 11"
  by (simp_all add: month_in_year_def)

lemma month_start_le: "0 \<le> d \<Longrightarrow> month_start l (month_in_year l d) \<le> d"
  by (cases l) (simp_all add: month_in_year_def month_start_def)

lemma month_start_next:
  "d < (if l then 366 else 365) \<Longrightarrow> d < month_start l (month_in_year l d + 1)"
  by (cases l) (simp_all add: month_in_year_def month_start_def)

lemma utc_month_bounds: "0 \<le> utc_month t" "utc_month t \<le> 11"
  by (simp_all add: utc_month_def month_in_year_bounds)

lemma utc_date_bounds:
  "1 \<le> utc_date t"
  "utc_date t \<le> month_start (is_leap_year (utc_year t)) (utc_month t + 1)
               - month_start (is_leap_year (utc_year t)) (utc_month t)"
  using month_start_le [OF day_in_year_bounds(1), of "is_leap_year (utc_year t)" t]
    month_start_next [OF day_in_year_bounds(2), of t]
  by (simp_all add: utc_date_def utc_month_def)

lemma utc_time_bounds:
  "0 \<le> utc_hours t" "utc_hours t < 24" "0 \<le> utc_minutes t" "utc_minutes t < 60"
  "0 \<le> utc_seconds t" "utc_seconds t < 60" "0 \<le> utc_milliseconds t" "utc_milliseconds t < 1000"
  by (simp_all add: utc_hours_def utc_minutes_def utc_seconds_def utc_milliseconds_def)

lemma make_time_fields:
  "make_time (utc_hours t) (utc_minutes t) (utc_seconds t) (utc_milliseconds t) = time_within_day t"
proof -
  have d: "t div 60000 = t div 1000 div 60" "t div 3600000 = t div 60000 div 60"
    "t div 86400000 = t div 3600000 div 24"
    by (simp_all flip: zdiv_zmult2_eq)
  have "t = 1000 * (t div 1000) + t mod 1000"
    "t div 1000 = 60 * (t div 60000) + (t div 1000) mod 60"
    "t div 60000 = 60 * (t div 3600000) + (t div 60000) mod 60"
    "t div 3600000 = 24 * (t div 86400000) + (t div 3600000) mod 24"
    unfolding d by simp_all
  moreover have "t = 86400000 * (t div 86400000) + t mod 86400000" by simp
  ultimately show ?thesis
    unfolding make_time_def utc_hours_def utc_minutes_def utc_seconds_def utc_milliseconds_def
      time_within_day_def msPerDay_def by linarith
qed

text \<open>The fields of a time determine it.\<close>

lemma make_day_fields: "make_day (utc_year t) (utc_month t) (utc_date t) = day_of t"
proof -
  have "utc_month t div 12 = 0" "utc_month t mod 12 = utc_month t"
    using utc_month_bounds [of t] by auto
  then show ?thesis by (simp add: make_day_def utc_date_def day_in_year_def)
qed

lemma make_date_fields:
  "make_date (make_day (utc_year t) (utc_month t) (utc_date t))
     (make_time (utc_hours t) (utc_minutes t) (utc_seconds t) (utc_milliseconds t)) = t"
  by (simp add: make_day_fields make_time_fields make_date_def day_of_def time_within_day_def)

text \<open>And the other way: a valid date and time of day give back their fields.\<close>

definition days_of_month :: "bool \<Rightarrow> int \<Rightarrow> int" where
  "days_of_month l m = month_start l (m + 1) - month_start l m"

lemma month_in_year_unique:
  "0 \<le> m \<Longrightarrow> m \<le> 11 \<Longrightarrow> month_start l m \<le> d \<Longrightarrow> d < month_start l (m + 1) \<Longrightarrow> month_in_year l d = m"
proof -
  assume m: "0 \<le> m" "m \<le> 11" and d: "month_start l m \<le> d" "d < month_start l (m + 1)"
  have "m = 0 \<or> m = 1 \<or> m = 2 \<or> m = 3 \<or> m = 4 \<or> m = 5 \<or> m = 6 \<or> m = 7 \<or> m = 8 \<or> m = 9
      \<or> m = 10 \<or> m = 11"
    using m by presburger
  then show ?thesis using d
    by (cases l; elim disjE; simp add: month_in_year_def month_start_def)
qed

lemma month_start_range:
  "0 \<le> m \<Longrightarrow> m \<le> 11 \<Longrightarrow> 0 \<le> month_start l m \<and> month_start l (m + 1) \<le> (if l then 366 else 365)"
  unfolding month_start_def Let_def by simp

lemma make_day_in_range:
  assumes "0 \<le> m" "m \<le> 11"
  shows "make_day y m d = day_from_year y + month_start (is_leap_year y) m + d - 1"
proof -
  have "m div 12 = 0" "m mod 12 = m" using assms by auto
  then show ?thesis by (simp add: make_day_def)
qed

lemma made_fields:
  assumes m: "0 \<le> m" "m \<le> 11"
    and d: "1 \<le> d" "d \<le> days_of_month (is_leap_year y) m"
    and tod: "0 \<le> tod" "tod < msPerDay"
    and t: "t = make_date (make_day y m d) tod"
  shows "utc_year t = y" "utc_month t = m" "utc_date t = d" "time_within_day t = tod"
proof -
  have day: "day_of t = make_day y m d" and tod': "time_within_day t = tod"
    using tod by (simp_all add: t make_date_def day_of_def time_within_day_def msPerDay_def)
  note md = make_day_in_range [OF m, of y d]
  have "day_from_year y \<le> make_day y m d" "make_day y m d < day_from_year (y + 1)"
    using month_start_range [OF m, of "is_leap_year y"] d
    unfolding md day_from_year_Suc days_of_month_def by (auto split: if_splits)
  then have y: "utc_year t = y"
    unfolding utc_year_def day by (rule year_from_day_unique)
  have mo: "utc_month t = m"
    using d month_in_year_unique [OF m, of "is_leap_year y"]
    by (simp add: utc_month_def day_in_year_def y day md days_of_month_def)
  show "utc_year t = y" "utc_month t = m" "utc_date t = d" "time_within_day t = tod"
    using y mo tod' by (simp_all add: utc_date_def day_in_year_def day md)
qed

end
