(* ===== verification/Moment_Utc.thy ===== *)
theory Moment_Utc
  imports Js_String Js_Date
begin

text \<open>
  The part of moment.js (\<open>htrace-webapp/src/main/web/lib/moment-2.10.3.js\<close>) that the viewer
  uses: \<open>moment.utc\<close> of a number, strict parsing with a format (\<open>configFromStringAndFormat\<close>,
  \<open>configFromArray\<close>, \<open>checkOverflow\<close>, \<open>isValid\<close>) and formatting (\<open>makeFormatFunction\<close>), on
  formats without brackets and backslashes, made of the tokens \<open>YYYY MM DD HH mm ss SSS\<close> and
  of characters that are no token. A moment is its time value; \<open>None\<close> is an invalid moment.
\<close>

type_synonym moment = "int option"

section \<open>Formatting\<close>

function zero_pad :: "nat \<Rightarrow> string \<Rightarrow> string" where
  "zero_pad n s = (if length s < n then zero_pad n (CHR ''0'' # s) else s)"
  by pat_completeness auto
termination
  by (relation "measure (\<lambda>(n, s). n - length s)") auto

declare zero_pad.simps [simp del]

definition zeroFill :: "int \<Rightarrow> nat \<Rightarrow> string" where
  "zeroFill number targetLength =
     (let output = zero_pad targetLength (nat_string (nat \<bar>number\<bar>))
      in if 0 \<le> number then output else CHR ''-'' # output)"

text \<open>The alternatives of the regular expression \<open>formattingTokens\<close>, in its order.\<close>

definition formatting_tokens :: "string list" where
  "formatting_tokens =
     [''Mo'', ''MMMM'', ''MMM'', ''MM'', ''M'', ''Do'', ''DDDo'', ''DDDD'', ''DDD'', ''DD'', ''D'',
      ''dddd'', ''ddd'', ''dd'', ''do'', ''d'', ''wo'', ''w|'', ''ww'', ''w'',
      ''Wo'', ''W|'', ''WW'', ''W'', ''Q'', ''YYYYYY'', ''YYYYY'', ''YYYY'', ''YY'',
      ''ggggg'', ''gggg'', ''gg'', ''GGGGG'', ''GGGG'', ''GG'', ''e'', ''E'', ''a'', ''A'',
      ''hh'', ''h'', ''HH'', ''H'', ''mm'', ''m'', ''ss'', ''s'', ''SSSS'', ''SSS'', ''SS'', ''S'',
      ''x'', ''X'', ''zz'', ''z'', ''ZZ'', ''Z'']"

fun tokenize :: "string \<Rightarrow> string list" where
  "tokenize [] = []"
| "tokenize (c # cs) =
     (case find (\<lambda>a. starts_with a (c # cs)) formatting_tokens of
        Some a \<Rightarrow> a # tokenize (drop (length a - 1) cs)
      | None \<Rightarrow> [c] # tokenize cs)"

definition format_token :: "string \<Rightarrow> (int \<Rightarrow> string) option" where
  "format_token tok =
     (if tok = ''YYYY'' then Some (\<lambda>t. zeroFill (utc_year t) 4)
      else if tok = ''MM'' then Some (\<lambda>t. zeroFill (utc_month t + 1) 2)
      else if tok = ''DD'' then Some (\<lambda>t. zeroFill (utc_date t) 2)
      else if tok = ''HH'' then Some (\<lambda>t. zeroFill (utc_hours t) 2)
      else if tok = ''mm'' then Some (\<lambda>t. zeroFill (utc_minutes t) 2)
      else if tok = ''ss'' then Some (\<lambda>t. zeroFill (utc_seconds t) 2)
      else if tok = ''SSS'' then Some (\<lambda>t. zeroFill (utc_milliseconds t) 3)
      else None)"

definition make_format :: "string \<Rightarrow> int \<Rightarrow> string" where
  "make_format fmt t =
     concat (map (\<lambda>tok. case format_token tok of Some f \<Rightarrow> f t | None \<Rightarrow> tok) (tokenize fmt))"

definition format_moment :: "moment \<Rightarrow> string \<Rightarrow> string" where
  "format_moment m fmt = (case m of None \<Rightarrow> ''Invalid date'' | Some t \<Rightarrow> make_format fmt t)"

section \<open>moment.utc of a number\<close>

text \<open>\<open>now\<close> is the clock, read when the argument is \<open>undefined\<close>.\<close>

fun moment_utc :: "int \<Rightarrow> jsnum \<Rightarrow> moment" where
  "moment_utc now (Num r) = time_clip (rat_trunc r)"
| "moment_utc now Undef = Some now"
| "moment_utc now _ = None"

definition value_of :: "moment \<Rightarrow> jsnum" where
  "value_of m = (case m of None \<Rightarrow> NaN | Some t \<Rightarrow> Num (of_int t))"

section \<open>Strict parsing\<close>

text \<open>
  \<open>string.match(regex)\<close> is not anchored: it finds the leftmost match and gives the text before
  it, the match and the rest.
\<close>

fun find_digits :: "nat \<Rightarrow> string \<Rightarrow> (string \<times> string \<times> string) option" where
  "find_digits n [] = None"
| "find_digits n (c # cs) =
     (if n \<le> length (c # cs) \<and> all_digits (take n (c # cs))
      then Some ([], take n (c # cs), drop n (c # cs))
      else map_option (\<lambda>(k, m, r). (c # k, m, r)) (find_digits n cs))"

fun find_text :: "string \<Rightarrow> string \<Rightarrow> (string \<times> string \<times> string) option" where
  "find_text p [] = None"
| "find_text p (c # cs) =
     (if starts_with p (c # cs) then Some ([], p, drop (length p) (c # cs))
      else map_option (\<lambda>(k, m, r). (c # k, m, r)) (find_text p cs))"

text \<open>\<open>getParseRegexForToken\<close> with \<open>_strict\<close> set: \<open>match4\<close>, \<open>match2\<close>, \<open>match3\<close>, or the text.\<close>

definition match_token :: "string \<Rightarrow> string \<Rightarrow> (string \<times> string \<times> string) option" where
  "match_token tok s =
     (if tok = ''YYYY'' then find_digits 4 s
      else if tok = ''SSS'' then find_digits 3 s
      else if tok \<in> {''MM'', ''DD'', ''HH'', ''mm'', ''ss''} then find_digits 2 s
      else find_text tok s)"

text \<open>
  The slot of the array \<open>_a\<close> that a token fills, and with what. For three digits the code's
  \<open>toInt(('0.' + input) * 1000)\<close> is the number they write (all 1000 cases, in doubles too).
\<close>

definition parse_slot :: "string \<Rightarrow> (nat \<times> (string \<Rightarrow> int)) option" where
  "parse_slot tok =
     (if tok = ''YYYY'' then Some (0, \<lambda>inp. int (digits_val inp))
      else if tok = ''MM'' then Some (1, \<lambda>inp. int (digits_val inp) - 1)
      else if tok = ''DD'' then Some (2, \<lambda>inp. int (digits_val inp))
      else if tok = ''HH'' then Some (3, \<lambda>inp. int (digits_val inp))
      else if tok = ''mm'' then Some (4, \<lambda>inp. int (digits_val inp))
      else if tok = ''ss'' then Some (5, \<lambda>inp. int (digits_val inp))
      else if tok = ''SSS'' then Some (6, \<lambda>inp. int (digits_val inp))
      else None)"

record parse_config =
  pc_string :: string              \<comment> \<open>what is left of the input\<close>
  pc_parsed :: nat                 \<comment> \<open>\<open>totalParsedInputLength\<close>\<close>
  pc_unused :: nat                 \<comment> \<open>length of \<open>unusedTokens\<close>\<close>
  pc_empty :: bool
  pc_a :: "int option list"

definition parse_step :: "parse_config \<Rightarrow> string \<Rightarrow> parse_config" where
  "parse_step c tok =
     (case match_token tok (pc_string c) of
        Some (skipped, inp, rest) \<Rightarrow>
          (let c' = c\<lparr>pc_string := rest, pc_parsed := pc_parsed c + length inp\<rparr>
           in case parse_slot tok of
                Some (i, conv) \<Rightarrow>
                  c'\<lparr>pc_empty := False, pc_a := (pc_a c')[i := Some (conv inp)]\<rparr>
              | None \<Rightarrow> c')
      | None \<Rightarrow> c\<lparr>pc_unused := Suc (pc_unused c)\<rparr>)"

definition parse_tokens :: "string \<Rightarrow> string list \<Rightarrow> parse_config" where
  "parse_tokens inp toks =
     foldl parse_step
       \<lparr>pc_string = inp, pc_parsed = 0, pc_unused = 0, pc_empty = True, pc_a = replicate 7 None\<rparr>
       toks"

text \<open>Defaults of \<open>configFromArray\<close>: the current date for a leading gap, else the lowest value.\<close>

definition fill_array :: "int \<Rightarrow> int option list \<Rightarrow> int list" where
  "fill_array now a =
     (let cur = [utc_year now, utc_month now, utc_date now];
          n = length (takeWhile (\<lambda>x. x = None) (take 3 a))
      in map (\<lambda>i. if i < n then cur ! i
                  else case a ! i of Some v \<Rightarrow> v | None \<Rightarrow> (if i = 2 then 1 else 0)) [0..<7])"

text \<open>\<open>setUTCFullYear\<close> on an invalid date starts from time 0.\<close>

definition createUTCDate :: "int \<Rightarrow> int \<Rightarrow> int \<Rightarrow> int \<Rightarrow> int \<Rightarrow> int \<Rightarrow> int \<Rightarrow> moment" where
  "createUTCDate y m d h mi s ms =
     (let date = date_utc y m d h mi s ms
      in if y < 1970
         then set_utc_full_year (case date of Some t \<Rightarrow> t | None \<Rightarrow> 0) y
         else date)"

definition daysInMonth :: "int \<Rightarrow> int \<Rightarrow> int option" where
  "daysInMonth y m = map_option utc_date (date_utc y (m + 1) 0 0 0 0 0)"

definition checkOverflow :: "int list \<Rightarrow> int" where
  "checkOverflow a =
     (let y = a ! 0; mo = a ! 1; d = a ! 2; h = a ! 3; mi = a ! 4; s = a ! 5; ms = a ! 6
      in if mo < 0 \<or> 11 < mo then 1
         else if d < 1 \<or> (case daysInMonth y mo of Some n \<Rightarrow> n < d | None \<Rightarrow> False) then 2
         else if h < 0 \<or> 24 < h \<or> (h = 24 \<and> (mi \<noteq> 0 \<or> s \<noteq> 0 \<or> ms \<noteq> 0)) then 3
         else if mi < 0 \<or> 59 < mi then 4
         else if s < 0 \<or> 59 < s then 5
         else if ms < 0 \<or> 999 < ms then 6
         else -1)"

text \<open>\<open>moment.utc(val, fmt, true)\<close>; an invalid moment is \<open>None\<close>.\<close>

definition moment_utc_strict :: "int \<Rightarrow> string \<Rightarrow> string \<Rightarrow> moment" where
  "moment_utc_strict now val fmt =
     (let c = parse_tokens val (tokenize fmt);
          a = fill_array now (pc_a c);
          date = createUTCDate (a ! 0) (a ! 1) (a ! 2) (a ! 3) (a ! 4) (a ! 5) (a ! 6);
          charsLeftOver = int (length val) - int (pc_parsed c)
      in if date \<noteq> None \<and> checkOverflow a < 0 \<and> \<not> pc_empty c
            \<and> charsLeftOver = 0 \<and> pc_unused c = 0
         then date else None)"

section \<open>Laws of the printer\<close>

lemma zero_pad_props:
  assumes "all_digits s"
  shows "all_digits (zero_pad n s) \<and> length (zero_pad n s) = max n (length s)
       \<and> digits_val (zero_pad n s) = digits_val s"
  using assms
proof (induction n s rule: zero_pad.induct)
  case (1 n s)
  show ?case
  proof (cases "length s < n")
    case True
    with 1 have "all_digits (zero_pad n (CHR ''0'' # s)) \<and>
        length (zero_pad n (CHR ''0'' # s)) = max n (length (CHR ''0'' # s)) \<and>
        digits_val (zero_pad n (CHR ''0'' # s)) = digits_val (CHR ''0'' # s)"
      by (simp add: is_digit_def code_def)
    with True show ?thesis
      by (subst zero_pad.simps, subst zero_pad.simps, subst zero_pad.simps)
        (simp add: digits_val_zero_Cons)
  next
    case False
    with 1 show ?thesis
      by (subst zero_pad.simps, subst zero_pad.simps, subst zero_pad.simps) simp
  qed
qed

lemma zeroFill_props:
  assumes "0 \<le> n" "n < 10 ^ k" "0 < k"
  shows "all_digits (zeroFill n k)" "length (zeroFill n k) = k" "int (digits_val (zeroFill n k)) = n"
proof -
  have "nat n < 10 ^ k" using assms by (simp add: nat_less_iff)
  then have "length (nat_string (nat n)) \<le> k" using assms(3) by (rule length_nat_string_le)
  then show "all_digits (zeroFill n k)" "length (zeroFill n k) = k" "int (digits_val (zeroFill n k)) = n"
    using assms zero_pad_props [OF all_digits_nat_string, of k "nat n"]
    by (simp_all add: zeroFill_def Let_def)
qed

section \<open>Laws of the parser\<close>

lemma find_digits_here [js_str]:
  assumes "all_digits ds" "length ds = n" "0 < n"
  shows "find_digits n (ds @ rest) = Some ([], ds, rest)"
proof -
  obtain c cs where ds: "ds = c # cs" using assms by (cases ds) auto
  have "take n (ds @ rest) = ds" "drop n (ds @ rest) = rest" using assms by auto
  with assms ds show ?thesis by auto
qed

lemma find_text_here [js_str]: "p \<noteq> [] \<Longrightarrow> find_text p (p @ rest) = Some ([], p, rest)"
proof -
  assume "p \<noteq> []"
  then obtain c cs where p: "p = c # cs" by (cases p) auto
  have "starts_with p (p @ rest)" by (auto simp: starts_with_iff)
  with p show ?thesis by auto
qed

text \<open>Whatever is matched is in the input, so skipped characters are never counted as parsed.\<close>

lemma find_digits_SomeD:
  "find_digits n s = Some (k, m, r) \<Longrightarrow> s = k @ m @ r \<and> length m = n \<and> all_digits m"
proof (induction s arbitrary: k m r)
  case Nil
  then show ?case by simp
next
  case (Cons c cs)
  show ?case
  proof (cases "n \<le> length (c # cs) \<and> all_digits (take n (c # cs))")
    case True
    then have "find_digits n (c # cs) = Some ([], take n (c # cs), drop n (c # cs))" by simp
    with Cons.prems have "k = []" "m = take n (c # cs)" "r = drop n (c # cs)"
      by (simp_all del: find_digits.simps)
    with True show ?thesis by (auto simp del: take_Suc_Cons)
  next
    case False
    then have "find_digits n (c # cs) = map_option (\<lambda>(k, m, r). (c # k, m, r)) (find_digits n cs)"
      by (simp only: find_digits.simps if_False)
    with Cons.prems obtain k' where "find_digits n cs = Some (k', m, r)" "k = c # k'"
      by (auto simp del: find_digits.simps)
    with Cons.IH show ?thesis by simp
  qed
qed

lemma find_text_SomeD: "find_text p s = Some (k, m, r) \<Longrightarrow> s = k @ m @ r \<and> m = p"
proof (induction s arbitrary: k m r)
  case Nil
  then show ?case by simp
next
  case (Cons c cs)
  show ?case
  proof (cases "starts_with p (c # cs)")
    case True
    then obtain r' where r': "c # cs = p @ r'" by (auto simp: starts_with_iff)
    from True Cons.prems have "k = []" "m = p" "r = drop (length p) (c # cs)" by auto
    with r' show ?thesis by simp
  next
    case False
    with Cons.prems obtain k' where "find_text p cs = Some (k', m, r)" "k = c # k'"
      by auto
    with Cons.IH show ?thesis by simp
  qed
qed

lemma match_token_SomeD: "match_token tok s = Some (k, m, r) \<Longrightarrow> s = k @ m @ r"
  by (auto simp: match_token_def split: if_splits dest: find_digits_SomeD find_text_SomeD)

lemma parse_step_account:
  "pc_parsed (parse_step c tok) + length (pc_string (parse_step c tok))
     \<le> pc_parsed c + length (pc_string c)"
  by (auto simp: parse_step_def Let_def split: option.splits prod.splits dest!: match_token_SomeD)

section \<open>Calendar facts for the parser\<close>

definition utc_base_year :: "int \<Rightarrow> int" where
  "utc_base_year y = (if 0 \<le> y \<and> y \<le> 99 then 1900 + y else y)"

lemma leap_base_year: "1 \<le> y \<Longrightarrow> is_leap_year (utc_base_year y) = is_leap_year y"
proof (cases "y \<le> 99")
  case True
  assume "1 \<le> y"
  have "(1900 + y) mod 4 = y mod 4" using mod_mult_self1 [of y 475 4] by (simp add: add.commute)
  moreover have "(1900 + y) mod 100 = y mod 100"
    using mod_mult_self1 [of y 19 100] by (simp add: add.commute)
  moreover have "(1900 + y) mod 400 = 300 + y" "y mod 400 = y" "y mod 100 = y"
    using True \<open>1 \<le> y\<close> by (auto intro: int_mod_pos_eq [where q = 4])
  ultimately show ?thesis
    using True \<open>1 \<le> y\<close> by (simp add: utc_base_year_def is_leap_year_def)
next
  case False
  then show ?thesis by (simp add: utc_base_year_def)
qed

lemma day_from_year_bounds:
  assumes "0 \<le> y" "y \<le> 10000"
  shows "- 719528 \<le> day_from_year y" "day_from_year y \<le> 2932897"
proof -
  have "day_from_year 0 \<le> day_from_year y" "day_from_year y \<le> day_from_year 10000"
    using assms by (auto intro: day_from_year_mono)
  moreover have "day_from_year 0 = - 719528" "day_from_year 10000 = 2932897"
    by (simp_all add: day_from_year_def)
  ultimately show "- 719528 \<le> day_from_year y" "day_from_year y \<le> 2932897" by simp_all
qed

lemma month_start_bounds: "0 \<le> month_start l m \<and> month_start l m \<le> 366"
  by (simp add: month_start_def Let_def)

lemma make_date_clip:
  assumes "0 \<le> y" "y \<le> 9999" "0 \<le> m" "m \<le> 11" "0 \<le> d" "d \<le> 31" "0 \<le> tod" "tod \<le> msPerDay"
  shows "time_clip (make_date (make_day y m d) tod) = Some (make_date (make_day y m d) tod)"
proof -
  have md: "make_day y m d = day_from_year y + month_start (is_leap_year y) m + d - 1"
    using assms by (simp add: make_day_in_range)
  have "- 719528 \<le> day_from_year y" "day_from_year y \<le> 2932897"
    using assms by (auto intro!: day_from_year_bounds)
  then have "\<bar>make_day y m d\<bar> \<le> 3000000"
    using month_start_bounds [of "is_leap_year y" m] assms unfolding md by auto
  then have "\<bar>make_day y m d * 86400000\<bar> \<le> 259200000000000"
    by (simp add: abs_mult)
  then have "\<bar>make_day y m d * 86400000 + tod\<bar> \<le> 8640000000000000"
    using assms by (simp add: msPerDay_def)
  then show ?thesis
    by (simp add: time_clip_def maxTime_def make_date_def msPerDay_def)
qed

lemma days_of_month_bounds: "0 \<le> m \<Longrightarrow> m \<le> 11 \<Longrightarrow> 28 \<le> days_of_month l m \<and> days_of_month l m \<le> 31"
proof -
  assume "0 \<le> m" "m \<le> 11"
  then have "m = 0 \<or> m = 1 \<or> m = 2 \<or> m = 3 \<or> m = 4 \<or> m = 5 \<or> m = 6 \<or> m = 7 \<or> m = 8 \<or> m = 9
      \<or> m = 10 \<or> m = 11"
    by presburger
  then show ?thesis
    by (cases l; elim disjE; simp add: days_of_month_def month_start_def)
qed

lemma make_day_next_month:
  assumes "0 \<le> m" "m \<le> 11"
  shows "make_day y (m + 1) 0 = make_day y m (days_of_month (is_leap_year y) m)"
proof (cases "m = 11")
  case True
  then show ?thesis
    by (simp add: make_day_def days_of_month_def month_start_def day_from_year_Suc)
next
  case False
  with assms show ?thesis
    by (simp add: make_day_in_range days_of_month_def)
qed

lemma daysInMonth_eq:
  assumes y: "0 \<le> y" "y \<le> 9999" and m: "0 \<le> m" "m \<le> 11"
  shows "daysInMonth y m = Some (days_of_month (is_leap_year (utc_base_year y)) m)"
proof -
  let ?b = "utc_base_year y" and ?n = "days_of_month (is_leap_year (utc_base_year y)) m"
  have n: "28 \<le> ?n" "?n \<le> 31" using days_of_month_bounds [OF m] by auto
  have b: "0 \<le> ?b" "?b \<le> 9999" using y by (auto simp: utc_base_year_def)
  have "date_utc y (m + 1) 0 0 0 0 0 = time_clip (make_date (make_day ?b m ?n) 0)"
    using make_day_next_month [OF m, of ?b]
    by (simp add: date_utc_def utc_base_year_def make_time_def)
  also have "\<dots> = Some (make_date (make_day ?b m ?n) 0)"
    using b m n by (intro make_date_clip) (auto simp: msPerDay_def)
  finally have "date_utc y (m + 1) 0 0 0 0 0 = Some (make_date (make_day ?b m ?n) 0)" .
  moreover have "utc_date (make_date (make_day ?b m ?n) 0) = ?n"
    using n m by (intro made_fields(3) [of m ?n ?b 0]) (auto simp: msPerDay_def)
  ultimately show ?thesis by (simp add: daysInMonth_def)
qed

text \<open>The date that \<open>createUTCDate\<close> builds, for the years 1 to 9999.\<close>

lemma createUTCDate_eq:
  assumes y: "1 \<le> y" "y \<le> 9999" and m: "0 \<le> m" "m \<le> 11"
    and d: "1 \<le> d" "d \<le> days_of_month (is_leap_year y) m"
    and tod: "0 \<le> make_time h mi s ms" "make_time h mi s ms < msPerDay"
  shows "createUTCDate y m d h mi s ms = Some (make_date (make_day y m d) (make_time h mi s ms))"
proof -
  let ?b = "utc_base_year y" and ?tod = "make_time h mi s ms"
  let ?t = "make_date (make_day ?b m d) ?tod"
  have d31: "d \<le> 31" using d days_of_month_bounds [OF m] by (meson order.trans)
  have b: "0 \<le> ?b" "?b \<le> 9999" using y by (auto simp: utc_base_year_def)
  have lb: "is_leap_year ?b = is_leap_year y" using y by (simp add: leap_base_year)
  have utc: "date_utc y m d h mi s ms = Some ?t"
    using make_date_clip [of ?b m d ?tod] b m d d31 tod
    by (simp add: date_utc_def utc_base_year_def Let_def)
  show ?thesis
  proof (cases "y < 1970")
    case True
    have "utc_month ?t = m" "utc_date ?t = d" "time_within_day ?t = ?tod"
      using made_fields [OF m d(1) _ tod, of ?b] d lb by auto
    then have "set_utc_full_year ?t y = time_clip (make_date (make_day y m d) ?tod)"
      by (simp add: set_utc_full_year_def)
    also have "\<dots> = Some (make_date (make_day y m d) ?tod)"
      using y m d d31 tod by (intro make_date_clip) auto
    finally show ?thesis using True utc by (simp add: createUTCDate_def)
  next
    case False
    then have "?b = y" by (simp add: utc_base_year_def)
    with False utc show ?thesis by (simp add: createUTCDate_def)
  qed
qed

end
