(* ===== verification/Htrace_String.thy ===== *)
theory Htrace_String
  imports Moment_Utc
begin

text \<open>
  \<open>htrace-webapp/src/main/web/app/string.js\<close>: dates typed by the user, dates shown to the user,
  and span ids. A thrown string is the left of a sum.
\<close>

definition date_formats :: "string list" where
  "date_formats =
     [''YYYY-MM-DDTHH:mm:ss,SSS'', ''YYYY-MM-DDTHH:mm:ss'', ''YYYY-MM-DDTHH:mm'', ''YYYY-MM-DD'']"

text \<open>The regular expression \<open>/^[0-9]([0-9]*)$/\<close>.\<close>

definition is_whole_number :: "string \<Rightarrow> bool" where
  "is_whole_number val = (val \<noteq> [] \<and> all_digits val)"

fun try_formats :: "int \<Rightarrow> string \<Rightarrow> string list \<Rightarrow> string + moment" where
  "try_formats now val [] =
     Inl (''Please enter the date either as YYYY-MM-DDTHH:mm:ss,SSS '' @
          ''in UTC, or as the number of milliseconds since the epoch.'')"
| "try_formats now val (fmt # fmts) =
     (let m = moment_utc_strict now val fmt
      in if m \<noteq> None then Inr m else try_formats now val fmts)"

definition parseDate :: "int \<Rightarrow> string \<Rightarrow> string + moment" where
  "parseDate now val =
     (if is_whole_number val then Inr (moment_utc now (parse_int val))
      else try_formats now val date_formats)"

definition dateToString :: "int \<Rightarrow> jsnum \<Rightarrow> string" where
  "dateToString now val = format_moment (moment_utc now val) ''YYYY-MM-DDTHH:mm:ss,SSS''"

definition normalizeSpanId :: "string \<Rightarrow> string + string" where
  "normalizeSpanId str0 =
     (let str = (if starts_with ''0x'' str0 then drop 2 str0 else str0)
      in if length str \<noteq> 16
         then Inl (''The length of '' @ [CHR 0x27] @ str @ [CHR 0x27] @ '' was '' @ nat_string (length str) @
                   '', but span IDs must be 16 characters long.'')
         else if list_ex (\<lambda>c. \<not> is_hex_digit c) str
         then Inl (''Span IDs must contain only hexadecimal digits, but '' @ [CHR 0x27] @ str @ [CHR 0x27] @
                   '' contained invalid characters.'')
         else Inr str)"

section \<open>Span ids\<close>

lemma hex_digit_not_x: "is_hex_digit c \<Longrightarrow> c \<noteq> CHR ''x''"
  by (auto simp: is_hex_digit_def is_digit_def code_def)

definition wf_span_id :: "string \<Rightarrow> bool" where
  "wf_span_id s = (length s = 16 \<and> list_all is_hex_digit s)"

lemma wf_span_id_no_prefix: "wf_span_id s \<Longrightarrow> \<not> starts_with ''0x'' s"
  by (auto simp: wf_span_id_def starts_with_iff dest: hex_digit_not_x)

lemma normalizeSpanId_Inr_iff:
  "normalizeSpanId s = Inr r \<longleftrightarrow> wf_span_id r \<and> (s = r \<or> s = ''0x'' @ r)"
proof
  assume "normalizeSpanId s = Inr r"
  then have "r = (if starts_with ''0x'' s then drop 2 s else s)" "wf_span_id r"
    by (auto simp: normalizeSpanId_def Let_def wf_span_id_def list_ex_iff list_all_iff split: if_splits)
  then show "wf_span_id r \<and> (s = r \<or> s = ''0x'' @ r)"
    by (auto simp: starts_with_iff)
next
  assume r: "wf_span_id r \<and> (s = r \<or> s = ''0x'' @ r)"
  then have "(if starts_with ''0x'' s then drop 2 s else s) = r"
    using wf_span_id_no_prefix [of r] by (auto simp: starts_with_iff)
  then show "normalizeSpanId s = Inr r"
    using r by (simp add: normalizeSpanId_def Let_def wf_span_id_def list_ex_iff list_all_iff)
qed

section \<open>Numeric dates\<close>

lemma parseDate_digits:
  assumes "is_whole_number s"
  shows "parseDate now s = Inr (time_clip (int (digits_val s)))"
  using assms
  by (simp add: parseDate_def is_whole_number_def parse_int_digits rat_trunc_def)

lemma time_clip_SomeD: "time_clip a = Some t \<Longrightarrow> t = a \<and> \<bar>t\<bar> \<le> maxTime"
  by (auto simp: time_clip_def split: if_splits)

section \<open>Dates as text\<close>

lemma tokenize_full:
  "tokenize ''YYYY-MM-DDTHH:mm:ss,SSS'' =
     [''YYYY'', ''-'', ''MM'', ''-'', ''DD'', ''T'', ''HH'', '':'', ''mm'', '':'', ''ss'', '','', ''SSS'']"
  by code_simp

declare tokenize.simps [simp del]

lemma format_tokens:
  "format_token ''YYYY'' = Some (\<lambda>t. zeroFill (utc_year t) 4)"
  "format_token ''MM'' = Some (\<lambda>t. zeroFill (utc_month t + 1) 2)"
  "format_token ''DD'' = Some (\<lambda>t. zeroFill (utc_date t) 2)"
  "format_token ''HH'' = Some (\<lambda>t. zeroFill (utc_hours t) 2)"
  "format_token ''mm'' = Some (\<lambda>t. zeroFill (utc_minutes t) 2)"
  "format_token ''ss'' = Some (\<lambda>t. zeroFill (utc_seconds t) 2)"
  "format_token ''SSS'' = Some (\<lambda>t. zeroFill (utc_milliseconds t) 3)"
  "format_token ''-'' = None" "format_token ''T'' = None"
  "format_token '':'' = None" "format_token '','' = None"
  by (simp_all add: format_token_def)

definition date_text :: "int \<Rightarrow> string" where
  "date_text t =
     zeroFill (utc_year t) 4 @ ''-'' @ zeroFill (utc_month t + 1) 2 @ ''-'' @ zeroFill (utc_date t) 2 @ ''T'' @
     zeroFill (utc_hours t) 2 @ '':'' @ zeroFill (utc_minutes t) 2 @ '':'' @ zeroFill (utc_seconds t) 2 @ '','' @
     zeroFill (utc_milliseconds t) 3"

lemma make_format_full: "make_format ''YYYY-MM-DDTHH:mm:ss,SSS'' t = date_text t"
  unfolding make_format_def tokenize_full date_text_def by (simp only: list.map format_tokens option.case concat.simps append_Nil2)

lemma dateToString_Num:
  "dateToString now (Num r) =
     (case time_clip (rat_trunc r) of Some t \<Rightarrow> date_text t | None \<Rightarrow> ''Invalid date'')"
  by (simp add: dateToString_def format_moment_def make_format_full split: option.split)

text \<open>One token at the front of the input: a field of the right width, or a separator.\<close>

abbreviation pconf :: "string \<Rightarrow> nat \<Rightarrow> nat \<Rightarrow> bool \<Rightarrow> int option list \<Rightarrow> parse_config" where
  "pconf s p u e a \<equiv> \<lparr>pc_string = s, pc_parsed = p, pc_unused = u, pc_empty = e, pc_a = a\<rparr>"

lemma parse_step_number:
  assumes "parse_slot tok = Some (i, conv)"
    and "\<And>s. match_token tok s = find_digits n s"
    and "all_digits ds" "length ds = n" "0 < n"
  shows "parse_step (pconf (ds @ rest) p u e a) tok = pconf rest (p + n) u False (a[i := Some (conv ds)])"
  using assms by (simp add: parse_step_def Let_def find_digits_here)

lemma parse_slots:
  "parse_slot ''YYYY'' = Some (0, \<lambda>inp. int (digits_val inp))"
  "parse_slot ''MM'' = Some (1, \<lambda>inp. int (digits_val inp) - 1)"
  "parse_slot ''DD'' = Some (2, \<lambda>inp. int (digits_val inp))"
  "parse_slot ''HH'' = Some (3, \<lambda>inp. int (digits_val inp))"
  "parse_slot ''mm'' = Some (4, \<lambda>inp. int (digits_val inp))"
  "parse_slot ''ss'' = Some (5, \<lambda>inp. int (digits_val inp))"
  "parse_slot ''SSS'' = Some (6, \<lambda>inp. int (digits_val inp))"
  by (simp_all add: parse_slot_def)

lemma match_tokens:
  "match_token ''YYYY'' s = find_digits 4 s"
  "match_token ''MM'' s = find_digits 2 s"
  "match_token ''DD'' s = find_digits 2 s"
  "match_token ''HH'' s = find_digits 2 s"
  "match_token ''mm'' s = find_digits 2 s"
  "match_token ''ss'' s = find_digits 2 s"
  "match_token ''SSS'' s = find_digits 3 s"
  by (simp_all add: match_token_def)

lemmas parse_numbers =
  parse_step_number [OF parse_slots(1) match_tokens(1), simplified]
  parse_step_number [OF parse_slots(2) match_tokens(2), simplified]
  parse_step_number [OF parse_slots(3) match_tokens(3), simplified]
  parse_step_number [OF parse_slots(4) match_tokens(4), simplified]
  parse_step_number [OF parse_slots(5) match_tokens(5), simplified]
  parse_step_number [OF parse_slots(6) match_tokens(6), simplified]
  parse_step_number [OF parse_slots(7) match_tokens(7), simplified]
  parse_step_number [OF parse_slots(7) match_tokens(7), of _ "[]", simplified]

lemma parse_step_sep:
  assumes "sep \<in> set ''-T:,''"
  shows "parse_step (pconf (sep # rest) p u e a) [sep] = pconf rest (p + 1) u e a"
proof -
  have "match_token [sep] (sep # rest) = Some ([], [sep], rest)"
    using assms find_text_here [of "[sep]" rest] by (auto simp: match_token_def)
  moreover have "parse_slot [sep] = None"
    using assms by (auto simp: parse_slot_def)
  ultimately show ?thesis by (simp add: parse_step_def Let_def)
qed

lemmas parse_seps =
  parse_step_sep [of "CHR ''-''", simplified] parse_step_sep [of "CHR ''T''", simplified]
  parse_step_sep [of "CHR '':''", simplified] parse_step_sep [of "CHR '',''", simplified]

text \<open>The parser on a text with all seven fields.\<close>

lemma parse_tokens_full:
  assumes "all_digits y" "length y = 4" "all_digits mo" "length mo = 2" "all_digits d" "length d = 2"
    "all_digits h" "length h = 2" "all_digits mi" "length mi = 2" "all_digits s" "length s = 2"
    "all_digits ms" "length ms = 3"
  shows "parse_tokens (y @ ''-'' @ mo @ ''-'' @ d @ ''T'' @ h @ '':'' @ mi @ '':'' @ s @ '','' @ ms)
      (tokenize ''YYYY-MM-DDTHH:mm:ss,SSS'') =
    pconf [] 23 0 False
      [Some (int (digits_val y)), Some (int (digits_val mo) - 1), Some (int (digits_val d)),
       Some (int (digits_val h)), Some (int (digits_val mi)), Some (int (digits_val s)),
       Some (int (digits_val ms))]"
proof -
  have r7: "replicate 7 (None :: int option) = [None, None, None, None, None, None, None]"
    by (simp add: numeral_eq_Suc)
  show ?thesis
    unfolding tokenize_full parse_tokens_def r7
    using assms by (simp add: parse_numbers parse_seps)
qed

text \<open>The range of times whose year has four digits and is not the year 0.\<close>

lemma utc_year_range:
  assumes "- 62135596800000 \<le> t" "t < 253402300800000"
  shows "1 \<le> utc_year t" "utc_year t \<le> 9999"
proof -
  have d: "- 719162 \<le> day_of t" "day_of t < 2932897"
    using assms by (auto simp: day_of_def msPerDay_def)
  have e: "day_from_year 1 = - 719162" "day_from_year 10000 = 2932897"
    by (simp_all add: day_from_year_def)
  have "\<not> utc_year t + 1 \<le> 1"
  proof
    assume "utc_year t + 1 \<le> 1"
    then show False
      using day_from_year_mono [of "utc_year t + 1" 1] year_from_day_bounds(2) [of "day_of t"] d e
      by (simp add: utc_year_def)
  qed
  moreover have "\<not> 10000 \<le> utc_year t"
  proof
    assume "10000 \<le> utc_year t"
    then show False
      using day_from_year_mono [of 10000 "utc_year t"] year_from_day_bounds(1) [of "day_of t"] d e
      by (simp add: utc_year_def)
  qed
  ultimately show "1 \<le> utc_year t" "utc_year t \<le> 9999" by linarith+
qed

lemma checkOverflow_fields:
  assumes "1 \<le> utc_year t" "utc_year t \<le> 9999"
  shows "checkOverflow [utc_year t, utc_month t, utc_date t, utc_hours t, utc_minutes t, utc_seconds t,
    utc_milliseconds t] = -1"
proof -
  have "daysInMonth (utc_year t) (utc_month t) =
      Some (days_of_month (is_leap_year (utc_year t)) (utc_month t))"
    using assms utc_month_bounds [of t] leap_base_year [of "utc_year t"] by (simp add: daysInMonth_eq)
  then show ?thesis
    using utc_month_bounds [of t] utc_date_bounds [of t] utc_time_bounds [of t]
    by (simp add: checkOverflow_def days_of_month_def not_less)
qed

lemma createUTCDate_fields:
  assumes "1 \<le> utc_year t" "utc_year t \<le> 9999"
  shows "createUTCDate (utc_year t) (utc_month t) (utc_date t) (utc_hours t) (utc_minutes t)
    (utc_seconds t) (utc_milliseconds t) = Some t"
proof -
  have "0 \<le> time_within_day t" "time_within_day t < msPerDay"
    by (simp_all add: time_within_day_def msPerDay_def)
  then show ?thesis
    using assms utc_month_bounds [of t] utc_date_bounds [of t] make_date_fields [of t]
    by (subst createUTCDate_eq) (simp_all add: make_time_fields days_of_month_def)
qed

lemma fill_array_full:
  "fill_array now [Some a, Some b, Some c, Some d, Some e, Some f, Some g] = [a, b, c, d, e, f, g]"
  by (simp add: fill_array_def upt_rec numeral_eq_Suc)

lemma moment_utc_strict_date_text:
  assumes "1 \<le> utc_year t" "utc_year t \<le> 9999"
  shows "moment_utc_strict now (date_text t) ''YYYY-MM-DDTHH:mm:ss,SSS'' = Some t"
proof -
  let ?y = "zeroFill (utc_year t) 4" and ?mo = "zeroFill (utc_month t + 1) 2"
    and ?d = "zeroFill (utc_date t) 2" and ?h = "zeroFill (utc_hours t) 2"
    and ?mi = "zeroFill (utc_minutes t) 2" and ?s = "zeroFill (utc_seconds t) 2"
    and ?ms = "zeroFill (utc_milliseconds t) 3"
  have d31: "utc_date t \<le> 31"
    using utc_date_bounds(2) [of t] days_of_month_bounds [OF utc_month_bounds, of "is_leap_year (utc_year t)" t]
    by (simp add: days_of_month_def)
  have z: "all_digits ?y" "length ?y = 4" "int (digits_val ?y) = utc_year t"
    "all_digits ?mo" "length ?mo = 2" "int (digits_val ?mo) = utc_month t + 1"
    "all_digits ?d" "length ?d = 2" "int (digits_val ?d) = utc_date t"
    "all_digits ?h" "length ?h = 2" "int (digits_val ?h) = utc_hours t"
    "all_digits ?mi" "length ?mi = 2" "int (digits_val ?mi) = utc_minutes t"
    "all_digits ?s" "length ?s = 2" "int (digits_val ?s) = utc_seconds t"
    "all_digits ?ms" "length ?ms = 3" "int (digits_val ?ms) = utc_milliseconds t"
    using assms utc_month_bounds [of t] utc_date_bounds(1) [of t] d31 utc_time_bounds [of t]
    by (auto intro!: zeroFill_props)
  have len: "length (date_text t) = 23"
    using z by (simp add: date_text_def)
  have "parse_tokens (date_text t) (tokenize ''YYYY-MM-DDTHH:mm:ss,SSS'') =
    pconf [] 23 0 False [Some (utc_year t), Some (utc_month t), Some (utc_date t), Some (utc_hours t),
       Some (utc_minutes t), Some (utc_seconds t), Some (utc_milliseconds t)]"
    unfolding date_text_def using z by (subst parse_tokens_full) simp_all
  then show ?thesis
    using checkOverflow_fields [OF assms] createUTCDate_fields [OF assms] len
    by (simp add: moment_utc_strict_def fill_array_full Let_def)
qed

lemma date_text_not_whole_number: "\<not> is_whole_number (date_text t)"
  by (simp add: is_whole_number_def date_text_def is_digit_def code_def)

lemma parseDate_date_text:
  assumes "- 62135596800000 \<le> t" "t < 253402300800000"
  shows "parseDate now (date_text t) = Inr (Some t)"
  using moment_utc_strict_date_text [OF utc_year_range [OF assms], of now] date_text_not_whole_number [of t]
  by (simp add: parseDate_def date_formats_def)

interpretation date: codec "\<lambda>t. dateToString now0 (Num (of_int t))"
    "\<lambda>s. case parseDate now s of Inl e \<Rightarrow> Inl e | Inr m \<Rightarrow> (case m of None \<Rightarrow> Inl ''invalid'' | Some t \<Rightarrow> Inr t)"
    "\<lambda>t. - 62135596800000 \<le> t \<and> t < 253402300800000" for now0 now
proof unfold_locales
  fix t :: int
  assume t: "- 62135596800000 \<le> t \<and> t < 253402300800000"
  then have "time_clip t = Some t" by (auto simp: time_clip_def maxTime_def)
  moreover have "rat_trunc (of_int t) = t" by (simp add: rat_trunc_def)
  ultimately show "(case parseDate now (dateToString now0 (Num (of_int t))) of Inl e \<Rightarrow> Inl e
      | Inr m \<Rightarrow> (case m of None \<Rightarrow> Inl ''invalid'' | Some t \<Rightarrow> Inr t)) = Inr t"
    using t parseDate_date_text [of t now] by (simp add: dateToString_Num)
qed

section \<open>Properties\<close>

text \<open>C37: what \<open>dateToString\<close> shows for any time of the years 1 to 9999, \<open>parseDate\<close> reads back
  as that time, cut to whole milliseconds: the two edit fields of the timeline lose nothing.\<close>

theorem parseDate_dateToString:
  assumes "- 62135596800000 \<le> rat_trunc r" "rat_trunc r < 253402300800000"
  shows "parseDate now (dateToString now0 (Num r)) = Inr (Some (rat_trunc r))"
proof -
  have "time_clip (rat_trunc r) = Some (rat_trunc r)"
    using assms by (auto simp: time_clip_def maxTime_def)
  then show ?thesis using parseDate_date_text [OF assms] by (simp add: dateToString_Num)
qed

theorem parseDate_dateToString_witness:
  "parseDate 0 (dateToString 0 (Num (2871000000247 / 2))) = Inr (Some 1435500000123)"
proof -
  have t: "rat_trunc (2871000000247 / 2) = 1435500000123"
    by (simp add: rat_trunc_def floor_unique)
  show ?thesis using parseDate_dateToString [of "2871000000247 / 2" 0 0] by (simp add: t)
qed

text \<open>A text of digits is read as milliseconds since the epoch, exactly; beyond the range of
  dates the moment is invalid, and no error is raised.\<close>

theorem parseDate_number:
  "parseDate now (nat_string n) = Inr (if int n \<le> 8640000000000000 then Some (int n) else None)"
  by (simp add: parseDate_digits is_whole_number_def time_clip_def maxTime_def)

text \<open>Two times of the years 1 to 9999 that are shown alike are the same millisecond.\<close>

theorem dateToString_injective:
  assumes "- 62135596800000 \<le> s" "s < 253402300800000" "- 62135596800000 \<le> t" "t < 253402300800000"
    and "dateToString now (Num (of_int s)) = dateToString now (Num (of_int t))"
  shows "s = t"
  using date.enc_inj [of s t now] assms by blast

theorem dateToString_injective_witness:
  "dateToString 0 (Num (of_int 7)) = dateToString 0 (Num (of_int 7)) \<and> (7::int) = 7"
  using dateToString_injective [of 7 7 0] by simp

text \<open>A span id is accepted exactly when it is 16 hexadecimal digits, with or without the
  prefix \<open>0x\<close>, and the result is those digits; anything else is an error.\<close>

theorem normalizeSpanId_correct:
  "normalizeSpanId s = Inr r \<longleftrightarrow>
     length r = 16 \<and> list_all is_hex_digit r \<and> (s = r \<or> s = ''0x'' @ r)"
  by (simp add: normalizeSpanId_Inr_iff wf_span_id_def)

end
