(* ===== verification/Search_Predicate.thy ===== *)
theory Search_Predicate
  imports Htrace_String
begin

text \<open>
  \<open>htrace-webapp/src/main/web/app/predicate.js\<close>: the predicate types of the search form, how the
  text of a predicate is checked and brought into the form that htraced accepts, and the default
  text of a new predicate.
\<close>

record ptype =
  pt_name :: string
  pt_field :: string
  pt_op :: string

record predicate =
  pr_op :: string
  pr_field :: string
  pr_val :: string

definition checkStringIsPositiveWholeNumber :: "string \<Rightarrow> string + unit" where
  "checkStringIsPositiveWholeNumber val =
     (if \<not> is_whole_number val
      then if \<not> list_ex (\<lambda>c. \<not> is_space c) val
           then Inl ''You entered an empty string into a numeric field.''
           else Inl ''Non-numeric characters found.''
      else Inr ())"

definition checkStringIsNotEmpty :: "string \<Rightarrow> string + unit" where
  "checkStringIsNotEmpty val =
     (if \<not> list_ex (\<lambda>c. \<not> is_space c) val
      then Inl ''You entered an empty string into a text field.''
      else Inr ())"

text \<open>\<open>String(n)\<close> of the number that \<open>valueOf\<close> returns: a whole number or \<open>NaN\<close>.\<close>

definition value_string :: "moment \<Rightarrow> string" where
  "value_string m = (case m of None \<Rightarrow> ''NaN'' | Some t \<Rightarrow> int_string t)"

definition normalize_field :: "int \<Rightarrow> string \<Rightarrow> string \<Rightarrow> string + string" where
  "normalize_field now field val =
     (if field = ''begin'' then map_sum id value_string (parseDate now val)
      else if field = ''end'' then map_sum id value_string (parseDate now val)
      else if field = ''description'' then bind_sum (checkStringIsNotEmpty val) (\<lambda>_. Inr val)
      else if field = ''duration'' then bind_sum (checkStringIsPositiveWholeNumber val) (\<lambda>_. Inr val)
      else if field = ''spanid'' then normalizeSpanId val
      else if field = ''processid'' then bind_sum (checkStringIsNotEmpty val) (\<lambda>_. Inr val)
      else Inr (''Normalization not implemented for field '' @ [CHR 0x27] @ field @ [CHR 0x27]))"

definition ptype_normalize :: "int \<Rightarrow> ptype \<Rightarrow> string \<Rightarrow> string + string" where
  "ptype_normalize now pt val = normalize_field now (pt_field pt) val"

definition getDefaultValue :: "int \<Rightarrow> ptype \<Rightarrow> string" where
  "getDefaultValue now pt =
     (if pt_field pt = ''begin'' then dateToString now (Num (of_int now))
      else if pt_field pt = ''end'' then dateToString now (Num (of_int now))
      else if pt_field pt = ''description'' then ''''
      else if pt_field pt = ''duration'' then ''0''
      else if pt_field pt = ''spanid'' then ''''
      else if pt_field pt = ''processid'' then ''''
      else ''(unknown)'')"

definition ptype_table :: "(string \<times> string \<times> string) list" where
  "ptype_table =
     [(''Began after'', ''begin'', ''gt''),
      (''Began at or before'', ''begin'', ''le''),
      (''Ended after'', ''end'', ''gt''),
      (''Ended at or before'', ''end'', ''le''),
      (''Description contains'', ''description'', ''cn''),
      (''Description is exactly'', ''description'', ''eq''),
      (''Duration is longer than'', ''duration'', ''gt''),
      (''Duration is at most'', ''duration'', ''le''),
      (''Span ID is'', ''spanid'', ''eq''),
      (''ProcessId contains'', ''processid'', ''cn''),
      (''ProcessId is exactly'', ''processid'', ''eq'')]"

text \<open>The \<open>switch\<close> on the name: one entry of the table per \<open>case\<close>, \<open>null\<close> otherwise.\<close>

definition parsePType :: "string \<Rightarrow> ptype option" where
  "parsePType name =
     (case map_of ptype_table name of
        Some (field, op) \<Rightarrow> Some \<lparr>pt_name = name, pt_field = field, pt_op = op\<rparr>
      | None \<Rightarrow> None)"

definition mkPredicate :: "ptype \<Rightarrow> string \<Rightarrow> predicate" where
  "mkPredicate pt val = \<lparr>pr_op = pt_op pt, pr_field = pt_field pt, pr_val = val\<rparr>"

section \<open>Laws\<close>

lemma parsePType_SomeD:
  "parsePType name = Some pt \<Longrightarrow>
     pt_name pt = name \<and> (name, pt_field pt, pt_op pt) \<in> set ptype_table"
  by (auto simp: parsePType_def split: option.splits prod.splits dest: map_of_SomeD)

lemma ptype_table_keys:
  "distinct (map snd ptype_table)" "distinct (map fst ptype_table)"
  by (simp_all add: ptype_table_def)

lemma ptype_table_fields:
  "(n, f, p) \<in> set ptype_table \<Longrightarrow>
     f \<in> {''begin'', ''end'', ''description'', ''duration'', ''spanid'', ''processid''}"
  by (auto simp: ptype_table_def)

text \<open>What the server can parse in a predicate of a field.\<close>

definition wire_value :: "string \<Rightarrow> string \<Rightarrow> bool" where
  "wire_value field w =
     (if field = ''begin'' \<or> field = ''end'' \<or> field = ''duration'' then is_whole_number w
      else if field = ''spanid'' then wf_span_id w
      else list_ex (\<lambda>c. \<not> is_space c) w)"

lemma normalize_field_wire:
  assumes "field \<in> {''begin'', ''end'', ''description'', ''duration'', ''spanid'', ''processid''}"
    and "wire_value field w" and "field \<in> {''begin'', ''end''} \<longrightarrow> digits_val w \<le> 8640000000000000"
  shows "normalize_field now field w =
           Inr (if field \<in> {''begin'', ''end''} then nat_string (digits_val w) else w)"
proof -
  have t: "time_clip (int (digits_val w)) = Some (int (digits_val w))" if "digits_val w \<le> 8640000000000000"
    using that by (simp add: time_clip_def maxTime_def)
  have d: "parseDate now w = Inr (time_clip (int (digits_val w)))" if "is_whole_number w"
    using that by (rule parseDate_digits)
  show ?thesis
    using assms t d
    by (auto simp: normalize_field_def wire_value_def value_string_def int_string_def
        checkStringIsNotEmpty_def checkStringIsPositiveWholeNumber_def normalizeSpanId_Inr_iff)
qed

lemma try_formats_Inr: "try_formats now val fs = Inr m \<Longrightarrow> m \<noteq> None"
  by (induction fs) (simp_all only: try_formats.simps Let_def sum.distinct split: if_splits, auto)

lemma parseDate_None:
  assumes "parseDate now v = Inr None"
  shows "is_whole_number v \<and> 8640000000000000 < digits_val v"
proof -
  have w: "is_whole_number v"
    using assms try_formats_Inr by (fastforce simp: parseDate_def split: if_splits)
  with assms have "time_clip (int (digits_val v)) = None" by (simp add: parseDate_digits)
  with w show ?thesis by (simp add: time_clip_def maxTime_def split: if_splits)
qed

lemma nat_string_whole [simp]: "is_whole_number (nat_string n)"
  by (simp add: is_whole_number_def)

lemma createUTCDate_SomeD: "createUTCDate y m d h mi s ms = Some t \<Longrightarrow> \<bar>t\<bar> \<le> maxTime"
  by (auto simp: createUTCDate_def Let_def set_utc_full_year_def date_utc_def
      dest: time_clip_SomeD split: if_splits)

lemma try_formats_range: "try_formats now val fs = Inr (Some t) \<Longrightarrow> \<bar>t\<bar> \<le> maxTime"
proof (induction fs)
  case Nil
  then show ?case by simp
next
  case (Cons f fs)
  show ?case
  proof (cases "moment_utc_strict now val f")
    case None
    with Cons show ?thesis by simp
  next
    case (Some u)
    with Cons.prems have "moment_utc_strict now val f = Some t" by simp
    then show ?thesis
      by (auto simp: moment_utc_strict_def Let_def dest: createUTCDate_SomeD split: if_splits)
  qed
qed

lemma parseDate_range: "parseDate now v = Inr (Some t) \<Longrightarrow> \<bar>t\<bar> \<le> maxTime"
  using try_formats_range by (auto simp: parseDate_def split: if_splits elim!: is_numE
      dest: time_clip_SomeD simp: parse_int_digits is_whole_number_def)

section \<open>Properties\<close>

text \<open>The search form knows eleven predicate types, and no two of them ask the server the same
  question: the field and the operator determine the name.\<close>

theorem parsePType_injective:
  assumes "parsePType n = Some p" "parsePType m = Some q"
    and "pt_field p = pt_field q" "pt_op p = pt_op q"
  shows "n = m"
proof -
  have "(n, pt_field p, pt_op p) \<in> set ptype_table" "(m, pt_field p, pt_op p) \<in> set ptype_table"
    using assms parsePType_SomeD by metis+
  then show ?thesis
    using ptype_table_keys(1) by (metis distinct_map inj_on_eq_iff snd_conv fst_conv)
qed

theorem parsePType_injective_witness:
  "parsePType ''Span ID is'' = Some \<lparr>pt_name = ''Span ID is'', pt_field = ''spanid'', pt_op = ''eq''\<rparr>
   \<and> ''Span ID is'' = ''Span ID is''"
proof -
  have p: "parsePType ''Span ID is'' = Some \<lparr>pt_name = ''Span ID is'', pt_field = ''spanid'', pt_op = ''eq''\<rparr>"
    by (simp add: parsePType_def ptype_table_def)
  show ?thesis using p parsePType_injective [OF p p] by simp
qed

text \<open>A value that \<open>normalize\<close> accepts for a date field is sent to the server as a whole number of
  milliseconds, possibly negative, or as the text \<open>NaN\<close>; the latter exactly when the user typed a
  number beyond the last date, which the form accepts without a complaint.\<close>

theorem normalize_date:
  assumes "pt_field pt = ''begin'' \<or> pt_field pt = ''end''"
    and "ptype_normalize now pt v = Inr w"
  shows "(\<exists>t. \<bar>t\<bar> \<le> 8640000000000000 \<and> w = int_string t)
       \<or> (w = ''NaN'' \<and> is_whole_number v \<and> 8640000000000000 < digits_val v)"
proof -
  obtain m where m: "parseDate now v = Inr m" and w: "w = value_string m"
    using assms by (auto simp: ptype_normalize_def normalize_field_def map_sum_def split: sum.splits)
  show ?thesis
  proof (cases m)
    case None
    with m w show ?thesis using parseDate_None by (simp add: value_string_def)
  next
    case (Some t)
    with m w show ?thesis using parseDate_range [of now v t]
      by (auto simp: value_string_def maxTime_def)
  qed
qed

theorem normalize_date_witness:
  "ptype_normalize 0 \<lparr>pt_name = ''Began after'', pt_field = ''begin'', pt_op = ''gt''\<rparr> ''8640000000000001'' = Inr ''NaN''
   \<and> 8640000000000000 < digits_val ''8640000000000001''"
proof -
  let ?v = "''8640000000000001''"
  let ?pt = "\<lparr>pt_name = ''Began after'', pt_field = ''begin'', pt_op = ''gt''\<rparr>"
  have v: "is_whole_number ?v" "digits_val ?v = 8640000000000001"
    by (simp_all add: is_whole_number_def is_digit_def code_def digits_val_def digit_val_def)
  have n: "ptype_normalize 0 ?pt ?v = Inr ''NaN''"
    using v by (simp add: ptype_normalize_def normalize_field_def parseDate_digits time_clip_def maxTime_def value_string_def)
  have "int_string t \<noteq> ''NaN''" for t
  proof
    assume "int_string t = ''NaN''"
    then have "nat_string (nat t) = ''NaN''" by (auto simp: int_string_def split: if_splits)
    then have "all_digits ''NaN''" by (metis all_digits_nat_string)
    then show False by (simp add: is_digit_def code_def)
  qed
  then show ?thesis using normalize_date [OF _ n] n by (metis ptype.select_convs(2))
qed

text \<open>Normalising is idempotent on what the server understands: for every predicate type of the
  form, a value already in wire form (digits below the last date, 16 hexadecimal digits, non-blank
  text) is accepted and comes back unchanged, up to leading zeros of a date.\<close>

theorem normalize_wire_form:
  assumes "parsePType name = Some pt" and "wire_value (pt_field pt) w"
    and "pt_field pt \<in> {''begin'', ''end''} \<longrightarrow> digits_val w \<le> 8640000000000000"
  shows "ptype_normalize now pt w =
           Inr (if pt_field pt \<in> {''begin'', ''end''} then nat_string (digits_val w) else w)"
proof -
  have "(name, pt_field pt, pt_op pt) \<in> set ptype_table" using assms(1) parsePType_SomeD by blast
  then have "pt_field pt \<in> {''begin'', ''end'', ''description'', ''duration'', ''spanid'', ''processid''}"
    by (rule ptype_table_fields)
  then show ?thesis
    unfolding ptype_normalize_def using assms(2,3) by (rule normalize_field_wire)
qed

theorem normalize_wire_form_witness:
  "ptype_normalize 0 \<lparr>pt_name = ''Span ID is'', pt_field = ''spanid'', pt_op = ''eq''\<rparr> ''00000000deadbeef''
     = Inr ''00000000deadbeef''"
proof -
  let ?pt = "\<lparr>pt_name = ''Span ID is'', pt_field = ''spanid'', pt_op = ''eq''\<rparr>"
  have p: "parsePType ''Span ID is'' = Some ?pt"
    by (simp add: parsePType_def ptype_table_def)
  have w: "wire_value (pt_field ?pt) ''00000000deadbeef''"
    by (simp add: wire_value_def wf_span_id_def is_hex_digit_def is_digit_def code_def)
  show ?thesis using normalize_wire_form [OF p w, of 0] by simp
qed

end
