(* ===== verification/Span_Model.thy ===== *)
theory Span_Model
  imports Js_String
begin

text \<open>
  \<open>htrace-webapp/src/main/web/app/span.js\<close>, the data: the JSON of a span as htraced sends it
  (\<open>wire\<close>; a field is \<open>None\<close> when the object has no such property), the attributes of the model
  \<open>htrace.Span\<close>, and the conversions between the two. References to other spans are addresses
  of the store of theory \<open>Span_Store\<close>.
\<close>

type_synonym ref = nat

record annot =
  an_t :: jsnum
  an_m :: string

text \<open>A number of the wire format: a JSON number, or a string.\<close>

datatype wnum = WNum jsnum | WStr string

record wire =
  w_s :: "string option"
  w_i :: "string option"
  w_r :: "string option"
  w_p :: "string list option"
  w_d :: "string option"
  w_b :: "wnum option"
  w_e :: "wnum option"
  w_t :: "annot list option"
  w_n :: "(string \<times> string) list option"

record span =
  sp_spanId :: string
  sp_traceId :: string
  sp_processId :: string
  sp_parents :: "string list"
  sp_description :: string
  sp_begin :: jsnum
  sp_end :: jsnum
  sp_timeAnnotations :: "annot list"
  sp_infoAnnotations :: "(string \<times> string) list"
  sp_selected :: bool
  sp_reifiedChildren :: "ref list option"
  sp_reifiedParents :: "ref list option"

definition INVALID_SPAN_ID :: string where
  "INVALID_SPAN_ID = ''0000000000000000''"

text \<open>\<open>x ? x : d\<close> on a string property: the empty string and a missing property are false.\<close>

definition or_string :: "string option \<Rightarrow> string \<Rightarrow> string" where
  "or_string x d = (case x of Some (c # cs) \<Rightarrow> c # cs | _ \<Rightarrow> d)"

text \<open>
  \<open>parseInt(x, 10)\<close> of a JSON number: towards zero (for numbers that print without an exponent,
  which all whole numbers below \<open>10 ^ 21\<close> do).
\<close>

fun parse_int_num :: "jsnum \<Rightarrow> jsnum" where
  "parse_int_num (Num r) = Num (of_int (rat_trunc r))"
| "parse_int_num _ = NaN"

definition parse_time :: "wnum option \<Rightarrow> jsnum" where
  "parse_time x =
     (case x of
        None \<Rightarrow> Num 0
      | Some (WNum n) \<Rightarrow> if js_truthy n then parse_int_num n else Num 0
      | Some (WStr s) \<Rightarrow> if s \<noteq> [] then parse_int s else Num 0)"

definition parse :: "wire \<Rightarrow> span" where
  "parse response =
     (let parents = (case w_p response of Some p \<Rightarrow> p | None \<Rightarrow> [])
      in \<lparr>sp_spanId = or_string (w_s response) INVALID_SPAN_ID,
          sp_traceId = or_string (w_i response) INVALID_SPAN_ID,
          sp_processId = or_string (w_r response) '''',
          sp_parents = parents,
          sp_description = or_string (w_d response) '''',
          sp_begin = parse_time (w_b response),
          sp_end = parse_time (w_e response),
          sp_timeAnnotations =
            (case w_t response of Some t \<Rightarrow> sort_by (num_cmp an_t) t | None \<Rightarrow> []),
          sp_infoAnnotations = (case w_n response of Some n \<Rightarrow> n | None \<Rightarrow> []),
          sp_selected = False,
          sp_reifiedChildren = None,
          sp_reifiedParents = (if length parents = 0 then Some [] else None)\<rparr>)"

definition unparse :: "span \<Rightarrow> wire" where
  "unparse sp =
     \<lparr>w_s = (if \<not> sp_spanId sp = INVALID_SPAN_ID then Some (sp_spanId sp) else None),
      w_i = (if \<not> sp_traceId sp = INVALID_SPAN_ID then Some (sp_traceId sp) else None),
      w_r = (if \<not> sp_processId sp = '''' then Some (sp_processId sp) else None),
      w_p = (if 0 < length (sp_parents sp) then Some (sp_parents sp) else None),
      w_d = (if 0 < length (sp_description sp) then Some (sp_description sp) else None),
      w_b = (if Num 0 < sp_begin sp then Some (WNum (sp_begin sp)) else None),
      w_e = (if Num 0 < sp_end sp then Some (WNum (sp_end sp)) else None),
      w_t = (if 0 < length (sp_timeAnnotations sp) then Some (sp_timeAnnotations sp) else None),
      w_n = (if 0 < length (sp_infoAnnotations sp) then Some (sp_infoAnnotations sp) else None)\<rparr>"

section \<open>Laws\<close>

definition whole_time :: "jsnum \<Rightarrow> bool" where
  "whole_time t = (\<exists>n::nat. t = Num (of_nat n))"

text \<open>The spans that survive the trip to the server and back.\<close>

definition wire_safe :: "span \<Rightarrow> bool" where
  "wire_safe sp \<longleftrightarrow>
     sp_spanId sp \<noteq> '''' \<and> sp_traceId sp \<noteq> '''' \<and>
     whole_time (sp_begin sp) \<and> whole_time (sp_end sp) \<and>
     (\<forall>a\<in>set (sp_timeAnnotations sp). is_num (an_t a)) \<and>
     sorted_by (num_cmp an_t) (sp_timeAnnotations sp)"

definition unreified :: "span \<Rightarrow> span" where
  "unreified sp =
     sp\<lparr>sp_selected := False, sp_reifiedChildren := None,
        sp_reifiedParents := (if sp_parents sp = [] then Some [] else None)\<rparr>"

lemma or_string_if: "s \<noteq> [] \<Longrightarrow> or_string (if s \<noteq> d then Some s else None) d = s"
  by (cases s) (auto simp: or_string_def)

lemma or_string_empty: "or_string (if s \<noteq> [] then Some s else None) [] = s"
  by (cases s) (auto simp: or_string_def)

lemma or_string_not_empty: "d \<noteq> [] \<Longrightarrow> or_string x d \<noteq> []"
  by (auto simp: or_string_def split: option.splits list.splits)

lemma parse_time_whole:
  "whole_time t \<Longrightarrow> parse_time (if Num 0 < t then Some (WNum t) else None) = t"
  by (auto simp: whole_time_def parse_time_def rat_trunc_def)

lemma case_if_list:
  "(case (if xs \<noteq> [] then Some xs else None) of None \<Rightarrow> [] | Some ys \<Rightarrow> ys) = xs"
  "(case (if xs \<noteq> [] then Some xs else None) of None \<Rightarrow> [] | Some ys \<Rightarrow> sort_by c ys) = sort_by c xs"
  by simp_all

lemma parse_unparse:
  assumes "wire_safe sp"
  shows "parse (unparse sp) = unreified sp"
proof (rule span.equality)
qed (use assms in \<open>simp_all add: wire_safe_def parse_def unparse_def unreified_def Let_def or_string_if
      or_string_empty parse_time_whole case_if_list sort_by_id split del: if_split\<close>)

lemma parse_infos:
  "sp_selected (parse w) = False" "sp_reifiedChildren (parse w) = None"
  "sp_reifiedParents (parse w) = (if sp_parents (parse w) = [] then Some [] else None)"
  by (simp_all add: parse_def Let_def)

lemma unreified_parse: "unreified (parse w) = parse w"
  by (rule span.equality) (simp_all add: unreified_def parse_infos)

lemma parse_annotations_sorted:
  assumes "\<forall>t. w_t w = Some t \<longrightarrow> (\<forall>a\<in>set t. is_num (an_t a))"
  shows "sorted_by (num_cmp an_t) (sp_timeAnnotations (parse w))
       \<and> (\<forall>a\<in>set (sp_timeAnnotations (parse w)). is_num (an_t a))"
  using assms num_cmp.sort_by_sorted [of _ an_t]
  by (auto simp: parse_def Let_def split: option.splits)

section \<open>Properties\<close>

definition example_wire :: wire where
  "example_wire =
     \<lparr>w_s = Some ''00000000000000a1'', w_i = None, w_r = Some ''node1/10.0.0.1'', w_p = Some [''00000000000000a0''],
      w_d = Some ''getFileInfo'', w_b = Some (WNum (Num 1400)), w_e = Some (WStr ''1500''),
      w_t = Some [\<lparr>an_t = Num 1450, an_m = ''sent''\<rparr>, \<lparr>an_t = Num 1410, an_m = ''queued''\<rparr>],
      w_n = Some [(''user'', ''root'')]\<rparr>"



text \<open>The annotations of a parsed span are those of the message, in the order of their times.\<close>

theorem parse_annotations:
  assumes "w_t w = Some t" and "\<forall>a\<in>set t. is_num (an_t a)"
  shows "sorted (map (num_val \<circ> an_t) (sp_timeAnnotations (parse w))) \<and>
    mset (sp_timeAnnotations (parse w)) = mset t"
  using assms sort_by_num_cmp_sorted [of t an_t] by (simp add: parse_def Let_def)

theorem parse_annotations_witness:
  "sorted (map (num_val \<circ> an_t) (sp_timeAnnotations (parse example_wire)))"
proof -
  have "w_t example_wire = Some [\<lparr>an_t = Num 1450, an_m = ''sent''\<rparr>, \<lparr>an_t = Num 1410, an_m = ''queued''\<rparr>]"
    by (simp add: example_wire_def)
  then show ?thesis using parse_annotations [of example_wire] by simp
qed

text \<open>A parsed span never has an empty id, starts unselected, without reified children, and with
  reified parents exactly when it has no parents: the button that fetches parents is shown for the
  other spans only.\<close>

theorem parse_initial_state:
  "sp_spanId (parse w) \<noteq> [] \<and> sp_traceId (parse w) \<noteq> [] \<and> \<not> sp_selected (parse w) \<and>
   sp_reifiedChildren (parse w) = None \<and>
   (sp_reifiedParents (parse w) = None \<longleftrightarrow> sp_parents (parse w) \<noteq> []) \<and>
   sp_reifiedParents (parse w) \<in> {None, Some []}"
  by (simp add: parse_infos) (simp add: parse_def Let_def or_string_not_empty INVALID_SPAN_ID_def)

end
