(* ===== verification/Htrace_Tree.thy ===== *)
theory Htrace_Tree
  imports Htrace_Prelude
begin

text \<open>
  \<open>htrace-webapp/src/main/web/app/tree.js\<close>: the height of a tree and its two depth-first
  traversals. A tree is given by a function from a node to its descendants, so nothing but the
  caller's data makes it a tree. The recursion is bounded by \<open>fuel\<close>, the depth of the call stack;
  \<open>None\<close> is its exhaustion (a \<open>RangeError\<close> of the engine). The callback of a traversal changes a
  state of its own type, and the descendants are looked up in the state of the moment, as in the
  code.
\<close>

fun treeHeight :: "nat \<Rightarrow> ('n \<Rightarrow> 'n list) \<Rightarrow> 'n \<Rightarrow> nat option"
  and treeHeight_loop :: "nat \<Rightarrow> ('n \<Rightarrow> 'n list) \<Rightarrow> 'n list \<Rightarrow> nat \<Rightarrow> nat option" where
  "treeHeight 0 getDescendants node = None"
| "treeHeight (Suc fuel) getDescendants node =
     treeHeight_loop fuel getDescendants (getDescendants node) 0"
| "treeHeight_loop fuel getDescendants [] height = Some height"
| "treeHeight_loop fuel getDescendants (d # ds) height =
     (case treeHeight fuel getDescendants d of
        None \<Rightarrow> None
      | Some h \<Rightarrow> treeHeight_loop fuel getDescendants ds (max height (1 + h)))"

fun treeTraverseDepthFirstPost ::
    "nat \<Rightarrow> ('s \<Rightarrow> 'n \<Rightarrow> 'n list) \<Rightarrow> ('n \<Rightarrow> nat \<Rightarrow> 's \<Rightarrow> 's) \<Rightarrow> 'n \<Rightarrow> nat \<Rightarrow> 's \<Rightarrow> 's option"
  and post_loop ::
    "nat \<Rightarrow> ('s \<Rightarrow> 'n \<Rightarrow> 'n list) \<Rightarrow> ('n \<Rightarrow> nat \<Rightarrow> 's \<Rightarrow> 's) \<Rightarrow> 'n list \<Rightarrow> nat \<Rightarrow> 's \<Rightarrow> 's option" where
  "treeTraverseDepthFirstPost 0 getDescendants cb node depth s = None"
| "treeTraverseDepthFirstPost (Suc fuel) getDescendants cb node depth s =
     map_option (cb node depth)
       (post_loop fuel getDescendants cb (getDescendants s node) (depth + 1) s)"
| "post_loop fuel getDescendants cb [] depth s = Some s"
| "post_loop fuel getDescendants cb (d # ds) depth s =
     (case treeTraverseDepthFirstPost fuel getDescendants cb d depth s of
        None \<Rightarrow> None
      | Some s' \<Rightarrow> post_loop fuel getDescendants cb ds depth s')"

fun treeTraverseDepthFirstPre ::
    "nat \<Rightarrow> ('s \<Rightarrow> 'n \<Rightarrow> 'n list) \<Rightarrow> ('n \<Rightarrow> nat \<Rightarrow> 's \<Rightarrow> 's) \<Rightarrow> 'n \<Rightarrow> nat \<Rightarrow> 's \<Rightarrow> 's option"
  and pre_loop ::
    "nat \<Rightarrow> ('s \<Rightarrow> 'n \<Rightarrow> 'n list) \<Rightarrow> ('n \<Rightarrow> nat \<Rightarrow> 's \<Rightarrow> 's) \<Rightarrow> 'n list \<Rightarrow> nat \<Rightarrow> 's \<Rightarrow> 's option" where
  "treeTraverseDepthFirstPre 0 getDescendants cb node depth s = None"
| "treeTraverseDepthFirstPre (Suc fuel) getDescendants cb node depth s =
     (let s' = cb node depth s
      in pre_loop fuel getDescendants cb (getDescendants s' node) (depth + 1) s')"
| "pre_loop fuel getDescendants cb [] depth s = Some s"
| "pre_loop fuel getDescendants cb (d # ds) depth s =
     (case treeTraverseDepthFirstPre fuel getDescendants cb d depth s of
        None \<Rightarrow> None
      | Some s' \<Rightarrow> pre_loop fuel getDescendants cb ds depth s')"

section \<open>Reference: the visited nodes with their depths, as lists\<close>

fun pre_nodes :: "nat \<Rightarrow> ('n \<Rightarrow> 'n list) \<Rightarrow> 'n \<Rightarrow> nat \<Rightarrow> ('n \<times> nat) list" where
  "pre_nodes 0 gd n d = [(n, d)]"
| "pre_nodes (Suc k) gd n d = (n, d) # concat (map (\<lambda>m. pre_nodes k gd m (Suc d)) (gd n))"

fun post_nodes :: "nat \<Rightarrow> ('n \<Rightarrow> 'n list) \<Rightarrow> 'n \<Rightarrow> nat \<Rightarrow> ('n \<times> nat) list" where
  "post_nodes 0 gd n d = [(n, d)]"
| "post_nodes (Suc k) gd n d = concat (map (\<lambda>m. post_nodes k gd m (Suc d)) (gd n)) @ [(n, d)]"

lemma mset_post_nodes: "mset (post_nodes k gd n d) = mset (pre_nodes k gd n d)"
proof (induction k arbitrary: n d)
  case 0
  then show ?case by simp
next
  case (Suc k)
  have "mset (concat (map (\<lambda>m. post_nodes k gd m (Suc d)) ms))
      = mset (concat (map (\<lambda>m. pre_nodes k gd m (Suc d)) ms))" for ms
    by (induction ms) (simp_all add: Suc)
  then show ?case by simp
qed

lemma set_post_nodes: "set (post_nodes k gd n d) = set (pre_nodes k gd n d)"
  by (rule mset_eq_setD) (rule mset_post_nodes)

lemma hd_pre_nodes: "\<exists>xs. pre_nodes k gd n d = (n, d) # xs"
  by (cases k) auto

lemma pre_nodes_depth: "(m, e) \<in> set (pre_nodes k gd n d) \<Longrightarrow> d \<le> e"
proof (induction k arbitrary: n d)
  case 0
  then show ?case by simp
next
  case (Suc k)
  then consider "e = d" | n' where "(m, e) \<in> set (pre_nodes k gd n' (Suc d))" by auto
  then show ?case using Suc.IH by cases (auto dest: Suc_leD)
qed

lemma pre_nodes_depth_0: "(m, e) \<in> set (tl (pre_nodes k gd n d)) \<Longrightarrow> d < e"
  by (cases k) (auto dest!: pre_nodes_depth)

lemma pre_nodes_shift:
  "pre_nodes k gd n (Suc d) = map (\<lambda>(m, e). (m, Suc e)) (pre_nodes k gd n d)"
proof (induction k arbitrary: n d)
  case 0
  then show ?case by simp
next
  case (Suc k)
  have "concat (map (\<lambda>m. pre_nodes k gd m (Suc (Suc d))) ms)
      = map (\<lambda>(m, e). (m, Suc e)) (concat (map (\<lambda>m. pre_nodes k gd m (Suc d)) ms))" for ms
    by (induction ms) (simp_all add: Suc)
  then show ?case by simp
qed

text \<open>Everything visited is reachable, and its depth is the length of a path.\<close>

lemma pre_nodes_reachable:
  "(m, e) \<in> set (pre_nodes k gd n d) \<Longrightarrow> (n, m) \<in> {(a, b). b \<in> set (gd a)}\<^sup>*"
proof (induction k arbitrary: n d)
  case 0
  then show ?case by simp
next
  case (Suc k)
  then consider "m = n" | n' where "n' \<in> set (gd n)" "(m, e) \<in> set (pre_nodes k gd n' (Suc d))"
    by auto
  then show ?case
  proof cases
    case 1
    then show ?thesis by simp
  next
    case 2
    then have "(n', m) \<in> {(a, b). b \<in> set (gd a)}\<^sup>*" using Suc.IH by blast
    with 2(1) show ?thesis by (auto intro: converse_rtrancl_into_rtrancl)
  qed
qed

section \<open>The interface of a traversal: states in which the descendants form a finite forest\<close>

locale navigation =
  fixes inv :: "'s \<Rightarrow> bool"
    and gd :: "'s \<Rightarrow> 'n \<Rightarrow> 'n list"
    and rank :: "'s \<Rightarrow> 'n \<Rightarrow> nat"
  assumes rank_less: "inv s \<Longrightarrow> m \<in> set (gd s n) \<Longrightarrow> rank s m < rank s n"
begin

lemma no_descendants: "inv s \<Longrightarrow> rank s n = 0 \<Longrightarrow> gd s n = []"
  using rank_less [of s _ n] by (cases "gd s n") auto

lemma pre_nodes_enough:
  "inv s \<Longrightarrow> rank s n \<le> k \<Longrightarrow> rank s n \<le> k' \<Longrightarrow> pre_nodes k (gd s) n d = pre_nodes k' (gd s) n d"
proof (induction k arbitrary: k' n d)
  case 0
  then have "gd s n = []" by (simp add: no_descendants)
  then show ?case by (cases k') auto
next
  case (Suc k)
  show ?case
  proof (cases k')
    case 0
    with Suc have "gd s n = []" by (simp add: no_descendants)
    with 0 show ?thesis by simp
  next
    case (Suc j)
    have "pre_nodes k (gd s) m (Suc d) = pre_nodes j (gd s) m (Suc d)" if "m \<in> set (gd s n)" for m
      using that Suc.IH [of m j] Suc.prems rank_less [of s m n] \<open>k' = Suc j\<close> by auto
    with Suc show ?thesis by (simp cong: map_cong)
  qed
qed

lemma pre_nodes_unfold:
  assumes "inv s" "rank s n \<le> k"
  shows "pre_nodes k (gd s) n d = (n, d) # concat (map (\<lambda>m. pre_nodes k (gd s) m (Suc d)) (gd s n))"
proof (cases k)
  case 0
  with assms show ?thesis by (simp add: no_descendants)
next
  case (Suc j)
  have "pre_nodes j (gd s) m (Suc d) = pre_nodes k (gd s) m (Suc d)" if "m \<in> set (gd s n)" for m
    using that assms rank_less [of s m n] Suc by (intro pre_nodes_enough) auto
  with Suc show ?thesis by (simp cong: map_cong)
qed

lemma post_nodes_enough:
  "inv s \<Longrightarrow> rank s n \<le> k \<Longrightarrow> rank s n \<le> k' \<Longrightarrow> post_nodes k (gd s) n d = post_nodes k' (gd s) n d"
proof (induction k arbitrary: k' n d)
  case 0
  then have "gd s n = []" by (simp add: no_descendants)
  then show ?case by (cases k') auto
next
  case (Suc k)
  show ?case
  proof (cases k')
    case 0
    with Suc have "gd s n = []" by (simp add: no_descendants)
    with 0 show ?thesis by simp
  next
    case (Suc j)
    have "post_nodes k (gd s) m (Suc d) = post_nodes j (gd s) m (Suc d)" if "m \<in> set (gd s n)" for m
      using that Suc.IH [of m j] Suc.prems rank_less [of s m n] \<open>k' = Suc j\<close> by auto
    with Suc show ?thesis by (simp cong: map_cong)
  qed
qed

text \<open>Every node that can be reached is visited.\<close>

lemma pre_nodes_complete:
  assumes "inv s" and "(n, m) \<in> {(a, b). b \<in> set (gd s a)}\<^sup>*" and "rank s n \<le> k"
  shows "m \<in> fst ` set (pre_nodes k (gd s) n d)"
  using assms(2,3)
proof (induction arbitrary: k d rule: converse_rtrancl_induct)
  case base
  then show ?case using hd_pre_nodes [of k "gd s" m d] by auto
next
  case (step a b)
  then have b: "b \<in> set (gd s a)" and "rank s b \<le> k"
    using rank_less [OF assms(1), of b a] by auto
  then have "m \<in> fst ` set (pre_nodes k (gd s) b (Suc d))" using step.IH by blast
  with b show ?case using pre_nodes_unfold [OF assms(1) step.prems, of d] by force
qed

lemma pre_nodes_nodes:
  assumes "inv s" and "rank s n \<le> k"
  shows "fst ` set (pre_nodes k (gd s) n d) = {m. (n, m) \<in> {(a, b). b \<in> set (gd s a)}\<^sup>*}"
proof (intro equalityI subsetI)
  fix m assume "m \<in> fst ` set (pre_nodes k (gd s) n d)"
  then show "m \<in> {m. (n, m) \<in> {(a, b). b \<in> set (gd s a)}\<^sup>*}"
    using pre_nodes_reachable by fastforce
next
  fix m assume "m \<in> {m. (n, m) \<in> {(a, b). b \<in> set (gd s a)}\<^sup>*}"
  then show "m \<in> fst ` set (pre_nodes k (gd s) n d)"
    using pre_nodes_complete [OF assms(1) _ assms(2)] by simp
qed

text \<open>The depth at which a node is visited is the length of a path to it, and all paths occur.\<close>

lemma pre_nodes_path_iff:
  assumes "inv s"
  shows "rank s n \<le> k \<Longrightarrow>
    (m, d + e) \<in> set (pre_nodes k (gd s) n d) \<longleftrightarrow> (n, m) \<in> {(a, b). b \<in> set (gd s a)} ^^ e"
proof (induction e arbitrary: n d)
  case 0
  have "(m, d) \<notin> set (tl (pre_nodes k (gd s) n d))"
    using pre_nodes_depth_0 by fastforce
  then show ?case using hd_pre_nodes [of k "gd s" n d] by auto
next
  case (Suc e)
  have r: "rank s n' \<le> k" if "n' \<in> set (gd s n)" for n'
    using rank_less [OF assms that] Suc.prems by simp
  have "(m, d + Suc e) \<in> set (pre_nodes k (gd s) n d)
      \<longleftrightarrow> (\<exists>n'\<in>set (gd s n). (m, Suc d + e) \<in> set (pre_nodes k (gd s) n' (Suc d)))"
    by (subst pre_nodes_unfold [OF assms Suc.prems]) auto
  also have "\<dots> \<longleftrightarrow> (\<exists>n'\<in>set (gd s n). (n', m) \<in> {(a, b). b \<in> set (gd s a)} ^^ e)"
    using Suc.IH r by blast
  also have "\<dots> \<longleftrightarrow> (n, m) \<in> {(a, b). b \<in> set (gd s a)} ^^ Suc e"
    by (auto simp: relpow_commute [symmetric] intro: relcompI)
  finally show ?case .
qed

subsection \<open>The traversals are folds over those lists\<close>

definition keeps :: "('n \<Rightarrow> nat \<Rightarrow> 's \<Rightarrow> 's) \<Rightarrow> bool" where
  "keeps cb \<longleftrightarrow> (\<forall>n d s. inv s \<longrightarrow> inv (cb n d s) \<and> gd (cb n d s) = gd s \<and> rank (cb n d s) = rank s)"

lemma keepsD:
  "keeps cb \<Longrightarrow> inv s \<Longrightarrow> inv (cb n d s)"
  "keeps cb \<Longrightarrow> inv s \<Longrightarrow> gd (cb n d s) = gd s"
  "keeps cb \<Longrightarrow> inv s \<Longrightarrow> rank (cb n d s) = rank s"
  by (auto simp: keeps_def)

lemma keeps_fold:
  assumes "keeps cb" and "inv s"
  shows "inv (fold (\<lambda>(m, e). cb m e) xs s) \<and> gd (fold (\<lambda>(m, e). cb m e) xs s) = gd s
       \<and> rank (fold (\<lambda>(m, e). cb m e) xs s) = rank s"
  using assms(2) by (induction xs arbitrary: s) (auto simp: keepsD [OF assms(1)])

lemma pre_is_fold:
  assumes "keeps cb"
  shows "inv s \<Longrightarrow> rank s n < fuel \<Longrightarrow>
    treeTraverseDepthFirstPre fuel gd cb n d s
      = Some (fold (\<lambda>(m, e). cb m e) (pre_nodes (rank s n) (gd s) n d) s)"
proof (induction fuel arbitrary: n d s)
  case 0
  then show ?case by simp
next
  case (Suc fuel)
  have loop: "pre_loop fuel gd cb ms (Suc d) t
      = Some (fold (\<lambda>(m, e). cb m e) (concat (map (\<lambda>m. pre_nodes (rank s n) (gd s) m (Suc d)) ms)) t)"
    if "inv t" "gd t = gd s" "rank t = rank s" "set ms \<subseteq> set (gd s n)" for ms t
    using that
  proof (induction ms arbitrary: t)
    case Nil
    then show ?case by simp
  next
    case (Cons m ms)
    then have m: "rank s m < rank s n" using rank_less [OF Suc.prems(1), of m n] by simp
    let ?t = "fold (\<lambda>(m, e). cb m e) (pre_nodes (rank s m) (gd s) m (Suc d)) t"
    have "treeTraverseDepthFirstPre fuel gd cb m (Suc d) t = Some ?t"
      using Suc.IH [of t m "Suc d"] Cons.prems m Suc.prems(2) by simp
    moreover have "inv ?t" "gd ?t = gd s" "rank ?t = rank s"
      using keeps_fold [OF assms Cons.prems(1)] Cons.prems by auto
    moreover have "pre_nodes (rank s m) (gd s) m (Suc d) = pre_nodes (rank s n) (gd s) m (Suc d)"
      using m by (intro pre_nodes_enough [OF Suc.prems(1)]) auto
    ultimately show ?case using Cons.IH [of ?t] Cons.prems(4) by simp
  qed
  have "pre_loop fuel gd cb (gd (cb n d s) n) (Suc d) (cb n d s)
      = Some (fold (\<lambda>(m, e). cb m e)
          (concat (map (\<lambda>m. pre_nodes (rank s n) (gd s) m (Suc d)) (gd s n))) (cb n d s))"
    using loop [of "cb n d s" "gd s n"] keepsD [OF assms Suc.prems(1)] by simp
  then show ?case using pre_nodes_unfold [OF Suc.prems(1) order_refl, of n d] by (simp add: Let_def)
qed

lemma post_nodes_unfold:
  assumes "inv s" "rank s n \<le> k"
  shows "post_nodes k (gd s) n d = concat (map (\<lambda>m. post_nodes k (gd s) m (Suc d)) (gd s n)) @ [(n, d)]"
proof (cases k)
  case 0
  with assms show ?thesis by (simp add: no_descendants)
next
  case (Suc j)
  have "post_nodes j (gd s) m (Suc d) = post_nodes k (gd s) m (Suc d)" if "m \<in> set (gd s n)" for m
    using that assms rank_less [of s m n] Suc by (intro post_nodes_enough) auto
  with Suc show ?thesis by (simp cong: map_cong)
qed

lemma post_is_fold:
  assumes "keeps cb"
  shows "inv s \<Longrightarrow> rank s n < fuel \<Longrightarrow>
    treeTraverseDepthFirstPost fuel gd cb n d s
      = Some (fold (\<lambda>(m, e). cb m e) (post_nodes (rank s n) (gd s) n d) s)"
proof (induction fuel arbitrary: n d s)
  case 0
  then show ?case by simp
next
  case (Suc fuel)
  have loop: "post_loop fuel gd cb ms (Suc d) t
      = Some (fold (\<lambda>(m, e). cb m e) (concat (map (\<lambda>m. post_nodes (rank s n) (gd s) m (Suc d)) ms)) t)"
    if "inv t" "gd t = gd s" "rank t = rank s" "set ms \<subseteq> set (gd s n)" for ms t
    using that
  proof (induction ms arbitrary: t)
    case Nil
    then show ?case by simp
  next
    case (Cons m ms)
    then have m: "rank s m < rank s n" using rank_less [OF Suc.prems(1), of m n] by simp
    let ?t = "fold (\<lambda>(m, e). cb m e) (post_nodes (rank s m) (gd s) m (Suc d)) t"
    have "treeTraverseDepthFirstPost fuel gd cb m (Suc d) t = Some ?t"
      using Suc.IH [of t m "Suc d"] Cons.prems m Suc.prems(2) by simp
    moreover have "inv ?t" "gd ?t = gd s" "rank ?t = rank s"
      using keeps_fold [OF assms Cons.prems(1)] Cons.prems by auto
    moreover have "post_nodes (rank s m) (gd s) m (Suc d) = post_nodes (rank s n) (gd s) m (Suc d)"
      using m by (intro post_nodes_enough [OF Suc.prems(1)]) auto
    ultimately show ?case using Cons.IH [of ?t] Cons.prems(4) by simp
  qed
  show ?case
    using loop [of s "gd s n"] Suc.prems post_nodes_unfold [OF Suc.prems(1) order_refl, of n d]
    by simp
qed

text \<open>The height is the greatest depth at which a node is visited.\<close>

lemma height_is_max:
  "inv s \<Longrightarrow> rank s n < fuel \<Longrightarrow>
    treeHeight fuel (gd s) n = Some (Max (snd ` set (pre_nodes (rank s n) (gd s) n 0)))"
proof (induction fuel arbitrary: n)
  case 0
  then show ?case by simp
next
  case (Suc fuel)
  let ?k = "rank s n"
  let ?D = "\<lambda>m. snd ` set (pre_nodes ?k (gd s) m (Suc 0))"
  have shift: "?D m = Suc ` snd ` set (pre_nodes ?k (gd s) m 0)" for m
    by (auto simp: pre_nodes_shift image_image case_prod_beta)
  have loop: "treeHeight_loop fuel (gd s) ms h = Some (Max (insert h (\<Union>m\<in>set ms. ?D m)))"
    if "set ms \<subseteq> set (gd s n)" for ms h
    using that
  proof (induction ms arbitrary: h)
    case Nil
    then show ?case by simp
  next
    case (Cons m ms)
    then have m: "rank s m < ?k" using rank_less [OF Suc.prems(1), of m n] by simp
    have ne: "?D m \<noteq> {}" "finite (?D m)" using hd_pre_nodes [of ?k "gd s" m "Suc 0"] by auto
    have "treeHeight fuel (gd s) m = Some (Max (snd ` set (pre_nodes (rank s m) (gd s) m 0)))"
      using Suc.IH [of m] m Suc.prems by simp
    also have "pre_nodes (rank s m) (gd s) m 0 = pre_nodes ?k (gd s) m 0"
      using m by (intro pre_nodes_enough [OF Suc.prems(1)]) auto
    finally have t: "treeHeight fuel (gd s) m = Some (Max (snd ` set (pre_nodes ?k (gd s) m 0)))" .
    have "Suc (Max (snd ` set (pre_nodes ?k (gd s) m 0))) = Max (?D m)"
      unfolding shift using hd_pre_nodes [of ?k "gd s" m 0]
      by (intro mono_Max_commute) (auto simp: mono_def)
    then have "treeHeight_loop fuel (gd s) (m # ms) h
        = treeHeight_loop fuel (gd s) ms (max h (Max (?D m)))"
      by (simp add: t)
    also have "\<dots> = Some (Max (insert (max h (Max (?D m))) (\<Union>m\<in>set ms. ?D m)))"
      using Cons.IH Cons.prems by simp
    also have "Max (insert (max h (Max (?D m))) (\<Union>m\<in>set ms. ?D m))
        = Max (insert h (\<Union>m\<in>set (m # ms). ?D m))"
      using Max_insert_Max [OF ne(2,1), of "\<Union>m\<in>set ms. ?D m" h] by simp
    finally show ?case .
  qed
  have "snd ` set (pre_nodes ?k (gd s) n 0) = insert 0 (\<Union>m\<in>set (gd s n). ?D m)"
    using pre_nodes_unfold [OF Suc.prems(1) order_refl, of n 0] by auto
  then show ?case using loop [of "gd s n" 0] by simp
qed

text \<open>The height as the length of a longest path.\<close>

lemma height_longest_path:
  assumes "inv s" "rank s n < fuel"
  shows "\<exists>k. treeHeight fuel (gd s) n = Some k
      \<and> (\<exists>m. (n, m) \<in> {(a, b). b \<in> set (gd s a)} ^^ k)
      \<and> (\<forall>j m. (n, m) \<in> {(a, b). b \<in> set (gd s a)} ^^ j \<longrightarrow> j \<le> k)"
proof -
  let ?S = "snd ` set (pre_nodes (rank s n) (gd s) n 0)"
  have "?S \<noteq> {}" "finite ?S" using hd_pre_nodes [of "rank s n" "gd s" n 0] by auto
  then have m: "Max ?S \<in> ?S" "\<And>e. e \<in> ?S \<Longrightarrow> e \<le> Max ?S" by auto
  have p: "(m, e) \<in> set (pre_nodes (rank s n) (gd s) n 0) \<longleftrightarrow> (n, m) \<in> {(a, b). b \<in> set (gd s a)} ^^ e" for m e
    using pre_nodes_path_iff [OF assms(1) order_refl, of m 0 e n] by simp
  have "\<exists>m. (n, m) \<in> {(a, b). b \<in> set (gd s a)} ^^ Max ?S" using m(1) p by fastforce
  moreover have "j \<le> Max ?S" if "(n, m) \<in> {(a, b). b \<in> set (gd s a)} ^^ j" for j m
    using that m(2) [of j] p [of m j] by (metis imageI snd_conv)
  ultimately show ?thesis using height_is_max [OF assms] by blast
qed

end

end
