(* ===== verification/Span_Store.thy ===== *)
theory Span_Store
  imports Span_Model Htrace_Tree
begin

text \<open>
  \<open>htrace-webapp/src/main/web/app/span.js\<close>, the object graph: the span models live in a store and
  refer to one another by address (\<open>reifiedParents\<close>, \<open>reifiedChildren\<close>); fetching the parents or
  the children of a span allocates new models and links them. The invariant is that both relations
  stay finite forests, which is what makes every traversal of the viewer return.
\<close>

type_synonym store = "span list"

text \<open>\<open>new htrace.Span({})\<close>: a model without attributes. No reference of the viewer dangles; a
  dangling one would read as such a model.\<close>

definition new_span :: span where
  "new_span =
     \<lparr>sp_spanId = [], sp_traceId = [], sp_processId = [], sp_parents = [], sp_description = [],
      sp_begin = Undef, sp_end = Undef, sp_timeAnnotations = [], sp_infoAnnotations = [],
      sp_selected = False, sp_reifiedChildren = None, sp_reifiedParents = None\<rparr>"

definition span_at :: "store \<Rightarrow> ref \<Rightarrow> span" where
  "span_at h r = (if r < length h then h ! r else new_span)"

definition set_span :: "ref \<Rightarrow> (span \<Rightarrow> span) \<Rightarrow> store \<Rightarrow> store" where
  "set_span r f h = h[r := f (span_at h r)]"

definition or_empty :: "'a list option \<Rightarrow> 'a list" where
  "or_empty x = (case x of Some xs \<Rightarrow> xs | None \<Rightarrow> [])"

definition getReifiedParents :: "store \<Rightarrow> ref \<Rightarrow> ref list" where
  "getReifiedParents h r = or_empty (sp_reifiedParents (span_at h r))"

definition getReifiedChildren :: "store \<Rightarrow> ref \<Rightarrow> ref list" where
  "getReifiedChildren h r = or_empty (sp_reifiedChildren (span_at h r))"

section \<open>Answers of the server\<close>

text \<open>
  A finished \<open>$.ajax\<close> call: its status, whether the body could be converted to JSON, and the
  object; \<open>Inl e\<close> is a body whose properties cannot be read (\<open>null\<close>), with the text of the
  exception.
\<close>

record ajax =
  aj_status :: int
  aj_statusText :: string
  aj_converts :: bool
  aj_response :: "string + wire"

text \<open>When jQuery counts a call as successful (\<open>done\<close> in \<open>jquery-2.1.4.js\<close>).\<close>

definition ajax_success :: "ajax \<Rightarrow> bool" where
  "ajax_success a =
     (let isSuccess = (200 \<le> aj_status a \<and> aj_status a < 300) \<or> aj_status a = 304
      in if isSuccess
         then (if aj_status a = 204 then True
               else if aj_status a = 304 then True
               else aj_converts a)
         else False)"

definition parseMultiSpanAjaxQueryResults :: "ajax list \<Rightarrow> string + span list" where
  "parseMultiSpanAjaxQueryResults ajaxCalls =
     map_sum_list
       (\<lambda>a. if aj_status a \<noteq> 200 then Inl (''ajax error: '' @ aj_statusText a)
            else (case aj_response a of
                    Inl e \<Rightarrow> Inl (''span parse error: '' @ e)
                  | Inr w \<Rightarrow> Inr (parse w)))
       ajaxCalls"

text \<open>\<open>sortSpansByBeginTime\<close> on an array of references.\<close>

definition begin_of :: "store \<Rightarrow> ref \<Rightarrow> jsnum" where
  "begin_of h r = sp_begin (span_at h r)"

definition end_of :: "store \<Rightarrow> ref \<Rightarrow> jsnum" where
  "end_of h r = sp_end (span_at h r)"

definition sortSpansByBeginTime :: "store \<Rightarrow> ref list \<Rightarrow> ref list" where
  "sortSpansByBeginTime h spans = sort_by (num_cmp (begin_of h)) spans"

section \<open>Reifying parents and children\<close>

definition reifyParents_urls :: "store \<Rightarrow> ref \<Rightarrow> string list" where
  "reifyParents_urls h r = map (\<lambda>p. ''span/'' @ p) (sp_parents (span_at h r))"

definition reifyChildren_url :: "store \<Rightarrow> ref \<Rightarrow> string" where
  "reifyChildren_url h r = ''span/'' @ sp_spanId (span_at h r) @ ''/children?lim=50''"

definition reifyChildren_urls :: "string list \<Rightarrow> string list" where
  "reifyChildren_urls childIds = map (\<lambda>c. ''span/'' @ c) childIds"

text \<open>The new models of a list of parsed spans, at the end of the store.\<close>

definition alloc :: "store \<Rightarrow> span list \<Rightarrow> store \<times> ref list" where
  "alloc h sps = (h @ sps, [length h ..< length h + length sps])"

text \<open>
  What happens when the answers to the queries for the parents are in. \<open>$.when(...).then(f)\<close> runs
  \<open>f\<close> only if every call succeeded; otherwise the promise of \<open>reifyParents\<close> is never resolved,
  which is the result \<open>None\<close>.
\<close>

definition reifyParents :: "store \<Rightarrow> ref \<Rightarrow> ajax list \<Rightarrow> store \<times> string option" where
  "reifyParents h r ajaxCalls =
     (if list_all ajax_success ajaxCalls
      then case parseMultiSpanAjaxQueryResults ajaxCalls of
             Inl e \<Rightarrow> (h, Some (''Error reifying parents for '' @ sp_spanId (span_at h r) @ '': '' @ e))
           | Inr sps \<Rightarrow>
               (let (h1, new) = alloc h sps;
                    new = sortSpansByBeginTime h1 new;
                    h2 = fold (\<lambda>p. set_span p (\<lambda>s. s\<lparr>sp_reifiedChildren := Some [r]\<rparr>)) new h1;
                    h3 = set_span r (\<lambda>s. s\<lparr>sp_reifiedParents := Some new\<rparr>) h2
                in (h3, Some ''''))
      else (h, None))"

text \<open>The answer to the query for the ids of the children: \<open>None\<close> is a failed call.\<close>

definition reifyChildren :: "store \<Rightarrow> ref \<Rightarrow> string list option \<Rightarrow> ajax list \<Rightarrow> store \<times> string option" where
  "reifyChildren h r childIds ajaxCalls =
     (case childIds of
        None \<Rightarrow>
          (h, Some (''Error querying children of '' @ sp_spanId (span_at h r) @ '': got [object Object]''))
      | Some _ \<Rightarrow>
          (if list_all ajax_success ajaxCalls
           then case parseMultiSpanAjaxQueryResults ajaxCalls of
                  Inl e \<Rightarrow> (h, Some (''Error reifying children '' @ ''for '' @ sp_spanId (span_at h r) @ '': '' @ e))
                | Inr sps \<Rightarrow>
                    (let (h1, new) = alloc h sps;
                         new = sortSpansByBeginTime h1 new;
                         h2 = fold (\<lambda>c. set_span c (\<lambda>s. s\<lparr>sp_reifiedParents := Some [r]\<rparr>)) new h1;
                         h3 = set_span r (\<lambda>s. s\<lparr>sp_reifiedChildren := Some new\<rparr>) h2
                     in (h3, Some ''''))
           else (h, None)))"

section \<open>The interval of a span and its reified relatives\<close>

definition getEarliestBegin :: "nat \<Rightarrow> store \<Rightarrow> ref \<Rightarrow> jsnum option" where
  "getEarliestBegin fuel h r =
     Option.bind
       (treeTraverseDepthFirstPre fuel (\<lambda>_. getReifiedParents h)
          (\<lambda>span depth earliestBegin. js_min earliestBegin (begin_of h span)) r 0 (begin_of h r))
       (\<lambda>earliestBegin.
          treeTraverseDepthFirstPre fuel (\<lambda>_. getReifiedChildren h)
            (\<lambda>span depth earliestBegin. js_min earliestBegin (begin_of h span)) r 0 earliestBegin)"

definition getLatestEnd :: "nat \<Rightarrow> store \<Rightarrow> ref \<Rightarrow> jsnum option" where
  "getLatestEnd fuel h r =
     Option.bind
       (treeTraverseDepthFirstPre fuel (\<lambda>_. getReifiedParents h)
          (\<lambda>span depth latestEnd. js_max latestEnd (end_of h span)) r 0 (end_of h r))
       (\<lambda>latestEnd.
          treeTraverseDepthFirstPre fuel (\<lambda>_. getReifiedChildren h)
            (\<lambda>span depth latestEnd. js_max latestEnd (end_of h span)) r 0 latestEnd)"

section \<open>The invariant of the store\<close>

definition edges :: "('n \<Rightarrow> 'n list) \<Rightarrow> ('n \<times> 'n) set" where
  "edges gd = {(a, b). b \<in> set (gd a)}"

definition closed_refs :: "store \<Rightarrow> bool" where
  "closed_refs h \<longleftrightarrow>
     (\<forall>r < length h. set (getReifiedParents h r) \<subseteq> {..<length h} \<and>
                     set (getReifiedChildren h r) \<subseteq> {..<length h})"

definition store_inv :: "store \<Rightarrow> bool" where
  "store_inv h \<longleftrightarrow>
     closed_refs h \<and> acyclic (edges (getReifiedParents h)) \<and> acyclic (edges (getReifiedChildren h))"

text \<open>The number of proper descendants of a node, which bounds the depth of the recursion.\<close>

definition descendants :: "('n \<Rightarrow> 'n list) \<Rightarrow> 'n \<Rightarrow> nat" where
  "descendants gd n = card {m. (n, m) \<in> (edges gd)\<^sup>+}"

lemma descendants_less:
  assumes "acyclic (edges gd)" "finite (edges gd)" "m \<in> set (gd n)"
  shows "descendants gd m < descendants gd n"
proof -
  let ?D = "\<lambda>n. {x. (n, x) \<in> (edges gd)\<^sup>+}"
  have e: "(n, m) \<in> edges gd" using assms(3) by (simp add: edges_def)
  have "?D n \<subseteq> Range (edges gd)" by (auto dest: trancl_range [THEN equalityD1, THEN subsetD, OF RangeI])
  then have fin: "finite (?D n)" using assms(2) by (auto intro: finite_subset finite_Range)
  have "?D m \<subseteq> ?D n" using e by (auto intro: trancl_into_trancl2)
  moreover have "m \<in> ?D n" using e by auto
  moreover have "m \<notin> ?D m" using assms(1) by (simp add: acyclic_def)
  ultimately have "?D m \<subset> ?D n" by auto
  with fin show ?thesis unfolding descendants_def by (rule psubset_card_mono)
qed

lemma span_at_new: "\<not> r < length h \<Longrightarrow> getReifiedParents h r = [] \<and> getReifiedChildren h r = []"
  by (simp add: getReifiedParents_def getReifiedChildren_def span_at_def new_span_def or_empty_def)

lemma finite_edges: "finite (edges (getReifiedParents h))" "finite (edges (getReifiedChildren h))"
proof -
  have "edges (getReifiedParents h) \<subseteq> (SIGMA a:{..<length h}. set (getReifiedParents h a))"
    "edges (getReifiedChildren h) \<subseteq> (SIGMA a:{..<length h}. set (getReifiedChildren h a))"
    using span_at_new by (auto simp: edges_def) force+
  then show "finite (edges (getReifiedParents h))" "finite (edges (getReifiedChildren h))"
    by (auto intro: finite_subset)
qed

lemma descendants_bound:
  assumes "closed_refs h"
  shows "descendants (getReifiedParents h) r \<le> length h" "descendants (getReifiedChildren h) r \<le> length h"
proof -
  have "(r, m) \<in> (edges gd)\<^sup>+ \<Longrightarrow> (\<And>a. set (gd a) \<subseteq> {..<length h}) \<Longrightarrow> m < length h" for gd m
    by (erule tranclE) (auto simp: edges_def)
  then have "{m. (r, m) \<in> (edges gd)\<^sup>+} \<subseteq> {..<length h}" if "\<And>a. set (gd a) \<subseteq> {..<length h}" for gd
    using that by blast
  then have card: "descendants gd r \<le> length h" if "\<And>a. set (gd a) \<subseteq> {..<length h}" for gd
    using that card_mono [of "{..<length h}" "{m. (r, m) \<in> (edges gd)\<^sup>+}"]
    by (simp add: descendants_def)
  have "set (getReifiedParents h a) \<subseteq> {..<length h} \<and> set (getReifiedChildren h a) \<subseteq> {..<length h}" for a
    using assms span_at_new [of a h] by (cases "a < length h") (auto simp: closed_refs_def)
  then show "descendants (getReifiedParents h) r \<le> length h"
    "descendants (getReifiedChildren h) r \<le> length h"
    using card by auto
qed

interpretation parents: navigation store_inv getReifiedParents "\<lambda>h. descendants (getReifiedParents h)"
  by unfold_locales (simp add: store_inv_def descendants_less finite_edges)

interpretation children: navigation store_inv getReifiedChildren "\<lambda>h. descendants (getReifiedChildren h)"
  by unfold_locales (simp add: store_inv_def descendants_less finite_edges)

text \<open>The same, for a callback that only accumulates a value and does not touch the store.\<close>

interpretation parents_ro: navigation "\<lambda>_. store_inv h" "\<lambda>_. getReifiedParents h"
    "\<lambda>_. descendants (getReifiedParents h)" for h
  by unfold_locales (simp add: store_inv_def descendants_less finite_edges)

interpretation children_ro: navigation "\<lambda>_. store_inv h" "\<lambda>_. getReifiedChildren h"
    "\<lambda>_. descendants (getReifiedChildren h)" for h
  by unfold_locales (simp add: store_inv_def descendants_less finite_edges)

lemma enough_fuel:
  "store_inv h \<Longrightarrow> length h < fuel \<Longrightarrow> descendants (getReifiedParents h) r < fuel"
  "store_inv h \<Longrightarrow> length h < fuel \<Longrightarrow> descendants (getReifiedChildren h) r < fuel"
  using descendants_bound [of h r] by (auto simp: store_inv_def)

end
