(* ===== verification/Span_Reify.thy ===== *)
theory Span_Reify
  imports Span_Store
begin

text \<open>
  Correctness of the operations of \<open>span.js\<close> on the store of spans: what fetching parents and
  children changes, that the store stays a pair of finite forests, that all traversals return, and
  what \<open>getEarliestBegin\<close> and \<open>getLatestEnd\<close> compute.
\<close>

section \<open>Reading and writing the store\<close>

lemma length_set_span [store_simps, simp]: "length (set_span r f h) = length h"
  by (simp add: set_span_def)

lemma span_at_set_span [store_simps]:
  "r < length h \<Longrightarrow> span_at (set_span r f h) x = (if x = r then f (span_at h r) else span_at h x)"
  by (auto simp: set_span_def span_at_def nth_list_update)

lemma length_fold_set_span [store_simps, simp]: "length (fold (\<lambda>p. set_span p f) ps h) = length h"
  by (induction ps arbitrary: h) auto

lemma span_at_fold_set_span [store_simps]:
  "distinct ps \<Longrightarrow> set ps \<subseteq> {..<length h} \<Longrightarrow>
     span_at (fold (\<lambda>p. set_span p f) ps h) x = (if x \<in> set ps then f (span_at h x) else span_at h x)"
  by (induction ps arbitrary: h) (auto simp: span_at_set_span)

lemma span_at_append [store_simps]:
  "span_at (h @ sps) x =
     (if x < length h then span_at h x
      else if x < length h + length sps then sps ! (x - length h) else new_span)"
  by (auto simp: span_at_def nth_append)

lemma or_empty_simps [store_simps, simp]: "or_empty (Some xs) = xs" "or_empty None = []"
  by (simp_all add: or_empty_def)

lemma span_at_beyond: "\<not> x < length h \<Longrightarrow> span_at h x = new_span"
  by (simp add: span_at_def)

lemma new_span_gets [store_simps, simp]:
  "sp_reifiedParents new_span = None" "sp_reifiedChildren new_span = None"
  by (simp_all add: new_span_def)

text \<open>Attaching new models to a span: the common part of \<open>reifyParents\<close> and \<open>reifyChildren\<close>.\<close>

definition attach ::
    "(ref \<Rightarrow> span \<Rightarrow> span) \<Rightarrow> (ref list \<Rightarrow> span \<Rightarrow> span) \<Rightarrow> store \<Rightarrow> ref \<Rightarrow> span list \<Rightarrow> store" where
  "attach f g h r sps =
     (let new = sortSpansByBeginTime (h @ sps) [length h ..< length h + length sps]
      in set_span r (g new) (fold (\<lambda>p. set_span p (f r)) new (h @ sps)))"

abbreviation new_refs :: "store \<Rightarrow> span list \<Rightarrow> ref list" where
  "new_refs h sps \<equiv> sortSpansByBeginTime (h @ sps) [length h ..< length h + length sps]"

lemma set_new_refs [simp]: "set (new_refs h sps) = {length h ..< length h + length sps}"
  by (simp add: sortSpansByBeginTime_def)

lemma distinct_new_refs [simp]: "distinct (new_refs h sps)"
  by (metis distinct_upt mset_eq_imp_distinct_iff mset_sort_by sortSpansByBeginTime_def)

lemma length_attach [store_simps, simp]: "length (attach f g h r sps) = length h + length sps"
  by (simp add: attach_def Let_def)

lemma span_at_attach [store_simps]:
  assumes "r < length h"
  shows "span_at (attach f g h r sps) x =
    (if x = r then g (new_refs h sps) (span_at h r)
     else if x < length h then span_at h x
     else if x < length h + length sps then f r (sps ! (x - length h)) else new_span)"
proof -
  have "span_at (fold (\<lambda>p. set_span p (f r)) (new_refs h sps) (h @ sps)) y =
      (if y \<in> set (new_refs h sps) then f r (span_at (h @ sps) y) else span_at (h @ sps) y)" for y
    by (rule span_at_fold_set_span) auto
  then show ?thesis
    using assms by (auto simp: attach_def Let_def span_at_set_span span_at_append)
qed

lemma reifyParents_cases:
  "reifyParents h r calls =
     (if list_all ajax_success calls
      then case parseMultiSpanAjaxQueryResults calls of
             Inl e \<Rightarrow> (h, Some (''Error reifying parents for '' @ sp_spanId (span_at h r) @ '': '' @ e))
           | Inr sps \<Rightarrow> (attach (\<lambda>r s. s\<lparr>sp_reifiedChildren := Some [r]\<rparr>)
                                (\<lambda>new s. s\<lparr>sp_reifiedParents := Some new\<rparr>) h r sps, Some [])
      else (h, None))"
  by (simp add: reifyParents_def attach_def alloc_def Let_def split: sum.split)

lemma reifyChildren_cases:
  "reifyChildren h r (Some ids) calls =
     (if list_all ajax_success calls
      then case parseMultiSpanAjaxQueryResults calls of
             Inl e \<Rightarrow> (h, Some (''Error reifying children for '' @ sp_spanId (span_at h r) @ '': '' @ e))
           | Inr sps \<Rightarrow> (attach (\<lambda>r s. s\<lparr>sp_reifiedParents := Some [r]\<rparr>)
                                (\<lambda>new s. s\<lparr>sp_reifiedChildren := Some new\<rparr>) h r sps, Some [])
      else (h, None))"
  by (simp add: reifyChildren_def attach_def alloc_def Let_def split: sum.split)

section \<open>The forests\<close>

lemma acyclic_by_rank:
  fixes f :: "'n \<Rightarrow> nat"
  assumes "\<And>a b. (a, b) \<in> E \<Longrightarrow> f b < f a"
  shows "acyclic E"
proof -
  have "(a, b) \<in> E\<^sup>+ \<Longrightarrow> f b < f a" for a b
    by (induction rule: trancl_induct) (auto dest!: assms)
  then show ?thesis by (fastforce simp: acyclic_def)
qed

text \<open>New sinks below one node, or new sources above it, keep a forest a forest.\<close>

lemma forest_new_sinks:
  assumes "acyclic (edges gd)" "finite (edges gd)" "r \<notin> N"
    and gd': "\<And>x. gd' x = (if x = r then ns else if x \<in> N then [] else gd x)"
    and N: "set ns \<subseteq> N" "\<And>a. set (gd a) \<inter> N = {}"
  shows "acyclic (edges gd')"
proof (rule acyclic_by_rank [where f = "\<lambda>x. if x \<in> N then 0 else Suc (descendants gd x)"])
  fix a b assume "(a, b) \<in> edges gd'"
  then have b: "b \<in> set (gd' a)" by (simp add: edges_def)
  then have a: "a \<notin> N" using gd' [of a] assms(3) by (auto split: if_splits)
  show "(if b \<in> N then 0 else Suc (descendants gd b)) < (if a \<in> N then 0 else Suc (descendants gd a))"
  proof (cases "a = r")
    case True
    with b gd' N(1) a show ?thesis by auto
  next
    case False
    with b gd' a have "b \<in> set (gd a)" by auto
    with a N(2) [of a] descendants_less [OF assms(1,2)] show ?thesis by auto
  qed
qed

lemma forest_new_sources:
  assumes "acyclic (edges gd)" "finite (edges gd)" "r \<notin> N"
    and gd': "\<And>x. gd' x = (if x \<in> N then [r] else gd x)"
    and N: "\<And>a. set (gd a) \<inter> N = {}"
  shows "acyclic (edges gd')"
proof (rule acyclic_by_rank [where f = "\<lambda>x. if x \<in> N then Suc (descendants gd r) else descendants gd x"])
  fix a b assume "(a, b) \<in> edges gd'"
  then have b: "b \<in> set (gd' a)" by (simp add: edges_def)
  show "(if b \<in> N then Suc (descendants gd r) else descendants gd b)
      < (if a \<in> N then Suc (descendants gd r) else descendants gd a)"
  proof (cases "a \<in> N")
    case True
    with b gd' assms(3) show ?thesis by auto
  next
    case False
    with b gd' have "b \<in> set (gd a)" by auto
    with False N [of a] descendants_less [OF assms(1,2)] show ?thesis by auto
  qed
qed

lemma closed_refsD:
  assumes "closed_refs h"
  shows "set (getReifiedParents h a) \<subseteq> {..<length h}" "set (getReifiedChildren h a) \<subseteq> {..<length h}"
  using assms span_at_new [of a h] by (cases "a < length h"; auto simp: closed_refs_def)+

lemma closed_refs_more:
  assumes "closed_refs h"
  shows "b \<in> set (getReifiedParents h a) \<Longrightarrow> b < length h + k"
    "b \<in> set (getReifiedChildren h a) \<Longrightarrow> b < length h + k"
  using closed_refsD [OF assms, of a] by auto

definition fresh_span :: "span \<Rightarrow> bool" where
  "fresh_span sp \<longleftrightarrow> or_empty (sp_reifiedParents sp) = [] \<and> or_empty (sp_reifiedChildren sp) = []"

lemma fresh_parse [simp]: "fresh_span (parse w)"
  by (simp add: fresh_span_def parse_infos or_empty_def)

lemma parseMulti_fresh:
  assumes "parseMultiSpanAjaxQueryResults calls = Inr sps"
  shows "\<forall>sp\<in>set sps. fresh_span sp"
  using map_sum_list_InrD [OF assms [unfolded parseMultiSpanAjaxQueryResults_def]]
  by (induction rule: list_all2_induct) (auto split: if_splits sum.splits)

lemma closed_refsI:
  assumes "\<And>a. set (getReifiedParents h a) \<subseteq> {..<length h}" "\<And>a. set (getReifiedChildren h a) \<subseteq> {..<length h}"
  shows "closed_refs h"
  using assms by (simp add: closed_refs_def)


lemma attach_parents_gets:
  assumes "r < length h" "\<forall>sp\<in>set sps. fresh_span sp"
  shows "getReifiedParents (attach (\<lambda>r s. s\<lparr>sp_reifiedChildren := Some [r]\<rparr>)
        (\<lambda>new s. s\<lparr>sp_reifiedParents := Some new\<rparr>) h r sps) x
      = (if x = r then new_refs h sps
         else if x \<in> {length h ..< length h + length sps} then [] else getReifiedParents h x)"
    "getReifiedChildren (attach (\<lambda>r s. s\<lparr>sp_reifiedChildren := Some [r]\<rparr>)
        (\<lambda>new s. s\<lparr>sp_reifiedParents := Some new\<rparr>) h r sps) x
      = (if x \<in> {length h ..< length h + length sps} then [r] else getReifiedChildren h x)"
  using assms
  by (auto simp: getReifiedParents_def getReifiedChildren_def span_at_attach fresh_span_def span_at_beyond)

lemma attach_children_gets:
  assumes "r < length h" "\<forall>sp\<in>set sps. fresh_span sp"
  shows "getReifiedChildren (attach (\<lambda>r s. s\<lparr>sp_reifiedParents := Some [r]\<rparr>)
        (\<lambda>new s. s\<lparr>sp_reifiedChildren := Some new\<rparr>) h r sps) x
      = (if x = r then new_refs h sps
         else if x \<in> {length h ..< length h + length sps} then [] else getReifiedChildren h x)"
    "getReifiedParents (attach (\<lambda>r s. s\<lparr>sp_reifiedParents := Some [r]\<rparr>)
        (\<lambda>new s. s\<lparr>sp_reifiedChildren := Some new\<rparr>) h r sps) x
      = (if x \<in> {length h ..< length h + length sps} then [r] else getReifiedParents h x)"
  using assms
  by (auto simp: getReifiedParents_def getReifiedChildren_def span_at_attach fresh_span_def span_at_beyond)

lemma new_not_referenced:
  assumes "closed_refs h"
  shows "set (getReifiedParents h a) \<inter> {length h ..< length h + k} = {}"
    "set (getReifiedChildren h a) \<inter> {length h ..< length h + k} = {}"
  using closed_refsD [OF assms] by fastforce+

lemma store_inv_attach_parents:
  assumes inv: "store_inv h" and r: "r < length h" and sps: "\<forall>sp\<in>set sps. fresh_span sp"
  shows "store_inv (attach (\<lambda>r s. s\<lparr>sp_reifiedChildren := Some [r]\<rparr>)
           (\<lambda>new s. s\<lparr>sp_reifiedParents := Some new\<rparr>) h r sps)" (is "store_inv ?h")
proof -
  let ?N = "{length h ..< length h + length sps}"
  have cl: "closed_refs h" and acy: "acyclic (edges (getReifiedParents h))" "acyclic (edges (getReifiedChildren h))"
    using inv by (auto simp: store_inv_def)
  have "acyclic (edges (getReifiedParents ?h))"
    by (rule forest_new_sinks [OF acy(1) finite_edges(1), where N = ?N and r = r])
      (use r sps new_not_referenced(1) [OF cl] attach_parents_gets(1) [OF r sps] in auto)
  moreover have "acyclic (edges (getReifiedChildren ?h))"
    by (rule forest_new_sources [OF acy(2) finite_edges(2), where N = ?N and r = r])
      (use r sps new_not_referenced(2) [OF cl] attach_parents_gets(2) [OF r sps] in auto)
  moreover have "closed_refs ?h"
    by (rule closed_refsI) (use r closed_refs_more [OF cl] in \<open>auto simp: attach_parents_gets [OF r sps]\<close>)
  ultimately show ?thesis by (simp add: store_inv_def)
qed

lemma store_inv_attach_children:
  assumes inv: "store_inv h" and r: "r < length h" and sps: "\<forall>sp\<in>set sps. fresh_span sp"
  shows "store_inv (attach (\<lambda>r s. s\<lparr>sp_reifiedParents := Some [r]\<rparr>)
           (\<lambda>new s. s\<lparr>sp_reifiedChildren := Some new\<rparr>) h r sps)" (is "store_inv ?h")
proof -
  let ?N = "{length h ..< length h + length sps}"
  have cl: "closed_refs h" and acy: "acyclic (edges (getReifiedParents h))" "acyclic (edges (getReifiedChildren h))"
    using inv by (auto simp: store_inv_def)
  have "acyclic (edges (getReifiedChildren ?h))"
    by (rule forest_new_sinks [OF acy(2) finite_edges(2), where N = ?N and r = r])
      (use r sps new_not_referenced(2) [OF cl] attach_children_gets(1) [OF r sps] in auto)
  moreover have "acyclic (edges (getReifiedParents ?h))"
    by (rule forest_new_sources [OF acy(1) finite_edges(1), where N = ?N and r = r])
      (use r sps new_not_referenced(1) [OF cl] attach_children_gets(2) [OF r sps] in auto)
  moreover have "closed_refs ?h"
    by (rule closed_refsI) (use r closed_refs_more [OF cl] in \<open>auto simp: attach_children_gets [OF r sps]\<close>)
  ultimately show ?thesis by (simp add: store_inv_def)
qed

lemma store_inv_reifyParents:
  "store_inv h \<Longrightarrow> r < length h \<Longrightarrow> store_inv (fst (reifyParents h r calls))"
  by (auto simp: reifyParents_cases store_inv_attach_parents parseMulti_fresh split: sum.split)

lemma store_inv_reifyChildren:
  "store_inv h \<Longrightarrow> r < length h \<Longrightarrow> store_inv (fst (reifyChildren h r ids calls))"
  by (cases ids)
    (auto simp: reifyChildren_cases reifyChildren_def [of _ _ None] store_inv_attach_children
      parseMulti_fresh split: sum.split)

text \<open>Search results enter the store as new models.\<close>

lemma store_inv_append:
  assumes inv: "store_inv h" and sps: "\<forall>sp\<in>set sps. fresh_span sp"
  shows "store_inv (h @ sps)"
proof -
  have p: "getReifiedParents (h @ sps) = getReifiedParents h"
    and c: "getReifiedChildren (h @ sps) = getReifiedChildren h"
    using sps by (auto simp: fun_eq_iff getReifiedParents_def getReifiedChildren_def span_at_append
        fresh_span_def span_at_beyond)
  have "closed_refs h" using inv by (simp add: store_inv_def)
  then have "closed_refs (h @ sps)"
    by (intro closed_refsI) (use closed_refs_more [of h] in \<open>auto simp: p c\<close>)
  then show ?thesis using inv by (simp add: store_inv_def p c)
qed

lemma store_inv_Nil: "store_inv []"
  by (simp add: store_inv_def closed_refs_def edges_def getReifiedParents_def getReifiedChildren_def
      span_at_def new_span_def or_empty_def acyclic_def)

text \<open>Selecting a span touches neither relation.\<close>

definition select_span :: "bool \<Rightarrow> ref \<Rightarrow> store \<Rightarrow> store" where
  "select_span b r = set_span r (\<lambda>s. s\<lparr>sp_selected := b\<rparr>)"

lemma span_at_select [store_simps]:
  "span_at (select_span b r h) x =
     (if x = r \<and> r < length h then (span_at h r)\<lparr>sp_selected := b\<rparr> else span_at h x)"
proof (cases "r < length h")
  case True
  then show ?thesis by (simp add: select_span_def span_at_set_span)
next
  case False
  then show ?thesis by (simp add: select_span_def set_span_def list_update_beyond)
qed

lemma length_select_span [store_simps, simp]: "length (select_span b r h) = length h"
  by (simp add: select_span_def)

lemma select_span_gets [store_simps, simp]:
  "getReifiedParents (select_span b r h) = getReifiedParents h"
  "getReifiedChildren (select_span b r h) = getReifiedChildren h"
  "begin_of (select_span b r h) = begin_of h"
  "end_of (select_span b r h) = end_of h"
  by (auto simp: fun_eq_iff getReifiedParents_def getReifiedChildren_def begin_of_def end_of_def span_at_select)

lemma store_inv_select [simp]: "store_inv (select_span b r h) = store_inv h"
  by (simp add: store_inv_def closed_refs_def)

end
