(* ===== verification/Span_Props.thy ===== *)
theory Span_Props
  imports Span_Reify
begin

text \<open>
  The properties of the span store and of the traversals of \<open>tree.js\<close> over it, for every store
  that the viewer can build: search results arrive, parents and children are fetched in any order
  and any number of times, with any answers of the server, and spans are selected.
\<close>

inductive store_step :: "store \<Rightarrow> store \<Rightarrow> bool" where
  results: "store_step h (h @ map parse ws)"
| reify_parents: "r < length h \<Longrightarrow> store_step h (fst (reifyParents h r calls))"
| reify_children: "r < length h \<Longrightarrow> store_step h (fst (reifyChildren h r ids calls))"
| select: "store_step h (select_span b r h)"

inductive reachable_store :: "store \<Rightarrow> bool" where
  empty: "reachable_store []"
| step: "reachable_store h \<Longrightarrow> store_step h h' \<Longrightarrow> reachable_store h'"

lemma store_step_inv: "store_step h h' \<Longrightarrow> store_inv h \<Longrightarrow> store_inv h'"
  by (induction rule: store_step.induct)
    (auto simp: store_inv_reifyParents store_inv_reifyChildren intro!: store_inv_append)

lemma reachable_inv: "reachable_store h \<Longrightarrow> store_inv h"
  by (induction rule: reachable_store.induct) (auto simp: store_inv_Nil store_step_inv)

text \<open>An example: a result with one parent, which is then fetched.\<close>

definition wire0 :: "string \<Rightarrow> string list \<Rightarrow> rat \<Rightarrow> rat \<Rightarrow> wire" where
  "wire0 s p b e =
     \<lparr>w_s = Some s, w_i = None, w_r = None, w_p = Some p, w_d = None,
      w_b = Some (WNum (Num b)), w_e = Some (WNum (Num e)), w_t = None, w_n = None\<rparr>"

definition ok_call :: "wire \<Rightarrow> ajax" where
  "ok_call w = \<lparr>aj_status = 200, aj_statusText = ''OK'', aj_converts = True, aj_response = Inr w\<rparr>"

definition example_store :: store where
  "example_store = fst (reifyParents [parse (wire0 ''a1'' [''a0''] 20 30)] 0 [ok_call (wire0 ''a0'' [] 10 40)])"

lemma example_reachable: "reachable_store example_store"
proof -
  have "reachable_store [parse (wire0 ''a1'' [''a0''] 20 30)]"
    using reachable_store.step [OF reachable_store.empty store_step.results [of "[]" "[wire0 ''a1'' [''a0''] 20 30]"]]
    by simp
  then show ?thesis
    unfolding example_store_def
    by (rule reachable_store.step [OF _ store_step.reify_parents]) simp_all
qed

lemma example_store_eq:
  "example_store =
     [(parse (wire0 ''a1'' [''a0''] 20 30))\<lparr>sp_reifiedParents := Some [1]\<rparr>,
      (parse (wire0 ''a0'' [] 10 40))\<lparr>sp_reifiedChildren := Some [0]\<rparr>]"
  by (simp add: example_store_def reifyParents_def ok_call_def ajax_success_def Let_def alloc_def
      parseMultiSpanAjaxQueryResults_def sortSpansByBeginTime_def set_span_def span_at_def)

lemma length_example_store [simp]: "length example_store = 2"
  by (simp add: example_store_eq)

lemma ok_calls: "list_all ajax_success (map ok_call ws)"
  "parseMultiSpanAjaxQueryResults (map ok_call ws) = Inr (map parse ws)"
  by (induction ws) (simp_all add: ok_call_def ajax_success_def parseMultiSpanAjaxQueryResults_def)

section \<open>Properties\<close>

text \<open>C2: whatever the user fetches and the server answers, the references of the viewer's spans stay
  valid, and both the parent links and the child links stay free of cycles (even when the trace
  itself is cyclic).\<close>

theorem store_stays_forest:
  assumes "reachable_store h"
  shows "acyclic {(a, b). b \<in> set (getReifiedParents h a)} \<and>
    acyclic {(a, b). b \<in> set (getReifiedChildren h a)} \<and>
    (\<forall>a b. b \<in> set (getReifiedParents h a) \<union> set (getReifiedChildren h a) \<longrightarrow> b < length h)"
  using reachable_inv [OF assms] closed_refsD [of h] by (fastforce simp: store_inv_def edges_def)

theorem store_stays_forest_witness:
  "reachable_store example_store \<and> acyclic {(a, b). b \<in> set (getReifiedParents example_store a)}"
  using store_stays_forest [OF example_reachable] example_reachable by simp

text \<open>C26: every traversal of the viewer returns: with a call stack deeper than the number of spans,
  the height and both traversals of the parents and of the children of any span give a result, for
  every callback.\<close>

theorem traversals_return:
  assumes "reachable_store h" and "length h < fuel"
    and "gd = getReifiedParents h \<or> gd = getReifiedChildren h"
  shows "treeHeight fuel gd r \<noteq> None
    \<and> treeTraverseDepthFirstPre fuel (\<lambda>_. gd) cb r d s \<noteq> None
    \<and> treeTraverseDepthFirstPost fuel (\<lambda>_. gd) cb r d s \<noteq> None"
proof -
  note inv = reachable_inv [OF assms(1)]
  have k: "parents_ro.keeps h cb" "children_ro.keeps h cb"
    by (simp_all add: parents_ro.keeps_def children_ro.keeps_def)
  show ?thesis
    using assms(3) enough_fuel [OF inv assms(2), of r]
      parents_ro.height_is_max [OF inv] children_ro.height_is_max [OF inv]
      parents_ro.pre_is_fold [OF k(1) inv] children_ro.pre_is_fold [OF k(2) inv]
      parents_ro.post_is_fold [OF k(1) inv] children_ro.post_is_fold [OF k(2) inv]
    by auto
qed

theorem traversals_return_witness:
  "treeHeight 3 (getReifiedParents example_store) 0 \<noteq> None"
  using traversals_return [OF example_reachable, of 3 "getReifiedParents example_store" 0 "\<lambda>n d s. s" 0 "()"]
  by simp



text \<open>\<open>treeHeight\<close> is the number of edges on a longest path down from the node.\<close>

theorem treeHeight_longest_path:
  assumes "reachable_store h" and "length h < fuel"
    and "gd = getReifiedParents h \<or> gd = getReifiedChildren h"
  shows "\<exists>k. treeHeight fuel gd r = Some k
    \<and> (\<exists>m. (r, m) \<in> {(a, b). b \<in> set (gd a)} ^^ k)
    \<and> (\<forall>j m. (r, m) \<in> {(a, b). b \<in> set (gd a)} ^^ j \<longrightarrow> j \<le> k)"
  using assms(3) reachable_inv [OF assms(1)] enough_fuel [OF reachable_inv [OF assms(1)] assms(2), of r]
    parents_ro.height_longest_path children_ro.height_longest_path by blast

theorem treeHeight_longest_path_witness:
  "\<exists>k. treeHeight 3 (getReifiedParents example_store) 0 = Some k
    \<and> (\<forall>j m. (0, m) \<in> {(a, b). b \<in> set (getReifiedParents example_store a)} ^^ j \<longrightarrow> j \<le> k)"
  using treeHeight_longest_path [OF example_reachable, of 3 "getReifiedParents example_store" 0]
  by auto

section \<open>The interval covered by a span and its relatives\<close>

definition relatives :: "store \<Rightarrow> ref \<Rightarrow> ref set" where
  "relatives h r =
     {m. (r, m) \<in> {(a, b). b \<in> set (getReifiedParents h a)}\<^sup>*}
   \<union> {m. (r, m) \<in> {(a, b). b \<in> set (getReifiedChildren h a)}\<^sup>*}"

lemma fold_js_min_refs:
  assumes "\<forall>(m, e)\<in>set xs. is_num (f m)"
  shows "fold (\<lambda>(m, e) acc. js_min acc (f m)) xs (Num a)
       = Num (Min (insert a ((\<lambda>m. num_val (f m)) ` fst ` set xs)))"
proof -
  have "fold (\<lambda>(m, e) acc. js_min acc (f m)) xs (Num a)
      = fold (\<lambda>x acc. js_min acc (Num ((\<lambda>(m, e). num_val (f m)) x))) xs (Num a)"
    using assms by (intro fold_cong) (auto simp: is_num_iff fun_eq_iff)
  also have "\<dots> = Num (Min (insert a ((\<lambda>(m, e). num_val (f m)) ` set xs)))"
    by (rule fold_js_min_nums)
  also have "(\<lambda>(m, e). num_val (f m)) ` set xs = (\<lambda>m. num_val (f m)) ` fst ` set xs"
    by (simp add: image_image case_prod_beta)
  finally show ?thesis .
qed

lemma fold_js_max_refs:
  assumes "\<forall>(m, e)\<in>set xs. is_num (f m)"
  shows "fold (\<lambda>(m, e) acc. js_max acc (f m)) xs (Num a)
       = Num (Max (insert a ((\<lambda>m. num_val (f m)) ` fst ` set xs)))"
proof -
  have "fold (\<lambda>(m, e) acc. js_max acc (f m)) xs (Num a)
      = fold (\<lambda>x acc. js_max acc (Num ((\<lambda>(m, e). num_val (f m)) x))) xs (Num a)"
    using assms by (intro fold_cong) (auto simp: is_num_iff fun_eq_iff)
  also have "\<dots> = Num (Max (insert a ((\<lambda>(m, e). num_val (f m)) ` set xs)))"
    by (rule fold_js_max_nums)
  also have "(\<lambda>(m, e). num_val (f m)) ` set xs = (\<lambda>m. num_val (f m)) ` fst ` set xs"
    by (simp add: image_image case_prod_beta)
  finally show ?thesis .
qed

lemma relatives_visited:
  assumes "store_inv h"
  shows "relatives h r =
    fst ` set (pre_nodes (descendants (getReifiedParents h) r) (getReifiedParents h) r 0)
    \<union> fst ` set (pre_nodes (descendants (getReifiedChildren h) r) (getReifiedChildren h) r 0)"
  unfolding relatives_def
  using parents_ro.pre_nodes_nodes [OF assms order_refl] children_ro.pre_nodes_nodes [OF assms order_refl]
  by simp

lemma relatives_finite: "store_inv h \<Longrightarrow> finite (relatives h r)" and relatives_self: "r \<in> relatives h r"
  by (simp add: relatives_visited) (simp add: relatives_def)

lemma Min_insert_Min_Un: "finite A \<Longrightarrow> finite C \<Longrightarrow> Min (insert (Min (insert a A)) C) = Min (insert a A \<union> C)"
  for a :: rat
  by (cases "C = {}") (simp_all add: Min_Un del: Un_insert_left Min_insert2)

lemma Max_insert_Max_Un: "finite A \<Longrightarrow> finite C \<Longrightarrow> Max (insert (Max (insert a A)) C) = Max (insert a A \<union> C)"
  for a :: rat
  by (cases "C = {}") (simp_all add: Max_Un del: Un_insert_left Max_insert2)

lemma earliest_begin_eq:
  assumes inv: "store_inv h" and fuel: "length h < fuel" and nums: "\<forall>m\<in>relatives h r. is_num (begin_of h m)"
  shows "getEarliestBegin fuel h r = Some (Num (Min ((\<lambda>m. num_val (begin_of h m)) ` relatives h r)))"
proof -
  let ?P = "pre_nodes (descendants (getReifiedParents h) r) (getReifiedParents h) r 0"
  let ?C = "pre_nodes (descendants (getReifiedChildren h) r) (getReifiedChildren h) r 0"
  let ?f = "\<lambda>m. num_val (begin_of h m)"
  let ?cb = "\<lambda>span (depth::nat) acc. js_min acc (begin_of h span)"
  have k: "parents_ro.keeps h ?cb" "children_ro.keeps h ?cb"
    by (simp_all add: parents_ro.keeps_def children_ro.keeps_def)
  have n: "\<forall>(m, e)\<in>set ?P. is_num (begin_of h m)" "\<forall>(m, e)\<in>set ?C. is_num (begin_of h m)"
    using nums by (force simp: relatives_visited [OF inv])+
  obtain a where b: "begin_of h r = Num a" using nums relatives_self is_num_iff by blast
  then have a: "?f r = a" by simp
  have "treeTraverseDepthFirstPre fuel (\<lambda>_. getReifiedParents h) ?cb r 0 (Num a)
      = Some (Num (Min (insert a (?f ` fst ` set ?P))))"
    unfolding parents_ro.pre_is_fold [OF k(1) inv enough_fuel(1) [OF inv fuel]]
    by (rule arg_cong [where f = Some], rule fold_js_min_refs [OF n(1)])
  moreover have "treeTraverseDepthFirstPre fuel (\<lambda>_. getReifiedChildren h) ?cb r 0 (Num c)
      = Some (Num (Min (insert c (?f ` fst ` set ?C))))" for c
    unfolding children_ro.pre_is_fold [OF k(2) inv enough_fuel(2) [OF inv fuel]]
    by (rule arg_cong [where f = Some], rule fold_js_min_refs [OF n(2)])
  ultimately have "getEarliestBegin fuel h r = Some (Num (Min (insert (Min (insert a (?f ` fst ` set ?P))) (?f ` fst ` set ?C))))"
    by (simp only: getEarliestBegin_def b Option.bind.simps)
  also have "Min (insert (Min (insert a (?f ` fst ` set ?P))) (?f ` fst ` set ?C))
      = Min (insert a (?f ` fst ` set ?P) \<union> ?f ` fst ` set ?C)"
    by (rule Min_insert_Min_Un) simp_all
  also have "insert a (?f ` fst ` set ?P) \<union> ?f ` fst ` set ?C = ?f ` relatives h r"
    using relatives_self [of r h] a unfolding relatives_visited [OF inv] image_Un by blast
  finally show ?thesis .
qed

lemma latest_end_eq:
  assumes inv: "store_inv h" and fuel: "length h < fuel" and nums: "\<forall>m\<in>relatives h r. is_num (end_of h m)"
  shows "getLatestEnd fuel h r = Some (Num (Max ((\<lambda>m. num_val (end_of h m)) ` relatives h r)))"
proof -
  let ?P = "pre_nodes (descendants (getReifiedParents h) r) (getReifiedParents h) r 0"
  let ?C = "pre_nodes (descendants (getReifiedChildren h) r) (getReifiedChildren h) r 0"
  let ?f = "\<lambda>m. num_val (end_of h m)"
  let ?cb = "\<lambda>span (depth::nat) acc. js_max acc (end_of h span)"
  have k: "parents_ro.keeps h ?cb" "children_ro.keeps h ?cb"
    by (simp_all add: parents_ro.keeps_def children_ro.keeps_def)
  have n: "\<forall>(m, e)\<in>set ?P. is_num (end_of h m)" "\<forall>(m, e)\<in>set ?C. is_num (end_of h m)"
    using nums by (force simp: relatives_visited [OF inv])+
  obtain a where b: "end_of h r = Num a" using nums relatives_self is_num_iff by blast
  then have a: "?f r = a" by simp
  have "treeTraverseDepthFirstPre fuel (\<lambda>_. getReifiedParents h) ?cb r 0 (Num a)
      = Some (Num (Max (insert a (?f ` fst ` set ?P))))"
    unfolding parents_ro.pre_is_fold [OF k(1) inv enough_fuel(1) [OF inv fuel]]
    by (rule arg_cong [where f = Some], rule fold_js_max_refs [OF n(1)])
  moreover have "treeTraverseDepthFirstPre fuel (\<lambda>_. getReifiedChildren h) ?cb r 0 (Num c)
      = Some (Num (Max (insert c (?f ` fst ` set ?C))))" for c
    unfolding children_ro.pre_is_fold [OF k(2) inv enough_fuel(2) [OF inv fuel]]
    by (rule arg_cong [where f = Some], rule fold_js_max_refs [OF n(2)])
  ultimately have "getLatestEnd fuel h r = Some (Num (Max (insert (Max (insert a (?f ` fst ` set ?P))) (?f ` fst ` set ?C))))"
    by (simp only: getLatestEnd_def b Option.bind.simps)
  also have "Max (insert (Max (insert a (?f ` fst ` set ?P))) (?f ` fst ` set ?C))
      = Max (insert a (?f ` fst ` set ?P) \<union> ?f ` fst ` set ?C)"
    by (rule Max_insert_Max_Un) simp_all
  also have "insert a (?f ` fst ` set ?P) \<union> ?f ` fst ` set ?C = ?f ` relatives h r"
    using relatives_self [of r h] a unfolding relatives_visited [OF inv] image_Un by blast
  finally show ?thesis .
qed

text \<open>The interval that the zoom uses for a search result runs from the earliest begin to the
  latest end of the span, its reified ancestors and its reified descendants.\<close>

theorem span_interval:
  assumes "reachable_store h" and "length h < fuel"
    and "\<forall>m\<in>relatives h r. is_num (begin_of h m) \<and> is_num (end_of h m)"
  shows "getEarliestBegin fuel h r = Some (Num (Min ((\<lambda>m. num_val (begin_of h m)) ` relatives h r)))
    \<and> getLatestEnd fuel h r = Some (Num (Max ((\<lambda>m. num_val (end_of h m)) ` relatives h r)))"
  using earliest_begin_eq [OF reachable_inv [OF assms(1)] assms(2)]
    latest_end_eq [OF reachable_inv [OF assms(1)] assms(2)] assms(3) by blast

lemma relatives_bound:
  assumes "closed_refs h" "r < length h" "m \<in> relatives h r"
  shows "m < length h"
proof -
  have "(r, m) \<in> {(a, b). b \<in> set (gd a)}\<^sup>* \<Longrightarrow> m < length h" if "\<And>a. set (gd a) \<subseteq> {..<length h}" for gd
    by (induction rule: rtrancl_induct) (use assms(2) that in auto)
  then show ?thesis
    using assms(3) closed_refsD [OF assms(1)] unfolding relatives_def by blast
qed

theorem span_interval_witness:
  "getEarliestBegin 3 example_store 0 =
     Some (Num (Min ((\<lambda>m. num_val (begin_of example_store m)) ` relatives example_store 0)))"
proof -
  have "closed_refs example_store"
    using reachable_inv [OF example_reachable] by (simp add: store_inv_def)
  then have lt: "m < 2" if "m \<in> relatives example_store 0" for m
    using relatives_bound [of example_store 0 m] that by simp
  have "is_num (begin_of example_store 0)" "is_num (end_of example_store 0)"
    "is_num (begin_of example_store 1)" "is_num (end_of example_store 1)"
    by (simp_all add: begin_of_def end_of_def span_at_def example_store_eq parse_def Let_def wire0_def
        parse_time_def)
  then have "\<forall>m\<in>relatives example_store 0. is_num (begin_of example_store m) \<and> is_num (end_of example_store m)"
    using lt by (auto dest!: lt simp: less_2_cases_iff)
  then show ?thesis
    using span_interval [OF example_reachable, of 3 0] by simp
qed

section \<open>Fetching relatives\<close>

lemma mset_map_new_refs:
  "mset (map (\<lambda>x. F (sps ! (x - length h))) (new_refs h sps)) = mset (map F sps)"
proof -
  have "mset (map (\<lambda>x. F (sps ! (x - length h))) (new_refs h sps))
      = mset (map (\<lambda>x. F (sps ! (x - length h))) [length h ..< length h + length sps])"
    by (simp add: sortSpansByBeginTime_def)
  also have "map (\<lambda>x. F (sps ! (x - length h))) [length h ..< length h + length sps] = map F sps"
    by (rule nth_equalityI) simp_all
  finally show ?thesis .
qed

lemma attach_correct:
  assumes r: "r < length h" and nums: "\<forall>sp\<in>set sps. is_num (sp_begin sp)"
    and f: "\<And>s. sp_begin (f r s) = sp_begin s" and h': "h' = attach f g h r sps"
  shows "span_at h' r = g (new_refs h sps) (span_at h r)"
    "set (new_refs h sps) \<inter> {..<length h} = {}"
    "mset (map (span_at h') (new_refs h sps)) = mset (map (f r) sps)"
    "sorted (map (num_val \<circ> begin_of h') (new_refs h sps))"
    "\<forall>x < length h. x \<noteq> r \<longrightarrow> span_at h' x = span_at h x"
proof -
  let ?ps = "new_refs h sps"
  have ps: "x \<in> set ?ps \<longleftrightarrow> length h \<le> x \<and> x < length h + length sps" for x
    by (simp only: set_new_refs) auto
  have new: "span_at h' x = f r (sps ! (x - length h))" if "x \<in> set ?ps" for x
    using that r unfolding ps by (auto simp: h' span_at_attach)
  have "map (span_at h') ?ps = map (\<lambda>x. f r (sps ! (x - length h))) ?ps"
    using new by (rule map_cong [OF refl])
  then show "mset (map (span_at h') ?ps) = mset (map (f r) sps)"
    using mset_map_new_refs [of "f r" sps h] by (simp only:)
  have b: "begin_of h' x = begin_of (h @ sps) x" if "x \<in> set ?ps" for x
    using that new [OF that] f unfolding ps by (auto simp: begin_of_def span_at_append)
  have "\<forall>x\<in>set [length h ..< length h + length sps]. is_num (begin_of (h @ sps) x)"
    using nums by (auto simp: begin_of_def span_at_append)
  then have "sorted (map (num_val \<circ> begin_of (h @ sps)) ?ps)"
    unfolding sortSpansByBeginTime_def by (rule sort_by_num_cmp_sorted)
  moreover have "map (num_val \<circ> begin_of h') ?ps = map (num_val \<circ> begin_of (h @ sps)) ?ps"
    using b by (intro map_cong) auto
  ultimately show "sorted (map (num_val \<circ> begin_of h') ?ps)" by (simp only:)
  show "span_at h' r = g ?ps (span_at h r)" "\<forall>x < length h. x \<noteq> r \<longrightarrow> span_at h' x = span_at h x"
    using r by (simp_all add: h' span_at_attach)
  show "set ?ps \<inter> {..<length h} = {}" using ps by auto
qed

text \<open>C27: when every parent was answered, the span's parents are new models, one for each answer, in
  the order of their begin times; each of them has the span as its only child (so it offers no
  button to fetch children), and no other span of the viewer changes.\<close>

theorem reifyParents_success:
  assumes "r < length h" and "\<forall>w\<in>set ws. is_num (sp_begin (parse w))"
    and "reifyParents h r (map ok_call ws) = (h', res)"
  shows "res = Some [] \<and> (\<exists>ps. sp_reifiedParents (span_at h' r) = Some ps
      \<and> set ps \<inter> {..<length h} = {} \<and> distinct ps
      \<and> mset (map (span_at h') ps) = mset (map (\<lambda>w. (parse w)\<lparr>sp_reifiedChildren := Some [r]\<rparr>) ws)
      \<and> sorted (map (num_val \<circ> begin_of h') ps))
    \<and> (\<forall>x < length h. x \<noteq> r \<longrightarrow> span_at h' x = span_at h x)"
proof -
  let ?ps = "new_refs h (map parse ws)"
  have h': "h' = attach (\<lambda>r s. s\<lparr>sp_reifiedChildren := Some [r]\<rparr>)
      (\<lambda>new s. s\<lparr>sp_reifiedParents := Some new\<rparr>) h r (map parse ws)" and res: "res = Some []"
    using assms(3) by (simp_all add: reifyParents_cases ok_calls)
  note ac = attach_correct [OF assms(1) _ _ h', simplified, OF assms(2)]
  show ?thesis
    using res ac distinct_new_refs [of h "map parse ws"] by (auto simp: comp_def)
qed

theorem reifyParents_success_witness:
  "snd (reifyParents [parse (wire0 ''a1'' [''a0''] 20 30)] 0 (map ok_call [wire0 ''a0'' [] 10 40])) = Some []"
proof -
  have "\<forall>w\<in>set [wire0 ''a0'' [] 10 40]. is_num (sp_begin (parse w))"
    by (simp add: parse_def Let_def wire0_def parse_time_def)
  then show ?thesis
    using reifyParents_success [of 0 "[parse (wire0 ''a1'' [''a0''] 20 30)]" "[wire0 ''a0'' [] 10 40]"]
    by (metis length_Cons list.size(3) prod.collapse zero_less_Suc)
qed

text \<open>C28: the same for the children of a span.\<close>

theorem reifyChildren_success:
  assumes "r < length h" and "\<forall>w\<in>set ws. is_num (sp_begin (parse w))"
    and "reifyChildren h r (Some ids) (map ok_call ws) = (h', res)"
  shows "res = Some [] \<and> (\<exists>cs. sp_reifiedChildren (span_at h' r) = Some cs
      \<and> set cs \<inter> {..<length h} = {} \<and> distinct cs
      \<and> mset (map (span_at h') cs) = mset (map (\<lambda>w. (parse w)\<lparr>sp_reifiedParents := Some [r]\<rparr>) ws)
      \<and> sorted (map (num_val \<circ> begin_of h') cs))
    \<and> (\<forall>x < length h. x \<noteq> r \<longrightarrow> span_at h' x = span_at h x)"
proof -
  let ?ps = "new_refs h (map parse ws)"
  have h': "h' = attach (\<lambda>r s. s\<lparr>sp_reifiedParents := Some [r]\<rparr>)
      (\<lambda>new s. s\<lparr>sp_reifiedChildren := Some new\<rparr>) h r (map parse ws)" and res: "res = Some []"
    using assms(3) by (simp_all add: reifyChildren_cases ok_calls)
  note ac = attach_correct [OF assms(1) _ _ h', simplified, OF assms(2)]
  show ?thesis
    using res ac distinct_new_refs [of h "map parse ws"] by (auto simp: comp_def)
qed

theorem reifyChildren_success_witness:
  "snd (reifyChildren [parse (wire0 ''a1'' [] 20 30)] 0 (Some [''a2'']) (map ok_call [wire0 ''a2'' [] 22 24])) = Some []"
proof -
  have "\<forall>w\<in>set [wire0 ''a2'' [] 22 24]. is_num (sp_begin (parse w))"
    by (simp add: parse_def Let_def wire0_def parse_time_def)
  then show ?thesis
    using reifyChildren_success [of 0 "[parse (wire0 ''a1'' [] 20 30)]" "[wire0 ''a2'' [] 22 24]" "[''a2'']"]
    by (metis length_Cons list.size(3) prod.collapse zero_less_Suc)
qed



end
