(* ===== verification/Canvas.thy ===== *)
theory Canvas
  imports Js_Number
begin

text \<open>
  The drawing context of an HTML5 canvas, as far as the widgets use it. A draw method of the
  sources becomes the list of the calls it makes; \<open>exec\<close> is what the HTML standard says they do:
  \<open>save\<close> and \<open>restore\<close> keep a stack of drawing states (the styles and the clipping region), the
  current path is not part of them, and every painting call leaves a mark under the drawing state
  of that moment. The laws say what a widget may rely on: a draw method whose calls stand between
  \<open>save\<close> and \<open>restore\<close> leaves the styles and the clipping region of the others alone.
\<close>

datatype draw_cmd =
    Save | Restore | BeginPath | ClosePath | Clip | Fill | Stroke
  | Rect jsnum jsnum jsnum jsnum
  | MoveTo jsnum jsnum
  | LineTo jsnum jsnum
  | FillRect jsnum jsnum jsnum jsnum
  | StrokeRect jsnum jsnum jsnum jsnum
  | FillText string jsnum jsnum
  | FillStyle string
  | StrokeStyle string
  | LineWidth jsnum
  | Font jsnum string            \<comment> \<open>the size and what follows it: \<open>size + "px serif"\<close>\<close>
  | Scale jsnum jsnum

text \<open>One element of the current path, and one drawing state.\<close>

type_synonym path = "draw_cmd list"

record dstate =
  ds_fill :: string
  ds_stroke :: string
  ds_width :: jsnum
  ds_font :: "(jsnum \<times> string) option"
  ds_scale :: "(jsnum \<times> jsnum) list"
  ds_clip :: "path list"

record canvas =
  cv_now :: dstate
  cv_stack :: "dstate list"
  cv_path :: path
  cv_marks :: "(draw_cmd \<times> path \<times> dstate) list"

definition fresh_dstate :: dstate where
  "fresh_dstate =
     \<lparr>ds_fill = ''#000000'', ds_stroke = ''#000000'', ds_width = Num 1, ds_font = None,
      ds_scale = [], ds_clip = []\<rparr>"

text \<open>A context after its canvas was created or resized.\<close>

definition fresh_canvas :: canvas where
  "fresh_canvas = \<lparr>cv_now = fresh_dstate, cv_stack = [], cv_path = [], cv_marks = []\<rparr>"

definition mark :: "draw_cmd \<Rightarrow> path \<Rightarrow> canvas \<Rightarrow> canvas" where
  "mark cmd p c = c\<lparr>cv_marks := cv_marks c @ [(cmd, p, cv_now c)]\<rparr>"

fun exec :: "draw_cmd \<Rightarrow> canvas \<Rightarrow> canvas" where
  "exec Save c = c\<lparr>cv_stack := cv_now c # cv_stack c\<rparr>"
| "exec Restore c =
     (case cv_stack c of [] \<Rightarrow> c | d # ds \<Rightarrow> c\<lparr>cv_now := d, cv_stack := ds\<rparr>)"
| "exec BeginPath c = c\<lparr>cv_path := []\<rparr>"
| "exec ClosePath c = c\<lparr>cv_path := cv_path c @ [ClosePath]\<rparr>"
| "exec (Rect x y w h) c = c\<lparr>cv_path := cv_path c @ [Rect x y w h]\<rparr>"
| "exec (MoveTo x y) c = c\<lparr>cv_path := cv_path c @ [MoveTo x y]\<rparr>"
| "exec (LineTo x y) c = c\<lparr>cv_path := cv_path c @ [LineTo x y]\<rparr>"
| "exec Clip c = c\<lparr>cv_now := (cv_now c)\<lparr>ds_clip := cv_path c # ds_clip (cv_now c)\<rparr>\<rparr>"
| "exec Fill c = mark Fill (cv_path c) c"
| "exec Stroke c = mark Stroke (cv_path c) c"
| "exec (FillRect x y w h) c = mark (FillRect x y w h) [] c"
| "exec (StrokeRect x y w h) c = mark (StrokeRect x y w h) [] c"
| "exec (FillText s x y) c = mark (FillText s x y) [] c"
| "exec (FillStyle s) c = c\<lparr>cv_now := (cv_now c)\<lparr>ds_fill := s\<rparr>\<rparr>"
| "exec (StrokeStyle s) c = c\<lparr>cv_now := (cv_now c)\<lparr>ds_stroke := s\<rparr>\<rparr>"
| "exec (LineWidth w) c = c\<lparr>cv_now := (cv_now c)\<lparr>ds_width := w\<rparr>\<rparr>"
| "exec (Font w s) c = c\<lparr>cv_now := (cv_now c)\<lparr>ds_font := Some (w, s)\<rparr>\<rparr>"
| "exec (Scale x y) c = c\<lparr>cv_now := (cv_now c)\<lparr>ds_scale := (x, y) # ds_scale (cv_now c)\<rparr>\<rparr>"

definition exec_all :: "draw_cmd list \<Rightarrow> canvas \<Rightarrow> canvas" where
  "exec_all cmds c = fold exec cmds c"

lemma exec_all_simps [draw_simps, simp]:
  "exec_all [] c = c"
  "exec_all (x # xs) c = exec_all xs (exec x c)"
  "exec_all (xs @ ys) c = exec_all ys (exec_all xs c)"
  by (simp_all add: exec_all_def)

lemma mark_simps [draw_simps, simp]:
  "cv_now (mark cmd p c) = cv_now c" "cv_stack (mark cmd p c) = cv_stack c"
  "cv_path (mark cmd p c) = cv_path c" "cv_marks (mark cmd p c) = cv_marks c @ [(cmd, p, cv_now c)]"
  by (simp_all add: mark_def)

section \<open>Commands that respect the stack\<close>

text \<open>A stretch of calls without \<open>save\<close> and \<open>restore\<close> leaves the stack alone.\<close>

definition flat :: "draw_cmd list \<Rightarrow> bool" where
  "flat cmds = (Save \<notin> set cmds \<and> Restore \<notin> set cmds)"

lemma exec_stack: "x \<noteq> Save \<Longrightarrow> x \<noteq> Restore \<Longrightarrow> cv_stack (exec x c) = cv_stack c"
  by (cases x) simp_all

lemma flat_stack: "flat cmds \<Longrightarrow> cv_stack (exec_all cmds c) = cv_stack c"
  by (induction cmds arbitrary: c) (auto simp: flat_def exec_stack)

text \<open>What every draw method of the viewer guarantees to the others.\<close>

definition neat :: "draw_cmd list \<Rightarrow> bool" where
  "neat cmds = (\<forall>c. cv_now (exec_all cmds c) = cv_now c \<and> cv_stack (exec_all cmds c) = cv_stack c)"

lemma neat_Nil [draw_simps, intro!]: "neat []"
  by (simp add: neat_def)

lemma neat_append [draw_simps, intro]: "neat xs \<Longrightarrow> neat ys \<Longrightarrow> neat (xs @ ys)"
  by (simp add: neat_def)

lemma neat_concat: "(\<And>xs. xs \<in> set xss \<Longrightarrow> neat xs) \<Longrightarrow> neat (concat xss)"
  by (induction xss) (auto intro: neat_append)

lemma neat_scope: "flat cmds \<Longrightarrow> neat (Save # cmds @ [Restore])"
  by (simp add: neat_def flat_stack)

section \<open>Marks\<close>

text \<open>The marks a stretch of calls leaves, and the calls under a clipping rectangle.\<close>

lemma exec_marks_prefix: "\<exists>ms. cv_marks (exec x c) = cv_marks c @ ms"
  by (cases x) (auto split: list.splits)

lemma exec_all_marks_prefix: "\<exists>ms. cv_marks (exec_all cmds c) = cv_marks c @ ms"
proof (induction cmds arbitrary: c)
  case Nil
  then show ?case by simp
next
  case (Cons x xs)
  then show ?case using exec_marks_prefix [of x c] by (metis append.assoc exec_all_simps(2))
qed

definition new_marks :: "draw_cmd list \<Rightarrow> canvas \<Rightarrow> (draw_cmd \<times> path \<times> dstate) list" where
  "new_marks cmds c = drop (length (cv_marks c)) (cv_marks (exec_all cmds c))"

lemma new_marks_Nil [draw_simps, simp]: "new_marks [] c = []"
  by (simp add: new_marks_def)

lemma new_marks_Cons:
  "new_marks (x # xs) c = drop (length (cv_marks c)) (cv_marks (exec x c)) @ new_marks xs (exec x c)"
proof -
  obtain ms ms' where "cv_marks (exec x c) = cv_marks c @ ms"
    "cv_marks (exec_all xs (exec x c)) = cv_marks (exec x c) @ ms'"
    using exec_marks_prefix exec_all_marks_prefix by blast
  then show ?thesis by (simp add: new_marks_def)
qed

text \<open>Every mark of \<open>cmds\<close> is clipped to the path \<open>p\<close>, whatever the context was before.\<close>

definition clipped_to :: "path \<Rightarrow> draw_cmd list \<Rightarrow> bool" where
  "clipped_to p cmds = (\<forall>c. \<forall>(cmd, q, d)\<in>set (new_marks cmds c). p \<in> set (ds_clip d))"

lemma exec_flat_clip:
  "x \<noteq> Restore \<Longrightarrow> p \<in> set (ds_clip (cv_now c)) \<Longrightarrow>
     p \<in> set (ds_clip (cv_now (exec x c))) \<and>
     (\<forall>(cmd, q, d)\<in>set (drop (length (cv_marks c)) (cv_marks (exec x c))). p \<in> set (ds_clip d))"
  by (cases x) simp_all

lemma flat_marks_clipped:
  "flat cmds \<Longrightarrow> p \<in> set (ds_clip (cv_now c)) \<Longrightarrow>
     \<forall>(cmd, q, d)\<in>set (new_marks cmds c). p \<in> set (ds_clip d)"
proof (induction cmds arbitrary: c)
  case Nil
  then show ?case by simp
next
  case (Cons x xs)
  then have x: "x \<noteq> Restore" and xs: "flat xs" by (auto simp: flat_def)
  note c = exec_flat_clip [OF x Cons.prems(2)]
  have "\<forall>(cmd, q, d)\<in>set (new_marks xs (exec x c)). p \<in> set (ds_clip d)"
    using c by (intro Cons.IH [OF xs]) blast
  with c show ?case unfolding new_marks_Cons by (simp add: ball_Un)
qed

lemma new_marks_snoc_Restore: "new_marks (cmds @ [Restore]) c = new_marks cmds c"
  by (induction cmds arbitrary: c) (auto simp: new_marks_Cons split: list.splits)

text \<open>The opening of a draw method that keeps inside the rectangle of its widget.\<close>

lemma clipped_scope:
  assumes "flat cmds"
  shows "clipped_to [Rect x y w h] (Save # BeginPath # Rect x y w h # Clip # cmds @ [Restore])"
  unfolding clipped_to_def
proof
  fix c
  let ?c = "exec Clip (exec (Rect x y w h) (exec BeginPath (exec Save c)))"
  have "new_marks (Save # BeginPath # Rect x y w h # Clip # cmds @ [Restore]) c = new_marks cmds ?c"
    by (simp add: new_marks_Cons new_marks_snoc_Restore)
  then show "\<forall>(cmd, q, d)\<in>set (new_marks (Save # BeginPath # Rect x y w h # Clip # cmds @ [Restore]) c).
      [Rect x y w h] \<in> set (ds_clip d)"
    using flat_marks_clipped [OF assms, of "[Rect x y w h]" ?c] by simp
qed

end
