(* ===== verification/Widget_Manager.thy ===== *)
theory Widget_Manager
  imports Js_Number
begin

text \<open>
  \<open>htrace-webapp/src/main/web/app/widget_manager.js\<close>: the listeners of a manager (widgets, by
  reference) for each type of event, and the loop that offers an event to them in order until one
  of them returns \<open>false\<close>. A handler is a parameter here; it works on a state of its own, and
  \<open>None\<close> is an exhausted call stack. The locale \<open>dispatch\<close> is the contract between the manager
  and the handlers of the widgets.
\<close>

definition inBoundingBox :: "jsnum \<Rightarrow> jsnum \<Rightarrow> jsnum \<Rightarrow> jsnum \<Rightarrow> jsnum \<Rightarrow> jsnum \<Rightarrow> bool" where
  "inBoundingBox x y x0 xF y0 yF = (x0 \<le> x \<and> x \<le> xF \<and> y0 \<le> y \<and> y \<le> yF)"

datatype event_type = MouseDown | MouseUp | MouseMove | MouseOut | DblClick | Draw

record event =
  ev_type :: event_type
  ev_x :: jsnum
  ev_y :: jsnum
  ev_ctrl :: bool                  \<comment> \<open>\<open>raw.ctrlKey\<close>\<close>

type_synonym 'w listeners = "event_type \<Rightarrow> 'w list"

definition no_listeners :: "'w listeners" where
  "no_listeners = (\<lambda>_. [])"

definition register :: "event_type \<Rightarrow> 'w \<Rightarrow> 'w listeners \<Rightarrow> 'w listeners" where
  "register type widget ls = ls(type := ls type @ [widget])"

definition registerHighPriority :: "event_type \<Rightarrow> 'w \<Rightarrow> 'w listeners \<Rightarrow> 'w listeners" where
  "registerHighPriority type widget ls = ls(type := widget # ls type)"

definition unregister :: "event_type \<Rightarrow> 'w \<Rightarrow> 'w listeners \<Rightarrow> 'w listeners" where
  "unregister type widget ls = ls(type := without (ls type) widget)"

text \<open>The copy of the listeners is the list that the recursion runs over.\<close>

fun handle_loop :: "('w \<Rightarrow> 's \<Rightarrow> ('s \<times> bool) option) \<Rightarrow> 'w list \<Rightarrow> 's \<Rightarrow> 's option" where
  "handle_loop h [] s = Some s"
| "handle_loop h (w # ws) s =
     (case h w s of
        None \<Rightarrow> None
      | Some (s', True) \<Rightarrow> handle_loop h ws s'
      | Some (s', False) \<Rightarrow> Some s')"

definition handle ::
    "('s \<Rightarrow> 'w listeners) \<Rightarrow> ('w \<Rightarrow> event \<Rightarrow> 's \<Rightarrow> ('s \<times> bool) option) \<Rightarrow> event \<Rightarrow> 's \<Rightarrow> 's option" where
  "handle listeners h e s = handle_loop (\<lambda>w. h w e) (listeners s (ev_type e)) s"

section \<open>The lists of listeners\<close>

lemma listeners_simps [simp]:
  "no_listeners t = []"
  "register t w ls u = (if u = t then ls t @ [w] else ls u)"
  "registerHighPriority t w ls u = (if u = t then w # ls t else ls u)"
  "unregister t w ls u = (if u = t then without (ls t) w else ls u)"
  by (simp_all add: no_listeners_def register_def registerHighPriority_def unregister_def)

lemma unregister_register: "w \<notin> set (ls t) \<Longrightarrow> unregister t w (register t w ls) = ls"
  by (auto simp: fun_eq_iff without_def intro!: filter_True)

lemma unregister_registerHighPriority:
  "w \<notin> set (ls t) \<Longrightarrow> unregister t w (registerHighPriority t w ls) = ls"
  by (auto simp: fun_eq_iff without_def intro!: filter_True)

lemma unregister_absent: "w \<notin> set (ls t) \<Longrightarrow> unregister t w ls = ls"
  by (auto simp: fun_eq_iff)

section \<open>Dispatch\<close>

text \<open>
  What the manager needs of the handlers: on a good state, a listener that is in place (\<open>alive\<close>)
  returns, leaves a good state, and makes no other listener disappear.
\<close>

locale dispatch =
  fixes h :: "'w \<Rightarrow> event \<Rightarrow> 's \<Rightarrow> ('s \<times> bool) option"
    and inv :: "'s \<Rightarrow> bool"
    and alive :: "'s \<Rightarrow> 'w \<Rightarrow> bool"
    and listeners :: "'s \<Rightarrow> 'w listeners"
  assumes handler_returns: "inv s \<Longrightarrow> alive s w \<Longrightarrow> \<exists>s' b. h w e s = Some (s', b)"
    and handler_inv: "inv s \<Longrightarrow> alive s w \<Longrightarrow> h w e s = Some (s', b) \<Longrightarrow> inv s'"
    and handler_alive: "inv s \<Longrightarrow> alive s w \<Longrightarrow> h w e s = Some (s', b) \<Longrightarrow> alive s v \<Longrightarrow> alive s' v"
    and listeners_alive: "inv s \<Longrightarrow> w \<in> set (listeners s t) \<Longrightarrow> alive s w"
begin

lemma loop_returns:
  "inv s \<Longrightarrow> \<forall>w\<in>set ws. alive s w \<Longrightarrow>
     \<exists>s'. handle_loop (\<lambda>w. h w e) ws s = Some s' \<and> inv s' \<and> (\<forall>v. alive s v \<longrightarrow> alive s' v)"
proof (induction ws arbitrary: s)
  case Nil
  then show ?case by simp
next
  case (Cons w ws)
  then obtain s1 b where h: "h w e s = Some (s1, b)"
    using handler_returns [of s w e] by auto
  then have s1: "inv s1" and al: "\<And>v. alive s v \<Longrightarrow> alive s1 v"
    using handler_inv [OF _ _ h] handler_alive [OF _ _ h] Cons.prems by auto
  show ?case
  proof (cases b)
    case True
    obtain s2 where "handle_loop (\<lambda>w. h w e) ws s1 = Some s2" "inv s2" "\<forall>v. alive s1 v \<longrightarrow> alive s2 v"
      using Cons.IH [OF s1] al Cons.prems by auto
    with h True al show ?thesis by auto
  next
    case False
    with h s1 al show ?thesis by auto
  qed
qed

lemma handle_returns:
  assumes "inv s"
  shows "\<exists>s'. handle listeners h e s = Some s' \<and> inv s' \<and> (\<forall>v. alive s v \<longrightarrow> alive s' v)"
  unfolding handle_def using loop_returns [OF assms] listeners_alive [OF assms] by blast

end

text \<open>
  Listeners that let the event pass without touching what a later one depends on: the loop skips
  those that return their state unchanged.
\<close>

lemma handle_loop_skip:
  "\<forall>w\<in>set us. h w s = Some (s, True) \<Longrightarrow> handle_loop h (us @ vs) s = handle_loop h vs s"
  by (induction us) auto

lemma handle_loop_stop: "h w s = Some (s', False) \<Longrightarrow> handle_loop h (w # ws) s = Some s'"
  by simp

end
