(* ===== verification/Widgets.thy ===== *)
theory Widgets
  imports Canvas Span_Model Widget_Manager
begin

text \<open>
  The widgets of the canvas: \<open>triangle_button.js\<close>, \<open>partition_widget.js\<close>, \<open>time_cursor.js\<close>,
  \<open>span_widget.js\<close> and \<open>span_group_widget.js\<close> (under \<open>htrace-webapp/src/main/web/app\<close>). Here are
  the fields of each widget, its draw method as the list of its calls on the canvas, and the
  conversion between times and positions. The event handlers are in theory \<open>Results_View\<close>,
  because they act on the state of the whole view.
\<close>

section \<open>Triangle buttons\<close>

text \<open>What the callback of a button fetches.\<close>

datatype callback = ReifyParents ref | ReifyChildren ref

record triangle =
  tb_direction :: string
  tb_x0 :: jsnum
  tb_xF :: jsnum
  tb_y0 :: jsnum
  tb_yF :: jsnum
  tb_selected :: bool
  tb_callback :: callback

definition tb_fgColor :: string where "tb_fgColor = ''#6600ff''"
definition tb_bgColor :: string where "tb_bgColor = ''#ffffff''"

definition tb_arrow :: "triangle \<Rightarrow> jsnum \<Rightarrow> jsnum \<Rightarrow> draw_cmd list" where
  "tb_arrow b xPad yPad =
     (if tb_direction b = ''up'' then
        [MoveTo (js_floor (tb_x0 b + (tb_xF b - tb_x0 b) / Num 2)) (tb_y0 b + yPad),
         LineTo (tb_xF b - xPad) (tb_yF b - yPad),
         LineTo (tb_x0 b + xPad) (tb_yF b - yPad)]
      else if tb_direction b = ''down'' then
        [MoveTo (tb_x0 b + xPad) (tb_y0 b + yPad),
         LineTo (tb_xF b - xPad) (tb_y0 b + yPad),
         LineTo (js_floor (tb_x0 b + (tb_xF b - tb_x0 b) / Num 2)) (tb_yF b - yPad)]
      else [])"

definition draw_triangle :: "triangle \<Rightarrow> draw_cmd list" where
  "draw_triangle b =
     (let fg = (if tb_selected b then tb_bgColor else tb_fgColor);
          bg = (if tb_selected b then tb_fgColor else tb_bgColor);
          w = tb_xF b - tb_x0 b; h = tb_yF b - tb_y0 b;
          xPad = w / Num 5; yPad = h / Num 5
      in [Save, BeginPath, Rect (tb_x0 b) (tb_y0 b) w h, Clip,
          FillStyle bg, StrokeStyle fg, FillRect (tb_x0 b) (tb_y0 b) w h,
          LineWidth (Num 3), StrokeRect (tb_x0 b) (tb_y0 b) w h,
          FillStyle fg, StrokeStyle fg, BeginPath, StrokeStyle fg]
         @ tb_arrow b xPad yPad @ [ClosePath, Fill, Restore])"

section \<open>The partition between process names and spans\<close>

record partition =
  pw_x0 :: jsnum
  pw_xF :: jsnum
  pw_xMin :: jsnum
  pw_xMax :: jsnum
  pw_y0 :: jsnum
  pw_yF :: jsnum
  pw_selected :: bool

definition draw_partition :: "partition \<Rightarrow> draw_cmd list" where
  "draw_partition p =
     [Save, FillStyle (if pw_selected p then ''#6600ff'' else ''#aaaaaa''),
      FillRect (pw_x0 p) (pw_y0 p) (pw_xF p - pw_x0 p) (pw_yF p - pw_y0 p), Restore]"

text \<open>The \<open>mouseMove\<close> case: the partition follows the pointer between its bounds.\<close>

definition move_partition :: "jsnum \<Rightarrow> partition \<Rightarrow> partition" where
  "move_partition ex p =
     (let x = js_min (js_max ex (pw_xMin p)) (pw_xMax p);
          width = pw_xF p - pw_x0 p;
          x0 = js_floor (x - width / Num 2)
      in p\<lparr>pw_x0 := x0, pw_xF := x0 + width\<rparr>)"

section \<open>The time cursor\<close>

record cursor =
  tc_selectedTime :: jsnum
  tc_x0 :: jsnum
  tc_xF :: jsnum
  tc_y0 :: jsnum
  tc_yF :: jsnum
  tc_begin :: jsnum
  tc_end :: jsnum

definition positionToTime :: "cursor \<Rightarrow> jsnum \<Rightarrow> jsnum" where
  "positionToTime c x =
     (if x < tc_x0 c \<or> tc_xF c < x then - Num 1
      else tc_begin c + ((x - tc_x0 c) * (tc_end c - tc_begin c)) / (tc_xF c - tc_x0 c))"

definition timeToPosition :: "cursor \<Rightarrow> jsnum \<Rightarrow> jsnum" where
  "timeToPosition c time =
     tc_x0 c + ((time - tc_begin c) * (tc_xF c - tc_x0 c)) / (tc_end c - tc_begin c)"

definition draw_cursor :: "cursor \<Rightarrow> draw_cmd list" where
  "draw_cursor c =
     (if tc_selectedTime c \<noteq> - Num 1 then
        (let x = timeToPosition c (tc_selectedTime c)
         in [Save, BeginPath,
             Rect (tc_x0 c) (tc_y0 c) (tc_xF c - tc_x0 c) (tc_yF c - tc_y0 c), Clip,
             StrokeStyle ''#ff0000'', BeginPath, MoveTo x (tc_y0 c), LineTo x (tc_yF c),
             Stroke, Restore])
      else [])"

section \<open>A row of the canvas: one span\<close>

record swidget =
  sw_span :: ref
  sw_x0 :: jsnum
  sw_xB :: jsnum
  sw_xD :: jsnum
  sw_xF :: jsnum
  sw_xT :: jsnum
  sw_y0 :: jsnum
  sw_yF :: jsnum
  sw_begin :: jsnum
  sw_end :: jsnum
  sw_xSize :: jsnum
  sw_ySize :: jsnum
  sw_xDB :: jsnum

definition sw_timeToPosition :: "swidget \<Rightarrow> jsnum \<Rightarrow> jsnum" where
  "sw_timeToPosition w time =
     sw_xD w + ((time - sw_begin w) * (sw_xF w - sw_xD w)) / (sw_end w - sw_begin w)"

definition drawBackground :: "swidget \<Rightarrow> span \<Rightarrow> draw_cmd list" where
  "drawBackground w sp =
     [Save, FillStyle (if sp_selected sp then ''#ffccff'' else ''#ffffff''),
      FillRect (sw_x0 w) (sw_y0 w) (sw_xSize w) (sw_ySize w), Restore]"

definition drawProcessId :: "swidget \<Rightarrow> span \<Rightarrow> draw_cmd list" where
  "drawProcessId w sp =
     [Save, FillStyle ''#000000'', Font (sw_ySize w - Num 2) ''px sans-serif'', BeginPath,
      Rect (sw_x0 w) (sw_y0 w) (sw_xB w - sw_x0 w) (sw_ySize w), Clip,
      FillText (sp_processId sp) (sw_x0 w) (sw_yF w - Num 4), Restore]"

text \<open>The ends of the bar: a span off the screen is moved to one of the edges.\<close>

definition bar_ends :: "swidget \<Rightarrow> span \<Rightarrow> jsnum \<times> jsnum" where
  "bar_ends w sp =
     (let beginX = sw_timeToPosition w (sp_begin sp);
          endX = sw_timeToPosition w (sp_end sp);
          (beginX, endX) = (if endX < sw_x0 w then (sw_xD w, sw_xD w) else (beginX, endX))
      in if sw_xF w < beginX then (sw_xF w, sw_xF w) else (beginX, endX))"

definition draw_diamond :: "swidget \<Rightarrow> jsnum \<Rightarrow> draw_cmd list" where
  "draw_diamond w beginX =
     (let half = js_floor (sw_ySize w / Num 2)
      in [BeginPath, MoveTo beginX (sw_y0 w + Num 2),
          LineTo (beginX + (half - Num 2)) (sw_y0 w + half),
          LineTo beginX (sw_yF w - Num 2),
          LineTo (beginX - (half - Num 2)) (sw_y0 w + half),
          ClosePath, Fill])"

definition draw_bar :: "swidget \<Rightarrow> span \<Rightarrow> jsnum \<Rightarrow> jsnum \<Rightarrow> draw_cmd list" where
  "draw_bar w sp beginX endX =
     [FillRect beginX (sw_y0 w + Num 2) (endX - beginX) (sw_ySize w - Num 2 * Num 2),
      FillStyle ''#419641'']
     @ map (\<lambda>a. FillRect (sw_timeToPosition w (an_t a)) (sw_y0 w + Num 2) (Num 4)
                   ((sw_ySize w - Num 2 * Num 2) / Num 2))
         (sp_timeAnnotations sp)"

definition drawDescription :: "swidget \<Rightarrow> span \<Rightarrow> draw_cmd list" where
  "drawDescription w sp =
     (let (beginX, endX) = bar_ends w sp;
          epsilon = js_max (Num 2) (js_floor (sw_xSize w / Num 1000))
      in [Save, BeginPath,
          Rect (sw_xD w) (sw_y0 w) (sw_xF w - sw_xD w) (sw_ySize w), Clip,
          StrokeStyle ''#000000'', FillStyle ''#a7b7ff'']
         @ (if endX - beginX < epsilon then draw_diamond w beginX else draw_bar w sp beginX endX)
         @ [FillStyle ''#000000'', Font (sw_ySize w - Num 2) ''px sans-serif'',
            FillText (sp_description sp) (sw_xD w + sw_xT w) (sw_yF w - Num 2 - Num 2), Restore])"

definition draw_swidget :: "swidget \<Rightarrow> span \<Rightarrow> draw_cmd list" where
  "draw_swidget w sp = drawBackground w sp @ drawProcessId w sp @ drawDescription w sp"

section \<open>A group of rows: one search result\<close>

record gwidget =
  gw_span :: ref
  gw_x0 :: jsnum
  gw_xB :: jsnum
  gw_xD :: jsnum
  gw_xF :: jsnum
  gw_y0 :: jsnum
  gw_yF :: jsnum
  gw_begin :: jsnum
  gw_end :: jsnum
  gw_spanWidgetHeight :: jsnum
  gw_spanY :: jsnum
  gw_childIndent :: jsnum

definition draw_gwidget :: "gwidget \<Rightarrow> draw_cmd list" where
  "draw_gwidget g =
     [Save, FillStyle ''#ffffff'',
      FillRect (gw_x0 g) (gw_y0 g) (gw_xF g - gw_x0 g) (gw_yF g - gw_y0 g),
      StrokeStyle ''#aaaaaa'',
      BeginPath, MoveTo (gw_x0 g) (gw_y0 g), LineTo (gw_xF g) (gw_y0 g), Stroke,
      BeginPath, MoveTo (gw_x0 g) (gw_yF g), LineTo (gw_xF g) (gw_yF g), Stroke, Restore]"

section \<open>Drawing leaves the context as it was\<close>

datatype widget =
  WTriangle triangle | WPartition partition | WCursor cursor | WSpan swidget | WGroup gwidget

fun draw_widget :: "(ref \<Rightarrow> span) \<Rightarrow> widget \<Rightarrow> draw_cmd list" where
  "draw_widget spans (WTriangle b) = draw_triangle b"
| "draw_widget spans (WPartition p) = draw_partition p"
| "draw_widget spans (WCursor c) = draw_cursor c"
| "draw_widget spans (WSpan w) = draw_swidget w (spans (sw_span w))"
| "draw_widget spans (WGroup g) = draw_gwidget g"

lemma flat_append [simp]: "flat (xs @ ys) \<longleftrightarrow> flat xs \<and> flat ys"
  and flat_Cons [simp]: "flat (x # xs) \<longleftrightarrow> x \<noteq> Save \<and> x \<noteq> Restore \<and> flat xs"
  and flat_Nil [simp]: "flat []"
  by (auto simp: flat_def)

lemma flat_parts [simp]:
  "flat (tb_arrow b xPad yPad)" "flat (draw_diamond w x)" "flat (draw_bar w sp x y)"
  by (auto simp: tb_arrow_def draw_diamond_def draw_bar_def Let_def flat_def)

text \<open>The calls between \<open>save\<close>, the clipping rectangle and \<open>restore\<close>.\<close>

lemma neat_clipped:
  "flat cmds \<Longrightarrow> neat (Save # BeginPath # Rect x y w h # Clip # cmds @ [Restore])"
  using neat_scope [of "BeginPath # Rect x y w h # Clip # cmds"] by simp

lemma draw_triangle_shape:
  "\<exists>cmds. flat cmds \<and> draw_triangle b =
     Save # BeginPath # Rect (tb_x0 b) (tb_y0 b) (tb_xF b - tb_x0 b) (tb_yF b - tb_y0 b) # Clip
       # cmds @ [Restore]"
  unfolding draw_triangle_def Let_def
  by (rule exI [of _ "[FillStyle _, StrokeStyle _, FillRect _ _ _ _, LineWidth _, StrokeRect _ _ _ _,
        FillStyle _, StrokeStyle _, BeginPath, StrokeStyle _] @ tb_arrow b _ _ @ [ClosePath, Fill]"]) simp

lemma drawDescription_shape:
  "\<exists>cmds. flat cmds \<and> drawDescription w sp =
     Save # BeginPath # Rect (sw_xD w) (sw_y0 w) (sw_xF w - sw_xD w) (sw_ySize w) # Clip
       # cmds @ [Restore]"
proof (cases "bar_ends w sp")
  case (Pair b e)
  let ?bar = "if e - b < js_max (Num 2) (js_floor (sw_xSize w / Num 1000))
              then draw_diamond w b else draw_bar w sp b e"
  show ?thesis unfolding drawDescription_def Let_def Pair prod.case
    by (rule exI [of _ "[StrokeStyle _, FillStyle _] @ ?bar @ [FillStyle _, Font _ _, FillText _ _ _]"]) simp
qed

lemma draw_cursor_shape:
  "draw_cursor c = [] \<or> (\<exists>cmds. flat cmds \<and> draw_cursor c =
     Save # BeginPath # Rect (tc_x0 c) (tc_y0 c) (tc_xF c - tc_x0 c) (tc_yF c - tc_y0 c) # Clip
       # cmds @ [Restore])"
  by (simp add: draw_cursor_def Let_def)

lemma neat_drawProcessId: "neat (drawProcessId w sp)"
  using neat_scope [of "butlast (tl (drawProcessId w sp))"] by (simp add: drawProcessId_def)

lemma neat_drawBackground: "neat (drawBackground w sp)"
  using neat_scope [of "butlast (tl (drawBackground w sp))"] by (simp add: drawBackground_def)

lemma neat_drawDescription: "neat (drawDescription w sp)"
  using drawDescription_shape [of w sp] neat_clipped by metis

text \<open>Whatever a widget draws, the drawing styles, the clipping region and the stack of the
  canvas are afterwards what they were before, so no widget disturbs the drawing of another.\<close>

theorem draw_widget_neat:
  "cv_now (exec_all (draw_widget spans w) c) = cv_now c
   \<and> cv_stack (exec_all (draw_widget spans w) c) = cv_stack c"
proof -
  have "neat (draw_widget spans w)"
  proof (cases w)
    case (WTriangle b)
    then show ?thesis using draw_triangle_shape [of b] neat_clipped by (metis draw_widget.simps(1))
  next
    case (WPartition p)
    then show ?thesis using neat_scope [of "butlast (tl (draw_partition p))"]
      by (simp add: draw_partition_def)
  next
    case (WCursor c)
    then show ?thesis using draw_cursor_shape [of c] neat_clipped by (metis draw_widget.simps(3) neat_Nil)
  next
    case (WSpan w)
    then show ?thesis
      by (auto simp: draw_swidget_def neat_drawProcessId neat_drawBackground neat_drawDescription
          intro!: neat_append)
  next
    case (WGroup g)
    then show ?thesis using neat_scope [of "butlast (tl (draw_gwidget g))"]
      by (simp add: draw_gwidget_def)
  qed
  then show ?thesis by (simp add: neat_def)
qed

text \<open>All that a button, the time cursor, or the time bar and the description of a span paint is
  clipped to the rectangle of the button, of the time area, or of the row's part right of \<open>xD\<close>.\<close>

theorem drawing_clipped:
  "clipped_to [Rect (tb_x0 b) (tb_y0 b) (tb_xF b - tb_x0 b) (tb_yF b - tb_y0 b)] (draw_triangle b)
   \<and> clipped_to [Rect (tc_x0 c) (tc_y0 c) (tc_xF c - tc_x0 c) (tc_yF c - tc_y0 c)] (draw_cursor c)
   \<and> clipped_to [Rect (sw_xD w) (sw_y0 w) (sw_xF w - sw_xD w) (sw_ySize w)] (drawDescription w sp)"
  using draw_triangle_shape [of b] drawDescription_shape [of w sp] draw_cursor_shape [of c] clipped_scope
  by (metis clipped_to_def empty_iff list.set(1) new_marks_Nil)

end
