(* ===== verification/Widget_Geometry.thy ===== *)
theory Widget_Geometry
  imports Widgets
begin

text \<open>
  Where the widgets are and what they show there: the conversion between times and positions, the
  drag of the partition, and the position of a span's bar in its row.
\<close>

text \<open>On a time area of positive width and a time line of positive length, every position of
  the area stands for a time of the line and back, and every time of the line for a position of the
  area and back.\<close>

theorem cursor_roundtrip:
  assumes "tc_x0 c = Num x0" "tc_xF c = Num xF" "tc_begin c = Num b" "tc_end c = Num e"
    and "x0 < xF" and "b < e"
  shows "(x0 \<le> x \<and> x \<le> xF \<longrightarrow>
           (\<exists>t. positionToTime c (Num x) = Num t \<and> b \<le> t \<and> t \<le> e \<and> timeToPosition c (Num t) = Num x))
       \<and> (b \<le> t \<and> t \<le> e \<longrightarrow>
           (\<exists>x. timeToPosition c (Num t) = Num x \<and> x0 \<le> x \<and> x \<le> xF \<and> positionToTime c (Num x) = Num t))"
proof -
  have lin: "\<exists>u. u = b1 + ((v - a1) * (b2 - b1)) / (a2 - a1) \<and> b1 \<le> u \<and> u \<le> b2
      \<and> a1 + ((u - b1) * (a2 - a1)) / (b2 - b1) = v"
    if "a1 < a2" "b1 < b2" "a1 \<le> v" "v \<le> a2" for a1 a2 b1 b2 v :: rat
  proof (intro exI conjI)
    let ?u = "b1 + ((v - a1) * (b2 - b1)) / (a2 - a1)"
    show "?u = ?u" ..
    show "b1 \<le> ?u" using that by simp
    have "(v - a1) * (b2 - b1) \<le> (a2 - a1) * (b2 - b1)"
      using that by (intro mult_right_mono) auto
    then have "((v - a1) * (b2 - b1)) / (a2 - a1) \<le> b2 - b1"
      using that by (simp add: pos_divide_le_eq mult.commute)
    then show "?u \<le> b2" by simp
    show "a1 + ((?u - b1) * (a2 - a1)) / (b2 - b1) = v"
      using that by simp
  qed
  show ?thesis
  proof (intro conjI impI)
    assume x: "x0 \<le> x \<and> x \<le> xF"
    obtain u where "u = b + ((x - x0) * (e - b)) / (xF - x0)" "b \<le> u" "u \<le> e"
      "x0 + ((u - b) * (xF - x0)) / (e - b) = x"
      using lin [of x0 xF b e x] x assms(5,6) by metis
    then show "\<exists>t. positionToTime c (Num x) = Num t \<and> b \<le> t \<and> t \<le> e \<and> timeToPosition c (Num t) = Num x"
      using x assms by (intro exI [of _ u]) (simp add: positionToTime_def timeToPosition_def)
  next
    assume t: "b \<le> t \<and> t \<le> e"
    obtain u where u: "u = x0 + ((t - b) * (xF - x0)) / (e - b)" and bnds: "x0 \<le> u" "u \<le> xF"
      and inverse: "b + ((u - x0) * (e - b)) / (xF - x0) = t"
      using lin [of b e x0 xF t] t assms(5,6) by metis
    have "timeToPosition c (Num t) = Num u" using u assms by (simp add: timeToPosition_def)
    moreover have "positionToTime c (Num u) = Num t" using bnds inverse assms by (simp add: positionToTime_def)
    ultimately show "\<exists>x. timeToPosition c (Num t) = Num x \<and> x0 \<le> x \<and> x \<le> xF \<and> positionToTime c (Num x) = Num t"
      using bnds by blast
  qed
qed

definition example_cursor :: cursor where
  "example_cursor =
     \<lparr>tc_selectedTime = Num 0, tc_x0 = Num 100, tc_xF = Num 300, tc_y0 = Num 0, tc_yF = Num 50,
      tc_begin = Num 1000, tc_end = Num 1100\<rparr>"

theorem cursor_roundtrip_witness: "\<exists>t. positionToTime example_cursor (Num 150) = Num t \<and> 1000 \<le> t"
  using cursor_roundtrip [of example_cursor 100 300 1000 1100 150] by (auto simp: example_cursor_def)

text \<open>However the mouse moves, the dragged partition keeps its width and its left edge stays
  within half a width of the bounds.\<close>

theorem move_partition_bounds:
  assumes "pw_x0 p = Num x0" "pw_xF p = Num xF" "pw_xMin p = Num lo" "pw_xMax p = Num hi" "lo \<le> hi"
  shows "\<exists>y. pw_x0 (move_partition (Num x) p) = Num y \<and> pw_xF (move_partition (Num x) p) = Num (y + (xF - x0))
       \<and> lo - (xF - x0) / 2 - 1 < y \<and> y \<le> hi - (xF - x0) / 2 \<and> y \<in> \<int>"
proof -
  let ?m = "min (max x lo) hi"
  have m: "lo \<le> ?m" "?m \<le> hi" using assms(5) by auto
  define y :: rat where "y = of_int \<lfloor>?m - (xF - x0) / 2\<rfloor>"
  have "y \<le> ?m - (xF - x0) / 2" "?m - (xF - x0) / 2 < y + 1"
    unfolding y_def using floor_correct [of "?m - (xF - x0) / 2"] by simp_all
  with m have "lo - (xF - x0) / 2 - 1 < y" "y \<le> hi - (xF - x0) / 2"
    by linarith+
  moreover have "move_partition (Num x) p = p\<lparr>pw_x0 := Num y, pw_xF := Num (y + (xF - x0))\<rparr>"
    using assms(1-4) by (simp add: move_partition_def Let_def y_def)
  moreover have "y \<in> \<int>" by (simp add: y_def)
  ultimately show ?thesis by auto
qed

definition example_partition :: partition where
  "example_partition =
     \<lparr>pw_x0 = Num 200, pw_xF = Num 205, pw_xMin = Num 100, pw_xMax = Num 900, pw_y0 = Num 0,
      pw_yF = Num 50, pw_selected = True\<rparr>"

theorem move_partition_bounds_witness:
  "\<exists>y. pw_x0 (move_partition (Num 5000) example_partition) = Num y \<and> y \<le> 900 - 5 / 2"
  using move_partition_bounds [of example_partition 200 205 100 900 5000]
  by (auto simp: example_partition_def)

section \<open>The bar of a span\<close>

text \<open>The bar or the diamond of a span touches the time area of its row, except when the span
  ended before the visible time line and the position of its end falls between the left edge of the
  row and the time area: then the code draws outside of its clipping rectangle, and neither bar nor
  diamond can be seen.\<close>

theorem bar_visible_iff:
  assumes "sw_x0 w = Num x0" "sw_xD w = Num xD" "sw_xF w = Num xF" "sw_begin w = Num b" "sw_end w = Num e"
    and "x0 \<le> xD" "xD < xF" "b < e"
    and "sp_begin sp = Num sb" "sp_end sp = Num se" "sb \<le> se"
  shows "\<exists>bx ex pe. bar_ends w sp = (Num bx, Num ex) \<and> sw_timeToPosition w (Num se) = Num pe \<and> bx \<le> ex
       \<and> (bx \<le> xF \<and> xD \<le> ex \<longleftrightarrow> \<not> (x0 \<le> pe \<and> pe < xD))"
proof -
  let ?pos = "\<lambda>t. xD + ((t - b) * (xF - xD)) / (e - b)"
  have pos: "sw_timeToPosition w (Num t) = Num (?pos t)" for t
    using assms by (simp add: sw_timeToPosition_def)
  have le: "?pos sb \<le> ?pos se"
    using assms by (simp add: divide_right_mono mult_right_mono)
  show ?thesis
    using assms(1-3,6-10) le by (auto simp: bar_ends_def pos Let_def)
qed

definition example_row :: swidget where
  "example_row =
     \<lparr>sw_span = 0, sw_x0 = Num 0, sw_xB = Num 200, sw_xD = Num 250, sw_xF = Num 950, sw_xT = Num 0,
      sw_y0 = Num 4, sw_yF = Num 29, sw_begin = Num 1000, sw_end = Num 1700, sw_xSize = Num 950,
      sw_ySize = Num 25, sw_xDB = Num 50\<rparr>"

definition early_span :: span where
  "early_span =
     (parse \<lparr>w_s = None, w_i = None, w_r = None, w_p = None, w_d = None, w_b = Some (WNum (Num 800)),
       w_e = Some (WNum (Num 900)), w_t = None, w_n = None\<rparr>)"

theorem bar_visible_iff_witness:
  "\<exists>bx ex. bar_ends example_row early_span = (Num bx, Num ex) \<and> \<not> (bx \<le> 950 \<and> 250 \<le> ex)"
  using bar_visible_iff [of example_row 0 250 950 1000 1700 early_span 800 900]
  by (auto simp: example_row_def early_span_def parse_def parse_time_def rat_trunc_def
      sw_timeToPosition_def)

end
