(* ===== verification/Span_Details.thy ===== *)
theory Span_Details
  imports Span_Store Htrace_String
begin

text \<open>
  \<open>htrace.showSpanDetails\<close> of \<open>htrace-webapp/src/main/web/app/span_widget.js\<close>: the rows of the
  table that a double click on a span shows, which are the attributes of the model and the
  annotations, in an order of its own. Numbers and arrays are kept as values; the template turns
  them into text.
\<close>

datatype detail = DText string | DNum jsnum | DIds "string list" | DMillis jsnum

text \<open>\<open>a < b\<close> on strings: by the codes of their characters.\<close>

fun string_less :: "string \<Rightarrow> string \<Rightarrow> bool" where
  "string_less s [] = False"
| "string_less [] (c # cs) = True"
| "string_less (a # as) (b # bs) = (code a < code b \<or> (code a = code b \<and> string_less as bs))"

record details =
  d_keys :: "string list"
  d_info :: "string \<Rightarrow> detail option"
  d_order :: "string \<Rightarrow> nat option"      \<comment> \<open>\<open>explicitOrder\<close>\<close>

definition details_init :: "int \<Rightarrow> span \<Rightarrow> details" where
  "details_init now sp =
     \<lparr>d_keys = [''duration''],
      d_info = [''begin'' \<mapsto> DText (dateToString now (sp_begin sp)),
                ''end'' \<mapsto> DText (dateToString now (sp_end sp)),
                ''duration'' \<mapsto> DMillis (sp_end sp - sp_begin sp)],
      d_order = [''spanId'' \<mapsto> 1, ''begin'' \<mapsto> 2, ''end'' \<mapsto> 3, ''duration'' \<mapsto> 4]\<rparr>"

text \<open>The keys of \<open>span.attributes\<close>, in the order in which \<open>parse\<close> set them.\<close>

definition attribute_names :: "string list" where
  "attribute_names =
     [''spanId'', ''traceId'', ''processId'', ''parents'', ''description'', ''begin'', ''end'',
      ''timeAnnotations'', ''infoAnnotations'', ''selected'', ''reifiedChildren'', ''reifiedParents'']"

definition attribute_value :: "span \<Rightarrow> string \<Rightarrow> detail option" where
  "attribute_value sp k =
     (if k = ''spanId'' then Some (DText (sp_spanId sp))
      else if k = ''traceId'' then Some (DText (sp_traceId sp))
      else if k = ''processId'' then Some (DText (sp_processId sp))
      else if k = ''parents'' then Some (DIds (sp_parents sp))
      else if k = ''description'' then Some (DText (sp_description sp))
      else if k = ''begin'' then Some (DNum (sp_begin sp))
      else if k = ''end'' then Some (DNum (sp_end sp))
      else None)"

definition add_row :: "string \<Rightarrow> string \<Rightarrow> details \<Rightarrow> details" where
  "add_row key val d =
     d\<lparr>d_keys := d_keys d @ [key], d_info := (d_info d)(key \<mapsto> DText val),
       d_order := (d_order d)(key \<mapsto> 200)\<rparr>"

definition details_step :: "int \<Rightarrow> span \<Rightarrow> string \<Rightarrow> details \<Rightarrow> details" where
  "details_step now sp k d =
     (if k = ''reifiedChildren'' then d
      else if k = ''reifiedParents'' then d
      else if k = ''selected'' then d
      else if k = ''timeAnnotations''
        then fold (\<lambda>a. add_row (dateToString now (an_t a)) (an_m a)) (sp_timeAnnotations sp) d
      else if k = ''infoAnnotations''
        then fold (\<lambda>(key, value). add_row (''['' @ key @ '']'') value) (sp_infoAnnotations sp) d
      else (let d = d\<lparr>d_keys := d_keys d @ [k]\<rparr>
            in if d_info d k = None then d\<lparr>d_info := (d_info d)(k := attribute_value sp k)\<rparr> else d))"

definition order_of :: "(string \<Rightarrow> nat option) \<Rightarrow> string \<Rightarrow> nat" where
  "order_of ord a = (case ord a of Some n \<Rightarrow> if n = 0 then 100 else n | None \<Rightarrow> 100)"

definition details_cmp :: "(string \<Rightarrow> nat option) \<Rightarrow> string \<Rightarrow> string \<Rightarrow> int" where
  "details_cmp ord a b =
     (let oa = order_of ord a; ob = order_of ord b
      in if oa < ob then -1 else if ob < oa then 1
         else if string_less a b then -1 else if string_less b a then 1 else 0)"

definition collect_details :: "int \<Rightarrow> span \<Rightarrow> details" where
  "collect_details now sp = fold (details_step now sp) attribute_names (details_init now sp)"

record row =
  row_bgcolor :: string
  row_key :: string
  row_val :: "detail option"

definition showSpanDetails :: "int \<Rightarrow> span \<Rightarrow> row list" where
  "showSpanDetails now sp =
     (let d = collect_details now sp;
          keys = sort_by (details_cmp (d_order d)) (d_keys d)
      in map (\<lambda>i. \<lparr>row_bgcolor = (if i mod 2 = 1 then ''#f1f1f1'' else ''#ffffff''),
                    row_key = keys ! i, row_val = d_info d (keys ! i)\<rparr>) [0 ..< length keys])"

section \<open>The order of the rows\<close>

lemma code_inj: "code a = code b \<longleftrightarrow> a = b"
  by (simp add: code_def)

lemma string_less_irrefl [simp]: "\<not> string_less a a"
  by (induction a) auto

lemma string_less_linear: "string_less a b \<or> a = b \<or> string_less b a"
proof (induction a b rule: string_less.induct)
  case (3 a as b bs)
  then show ?case by (auto simp: code_inj)
qed (auto simp: neq_Nil_conv, case_tac s, auto)

lemma string_less_trans: "string_less a b \<Longrightarrow> string_less b c \<Longrightarrow> string_less a c"
proof (induction a b arbitrary: c rule: string_less.induct)
  case (2 d ds)
  then show ?case by (cases c) simp_all
next
  case (3 a as b bs)
  then show ?case by (cases c) auto
qed simp

lemma string_less_asym: "string_less a b \<Longrightarrow> \<not> string_less b a"
  using string_less_trans string_less_irrefl by blast

lemma details_cmp_le:
  "details_cmp ord a b \<le> 0 \<longleftrightarrow>
     order_of ord a < order_of ord b \<or> (order_of ord a = order_of ord b \<and> \<not> string_less b a)"
  using string_less_asym [of a b] by (auto simp: details_cmp_def Let_def)

interpretation details: comparator "details_cmp ord" "\<lambda>_. True" for ord
proof
  fix a b c
  show "details_cmp ord a b \<le> 0 \<or> details_cmp ord b a \<le> 0"
    using string_less_asym [of a b] by (auto simp: details_cmp_le)
  assume "details_cmp ord a b \<le> 0" "details_cmp ord b c \<le> 0"
  then show "details_cmp ord a c \<le> 0"
    using string_less_linear [of a b] string_less_linear [of b c] string_less_trans
    unfolding details_cmp_le by (metis less_trans)
qed

lemma details_cmp_antisym: "details_cmp ord a b \<le> 0 \<Longrightarrow> details_cmp ord b a \<le> 0 \<Longrightarrow> a = b"
  using string_less_linear [of a b] by (auto simp: details_cmp_le)

section \<open>The rows\<close>

text \<open>The texts of the two kinds of annotations, in the order of the loop.\<close>

definition annotation_keys :: "int \<Rightarrow> span \<Rightarrow> string list" where
  "annotation_keys now sp =
     map (\<lambda>a. dateToString now (an_t a)) (sp_timeAnnotations sp)
     @ map (\<lambda>(key, value). ''['' @ key @ '']'') (sp_infoAnnotations sp)"

lemma fold_add_row:
  "d_keys (fold (\<lambda>x. add_row (f x) (g x)) xs d) = d_keys d @ map f xs"
  "d_order (fold (\<lambda>x. add_row (f x) (g x)) xs d) k = (if k \<in> f ` set xs then Some 200 else d_order d k)"
  "d_info (fold (\<lambda>x. add_row (f x) (g x)) xs d) k =
     (if k \<in> f ` set xs then Some (DText (g (last (filter (\<lambda>x. f x = k) xs)))) else d_info d k)"
  by (induction xs arbitrary: d) (auto simp: add_row_def filter_empty_conv image_iff)

lemma add_info_rows: "(\<lambda>(key, value). add_row (h key) value) = (\<lambda>x. add_row (h (fst x)) (snd x))"
  by (auto simp: fun_eq_iff)

definition fixed_keys :: "string list" where
  "fixed_keys = [''duration'', ''spanId'', ''traceId'', ''processId'', ''parents'', ''description'', ''begin'', ''end'']"

lemma zeroFill_hd: "\<exists>c cs. zeroFill n (Suc k) = c # cs \<and> (is_digit c \<or> c = CHR ''-'')"
proof -
  have "all_digits (zero_pad (Suc k) (nat_string (nat \<bar>n\<bar>)))" "zero_pad (Suc k) (nat_string (nat \<bar>n\<bar>)) \<noteq> []"
    using zero_pad_props [of "nat_string (nat \<bar>n\<bar>)" "Suc k"] by auto
  then show ?thesis
    by (cases "zero_pad (Suc k) (nat_string (nat \<bar>n\<bar>))") (auto simp: zeroFill_def Let_def)
qed

lemma dateToString_hd:
  "\<exists>c cs. dateToString now x = c # cs \<and> (is_digit c \<or> c = CHR ''-'' \<or> c = CHR ''I'')"
proof (cases "moment_utc now x")
  case None
  then show ?thesis by (simp add: dateToString_def format_moment_def)
next
  case (Some t)
  then have "dateToString now x = date_text t"
    by (simp add: dateToString_def format_moment_def make_format_full)
  then show ?thesis using zeroFill_hd [of "utc_year t" 3] by (auto simp: date_text_def numeral_eq_Suc)
qed

lemma fixed_not_annotation: "set fixed_keys \<inter> set (annotation_keys now sp) = {}"
proof -
  have "dateToString now x \<notin> set fixed_keys" for x
    using dateToString_hd [of now x] by (auto simp: fixed_keys_def is_digit_def code_def)
  then show ?thesis by (fastforce simp: annotation_keys_def fixed_keys_def)
qed

text \<open>The state of the loop before the annotations.\<close>

definition fixed_details :: "int \<Rightarrow> span \<Rightarrow> details" where
  "fixed_details now sp = fold (details_step now sp) (take 7 attribute_names) (details_init now sp)"

lemma fixed_details_parts:
  "d_keys (fixed_details now sp) = fixed_keys"
  "d_order (fixed_details now sp) = [''spanId'' \<mapsto> 1, ''begin'' \<mapsto> 2, ''end'' \<mapsto> 3, ''duration'' \<mapsto> 4]"
  "d_info (fixed_details now sp) =
     [''begin'' \<mapsto> DText (dateToString now (sp_begin sp)), ''end'' \<mapsto> DText (dateToString now (sp_end sp)),
      ''duration'' \<mapsto> DMillis (sp_end sp - sp_begin sp), ''spanId'' \<mapsto> DText (sp_spanId sp),
      ''traceId'' \<mapsto> DText (sp_traceId sp), ''processId'' \<mapsto> DText (sp_processId sp),
      ''parents'' \<mapsto> DIds (sp_parents sp), ''description'' \<mapsto> DText (sp_description sp)]"
  by (simp_all add: fixed_details_def attribute_names_def details_step_def details_init_def
      attribute_value_def fixed_keys_def)

lemma collect_details_eq:
  "collect_details now sp =
     fold (\<lambda>x. add_row (''['' @ fst x @ '']'') (snd x)) (sp_infoAnnotations sp)
       (fold (\<lambda>a. add_row (dateToString now (an_t a)) (an_m a)) (sp_timeAnnotations sp)
         (fixed_details now sp))"
proof -
  have "attribute_names = take 7 attribute_names
      @ [''timeAnnotations'', ''infoAnnotations'', ''selected'', ''reifiedChildren'', ''reifiedParents'']"
    by (simp add: attribute_names_def)
  note names = this
  have "collect_details now sp = fold (details_step now sp)
      (take 7 attribute_names @ [''timeAnnotations'', ''infoAnnotations'', ''selected'', ''reifiedChildren'', ''reifiedParents''])
      (details_init now sp)"
    unfolding collect_details_def by (rule arg_cong [OF names, where f = "\<lambda>ks. fold _ ks _"])
  then have "collect_details now sp =
      fold (details_step now sp) [''timeAnnotations'', ''infoAnnotations'', ''selected'', ''reifiedChildren'', ''reifiedParents'']
        (fixed_details now sp)"
    unfolding fixed_details_def by (simp only: fold_append comp_apply)
  then show ?thesis by (simp add: details_step_def add_info_rows)
qed

lemma collect_details_keys: "d_keys (collect_details now sp) = fixed_keys @ annotation_keys now sp"
  by (simp add: collect_details_eq fold_add_row fixed_details_parts annotation_keys_def case_prod_beta)

lemma collect_details_order:
  "d_order (collect_details now sp) k =
     (if k \<in> set (annotation_keys now sp) then Some 200
      else [''spanId'' \<mapsto> 1, ''begin'' \<mapsto> 2, ''end'' \<mapsto> 3, ''duration'' \<mapsto> 4] k)"
  by (auto simp: collect_details_eq fold_add_row fixed_details_parts annotation_keys_def case_prod_beta)

lemma row_keys:
  "map row_key (showSpanDetails now sp) =
     sort_by (details_cmp (d_order (collect_details now sp))) (d_keys (collect_details now sp))"
  by (rule nth_equalityI) (simp_all add: showSpanDetails_def Let_def)

abbreviation text_cmp :: "string \<Rightarrow> string \<Rightarrow> int" where
  "text_cmp \<equiv> details_cmp (\<lambda>_. None)"

text \<open>The rows of the span details are, in this order, the id, the begin, the end and the duration
  of the span, then its description, parents, process and trace id, then its annotations in the
  alphabetical order of their keys (which are the times of the timeline annotations as text and the
  bracketed keys of the others).\<close>

theorem details_order:
  "map row_key (showSpanDetails now sp) =
     [''spanId'', ''begin'', ''end'', ''duration'', ''description'', ''parents'', ''processId'', ''traceId'']
     @ sort_by text_cmp (annotation_keys now sp)"
proof -
  let ?ord = "d_order (collect_details now sp)" and ?ann = "annotation_keys now sp"
  let ?fix = "[''spanId'', ''begin'', ''end'', ''duration'', ''description'', ''parents'', ''processId'', ''traceId'']"
  have fixed: "k \<notin> set ?ann" if "k \<in> set fixed_keys" for k
    using that fixed_not_annotation by blast
  have ord: "order_of ?ord ''spanId'' = 1" "order_of ?ord ''begin'' = 2" "order_of ?ord ''end'' = 3"
    "order_of ?ord ''duration'' = 4" "order_of ?ord ''description'' = 100" "order_of ?ord ''parents'' = 100"
    "order_of ?ord ''processId'' = 100" "order_of ?ord ''traceId'' = 100"
    using fixed by (simp_all add: order_of_def collect_details_order fixed_keys_def)
  have ann: "order_of ?ord k = 200" if "k \<in> set ?ann" for k
    using that by (simp add: order_of_def collect_details_order)
  have "sorted_by (details_cmp ?ord) ?fix"
    by (simp add: details_cmp_le ord code_def)
  moreover have "sorted_by (details_cmp ?ord) (sort_by text_cmp ?ann)"
  proof -
    have "sort_by text_cmp ?ann = sort_by (details_cmp ?ord) ?ann"
    proof (rule sort_by_cong)
      fix a b assume "a \<in> set ?ann" "b \<in> set ?ann"
      then have "order_of ?ord a = order_of ?ord b" by (simp only: ann)
      then show "text_cmp a b = details_cmp ?ord a b" by (simp add: details_cmp_def order_of_def [of "\<lambda>_. None"])
    qed
    then show ?thesis by (simp add: details.sort_by_sorted)
  qed
  moreover have "\<forall>x\<in>set ?fix. \<forall>y\<in>set (sort_by text_cmp ?ann). details_cmp ?ord x y \<le> 0"
    using ann by (auto simp: details_cmp_le ord)
  ultimately have "sorted_by (details_cmp ?ord) (?fix @ sort_by text_cmp ?ann)"
    unfolding sorted_by_append by blast
  moreover have "mset (sort_by (details_cmp ?ord) (fixed_keys @ ?ann)) = mset (?fix @ sort_by text_cmp ?ann)"
    by (simp add: fixed_keys_def)
  ultimately show ?thesis
    unfolding row_keys collect_details_keys
    by (intro sorted_by_unique [OF details_cmp_antisym]) (auto intro: details.sort_by_sorted)
qed

lemma row_value: "r \<in> set (showSpanDetails now sp) \<Longrightarrow> row_val r = d_info (collect_details now sp) (row_key r)"
  by (auto simp: showSpanDetails_def Let_def)

lemma info_key_not_date: "''['' @ key @ '']'' \<noteq> dateToString now x"
  using dateToString_hd [of now x] by (auto simp: is_digit_def code_def)

text \<open>The dialog shows one row for every timeline annotation, under its time as text; when several
  annotations have the same time, all of these rows show the message of the last of them.\<close>

theorem details_messages:
  assumes "a \<in> set (sp_timeAnnotations sp)"
  shows "length (filter (\<lambda>r. row_key r = dateToString now (an_t a)) (showSpanDetails now sp))
       = length (filter (\<lambda>b. dateToString now (an_t b) = dateToString now (an_t a)) (sp_timeAnnotations sp))
     \<and> (\<forall>r\<in>set (showSpanDetails now sp). row_key r = dateToString now (an_t a) \<longrightarrow>
          row_val r = Some (DText (an_m (last
            (filter (\<lambda>b. dateToString now (an_t b) = dateToString now (an_t a)) (sp_timeAnnotations sp))))))"
proof (intro conjI ballI impI)
  let ?k = "dateToString now (an_t a)"
  have "?k \<in> set (annotation_keys now sp)" using assms by (simp add: annotation_keys_def)
  then have "?k \<notin> set fixed_keys" using fixed_not_annotation by blast
  then have "filter (\<lambda>k. k = ?k) fixed_keys = []" unfolding filter_empty_conv by blast
  moreover have "filter (\<lambda>k. k = ?k) (map (\<lambda>(key, value). ''['' @ key @ '']'') (sp_infoAnnotations sp)) = []"
    using info_key_not_date [of _ now "an_t a"] by (auto simp: filter_empty_conv)
  ultimately have "filter (\<lambda>k. k = ?k) (d_keys (collect_details now sp))
      = filter (\<lambda>k. k = ?k) (map (\<lambda>b. dateToString now (an_t b)) (sp_timeAnnotations sp))"
    unfolding collect_details_keys annotation_keys_def filter_append by (simp only: append_Nil append_Nil2)
  moreover have "length (filter (\<lambda>r. row_key r = ?k) (showSpanDetails now sp))
      = length (filter (\<lambda>k. k = ?k) (d_keys (collect_details now sp)))"
    using length_filter_mset [of "map row_key (showSpanDetails now sp)" "d_keys (collect_details now sp)" "\<lambda>k. k = ?k"]
    by (simp add: row_keys) (simp only: flip: row_keys, simp add: filter_map comp_def)
  ultimately show "length (filter (\<lambda>r. row_key r = ?k) (showSpanDetails now sp))
      = length (filter (\<lambda>b. dateToString now (an_t b) = ?k) (sp_timeAnnotations sp))"
    by (simp add: filter_map comp_def)
next
  fix r assume "r \<in> set (showSpanDetails now sp)" "row_key r = dateToString now (an_t a)"
  then show "row_val r = Some (DText (an_m (last
      (filter (\<lambda>b. dateToString now (an_t b) = dateToString now (an_t a)) (sp_timeAnnotations sp)))))"
    using assms info_key_not_date [of _ now "an_t a"]
    by (auto simp: row_value collect_details_eq fold_add_row image_iff)
qed

text \<open>Two messages in the same millisecond.\<close>

definition annotated_span :: span where
  "annotated_span =
     (parse \<lparr>w_s = None, w_i = None, w_r = None, w_p = None, w_d = None, w_b = None, w_e = None,
       w_t = Some [\<lparr>an_t = Num 5, an_m = ''sent''\<rparr>, \<lparr>an_t = Num 5, an_m = ''received''\<rparr>], w_n = None\<rparr>)"

theorem details_messages_witness:
  "length (filter (\<lambda>r. row_key r = dateToString 0 (Num 5)) (showSpanDetails 0 annotated_span)) = 2
   \<and> Some (DText ''received'') = row_val (last (filter (\<lambda>r. row_key r = dateToString 0 (Num 5))
        (showSpanDetails 0 annotated_span)))"
proof -
  let ?f = "filter (\<lambda>r. row_key r = dateToString 0 (Num 5)) (showSpanDetails 0 annotated_span)"
  have t: "sp_timeAnnotations annotated_span = [\<lparr>an_t = Num 5, an_m = ''sent''\<rparr>, \<lparr>an_t = Num 5, an_m = ''received''\<rparr>]"
    by (simp add: annotated_span_def parse_def Let_def num_cmp_def)
  have l: "length ?f = 2"
    using details_messages [of "\<lparr>an_t = Num 5, an_m = ''sent''\<rparr>" annotated_span 0] unfolding t by simp
  then have "?f \<noteq> []" by auto
  then have "last ?f \<in> set ?f" by (rule last_in_set)
  then have "row_val (last ?f) = Some (DText ''received'')"
    using details_messages [of "\<lparr>an_t = Num 5, an_m = ''sent''\<rparr>" annotated_span 0] unfolding t by simp
  with l show ?thesis by simp
qed

end
