(* ===== verification/Backbone_Collection.thy ===== *)
theory Backbone_Collection
  imports Span_Model
begin

text \<open>
  The collections of backbone.js (\<open>htrace-webapp/src/main/web/lib/backbone-1.1.2.js\<close>) as the
  viewer uses them for its search results: \<open>set\<close>, \<open>add\<close>, \<open>remove\<close> and \<open>reset\<close> of models that
  have no \<open>id\<close> attribute and are known by their \<open>cid\<close> alone (here the reference of the model),
  without a comparator, an \<open>at\<close> option and listeners. The invariant is that the index of the
  collection and its length agree with the list of models and that no model is in it twice.
\<close>

record collection =
  c_models :: "ref list"
  c_byId :: "ref set"
  c_length :: nat

definition coll_reset_state :: collection where
  "coll_reset_state = \<lparr>c_models = [], c_byId = {}, c_length = 0\<rparr>"

definition coll_get :: "collection \<Rightarrow> ref \<Rightarrow> ref option" where
  "coll_get c m = (if m \<in> c_byId c then Some m else None)"

text \<open>\<open>this.models.splice(this.indexOf(model), 1)\<close> removes the first occurrence.\<close>

definition coll_remove1 :: "ref \<Rightarrow> collection \<Rightarrow> collection" where
  "coll_remove1 m c =
     (case coll_get c m of
        None \<Rightarrow> c
      | Some model \<Rightarrow>
          c\<lparr>c_byId := c_byId c - {model}, c_models := remove1 model (c_models c),
            c_length := c_length c - 1\<rparr>)"

definition coll_remove :: "ref list \<Rightarrow> collection \<Rightarrow> collection" where
  "coll_remove models c = fold coll_remove1 models c"

text \<open>The scan over the models given to \<open>set\<close>; \<open>ss_order\<close> is kept when \<open>add && remove\<close>.\<close>

record set_scan =
  ss_coll :: collection
  ss_toAdd :: "ref list"
  ss_order :: "ref list"
  ss_modelMap :: "ref set"

definition coll_scan :: "ref \<Rightarrow> set_scan \<Rightarrow> set_scan" where
  "coll_scan m s =
     (case coll_get (ss_coll s) m of
        Some existing \<Rightarrow>
          s\<lparr>ss_modelMap := insert existing (ss_modelMap s), ss_order := ss_order s @ [existing]\<rparr>
      | None \<Rightarrow>
          s\<lparr>ss_coll := (ss_coll s)\<lparr>c_byId := insert m (c_byId (ss_coll s))\<rparr>,
            ss_toAdd := ss_toAdd s @ [m], ss_order := ss_order s @ [m]\<rparr>)"

definition coll_set :: "bool \<Rightarrow> ref list \<Rightarrow> collection \<Rightarrow> collection" where
  "coll_set remove models c =
     (let s = fold coll_scan models \<lparr>ss_coll = c, ss_toAdd = [], ss_order = [], ss_modelMap = {}\<rparr>;
          c1 = ss_coll s;
          order = (if remove then ss_order s else []);
          c2 = (if remove then coll_remove (filter (\<lambda>m. m \<notin> ss_modelMap s) (c_models c1)) c1 else c1)
      in if ss_toAdd s \<noteq> [] \<or> order \<noteq> []
         then c2\<lparr>c_length := c_length c2 + length (ss_toAdd s),
                 c_models := (if remove then order else c_models c2 @ ss_toAdd s)\<rparr>
         else c2)"

definition coll_add :: "ref list \<Rightarrow> collection \<Rightarrow> collection" where
  "coll_add models c = coll_set False models c"

definition coll_reset :: "ref list \<Rightarrow> collection \<Rightarrow> collection" where
  "coll_reset models c = coll_add models coll_reset_state"

section \<open>The invariant\<close>

definition coll_inv :: "collection \<Rightarrow> bool" where
  "coll_inv c \<longleftrightarrow> distinct (c_models c) \<and> c_byId c = set (c_models c) \<and> c_length c = length (c_models c)"

lemma coll_inv_reset_state [simp]: "coll_inv coll_reset_state"
  by (simp add: coll_inv_def coll_reset_state_def)

lemma remove1_filter: "distinct xs \<Longrightarrow> remove1 m xs = filter (\<lambda>x. x \<noteq> m) xs"
  by (simp add: distinct_remove1_removeAll removeAll_filter_not_eq eq_commute)

lemma coll_remove1_eq:
  assumes "coll_inv c"
  shows "coll_inv (coll_remove1 m c) \<and> c_models (coll_remove1 m c) = filter (\<lambda>x. x \<noteq> m) (c_models c)"
proof (cases "m \<in> set (c_models c)")
  case True
  then show ?thesis
    using assms length_remove1 [of m "c_models c"]
    by (auto simp: coll_inv_def coll_remove1_def coll_get_def remove1_filter)
next
  case False
  then show ?thesis
    using assms by (auto simp: coll_inv_def coll_remove1_def coll_get_def intro!: filter_True [symmetric])
qed

lemma coll_remove_eq:
  assumes "coll_inv c"
  shows "coll_inv (coll_remove ms c) \<and> c_models (coll_remove ms c) = filter (\<lambda>x. x \<notin> set ms) (c_models c)"
  using assms
proof (induction ms arbitrary: c)
  case Nil
  then show ?case by (simp add: coll_remove_def)
next
  case (Cons m ms)
  have "coll_remove (m # ms) c = coll_remove ms (coll_remove1 m c)"
    by (simp add: coll_remove_def)
  then show ?case
    using Cons.IH [of "coll_remove1 m c"] coll_remove1_eq [OF Cons.prems, of m]
    by (auto intro!: filter_cong)
qed

text \<open>Removing known models while the index also has models that are still to be added.\<close>

lemma coll_remove_known:
  assumes "distinct (c_models c)" "set (c_models c) \<subseteq> c_byId c" "distinct rs" "set rs \<subseteq> set (c_models c)"
  shows "coll_remove rs c =
    c\<lparr>c_models := filter (\<lambda>x. x \<notin> set rs) (c_models c), c_byId := c_byId c - set rs,
      c_length := c_length c - length rs\<rparr>"
  using assms
proof (induction rs arbitrary: c)
  case Nil
  then show ?case by (simp add: coll_remove_def)
next
  case (Cons r rs)
  let ?c = "coll_remove1 r c"
  have r: "?c = c\<lparr>c_byId := c_byId c - {r}, c_models := filter (\<lambda>x. x \<noteq> r) (c_models c), c_length := c_length c - 1\<rparr>"
    using Cons.prems by (auto simp: coll_remove1_def coll_get_def remove1_filter)
  have "coll_remove (r # rs) c = coll_remove rs ?c" by (simp add: coll_remove_def)
  also have "\<dots> = ?c\<lparr>c_models := filter (\<lambda>x. x \<notin> set rs) (c_models ?c), c_byId := c_byId ?c - set rs,
      c_length := c_length ?c - length rs\<rparr>"
    using Cons.prems by (intro Cons.IH) (auto simp: r)
  finally show ?case by (simp add: r) (auto intro: arg_cong2 filter_cong simp: conj_commute)
qed

text \<open>The scan adds the models that are not yet known, once each.\<close>

lemma coll_scan_eq:
  "c_models (ss_coll (fold coll_scan ms s)) = c_models (ss_coll s)
   \<and> c_length (ss_coll (fold coll_scan ms s)) = c_length (ss_coll s)
   \<and> c_byId (ss_coll (fold coll_scan ms s)) = c_byId (ss_coll s) \<union> set ms
   \<and> ss_order (fold coll_scan ms s) = ss_order s @ ms"
proof (induction ms arbitrary: s)
  case Nil
  then show ?case by simp
next
  case (Cons m ms)
  then show ?case using Cons [of "coll_scan m s"] by (auto simp: coll_scan_def coll_get_def)
qed

lemma coll_scan_toAdd:
  "distinct ms \<Longrightarrow> ss_toAdd (fold coll_scan ms s) = ss_toAdd s @ filter (\<lambda>m. m \<notin> c_byId (ss_coll s)) ms
    \<and> ss_modelMap (fold coll_scan ms s) = ss_modelMap s \<union> (set ms \<inter> c_byId (ss_coll s))"
proof (induction ms arbitrary: s)
  case Nil
  then show ?case by simp
next
  case (Cons m ms)
  have "filter (\<lambda>x. x \<notin> insert m K) ms = filter (\<lambda>x. x \<notin> K) ms" for K
    using Cons.prems by (intro filter_cong) auto
  then show ?case
    using Cons.prems Cons.IH [of "coll_scan m s"] by (auto simp: coll_scan_def coll_get_def)
qed

lemma coll_add_eq:
  assumes "coll_inv c" "distinct ms"
  shows "coll_inv (coll_add ms c) \<and> c_models (coll_add ms c) = c_models c @ filter (\<lambda>m. m \<notin> set (c_models c)) ms"
proof -
  let ?s = "fold coll_scan ms \<lparr>ss_coll = c, ss_toAdd = [], ss_order = [], ss_modelMap = {}\<rparr>"
  have "ss_toAdd ?s = filter (\<lambda>m. m \<notin> set (c_models c)) ms"
    using coll_scan_toAdd [OF assms(2)] assms(1) by (simp add: coll_inv_def)
  moreover have "c_models (ss_coll ?s) = c_models c" "c_length (ss_coll ?s) = c_length c"
    "c_byId (ss_coll ?s) = set (c_models c) \<union> set ms"
    using coll_scan_eq [of ms] assms(1) by (simp_all add: coll_inv_def)
  ultimately show ?thesis
    using assms by (auto simp: coll_add_def coll_set_def coll_inv_def Let_def filter_empty_conv)
qed

lemma coll_set_eq:
  assumes "coll_inv c" "distinct ms"
  shows "coll_inv (coll_set True ms c) \<and> c_models (coll_set True ms c) = ms"
proof -
  let ?s = "fold coll_scan ms \<lparr>ss_coll = c, ss_toAdd = [], ss_order = [], ss_modelMap = {}\<rparr>"
  let ?gone = "filter (\<lambda>m. m \<notin> set ms) (c_models c)"
  have add: "ss_toAdd ?s = filter (\<lambda>m. m \<notin> set (c_models c)) ms"
    and map: "ss_modelMap ?s = set ms \<inter> set (c_models c)"
    using coll_scan_toAdd [OF assms(2)] assms(1) by (simp_all add: coll_inv_def)
  have s: "c_models (ss_coll ?s) = c_models c" "c_length (ss_coll ?s) = length (c_models c)"
    "c_byId (ss_coll ?s) = set (c_models c) \<union> set ms" "ss_order ?s = ms"
    using coll_scan_eq [of ms] assms(1) by (simp_all add: coll_inv_def)
  have gone: "filter (\<lambda>m. m \<notin> ss_modelMap ?s) (c_models (ss_coll ?s)) = ?gone"
    unfolding s map by (rule filter_cong) auto
  have rm: "coll_remove ?gone (ss_coll ?s) = (ss_coll ?s)\<lparr>c_models := filter (\<lambda>x. x \<in> set ms) (c_models c),
      c_byId := set ms, c_length := length (c_models c) - length ?gone\<rparr>"
  proof -
    have "filter (\<lambda>x. x \<notin> set ?gone) (c_models c) = filter (\<lambda>x. x \<in> set ms) (c_models c)"
      by (rule filter_cong) auto
    moreover have "set (c_models c) \<union> set ms - set ?gone = set ms" by auto
    ultimately show ?thesis
      using coll_remove_known [of "ss_coll ?s" ?gone] assms(1) unfolding s by (auto simp only: coll_inv_def distinct_filter set_filter)
  qed
  have kept: "length (c_models c) - length ?gone = length (filter (\<lambda>m. m \<in> set ms) (c_models c))"
    using sum_length_filter_compl [of "\<lambda>m. m \<in> set ms" "c_models c"] by simp
  have "length (filter (\<lambda>m. m \<in> set ms) (c_models c)) = length (filter (\<lambda>m. m \<in> set (c_models c)) ms)"
    using assms by (simp add: coll_inv_def flip: distinct_card) (metis Int_commute)
  then have len: "length (c_models c) - length ?gone + length (ss_toAdd ?s) = length ms"
    unfolding kept add using sum_length_filter_compl [of "\<lambda>m. m \<in> set (c_models c)" ms] by simp
  show ?thesis
    using len assms(2) unfolding coll_set_def Let_def gone rm by (auto simp: coll_inv_def s add)
qed

text \<open>C35: whatever the viewer adds to its search results, removes from them or resets them to, the
  index and the length of the collection agree with its list of models and no model is in it twice;
  adding appends the new models in their order, and removing keeps the order of the others.\<close>

theorem collection_correct:
  assumes "coll_inv c" and "distinct ms"
  shows "coll_inv (coll_add ms c) \<and> c_models (coll_add ms c) = c_models c @ filter (\<lambda>m. m \<notin> set (c_models c)) ms
    \<and> coll_inv (coll_set True ms c) \<and> c_models (coll_set True ms c) = ms
    \<and> coll_inv (coll_remove rs c) \<and> c_models (coll_remove rs c) = filter (\<lambda>m. m \<notin> set rs) (c_models c)
    \<and> coll_inv (coll_reset ms c') \<and> c_models (coll_reset ms c') = ms"
  using coll_add_eq [OF assms] coll_set_eq [OF assms] coll_remove_eq [OF assms(1), of rs]
    coll_add_eq [OF coll_inv_reset_state assms(2)]
  by (simp add: coll_reset_def coll_reset_state_def)

theorem collection_correct_witness:
  "c_models (coll_remove [4, 9] (coll_add [5, 4, 6] (coll_reset [3, 4] coll_reset_state))) = [3, 5, 6]"
proof -
  have "coll_inv (coll_reset [3, 4] coll_reset_state)" "c_models (coll_reset [3, 4] coll_reset_state) = [3, 4]"
    using collection_correct [of coll_reset_state "[3, 4]"] by simp_all
  then have "coll_inv (coll_add [5, 4, 6] (coll_reset [3, 4] coll_reset_state))"
    "c_models (coll_add [5, 4, 6] (coll_reset [3, 4] coll_reset_state)) = [3, 4, 5, 6]"
    using collection_correct [of "coll_reset [3, 4] coll_reset_state" "[5, 4, 6]"] by simp_all
  then show ?thesis
    using collection_correct [of "coll_add [5, 4, 6] (coll_reset [3, 4] coll_reset_state)" "[]" "[4, 9]"] by simp
qed

end
