(* ===== verification/Results_View.thy ===== *)
theory Results_View
  imports Widget_Geometry Span_Details Span_Reify Backbone_Collection Search_Predicate
begin

text \<open>
  \<open>search_results_view.js\<close>, the view that owns the canvas, with the constructors and the event
  handlers of the widgets (\<open>span_group_widget.js\<close>, \<open>span_widget.js\<close>, \<open>triangle_button.js\<close>,
  \<open>partition_widget.js\<close>, \<open>time_cursor.js\<close>; all under \<open>htrace-webapp/src/main/web/app\<close>).

  The state is one record: the spans, the search results, the fields of the view, all widgets ever
  made (a widget is known by its index, and is never removed, as an object is not), the listeners of
  the current widget manager, the canvas, the texts of the form, what was shown to the user, and
  the requests that were sent to the server. The last fields are the surroundings, which the code
  reads: the clock, the sizes of the window, the pixel ratios. \<open>fuel\<close> is the depth of the call
  stack; a result \<open>None\<close> means that it was exhausted.
\<close>

text \<open>The dialogs that are shown; of the debug dialog only what it prints as JSON is kept.\<close>

datatype dialog =
    Warning string string | SpanDetails "row list" | Alert string
  | SearchDebug "predicate list" "wire option" "wire list"

record view =
  v_store :: store
  v_results :: collection
  v_begin :: jsnum
  v_end :: jsnum
  v_processNameFraction :: jsnum
  v_viewX :: jsnum
  v_viewY :: jsnum
  v_xB :: jsnum
  v_xD :: jsnum
  v_xS :: jsnum
  v_canvasY :: jsnum
  v_widgets :: "widget list"
  v_listeners :: "nat listeners"
  v_timeCursor :: "nat option"
  v_canvas :: canvas
  v_beginText :: string
  v_endText :: string
  v_timeText :: string
  v_pointer :: string                \<comment> \<open>the CSS property \<open>cursor\<close> of the canvas\<close>
  v_attached :: bool                 \<comment> \<open>the mouse and key handlers are attached\<close>
  v_dialogs :: "dialog list"
  v_requests :: "callback list"
  v_now :: int
  v_parentWidth :: jsnum
  v_windowHeight :: jsnum
  v_headerHeight :: jsnum
  v_devicePixelRatio :: jsnum
  v_backingRatios :: "jsnum list"

definition MINIMUM_TIME_SPAN :: jsnum where
  "MINIMUM_TIME_SPAN = Num 100"

section \<open>The geometry of the view\<close>

text \<open>\<open>x || y || ... || 1\<close>.\<close>

definition js_or :: "jsnum \<Rightarrow> jsnum \<Rightarrow> jsnum" where
  "js_or x y = (if js_truthy x then x else y)"

definition computeScaleFactor :: "view \<Rightarrow> jsnum" where
  "computeScaleFactor v =
     (let backingStoreRatio = foldr js_or (v_backingRatios v) (Num 1)
      in js_or (v_devicePixelRatio v) (Num 1) / backingStoreRatio)"

text \<open>Setting the size of a canvas resets its context.\<close>

definition scaleCanvas :: "view \<Rightarrow> view" where
  "scaleCanvas v = (let ratio = computeScaleFactor v in v\<lparr>v_canvas := exec (Scale ratio ratio) fresh_canvas\<rparr>)"

definition setupCoordinates :: "view \<Rightarrow> view" where
  "setupCoordinates v =
     (let viewX = v_parentWidth v;
          viewY = v_windowHeight v - v_headerHeight v - Num 50;
          xB = js_floor (viewX * v_processNameFraction v);
          xD = xB + js_min (Num 75) (js_floor (viewX / Num 20));
          scrollBarWidth = js_min (Num 50) (js_floor (viewX / Num 10));
          xS = viewX - scrollBarWidth
      in v\<lparr>v_viewX := viewX, v_viewY := viewY, v_xB := xB, v_xD := xD, v_xS := xS, v_canvasY := viewY\<rparr>)"

section \<open>Making widgets\<close>

definition v_register :: "event_type \<Rightarrow> nat \<Rightarrow> view \<Rightarrow> view" where
  "v_register t i v = v\<lparr>v_listeners := register t i (v_listeners v)\<rparr>"

definition v_registerHigh :: "event_type \<Rightarrow> nat \<Rightarrow> view \<Rightarrow> view" where
  "v_registerHigh t i v = v\<lparr>v_listeners := registerHighPriority t i (v_listeners v)\<rparr>"

definition v_unregister :: "event_type \<Rightarrow> nat \<Rightarrow> view \<Rightarrow> view" where
  "v_unregister t i v = v\<lparr>v_listeners := unregister t i (v_listeners v)\<rparr>"

definition set_widget :: "nat \<Rightarrow> widget \<Rightarrow> view \<Rightarrow> view" where
  "set_widget i w v = v\<lparr>v_widgets := (v_widgets v)[i := w]\<rparr>"

text \<open>The object \<open>this\<close> of a constructor: the next index.\<close>

definition new_widget :: "widget \<Rightarrow> view \<Rightarrow> view" where
  "new_widget w v = v\<lparr>v_widgets := v_widgets v @ [w]\<rparr>"

definition new_TriangleButton :: "triangle \<Rightarrow> view \<Rightarrow> view" where
  "new_TriangleButton b v =
     (let i = length (v_widgets v)
      in v_register Draw i (v_register MouseDown i (new_widget (WTriangle b) v)))"

definition new_PartitionWidget :: "partition \<Rightarrow> view \<Rightarrow> view" where
  "new_PartitionWidget p v =
     (let i = length (v_widgets v)
      in v_register Draw i (v_register MouseDown i (new_widget (WPartition (p\<lparr>pw_selected := False\<rparr>)) v)))"

definition new_TimeCursor :: "cursor \<Rightarrow> view \<Rightarrow> view" where
  "new_TimeCursor c v =
     (let i = length (v_widgets v)
      in v_register Draw i (v_register MouseMove i (new_widget (WCursor c) v)))"

definition up_button :: "swidget \<Rightarrow> triangle" where
  "up_button w =
     \<lparr>tb_direction = ''up'', tb_x0 = sw_xB w + Num 2, tb_xF = sw_xB w + sw_xDB w / Num 2 - Num 2,
      tb_y0 = sw_y0 w + Num 2, tb_yF = sw_yF w - Num 2, tb_selected = False,
      tb_callback = ReifyParents (sw_span w)\<rparr>"

definition down_button :: "swidget \<Rightarrow> triangle" where
  "down_button w =
     \<lparr>tb_direction = ''down'', tb_x0 = sw_xB w + sw_xDB w / Num 2 + Num 2, tb_xF = sw_xD w - Num 2,
      tb_y0 = sw_y0 w + Num 2, tb_yF = sw_yF w - Num 2, tb_selected = False,
      tb_callback = ReifyChildren (sw_span w)\<rparr>"

text \<open>The fields computed by the constructor: \<open>xSize\<close>, \<open>ySize\<close> and \<open>xDB\<close>.\<close>

definition sized :: "swidget \<Rightarrow> swidget" where
  "sized w =
     w\<lparr>sw_xSize := sw_xF w - sw_x0 w, sw_ySize := sw_yF w - sw_y0 w, sw_xDB := sw_xD w - sw_xB w\<rparr>"

definition new_SpanWidget :: "swidget \<Rightarrow> bool \<Rightarrow> bool \<Rightarrow> view \<Rightarrow> view" where
  "new_SpanWidget w0 allowUpButton allowDownButton v0 =
     (let i = length (v_widgets v0);
          w = sized w0;
          v = v_register Draw i (new_widget (WSpan w) v0);
          sp = span_at (v_store v) (sw_span w);
          v = (if sp_reifiedParents sp = None \<and> allowUpButton then new_TriangleButton (up_button w) v else v);
          v = (if sp_reifiedChildren sp = None \<and> allowDownButton then new_TriangleButton (down_button w) v else v)
      in v_register DblClick i (v_register MouseDown i v))"

text \<open>\<open>createSpanWidget\<close> of the group \<open>gi\<close>: a row at \<open>spanY\<close>, which then moves down.\<close>

definition group_row :: "gwidget \<Rightarrow> ref \<Rightarrow> jsnum \<Rightarrow> swidget" where
  "group_row g node indentLevel =
     \<lparr>sw_span = node, sw_x0 = gw_x0 g, sw_xB = gw_xB g, sw_xD = gw_xD g, sw_xF = gw_xF g,
      sw_xT = gw_childIndent g * indentLevel, sw_y0 = gw_spanY g,
      sw_yF = gw_spanY g + gw_spanWidgetHeight g, sw_begin = gw_begin g, sw_end = gw_end g,
      sw_xSize = Undef, sw_ySize = Undef, sw_xDB = Undef\<rparr>"

definition createSpanWidget :: "nat \<Rightarrow> ref \<Rightarrow> jsnum \<Rightarrow> bool \<Rightarrow> bool \<Rightarrow> view \<Rightarrow> view" where
  "createSpanWidget gi node indentLevel allowUpButton allowDownButton v =
     (case v_widgets v ! gi of
        WGroup g \<Rightarrow>
          set_widget gi (WGroup (g\<lparr>gw_spanY := gw_spanY g + gw_spanWidgetHeight g\<rparr>))
            (new_SpanWidget (group_row g node indentLevel) allowUpButton allowDownButton v)
      | _ \<Rightarrow> v)"

definition group_start :: "gwidget \<Rightarrow> gwidget" where
  "group_start g =
     g\<lparr>gw_spanY := gw_y0 g + Num 4, gw_childIndent := js_max (Num 10) ((gw_xF g - gw_xD g) / Num 50)\<rparr>"

definition finish_group :: "nat \<Rightarrow> view \<Rightarrow> view" where
  "finish_group gi v =
     (case v_widgets v ! gi of
        WGroup g \<Rightarrow> set_widget gi (WGroup (g\<lparr>gw_yF := gw_spanY g + Num 4\<rparr>)) v
      | _ \<Rightarrow> v)"

definition new_SpanGroupWidget :: "nat \<Rightarrow> gwidget \<Rightarrow> view \<Rightarrow> view option" where
  "new_SpanGroupWidget fuel g0 v0 =
     (let gi = length (v_widgets v0);
          v = v_register Draw gi (new_widget (WGroup (group_start g0)) v0)
      in Option.bind (treeHeight fuel (getReifiedParents (v_store v)) (gw_span g0)) (\<lambda>parentTreeHeight.
         Option.bind (treeTraverseDepthFirstPost fuel (\<lambda>v. getReifiedParents (v_store v))
            (\<lambda>node depth v.
               if 0 < depth
               then createSpanWidget gi node (Num (of_nat parentTreeHeight) - Num (of_nat depth)) True False v
               else v) (gw_span g0) 0 v) (\<lambda>v.
         let v = createSpanWidget gi (gw_span g0) (Num (of_nat parentTreeHeight)) True True v
         in Option.bind (treeTraverseDepthFirstPre fuel (\<lambda>v. getReifiedChildren (v_store v))
            (\<lambda>node depth v.
               if 0 < depth
               then createSpanWidget gi node (Num (of_nat parentTreeHeight) + Num (of_nat depth)) False True v
               else v) (gw_span g0) 0 v) (\<lambda>v.
         Some (finish_group gi v)))))"

section \<open>Setting up the widgets of the view\<close>

definition new_group :: "view \<Rightarrow> ref \<Rightarrow> jsnum \<Rightarrow> jsnum \<Rightarrow> jsnum \<Rightarrow> gwidget" where
  "new_group v sp partitionWidgetWidth spanWidgetHeight groupY =
     \<lparr>gw_span = sp, gw_x0 = Num 0, gw_xB = v_xB v + partitionWidgetWidth, gw_xD = v_xD v,
      gw_xF = v_xS v, gw_y0 = groupY, gw_yF = Undef, gw_begin = v_begin v, gw_end = v_end v,
      gw_spanWidgetHeight = spanWidgetHeight, gw_spanY = Undef, gw_childIndent = Undef\<rparr>"

definition group_yF :: "view \<Rightarrow> nat \<Rightarrow> jsnum" where
  "group_yF v gi = (case v_widgets v ! gi of WGroup g \<Rightarrow> gw_yF g | _ \<Rightarrow> Undef)"

text \<open>The loop over the results, with \<open>groupY\<close>.\<close>

fun make_groups :: "nat \<Rightarrow> jsnum \<Rightarrow> jsnum \<Rightarrow> ref list \<Rightarrow> jsnum \<Rightarrow> view \<Rightarrow> (view \<times> jsnum) option" where
  "make_groups fuel pw sh [] groupY v = Some (v, groupY)"
| "make_groups fuel pw sh (r # rs) groupY v =
     (case new_SpanGroupWidget fuel (new_group v r pw sh groupY) v of
        None \<Rightarrow> None
      | Some v' \<Rightarrow> make_groups fuel pw sh rs (group_yF v' (length (v_widgets v))) v')"

definition make_partition :: "jsnum \<Rightarrow> jsnum \<Rightarrow> view \<Rightarrow> view" where
  "make_partition partitionWidgetWidth groupY v =
     new_PartitionWidget
       \<lparr>pw_x0 = v_xB v, pw_xF = v_xB v + partitionWidgetWidth,
        pw_xMin = js_floor (v_viewX v * Num (10 / 100)), pw_xMax = js_floor (v_viewX v * Num (90 / 100)),
        pw_y0 = Num 0, pw_yF = groupY, pw_selected = False\<rparr> v"

definition cursor_time :: "view \<Rightarrow> jsnum" where
  "cursor_time v =
     (case v_timeCursor v of
        None \<Rightarrow> v_begin v
      | Some i \<Rightarrow> (case v_widgets v ! i of WCursor c \<Rightarrow> tc_selectedTime c | _ \<Rightarrow> Undef))"

definition make_cursor :: "view \<Rightarrow> view" where
  "make_cursor v =
     (let i = length (v_widgets v)
      in (new_TimeCursor
            \<lparr>tc_selectedTime = cursor_time v, tc_x0 = v_xD v, tc_xF = v_xS v, tc_y0 = Num 0,
             tc_yF = v_canvasY v, tc_begin = v_begin v, tc_end = v_end v\<rparr> v)\<lparr>v_timeCursor := Some i\<rparr>)"

definition setupWidgets :: "nat \<Rightarrow> view \<Rightarrow> view option" where
  "setupWidgets fuel v =
     (let v = v\<lparr>v_listeners := no_listeners\<rparr>;
          partitionWidgetWidth = js_max (Num 5) (js_floor (v_viewX v / Num 300));
          spanWidgetHeight = js_min (Num 25) (js_floor (v_viewY v / Num 32))
      in Option.bind (make_groups fuel partitionWidgetWidth spanWidgetHeight (c_models (v_results v)) (Num 0) v)
           (\<lambda>(v, groupY).
              let v = (if v_canvasY v < groupY then v\<lparr>v_canvasY := groupY\<rparr> else v)
              in Some (make_cursor (make_partition partitionWidgetWidth groupY v))))"

section \<open>Drawing\<close>

definition v_exec :: "draw_cmd list \<Rightarrow> view \<Rightarrow> view" where
  "v_exec cmds v = v\<lparr>v_canvas := exec_all cmds (v_canvas v)\<rparr>"

text \<open>The case \<open>draw\<close> of the handlers of the widgets, all of which return \<open>true\<close>.\<close>

definition handle_draw :: "nat \<Rightarrow> view \<Rightarrow> view \<times> bool" where
  "handle_draw i v = (v_exec (draw_widget (span_at (v_store v)) (v_widgets v ! i)) v, True)"

definition draw_event :: event where
  "draw_event = \<lparr>ev_type = Draw, ev_x = Undef, ev_y = Undef, ev_ctrl = False\<rparr>"

definition checkCanvasTooSmall :: "view \<Rightarrow> view \<times> bool" where
  "checkCanvasTooSmall v =
     (if v_viewX v < Num 200 \<or> v_viewY v < Num 200
      then (v_exec [FillStyle ''#cccccc'', StrokeStyle ''#000000'',
              FillRect (Num 0) (Num 0) (v_viewX v) (v_viewY v), Font (Num 24) ''px serif'',
              FillStyle ''#000000'', FillText ''Canvas too small!'' (Num 0) (Num 24)] v, True)
      else (v, False))"

definition draw :: "view \<Rightarrow> view option" where
  "draw v =
     (let (v, tooSmall) = checkCanvasTooSmall v
      in if tooSmall then Some v
         else handle v_listeners (\<lambda>i e v. Some (handle_draw i v)) draw_event
                (v_exec [Save, FillStyle ''#ffffff'', StrokeStyle ''#000000'',
                   FillRect (Num 0) (Num 0) (v_viewX v) (v_canvasY v), Restore] v))"

definition render :: "nat \<Rightarrow> view \<Rightarrow> view option" where
  "render fuel v =
     Option.bind (setupWidgets fuel (setupCoordinates v)) (\<lambda>v.
     Option.bind (draw (scaleCanvas v)) (\<lambda>v.
     Some (v\<lparr>v_attached := True\<rparr>)))"

end
