(* ===== verification/Results_Events.thy ===== *)
theory Results_Events
  imports Results_View
begin

text \<open>
  The operations of the results view (\<open>search_results_view.js\<close>): the time line, zooming, clearing,
  the event handlers of the widgets and of the view. An event handler of a widget gives the new
  state and the value it returns; a \<open>switch\<close> without a matching case returns \<open>undefined\<close>, which
  counts as \<open>False\<close>.
\<close>

section \<open>The spans of the results\<close>

text \<open>\<open>applyToAllSpans(cb)\<close>, for a callback on the state of the view.\<close>

definition apply_to_result :: "nat \<Rightarrow> (ref \<Rightarrow> view \<Rightarrow> view) \<Rightarrow> ref \<Rightarrow> view \<Rightarrow> view option" where
  "apply_to_result fuel cb r v =
     Option.bind (treeTraverseDepthFirstPre fuel (\<lambda>v. getReifiedChildren (v_store v))
                   (\<lambda>node depth v. cb node v) r 0 v) (\<lambda>v.
     treeTraverseDepthFirstPre fuel (\<lambda>v. getReifiedParents (v_store v))
       (\<lambda>node depth v. if 0 < depth then cb node v else v) r 0 v)"

fun apply_to_results :: "nat \<Rightarrow> (ref \<Rightarrow> view \<Rightarrow> view) \<Rightarrow> ref list \<Rightarrow> view \<Rightarrow> view option" where
  "apply_to_results fuel cb [] v = Some v"
| "apply_to_results fuel cb (r # rs) v =
     Option.bind (apply_to_result fuel cb r v) (apply_to_results fuel cb rs)"

definition applyToAllSpans :: "nat \<Rightarrow> (ref \<Rightarrow> view \<Rightarrow> view) \<Rightarrow> view \<Rightarrow> view option" where
  "applyToAllSpans fuel cb v = apply_to_results fuel cb (c_models (v_results v)) v"

text \<open>The same loop for a callback that only accumulates a value from the spans.\<close>

definition collect_result :: "nat \<Rightarrow> store \<Rightarrow> (ref \<Rightarrow> 'a \<Rightarrow> 'a) \<Rightarrow> ref \<Rightarrow> 'a \<Rightarrow> 'a option" where
  "collect_result fuel h cb r a =
     Option.bind (treeTraverseDepthFirstPre fuel (\<lambda>_. getReifiedChildren h) (\<lambda>node depth a. cb node a) r 0 a) (\<lambda>a.
     treeTraverseDepthFirstPre fuel (\<lambda>_. getReifiedParents h)
       (\<lambda>node depth a. if 0 < depth then cb node a else a) r 0 a)"

fun collect_results :: "nat \<Rightarrow> store \<Rightarrow> (ref \<Rightarrow> 'a \<Rightarrow> 'a) \<Rightarrow> ref list \<Rightarrow> 'a \<Rightarrow> 'a option" where
  "collect_results fuel h cb [] a = Some a"
| "collect_results fuel h cb (r # rs) a =
     Option.bind (collect_result fuel h cb r a) (collect_results fuel h cb rs)"

definition is_selected :: "store \<Rightarrow> ref \<Rightarrow> bool" where
  "is_selected h r = sp_selected (span_at h r)"

definition select_or_all :: "store \<Rightarrow> ref \<Rightarrow> ref list \<times> bool \<Rightarrow> ref list \<times> bool" where
  "select_or_all h sp = (\<lambda>(ret, noneSelected).
     if is_selected h sp then
       (let (ret, noneSelected) = (if noneSelected then ([], False) else (ret, noneSelected))
        in (ret @ [sp], noneSelected))
     else if noneSelected then (ret @ [sp], noneSelected)
     else (ret, noneSelected))"

definition getSelectedSpansOrAllSpans :: "nat \<Rightarrow> view \<Rightarrow> ref list option" where
  "getSelectedSpansOrAllSpans fuel v =
     map_option fst
       (collect_results fuel (v_store v) (select_or_all (v_store v)) (c_models (v_results v)) ([], True))"

section \<open>The time line\<close>

text \<open>A missing property of \<open>params\<close> is \<open>Undef\<close>; \<open>if (params["begin"])\<close> also skips zero.\<close>

definition setTimes :: "jsnum \<Rightarrow> jsnum \<Rightarrow> view \<Rightarrow> view" where
  "setTimes pbegin pend v =
     (let b = (if js_truthy pbegin then pbegin else v_begin v);
          e = (if js_truthy pend then pend else v_end v);
          (b, e) = (if e < b then (e, b) else (b, e));
          delta = e - b;
          (b, e) = (if delta < MINIMUM_TIME_SPAN
                    then (let needed = MINIMUM_TIME_SPAN - delta in (b - needed / Num 2, e + needed / Num 2))
                    else (b, e))
      in v\<lparr>v_begin := b, v_end := e, v_beginText := dateToString (v_now v) b,
           v_endText := dateToString (v_now v) e\<rparr>)"

text \<open>The two minima and maxima of \<open>zoomHandler\<close>; the first argument is \<open>minStart\<close>, \<open>maxEnd\<close>.\<close>

fun zoom_loop :: "nat \<Rightarrow> store \<Rightarrow> ref list \<Rightarrow> jsnum \<times> jsnum \<Rightarrow> (jsnum \<times> jsnum) option" where
  "zoom_loop fuel h [] acc = Some acc"
| "zoom_loop fuel h (r # rs) (minStart, maxEnd) =
     Option.bind (getEarliestBegin fuel h r) (\<lambda>begin.
     Option.bind (getLatestEnd fuel h r) (\<lambda>e.
     zoom_loop fuel h rs (if begin < minStart then begin else minStart, if maxEnd < e then e else maxEnd)))"

definition zoomHandler :: "nat \<Rightarrow> view \<Rightarrow> view option" where
  "zoomHandler fuel v =
     Option.bind (getSelectedSpansOrAllSpans fuel v) (\<lambda>zoomSpans.
     if length zoomSpans = 0 then render fuel (setTimes (Num 0) MINIMUM_TIME_SPAN v)
     else Option.bind (zoom_loop fuel (v_store v) zoomSpans (Num 4503599627370496, Num 0)) (\<lambda>(minStart, maxEnd).
          render fuel (setTimes minStart maxEnd v)))"

text \<open>\<open>text\<close> is what stands in the field that lost the focus.\<close>

definition time_warning :: "string \<Rightarrow> string \<Rightarrow> dialog" where
  "time_warning type err =
     Warning (''Timeline '' @ type @ '' Format Error'')
       (''Please enter a valid time in the timeline '' @ type @ '' field.<p/>'' @ err)"

definition handleBeginOrEndChange :: "nat \<Rightarrow> string \<Rightarrow> string \<Rightarrow> view \<Rightarrow> view option" where
  "handleBeginOrEndChange fuel text type v =
     (case parseDate (v_now v) (trim text) of
        Inl err \<Rightarrow>
          Some (v\<lparr>v_beginText := dateToString (v_now v) (v_begin v),
                  v_endText := dateToString (v_now v) (v_end v),
                  v_dialogs := v_dialogs v @ [time_warning type err]\<rparr>)
      | Inr d \<Rightarrow>
          render fuel (if type = ''begin'' then setTimes (value_of d) Undef v
                       else setTimes Undef (value_of d) v))"

section \<open>Removing results\<close>

text \<open>
  One round of the loop of \<open>clearHandler\<close>; the state is \<open>toDelete\<close> and \<open>noneSelected\<close>. The
  traversal of the children looks only while \<open>noneSelected\<close> holds.
\<close>

definition result_selected :: "nat \<Rightarrow> store \<Rightarrow> bool \<Rightarrow> ref \<Rightarrow> bool option" where
  "result_selected fuel h noneSelected model =
     Option.bind (treeTraverseDepthFirstPre fuel (\<lambda>_. getReifiedChildren h)
        (\<lambda>node depth resultSelected. if noneSelected \<and> is_selected h node then True else resultSelected)
        model 0 False) (\<lambda>resultSelected.
     treeTraverseDepthFirstPre fuel (\<lambda>_. getReifiedParents h)
       (\<lambda>node depth resultSelected. if is_selected h node then True else resultSelected)
       model 0 resultSelected)"

fun clear_loop :: "nat \<Rightarrow> store \<Rightarrow> ref list \<Rightarrow> ref list \<times> bool \<Rightarrow> (ref list \<times> bool) option" where
  "clear_loop fuel h [] acc = Some acc"
| "clear_loop fuel h (model # models) (toDelete, noneSelected) =
     Option.bind (result_selected fuel h noneSelected model) (\<lambda>resultSelected.
     clear_loop fuel h models
       (if resultSelected then
          (let (toDelete, noneSelected) = (if noneSelected then ([], False) else (toDelete, noneSelected))
           in (toDelete @ [model], noneSelected))
        else if noneSelected then (toDelete @ [model], noneSelected)
        else (toDelete, noneSelected)))"

definition clearHandler :: "nat \<Rightarrow> bool \<Rightarrow> view \<Rightarrow> view option" where
  "clearHandler fuel clearAllIfNoneSelected v =
     Option.bind (clear_loop fuel (v_store v) (c_models (v_results v)) ([], True)) (\<lambda>(toDelete, noneSelected).
     if noneSelected \<and> \<not> clearAllIfNoneSelected then Some v
     else render fuel (v\<lparr>v_results := coll_remove toDelete (v_results v)\<rparr>))"

section \<open>Event handlers of the widgets\<close>

text \<open>The callback of a triangle button sends the request; the answer comes later.\<close>

definition send_request :: "callback \<Rightarrow> view \<Rightarrow> view" where
  "send_request c v = v\<lparr>v_requests := v_requests v @ [c]\<rparr>"

definition handle_triangle :: "nat \<Rightarrow> triangle \<Rightarrow> event \<Rightarrow> view \<Rightarrow> view \<times> bool" where
  "handle_triangle i b e v =
     (case ev_type e of
        MouseDown \<Rightarrow>
          if \<not> inBoundingBox (ev_x e) (ev_y e) (tb_x0 b) (tb_xF b) (tb_y0 b) (tb_yF b) then (v, True)
          else (set_widget i (WTriangle (b\<lparr>tb_selected := True\<rparr>))
                  (v_register MouseOut i (v_register MouseMove i (v_register MouseUp i v))), False)
      | MouseUp \<Rightarrow>
          (let v = (if tb_selected b
                    then set_widget i (WTriangle (b\<lparr>tb_selected := False\<rparr>)) (send_request (tb_callback b) v)
                    else v)
           in (v_unregister MouseOut i (v_unregister MouseMove i (v_unregister MouseUp i v)), True))
      | MouseMove \<Rightarrow>
          (set_widget i (WTriangle (b\<lparr>tb_selected :=
             inBoundingBox (ev_x e) (ev_y e) (tb_x0 b) (tb_xF b) (tb_y0 b) (tb_yF b)\<rparr>)) v, True)
      | MouseOut \<Rightarrow> (set_widget i (WTriangle (b\<lparr>tb_selected := False\<rparr>)) v, True)
      | Draw \<Rightarrow> handle_draw i v
      | DblClick \<Rightarrow> (v, False))"

text \<open>\<open>releaseHandler\<close> sets the fraction of the process names and renders the view again.\<close>

definition handle_partition ::
    "nat \<Rightarrow> nat \<Rightarrow> partition \<Rightarrow> event \<Rightarrow> view \<Rightarrow> (view \<times> bool) option" where
  "handle_partition fuel i p e v =
     (case ev_type e of
        MouseDown \<Rightarrow>
          if \<not> inBoundingBox (ev_x e) (ev_y e) (pw_x0 p) (pw_xF p) (pw_y0 p) (pw_yF p) then Some (v, True)
          else Some ((set_widget i (WPartition (p\<lparr>pw_selected := True\<rparr>))
                  (v_registerHigh MouseMove i (v_registerHigh MouseUp i v)))\<lparr>v_pointer := ''ew-resize''\<rparr>, False)
      | MouseMove \<Rightarrow> Some (set_widget i (WPartition (move_partition (ev_x e) p)) v, False)
      | MouseUp \<Rightarrow>
          (let v = (v_unregister MouseMove i (v_unregister MouseUp i v))\<lparr>v_pointer := ''pointer''\<rparr>;
               v = set_widget i (WPartition (p\<lparr>pw_selected := False\<rparr>)) v
           in map_option (\<lambda>v. (v, False)) (render fuel (v\<lparr>v_processNameFraction := pw_x0 p / v_viewX v\<rparr>)))
      | Draw \<Rightarrow> Some (handle_draw i v)
      | _ \<Rightarrow> Some (v, True))"

definition handle_cursor :: "nat \<Rightarrow> cursor \<Rightarrow> event \<Rightarrow> view \<Rightarrow> view \<times> bool" where
  "handle_cursor i c e v =
     (case ev_type e of
        MouseMove \<Rightarrow>
          if inBoundingBox (ev_x e) (ev_y e) (tc_x0 c) (tc_xF c) (tc_y0 c) (tc_yF c) then
            (let t = positionToTime c (ev_x e)
             in ((set_widget i (WCursor (c\<lparr>tc_selectedTime := t\<rparr>)) v)
                   \<lparr>v_timeText := (if t < Num 0 then [] else dateToString (v_now v) t)\<rparr>, True))
          else (v, True)
      | Draw \<Rightarrow> handle_draw i v
      | _ \<Rightarrow> (v, False))"

definition set_selected :: "bool \<Rightarrow> ref \<Rightarrow> view \<Rightarrow> view" where
  "set_selected b r v = v\<lparr>v_store := select_span b r (v_store v)\<rparr>"

text \<open>The callback of a click: the span of the widget is selected, every other one is not.\<close>

definition click_select :: "ref \<Rightarrow> ref \<Rightarrow> view \<Rightarrow> view" where
  "click_select this sp v =
     (if this = sp then (if \<not> is_selected (v_store v) sp then set_selected True sp v else v)
      else if is_selected (v_store v) sp then set_selected False sp v
      else v)"

definition handle_span :: "nat \<Rightarrow> nat \<Rightarrow> swidget \<Rightarrow> event \<Rightarrow> view \<Rightarrow> (view \<times> bool) option" where
  "handle_span fuel i w e v =
     (case ev_type e of
        MouseDown \<Rightarrow>
          if \<not> inBoundingBox (ev_x e) (ev_y e) (sw_x0 w) (sw_xF w) (sw_y0 w) (sw_yF w) then Some (v, True)
          else if ev_ctrl e then
            Some (set_selected (\<not> is_selected (v_store v) (sw_span w)) (sw_span w) v, True)
          else map_option (\<lambda>v. (v, True)) (applyToAllSpans fuel (click_select (sw_span w)) v)
      | Draw \<Rightarrow> Some (handle_draw i v)
      | DblClick \<Rightarrow>
          if inBoundingBox (ev_x e) (ev_y e) (sw_x0 w) (sw_xF w) (sw_y0 w) (sw_yF w)
          then Some (v\<lparr>v_dialogs := v_dialogs v @
                  [SpanDetails (showSpanDetails (v_now v) (span_at (v_store v) (sw_span w)))]\<rparr>, True)
          else Some (v, True)
      | _ \<Rightarrow> Some (v, False))"

definition widget_handle :: "nat \<Rightarrow> nat \<Rightarrow> event \<Rightarrow> view \<Rightarrow> (view \<times> bool) option" where
  "widget_handle fuel i e v =
     (case v_widgets v ! i of
        WTriangle b \<Rightarrow> Some (handle_triangle i b e v)
      | WPartition p \<Rightarrow> handle_partition fuel i p e v
      | WCursor c \<Rightarrow> Some (handle_cursor i c e v)
      | WSpan w \<Rightarrow> handle_span fuel i w e v
      | WGroup g \<Rightarrow> (case ev_type e of Draw \<Rightarrow> Some (handle_draw i v) | _ \<Rightarrow> Some (v, False)))"

section \<open>Event handlers of the view\<close>

text \<open>A mouse event on the canvas, with the position of the canvas on the page.\<close>

record mouse =
  m_type :: event_type
  m_pageX :: jsnum
  m_pageY :: jsnum
  m_left :: jsnum
  m_top :: jsnum
  m_ctrlKey :: bool

definition getCanvasX :: "mouse \<Rightarrow> jsnum" where "getCanvasX e = m_pageX e - m_left e"
definition getCanvasY :: "mouse \<Rightarrow> jsnum" where "getCanvasY e = m_pageY e - m_top e"

definition canvas_event :: "mouse \<Rightarrow> event" where
  "canvas_event e =
     (if m_type e = MouseOut
      then \<lparr>ev_type = MouseOut, ev_x = Undef, ev_y = Undef, ev_ctrl = False\<rparr>
      else \<lparr>ev_type = m_type e, ev_x = getCanvasX e, ev_y = getCanvasY e, ev_ctrl = m_ctrlKey e\<rparr>)"

text \<open>\<open>handleMouseDown\<close>, \<open>handleMouseUp\<close>, \<open>handleMouseOut\<close>, \<open>handleMouseMove\<close>, \<open>handleDblclick\<close>.\<close>

definition handle_mouse :: "nat \<Rightarrow> mouse \<Rightarrow> view \<Rightarrow> view option" where
  "handle_mouse fuel e v =
     (if v_attached v
      then Option.bind (handle v_listeners (widget_handle fuel) (canvas_event e) v) draw
      else Some v)"

definition handle_key :: "nat \<Rightarrow> nat \<Rightarrow> view \<Rightarrow> view option" where
  "handle_key fuel keyCode v =
     (if \<not> v_attached v then Some v
      else if keyCode = 46 then clearHandler fuel False v
      else if keyCode = 90 then zoomHandler fuel v
      else Some v)"

text \<open>The end of a request of a triangle button.\<close>

definition request_done :: "nat \<Rightarrow> store \<times> string option \<Rightarrow> view \<Rightarrow> view option" where
  "request_done fuel answer v =
     (let (h, result) = answer; v = v\<lparr>v_store := h\<rparr>
      in case result of
           None \<Rightarrow> Some v
         | Some result \<Rightarrow>
             if result \<noteq> '''' then Some (v\<lparr>v_dialogs := v_dialogs v @ [Alert result]\<rparr>)
             else render fuel v)"

definition view_remove :: "view \<Rightarrow> view" where
  "view_remove v = v\<lparr>v_attached := False\<rparr>"

text \<open>A new view; the form shows the texts of the page template.\<close>

definition new_view ::
    "int \<Rightarrow> jsnum \<Rightarrow> jsnum \<Rightarrow> jsnum \<Rightarrow> jsnum \<Rightarrow> jsnum list \<Rightarrow> view" where
  "new_view now parentWidth windowHeight headerHeight dpr backing =
     \<lparr>v_store = [], v_results = coll_reset_state, v_begin = Num 0, v_end = Undef,
      v_processNameFraction = Num (2 / 10), v_viewX = Undef, v_viewY = Undef, v_xB = Undef, v_xD = Undef,
      v_xS = Undef, v_canvasY = Undef, v_widgets = [], v_listeners = no_listeners, v_timeCursor = None,
      v_canvas = fresh_canvas, v_beginText = ''1970-01-01T00:00:00,000'',
      v_endText = ''1970-01-01T00:00:00,100'', v_timeText = [], v_pointer = ''auto'',
      v_attached = False, v_dialogs = [], v_requests = [], v_now = now, v_parentWidth = parentWidth,
      v_windowHeight = windowHeight, v_headerHeight = headerHeight, v_devicePixelRatio = dpr,
      v_backingRatios = backing\<rparr>"

end
