(* ===== verification/View_Layout.thy ===== *)
theory View_Layout
  imports Results_Events Span_Props
begin

text \<open>
  What the constructors of the widgets build: the rows of a group, as the list of their
  parameters, and the widgets, listeners and positions that come out. The traversals of the spans
  are interpreted on the state of the view, since their callbacks make widgets.
\<close>

section \<open>Traversals whose callback works on the view\<close>

interpretation v_parents: navigation "\<lambda>v. store_inv (v_store v)" "\<lambda>v. getReifiedParents (v_store v)"
    "\<lambda>v. descendants (getReifiedParents (v_store v))"
  by unfold_locales (rule parents.rank_less)

interpretation v_children: navigation "\<lambda>v. store_inv (v_store v)" "\<lambda>v. getReifiedChildren (v_store v)"
    "\<lambda>v. descendants (getReifiedChildren (v_store v))"
  by unfold_locales (rule children.rank_less)

text \<open>The nodes in the order of the traversals, with their depths.\<close>

definition up_nodes :: "store \<Rightarrow> ref \<Rightarrow> (ref \<times> nat) list" where
  "up_nodes h r = post_nodes (descendants (getReifiedParents h) r) (getReifiedParents h) r 0"

definition parent_nodes :: "store \<Rightarrow> ref \<Rightarrow> (ref \<times> nat) list" where
  "parent_nodes h r = pre_nodes (descendants (getReifiedParents h) r) (getReifiedParents h) r 0"

definition down_nodes :: "store \<Rightarrow> ref \<Rightarrow> (ref \<times> nat) list" where
  "down_nodes h r = pre_nodes (descendants (getReifiedChildren h) r) (getReifiedChildren h) r 0"

lemma set_up_nodes: "set (up_nodes h r) = set (parent_nodes h r)"
  by (simp add: up_nodes_def parent_nodes_def set_post_nodes)

lemma reachable_bound:
  assumes "\<And>a. set (gd a) \<subseteq> {..<n}" "(r, m) \<in> {(a, b). b \<in> set (gd a)}\<^sup>*" "r < n"
  shows "m < (n::nat)"
  using assms(2,3) by (induction rule: rtrancl_induct) (use assms(1) in auto)

lemma nodes_bound:
  assumes "store_inv h" "r < length h"
  shows "(m, e) \<in> set (parent_nodes h r) \<Longrightarrow> m < length h"
    "(m, e) \<in> set (up_nodes h r) \<Longrightarrow> m < length h"
    "(m, e) \<in> set (down_nodes h r) \<Longrightarrow> m < length h"
proof -
  have c: "closed_refs h" using assms(1) by (simp add: store_inv_def)
  show p: "m < length h" if "(m, e) \<in> set (parent_nodes h r)"
    using pre_nodes_reachable [OF that [unfolded parent_nodes_def]] reachable_bound closed_refsD(1) [OF c] assms(2)
    by blast
  show "m < length h" if "(m, e) \<in> set (up_nodes h r)"
    using that p by (simp add: set_up_nodes)
  show "m < length h" if "(m, e) \<in> set (down_nodes h r)"
    using pre_nodes_reachable [OF that [unfolded down_nodes_def]] reachable_bound closed_refsD(2) [OF c] assms(2)
    by blast
qed

lemma fold_below:
  "fold (\<lambda>(m, e) s. if 0 < e then f m e s else s) xs s = fold (\<lambda>(m, e). f m e) (filter (\<lambda>(m, e). 0 < e) xs) s"
  for f :: "'a \<Rightarrow> nat \<Rightarrow> 's \<Rightarrow> 's"
  by (induction xs arbitrary: s) auto

section \<open>What the making of widgets keeps\<close>

lemma v_register_simps [simp]:
  "v_store (v_register t i v) = v_store v" "v_widgets (v_register t i v) = v_widgets v"
  "v_results (v_register t i v) = v_results v" "v_listeners (v_register t i v) = register t i (v_listeners v)"
  "v_begin (v_register t i v) = v_begin v" "v_end (v_register t i v) = v_end v"
  "v_timeCursor (v_register t i v) = v_timeCursor v" "v_requests (v_register t i v) = v_requests v"
  by (simp_all add: v_register_def)

lemma new_widget_simps [simp]:
  "v_store (new_widget w v) = v_store v" "v_widgets (new_widget w v) = v_widgets v @ [w]"
  "v_results (new_widget w v) = v_results v" "v_listeners (new_widget w v) = v_listeners v"
  "v_begin (new_widget w v) = v_begin v" "v_end (new_widget w v) = v_end v"
  "v_timeCursor (new_widget w v) = v_timeCursor v" "v_requests (new_widget w v) = v_requests v"
  by (simp_all add: new_widget_def)

lemma set_widget_simps [simp]:
  "v_store (set_widget i w v) = v_store v" "v_widgets (set_widget i w v) = (v_widgets v)[i := w]"
  "v_results (set_widget i w v) = v_results v" "v_listeners (set_widget i w v) = v_listeners v"
  "v_begin (set_widget i w v) = v_begin v" "v_end (set_widget i w v) = v_end v"
  "v_timeCursor (set_widget i w v) = v_timeCursor v" "v_requests (set_widget i w v) = v_requests v"
  by (simp_all add: set_widget_def)

lemma new_TriangleButton_simps [simp]:
  "v_store (new_TriangleButton b v) = v_store v"
  "v_widgets (new_TriangleButton b v) = v_widgets v @ [WTriangle b]"
  "v_results (new_TriangleButton b v) = v_results v"
  by (simp_all add: new_TriangleButton_def Let_def)

text \<open>The buttons that a row gets.\<close>

definition row_buttons :: "store \<Rightarrow> swidget \<Rightarrow> bool \<Rightarrow> bool \<Rightarrow> triangle list" where
  "row_buttons h w up down =
     (if sp_reifiedParents (span_at h (sw_span w)) = None \<and> up then [up_button w] else [])
     @ (if sp_reifiedChildren (span_at h (sw_span w)) = None \<and> down then [down_button w] else [])"

lemma new_SpanWidget_simps [simp]:
  "v_store (new_SpanWidget w up down v) = v_store v"
  "v_results (new_SpanWidget w up down v) = v_results v"
  "v_widgets (new_SpanWidget w up down v) =
     v_widgets v @ WSpan (sized w) # map WTriangle (row_buttons (v_store v) (sized w) up down)"
  by (auto simp: new_SpanWidget_def Let_def row_buttons_def sized_def)

lemma createSpanWidget_simps [simp]:
  "v_store (createSpanWidget gi n ind up down v) = v_store v"
  "v_results (createSpanWidget gi n ind up down v) = v_results v"
  by (simp_all add: createSpanWidget_def split: widget.split)

lemma createSpanWidget_group:
  assumes "gi < length (v_widgets v)" "v_widgets v ! gi = WGroup g"
  shows "v_widgets (createSpanWidget gi n ind up down v) =
    (v_widgets v)[gi := WGroup (g\<lparr>gw_spanY := gw_spanY g + gw_spanWidgetHeight g\<rparr>)]
    @ WSpan (sized (group_row g n ind))
    # map WTriangle (row_buttons (v_store v) (sized (group_row g n ind)) up down)"
  using assms by (simp add: createSpanWidget_def list_update_append)

section \<open>The rows of a group\<close>

text \<open>The parameters of the calls of \<open>createSpanWidget\<close>: the span, its indentation, and which
  buttons it may have.\<close>

type_synonym row_params = "ref \<times> jsnum \<times> bool \<times> bool"

definition group_rows :: "store \<Rightarrow> ref \<Rightarrow> nat \<Rightarrow> row_params list" where
  "group_rows h r height =
     map (\<lambda>(m, e). (m, Num (of_nat height) - Num (of_nat e), True, False)) (filter (\<lambda>(m, e). 0 < e) (up_nodes h r))
     @ (r, Num (of_nat height), True, True)
     # map (\<lambda>(m, e). (m, Num (of_nat height) + Num (of_nat e), False, True)) (filter (\<lambda>(m, e). 0 < e) (down_nodes h r))"

abbreviation create_row :: "nat \<Rightarrow> row_params \<Rightarrow> view \<Rightarrow> view" where
  "create_row gi \<equiv> \<lambda>(m, ind, up, down). createSpanWidget gi m ind up down"

lemma fold_create_rows:
  "fold (create_row gi) (map (\<lambda>(m, e). (m, ind e, up, down)) xs) v
     = fold (\<lambda>(m, e). createSpanWidget gi m (ind e) up down) xs v"
  by (induction xs arbitrary: v) auto

lemma treeHeight_some:
  assumes "store_inv h" "length h < fuel"
  shows "\<exists>k. treeHeight fuel (getReifiedParents h) r = Some k"
  using parents_ro.height_longest_path [OF assms(1) enough_fuel(1) [OF assms]] by blast

definition parent_height :: "store \<Rightarrow> ref \<Rightarrow> nat" where
  "parent_height h r = the (treeHeight (Suc (length h)) (getReifiedParents h) r)"

lemma treeHeight_unique:
  assumes "store_inv h" "length h < fuel" "length h < fuel'"
  shows "treeHeight fuel (getReifiedParents h) r = treeHeight fuel' (getReifiedParents h) r"
  using parents_ro.height_is_max [OF assms(1) enough_fuel(1) [OF assms(1,2)]]
    parents_ro.height_is_max [OF assms(1) enough_fuel(1) [OF assms(1,3)]] by simp

lemma treeHeight_parent:
  assumes "store_inv h" "length h < fuel"
  shows "treeHeight fuel (getReifiedParents h) r = Some (parent_height h r)"
  using treeHeight_some [OF assms(1), of "Suc (length h)" r] treeHeight_unique [OF assms, of "Suc (length h)" r]
  by (auto simp: parent_height_def)

text \<open>The constructor of a group makes its rows one after the other.\<close>

lemma new_SpanGroupWidget_eq:
  assumes inv: "store_inv (v_store v)" and fuel: "length (v_store v) < fuel"
  shows "new_SpanGroupWidget fuel g v =
    Some (let gi = length (v_widgets v)
          in finish_group gi
               (fold (create_row gi) (group_rows (v_store v) (gw_span g) (parent_height (v_store v) (gw_span g)))
                 (v_register Draw gi (new_widget (WGroup (group_start g)) v))))"
proof -
  let ?h = "v_store v" and ?r = "gw_span g" and ?gi = "length (v_widgets v)"
  let ?H = "Num (of_nat (parent_height ?h ?r))"
  let ?up = "\<lambda>node depth v. if 0 < depth then createSpanWidget ?gi node (?H - Num (of_nat depth)) True False v else v"
  let ?down = "\<lambda>node depth v. if 0 < depth then createSpanWidget ?gi node (?H + Num (of_nat depth)) False True v else v"
  have k: "v_parents.keeps ?up" "v_children.keeps ?down"
    by (simp_all add: v_parents.keeps_def v_children.keeps_def)
  let ?v0 = "v_register Draw ?gi (new_widget (WGroup (group_start g)) v)"
  let ?v1 = "fold (\<lambda>(m, e). ?up m e) (up_nodes ?h ?r) ?v0"
  let ?v2 = "createSpanWidget ?gi ?r ?H True True ?v1"
  let ?v3 = "fold (\<lambda>(m, e). ?down m e) (down_nodes ?h ?r) ?v2"
  have st: "v_store (fold (\<lambda>(m, e). ?up m e) xs u) = v_store u" for xs u
    by (induction xs arbitrary: u) auto
  have "treeTraverseDepthFirstPost fuel (\<lambda>v. getReifiedParents (v_store v)) ?up ?r 0 ?v0 = Some ?v1"
    using v_parents.post_is_fold [OF k(1), of ?v0 ?r fuel] inv enough_fuel(1) [OF inv fuel]
    by (simp add: up_nodes_def)
  moreover have "treeTraverseDepthFirstPre fuel (\<lambda>v. getReifiedChildren (v_store v)) ?down ?r 0 ?v2 = Some ?v3"
    using v_children.pre_is_fold [OF k(2), of ?v2 ?r fuel] inv enough_fuel(2) [OF inv fuel]
    by (simp add: down_nodes_def st)
  moreover have "treeHeight fuel (getReifiedParents (v_store ?v0)) ?r = Some (parent_height ?h ?r)"
    using treeHeight_parent [OF inv fuel] by simp
  ultimately have "new_SpanGroupWidget fuel g v = Some (finish_group ?gi ?v3)"
    by (simp add: new_SpanGroupWidget_def Let_def)
  also have "?v3 = fold (create_row ?gi) (group_rows ?h ?r (parent_height ?h ?r)) ?v0"
    unfolding group_rows_def fold_append fold_Cons comp_apply fold_create_rows fold_below prod.case ..
  finally show ?thesis by (simp only: Let_def)
qed

text \<open>The widgets that these calls make, and the group that they leave.\<close>

definition advance :: "gwidget \<Rightarrow> gwidget" where
  "advance g = g\<lparr>gw_spanY := gw_spanY g + gw_spanWidgetHeight g\<rparr>"

fun group_widgets :: "store \<Rightarrow> gwidget \<Rightarrow> row_params list \<Rightarrow> widget list" where
  "group_widgets h g [] = []"
| "group_widgets h g ((m, ind, up, down) # rs) =
     (let w = sized (group_row g m ind)
      in WSpan w # map WTriangle (row_buttons h w up down) @ group_widgets h (advance g) rs)"

lemma create_rows_widgets:
  assumes "gi < length (v_widgets v)" "v_widgets v ! gi = WGroup g"
  shows "v_widgets (fold (create_row gi) rs v) =
      (v_widgets v)[gi := WGroup ((advance ^^ length rs) g)] @ group_widgets (v_store v) g rs
    \<and> v_store (fold (create_row gi) rs v) = v_store v"
  using assms
proof (induction rs arbitrary: v g)
  case Nil
  then show ?case by (simp add: list_update_id [of "v_widgets v" gi, simplified Nil(2)])
next
  case (Cons row rs)
  obtain m ind up down where row: "row = (m, ind, up, down)" by (cases row)
  let ?v = "createSpanWidget gi m ind up down v"
  have w: "v_widgets ?v = (v_widgets v)[gi := WGroup (advance g)]
      @ WSpan (sized (group_row g m ind)) # map WTriangle (row_buttons (v_store v) (sized (group_row g m ind)) up down)"
    using createSpanWidget_group [OF Cons.prems] by (simp add: advance_def)
  then have "gi < length (v_widgets ?v)" "v_widgets ?v ! gi = WGroup (advance g)"
    using Cons.prems(1) by (simp_all add: nth_append)
  from Cons.IH [OF this] show ?case
    using Cons.prems(1) by (simp add: row w list_update_append Let_def funpow_swap1)
qed

lemma advance_n:
  assumes "gw_spanY g = Num y" "gw_spanWidgetHeight g = Num h"
  shows "(advance ^^ n) g = g\<lparr>gw_spanY := Num (y + of_nat n * h)\<rparr>"
proof (induction n)
  case 0
  then show ?case using assms by simp
next
  case (Suc n)
  then show ?case using assms by (simp add: advance_def algebra_simps)
qed

fun the_swidget :: "widget \<Rightarrow> swidget option" where
  "the_swidget (WSpan w) = Some w"
| "the_swidget _ = None"

definition span_widgets :: "widget list \<Rightarrow> swidget list" where
  "span_widgets ws = List.map_filter the_swidget ws"

lemma span_widgets_simps [simp]:
  "span_widgets [] = []" "span_widgets (WSpan w # ws) = w # span_widgets ws"
  "span_widgets (xs @ ys) = span_widgets xs @ span_widgets ys"
  "span_widgets (map WTriangle bs) = []"
  by (simp_all add: span_widgets_def List.map_filter_def comp_def)

lemma group_span_widgets:
  assumes "gw_spanY g = Num y" "gw_spanWidgetHeight g = Num h"
  shows "length (span_widgets (group_widgets st g rs)) = length rs \<and>
    (\<forall>i<length rs. let w = span_widgets (group_widgets st g rs) ! i in
       sw_span w = fst (rs ! i) \<and> sw_y0 w = Num (y + of_nat i * h) \<and> sw_yF w = Num (y + of_nat (Suc i) * h) \<and>
       sw_xD w = gw_xD g \<and> sw_xF w = gw_xF g \<and> sw_x0 w = gw_x0 g)"
  using assms
proof (induction st g rs arbitrary: y rule: group_widgets.induct)
  case (1 st g)
  then show ?case by simp
next
  case (2 st g m ind up down rs)
  let ?g = "advance g"
  have "gw_spanY ?g = Num (y + h)" "gw_spanWidgetHeight ?g = Num h"
    using 2(2,3) by (simp_all add: advance_def)
  note IH = 2(1) [OF refl this]
  have g: "gw_xD ?g = gw_xD g" "gw_xF ?g = gw_xF g" "gw_x0 ?g = gw_x0 g" by (simp_all add: advance_def)
  show ?case
    using IH 2(2,3) unfolding g
    by (auto simp: Let_def sized_def group_row_def nth_Cons algebra_simps split: nat.split)
qed

lemma pre_nodes_below:
  "insert r (fst ` {x \<in> set (pre_nodes n gd r 0). 0 < snd x}) = fst ` set (pre_nodes n gd r 0)"
proof -
  obtain xs where xs: "pre_nodes n gd r 0 = (r, 0) # xs" using hd_pre_nodes [of n gd r 0] by blast
  have "\<forall>x\<in>set xs. 0 < snd x" using pre_nodes_depth_0 [of _ _ n gd r 0] unfolding xs by auto
  then have "{x \<in> set (pre_nodes n gd r 0). 0 < snd x} = set xs" unfolding xs by auto
  then show ?thesis unfolding xs by simp
qed

lemma group_rows_relatives:
  assumes "store_inv h"
  shows "fst ` set (group_rows h r k) = relatives h r"
proof -
  have "fst ` set (group_rows h r k) = insert r (fst ` {x \<in> set (parent_nodes h r). 0 < snd x})
      \<union> insert r (fst ` {x \<in> set (down_nodes h r). 0 < snd x})"
    by (auto simp: group_rows_def set_up_nodes image_Un image_image case_prod_beta)
  then show ?thesis
    unfolding parent_nodes_def down_nodes_def pre_nodes_below relatives_visited [OF assms] .
qed


text \<open>A group for the example store: the fetched parent above the result.\<close>

definition example_view :: view where
  "example_view = (new_view 0 (Num 1000) (Num 800) (Num 50) (Num 1) [])\<lparr>v_store := example_store\<rparr>"


end
