(* ===== verification/View_Invariant.thy ===== *)
theory View_Invariant
  imports View_Layout
begin

text \<open>
  The invariant of the results view, and what its constructors and its rendering keep: the spans
  form forests, every reference of a result, a widget or a request is a span of the store, every
  listener is a widget that has a case for the event it listens to, and the time cursor is one.
  Rendering makes widgets and draws them; it changes none of the data (\<open>data\<close>).
\<close>

section \<open>The data of a view, without its presentation\<close>

definition data :: "view \<Rightarrow> view" where
  "data v = v\<lparr>v_viewX := Undef, v_viewY := Undef, v_xB := Undef, v_xD := Undef, v_xS := Undef,
     v_canvasY := Undef, v_widgets := [], v_listeners := no_listeners, v_timeCursor := None,
     v_canvas := fresh_canvas, v_attached := False\<rparr>"

lemma data_eqD:
  assumes "data v' = data v"
  shows "v_store v' = v_store v" "v_results v' = v_results v" "v_begin v' = v_begin v" "v_end v' = v_end v"
    "v_beginText v' = v_beginText v" "v_endText v' = v_endText v" "v_timeText v' = v_timeText v"
    "v_dialogs v' = v_dialogs v" "v_requests v' = v_requests v" "v_now v' = v_now v"
    "v_processNameFraction v' = v_processNameFraction v" "v_pointer v' = v_pointer v"
    "v_parentWidth v' = v_parentWidth v" "v_windowHeight v' = v_windowHeight v"
    "v_headerHeight v' = v_headerHeight v"
  using assms [THEN arg_cong, of v_store] assms [THEN arg_cong, of v_results]
    assms [THEN arg_cong, of v_begin] assms [THEN arg_cong, of v_end]
    assms [THEN arg_cong, of v_beginText] assms [THEN arg_cong, of v_endText]
    assms [THEN arg_cong, of v_timeText] assms [THEN arg_cong, of v_dialogs]
    assms [THEN arg_cong, of v_requests] assms [THEN arg_cong, of v_now]
    assms [THEN arg_cong, of v_processNameFraction] assms [THEN arg_cong, of v_pointer]
    assms [THEN arg_cong, of v_parentWidth] assms [THEN arg_cong, of v_windowHeight]
    assms [THEN arg_cong, of v_headerHeight]
  by (simp_all add: data_def)

lemma data_simps [simp]:
  "data (v_register t i v) = data v" "data (v_registerHigh t i v) = data v"
  "data (v_unregister t i v) = data v" "data (new_widget w v) = data v" "data (set_widget i w v) = data v"
  "data (v_exec cmds v) = data v" "data (v\<lparr>v_attached := b\<rparr>) = data v" "data (v\<lparr>v_canvas := c\<rparr>) = data v"
  "data (v\<lparr>v_listeners := ls\<rparr>) = data v" "data (v\<lparr>v_canvasY := y\<rparr>) = data v"
  "data (v\<lparr>v_timeCursor := tc\<rparr>) = data v" "data (setupCoordinates v) = data v" "data (scaleCanvas v) = data v"
  by (simp_all add: data_def v_register_def v_registerHigh_def v_unregister_def new_widget_def set_widget_def
      v_exec_def setupCoordinates_def scaleCanvas_def Let_def)

lemma data_constructors [simp]:
  "data (new_TriangleButton b v) = data v" "data (new_PartitionWidget p v) = data v"
  "data (new_TimeCursor c v) = data v" "data (new_SpanWidget w up down v) = data v"
  "data (createSpanWidget gi n ind up down v) = data v" "data (finish_group gi v) = data v"
  "data (make_partition pw y v) = data v" "data (make_cursor v) = data v"
  by (simp_all add: new_TriangleButton_def new_PartitionWidget_def new_TimeCursor_def new_SpanWidget_def
      createSpanWidget_def finish_group_def make_partition_def make_cursor_def Let_def split: widget.split)

lemma data_create_rows: "data (fold (create_row gi) rs v) = data v"
  by (induction rs arbitrary: v) auto

section \<open>Kinds of widgets, and the events they listen to\<close>

datatype wkind = KTriangle | KPartition | KCursor | KSpan | KGroup

fun kind :: "widget \<Rightarrow> wkind" where
  "kind (WTriangle b) = KTriangle"
| "kind (WPartition p) = KPartition"
| "kind (WCursor c) = KCursor"
| "kind (WSpan w) = KSpan"
| "kind (WGroup g) = KGroup"

fun handles :: "wkind \<Rightarrow> event_type set" where
  "handles KTriangle = {MouseDown, MouseUp, MouseMove, MouseOut, Draw}"
| "handles KPartition = {MouseDown, MouseUp, MouseMove, Draw}"
| "handles KCursor = {MouseMove, Draw}"
| "handles KSpan = {MouseDown, DblClick, Draw}"
| "handles KGroup = {Draw}"

fun callback_ref :: "callback \<Rightarrow> ref" where
  "callback_ref (ReifyParents r) = r"
| "callback_ref (ReifyChildren r) = r"

fun widget_refs :: "widget \<Rightarrow> ref set" where
  "widget_refs (WTriangle b) = {callback_ref (tb_callback b)}"
| "widget_refs (WSpan w) = {sw_span w}"
| "widget_refs (WGroup g) = {gw_span g}"
| "widget_refs _ = {}"

definition listeners_ok :: "view \<Rightarrow> bool" where
  "listeners_ok v \<longleftrightarrow>
     (\<forall>t. \<forall>i\<in>set (v_listeners v t). i < length (v_widgets v) \<and> t \<in> handles (kind (v_widgets v ! i)))"

definition cursor_ok :: "view \<Rightarrow> bool" where
  "cursor_ok v \<longleftrightarrow>
     (\<forall>i. v_timeCursor v = Some i \<longrightarrow> i < length (v_widgets v) \<and> kind (v_widgets v ! i) = KCursor)"

definition view_ok :: "view \<Rightarrow> bool" where
  "view_ok v \<longleftrightarrow>
     store_inv (v_store v) \<and> coll_inv (v_results v)
   \<and> set (c_models (v_results v)) \<subseteq> {..<length (v_store v)}
   \<and> (\<forall>w\<in>set (v_widgets v). widget_refs w \<subseteq> {..<length (v_store v)})
   \<and> callback_ref ` set (v_requests v) \<subseteq> {..<length (v_store v)}
   \<and> listeners_ok v \<and> cursor_ok v"

lemma view_okD:
  assumes "view_ok v"
  shows "store_inv (v_store v)" "coll_inv (v_results v)" "listeners_ok v" "cursor_ok v"
    "r \<in> set (c_models (v_results v)) \<Longrightarrow> r < length (v_store v)"
    "i < length (v_widgets v) \<Longrightarrow> r \<in> widget_refs (v_widgets v ! i) \<Longrightarrow> r < length (v_store v)"
    "c \<in> set (v_requests v) \<Longrightarrow> callback_ref c < length (v_store v)"
  using assms by (auto simp: view_ok_def)

text \<open>The presentation fields that the invariant does not look at.\<close>

lemma view_ok_frame [simp]:
  "view_ok (v\<lparr>v_attached := b\<rparr>) = view_ok v" "view_ok (v\<lparr>v_canvas := c\<rparr>) = view_ok v"
  "view_ok (v\<lparr>v_canvasY := y\<rparr>) = view_ok v" "view_ok (v\<lparr>v_dialogs := ds\<rparr>) = view_ok v"
  "view_ok (v\<lparr>v_timeText := s\<rparr>) = view_ok v" "view_ok (v\<lparr>v_pointer := s\<rparr>) = view_ok v"
  "view_ok (v\<lparr>v_processNameFraction := f\<rparr>) = view_ok v"
  "view_ok (v_exec cmds v) = view_ok v" "view_ok (setupCoordinates v) = view_ok v"
  "view_ok (scaleCanvas v) = view_ok v" "view_ok (setTimes pb pe v) = view_ok v"
  by (simp_all add: view_ok_def listeners_ok_def cursor_ok_def v_exec_def setupCoordinates_def scaleCanvas_def
      setTimes_def Let_def case_prod_beta)

lemma view_ok_no_listeners: "view_ok v \<Longrightarrow> view_ok (v\<lparr>v_listeners := no_listeners\<rparr>)"
  by (simp add: view_ok_def listeners_ok_def cursor_ok_def)

lemma view_ok_register:
  "view_ok v \<Longrightarrow> i < length (v_widgets v) \<Longrightarrow> t \<in> handles (kind (v_widgets v ! i)) \<Longrightarrow> view_ok (v_register t i v)"
  by (auto simp: view_ok_def listeners_ok_def cursor_ok_def)

lemma view_ok_registerHigh:
  "view_ok v \<Longrightarrow> i < length (v_widgets v) \<Longrightarrow> t \<in> handles (kind (v_widgets v ! i)) \<Longrightarrow> view_ok (v_registerHigh t i v)"
  by (auto simp: view_ok_def listeners_ok_def cursor_ok_def v_registerHigh_def)

lemma view_ok_unregister: "view_ok v \<Longrightarrow> view_ok (v_unregister t i v)"
  by (auto simp: view_ok_def listeners_ok_def cursor_ok_def v_unregister_def)

lemma view_ok_new_widget:
  "view_ok v \<Longrightarrow> widget_refs w \<subseteq> {..<length (v_store v)} \<Longrightarrow> view_ok (new_widget w v)"
  by (fastforce simp: view_ok_def listeners_ok_def cursor_ok_def nth_append)

lemma view_ok_set_widget:
  assumes "view_ok v" "i < length (v_widgets v)" "kind w = kind (v_widgets v ! i)"
    "widget_refs w \<subseteq> {..<length (v_store v)}"
  shows "view_ok (set_widget i w v)"
proof -
  have "kind ((v_widgets v)[i := w] ! j) = kind (v_widgets v ! j)" for j
    using assms(2,3) by (cases "j = i") auto
  moreover have "\<forall>x\<in>set ((v_widgets v)[i := w]). widget_refs x \<subseteq> {..<length (v_store v)}"
    using assms(1,4) set_update_subset_insert [of "v_widgets v" i w] by (fastforce simp: view_ok_def)
  ultimately show ?thesis using assms(1) by (simp add: view_ok_def listeners_ok_def cursor_ok_def)
qed

lemmas view_ok_intros = view_ok_register view_ok_new_widget view_ok_set_widget view_ok_no_listeners

lemma view_ok_new_TriangleButton:
  "view_ok v \<Longrightarrow> callback_ref (tb_callback b) < length (v_store v) \<Longrightarrow> view_ok (new_TriangleButton b v)"
  unfolding new_TriangleButton_def Let_def by (intro view_ok_intros) (simp_all add: nth_append)

lemma view_ok_new_PartitionWidget: "view_ok v \<Longrightarrow> view_ok (new_PartitionWidget p v)"
  unfolding new_PartitionWidget_def Let_def by (intro view_ok_intros) (simp_all add: nth_append)

lemma view_ok_make_cursor:
  assumes "view_ok v"
  shows "view_ok (make_cursor v)"
proof -
  have "view_ok (new_TimeCursor c v)" for c
    unfolding new_TimeCursor_def Let_def using assms by (intro view_ok_intros) (simp_all add: nth_append)
  then show ?thesis
    by (auto simp: make_cursor_def Let_def view_ok_def listeners_ok_def cursor_ok_def new_TimeCursor_def nth_append)
qed

lemma view_ok_new_SpanWidget:
  assumes "view_ok v" "sw_span w < length (v_store v)"
  shows "view_ok (new_SpanWidget w up down v)"
proof -
  let ?i = "length (v_widgets v)" and ?w = "sized w"
  have s: "sw_span ?w = sw_span w" by (simp add: sized_def)
  let ?v1 = "v_register Draw ?i (new_widget (WSpan ?w) v)"
  let ?v2 = "if sp_reifiedParents (span_at (v_store ?v1) (sw_span ?w)) = None \<and> up
             then new_TriangleButton (up_button ?w) ?v1 else ?v1"
  let ?v3 = "if sp_reifiedChildren (span_at (v_store ?v1) (sw_span ?w)) = None \<and> down
             then new_TriangleButton (down_button ?w) ?v2 else ?v2"
  have v1: "view_ok ?v1"
    using assms s by (intro view_ok_intros) (simp_all add: nth_append)
  have v2: "view_ok ?v2"
    using v1 view_ok_new_TriangleButton [OF v1, of "up_button ?w"] assms(2) s by (simp add: up_button_def)
  have v3: "view_ok ?v3"
    using v2 view_ok_new_TriangleButton [OF v2, of "down_button ?w"] assms(2) s by (simp add: down_button_def)
  have "?i < length (v_widgets ?v3)" "v_widgets ?v3 ! ?i = WSpan ?w"
    by (simp_all add: nth_append)
  then have "view_ok (v_register DblClick ?i (v_register MouseDown ?i ?v3))"
    using v3 by (intro view_ok_register) simp_all
  then show ?thesis by (simp add: new_SpanWidget_def Let_def)
qed

lemma view_ok_createSpanWidget:
  assumes "view_ok v" "gi < length (v_widgets v)" "kind (v_widgets v ! gi) = KGroup" "n < length (v_store v)"
  shows "view_ok (createSpanWidget gi n ind up down v)
    \<and> gi < length (v_widgets (createSpanWidget gi n ind up down v))
    \<and> kind (v_widgets (createSpanWidget gi n ind up down v) ! gi) = KGroup
    \<and> length (v_widgets v) \<le> length (v_widgets (createSpanWidget gi n ind up down v))"
proof (cases "v_widgets v ! gi")
  case (WGroup g)
  let ?v = "new_SpanWidget (group_row g n ind) up down v"
  have "view_ok ?v" using assms(1,4) by (intro view_ok_new_SpanWidget) (simp_all add: group_row_def)
  moreover have "v_widgets ?v ! gi = WGroup g" using assms(2) WGroup by (simp add: nth_append)
  moreover have "gw_span g < length (v_store v)" using view_okD(6) [OF assms(1,2)] WGroup by simp
  ultimately have "view_ok (createSpanWidget gi n ind up down v)"
    using assms(2) WGroup by (simp add: createSpanWidget_def view_ok_set_widget)
  then show ?thesis
    using createSpanWidget_group [OF assms(2) WGroup] assms(2) by (simp add: nth_append)
qed (use assms in simp_all)

lemma fst_group_rows_bound:
  assumes "store_inv h" "r < length h" "row \<in> set (group_rows h r k)"
  shows "fst row < length h"
  using assms(3) nodes_bound [OF assms(1,2)] assms(2) by (auto simp: group_rows_def)

lemma view_ok_create_rows:
  assumes "view_ok v" "gi < length (v_widgets v)" "kind (v_widgets v ! gi) = KGroup"
    and "\<forall>row\<in>set rs. fst row < length (v_store v)"
  shows "view_ok (fold (create_row gi) rs v)
    \<and> gi < length (v_widgets (fold (create_row gi) rs v))
    \<and> kind (v_widgets (fold (create_row gi) rs v) ! gi) = KGroup
    \<and> length (v_widgets v) \<le> length (v_widgets (fold (create_row gi) rs v))"
  using assms
proof (induction rs arbitrary: v)
  case Nil
  then show ?case by simp
next
  case (Cons row rs)
  obtain m ind up down where row: "row = (m, ind, up, down)" by (cases row)
  have "m < length (v_store v)" using Cons.prems(4) row by simp
  note c = view_ok_createSpanWidget [OF Cons.prems(1-3) this, of ind up down]
  with Cons.IH [of "createSpanWidget gi m ind up down v"] Cons.prems(4) show ?case
    by (auto simp: row)
qed

text \<open>Making a group returns, keeps the invariant and the data, and only adds widgets.\<close>

lemma new_SpanGroupWidget_ok:
  assumes "view_ok v" "length (v_store v) < fuel" "gw_span g < length (v_store v)"
  shows "\<exists>v'. new_SpanGroupWidget fuel g v = Some v' \<and> view_ok v' \<and> data v' = data v
           \<and> length (v_widgets v) \<le> length (v_widgets v')"
proof -
  let ?gi = "length (v_widgets v)" and ?st = "v_store v"
  let ?rows = "group_rows ?st (gw_span g) (parent_height ?st (gw_span g))"
  let ?v0 = "v_register Draw ?gi (new_widget (WGroup (group_start g)) v)"
  let ?v1 = "fold (create_row ?gi) ?rows ?v0"
  have inv: "store_inv ?st" using view_okD(1) [OF assms(1)] .
  have v0: "view_ok ?v0"
    using assms by (intro view_ok_intros) (simp_all add: nth_append group_start_def)
  have v1: "view_ok ?v1 \<and> ?gi < length (v_widgets ?v1) \<and> kind (v_widgets ?v1 ! ?gi) = KGroup
      \<and> length (v_widgets ?v0) \<le> length (v_widgets ?v1)"
    using fst_group_rows_bound [OF inv assms(3)] by (intro view_ok_create_rows [OF v0]) (simp_all add: nth_append)
  have "view_ok (finish_group ?gi ?v1)"
  proof (cases "v_widgets ?v1 ! ?gi")
    case (WGroup g')
    then show ?thesis
      using v1 view_okD(6) [of ?v1 ?gi] by (auto simp: finish_group_def intro!: view_ok_set_widget)
  qed (use v1 in simp_all)
  moreover have "length (v_widgets (finish_group ?gi ?v1)) = length (v_widgets ?v1)"
    by (simp add: finish_group_def split: widget.split)
  ultimately show ?thesis
    using new_SpanGroupWidget_eq [OF inv assms(2), of g] v1 by (auto simp: Let_def data_create_rows)
qed

lemma make_groups_ok:
  assumes "view_ok v" "length (v_store v) < fuel" "set rs \<subseteq> {..<length (v_store v)}"
  shows "\<exists>v' y'. make_groups fuel pw sh rs y v = Some (v', y') \<and> view_ok v' \<and> data v' = data v
           \<and> length (v_widgets v) \<le> length (v_widgets v')"
  using assms
proof (induction rs arbitrary: y v)
  case Nil
  then show ?case by simp
next
  case (Cons r rs)
  have "gw_span (new_group v r pw sh y) < length (v_store v)" using Cons.prems(3) by (simp add: new_group_def)
  from new_SpanGroupWidget_ok [OF Cons.prems(1,2) this] obtain v1 where
    v1: "new_SpanGroupWidget fuel (new_group v r pw sh y) v = Some v1" "view_ok v1" "data v1 = data v"
      "length (v_widgets v) \<le> length (v_widgets v1)" by blast
  have "\<exists>v' y'. make_groups fuel pw sh rs (group_yF v1 (length (v_widgets v))) v1 = Some (v', y')
      \<and> view_ok v' \<and> data v' = data v1 \<and> length (v_widgets v1) \<le> length (v_widgets v')"
    using Cons.prems data_eqD(1) [OF v1(3)] by (intro Cons.IH [OF v1(2)]) simp_all
  with v1 show ?case by auto
qed

lemma setupWidgets_ok:
  assumes "view_ok v" "length (v_store v) < fuel"
  shows "\<exists>v'. setupWidgets fuel v = Some v' \<and> view_ok v' \<and> data v' = data v
           \<and> length (v_widgets v) \<le> length (v_widgets v')"
proof -
  let ?v = "v\<lparr>v_listeners := no_listeners\<rparr>"
  let ?pw = "js_max (Num 5) (js_floor (v_viewX v / Num 300))" and ?sh = "js_min (Num 25) (js_floor (v_viewY v / Num 32))"
  obtain v1 y where g: "make_groups fuel ?pw ?sh (c_models (v_results v)) (Num 0) ?v = Some (v1, y)"
    "view_ok v1" "data v1 = data v" "length (v_widgets v) \<le> length (v_widgets v1)"
    using make_groups_ok [OF view_ok_no_listeners [OF assms(1)], of fuel "c_models (v_results v)" ?pw ?sh "Num 0"]
      assms(2) view_okD(5) [OF assms(1)] by auto
  let ?v2 = "if v_canvasY v1 < y then v1\<lparr>v_canvasY := y\<rparr> else v1"
  have "view_ok ?v2" "data ?v2 = data v" "length (v_widgets ?v2) = length (v_widgets v1)" using g by simp_all
  moreover have "length (v_widgets ?v2) \<le> length (v_widgets (make_cursor (make_partition ?pw y ?v2)))"
    by (simp add: make_cursor_def make_partition_def new_PartitionWidget_def new_TimeCursor_def Let_def)
  ultimately have "view_ok (make_cursor (make_partition ?pw y ?v2)) \<and> data (make_cursor (make_partition ?pw y ?v2)) = data v
      \<and> length (v_widgets v) \<le> length (v_widgets (make_cursor (make_partition ?pw y ?v2)))"
    using g(4) by (auto intro!: view_ok_make_cursor simp: make_partition_def view_ok_new_PartitionWidget)
  then show ?thesis using g(1) by (simp add: setupWidgets_def Let_def)
qed

section \<open>Drawing\<close>

lemma v_exec_simps [simp]:
  "v_widgets (v_exec cmds v) = v_widgets v" "v_store (v_exec cmds v) = v_store v"
  "v_listeners (v_exec cmds v) = v_listeners v" "v_canvas (v_exec cmds v) = exec_all cmds (v_canvas v)"
  "v_exec cmds' (v_exec cmds v) = v_exec (cmds @ cmds') v"
  by (simp_all add: v_exec_def)

text \<open>All listeners of \<open>draw\<close> are drawn, in the order of their registration.\<close>

lemma draw_loop:
  "handle_loop (\<lambda>i v. Some (handle_draw i v)) ws v =
     Some (v_exec (concat (map (\<lambda>i. draw_widget (span_at (v_store v)) (v_widgets v ! i)) ws)) v)"
proof (induction ws arbitrary: v)
  case Nil
  then show ?case by (simp add: v_exec_def)
next
  case (Cons i ws)
  then show ?case by (simp add: handle_draw_def)
qed

definition background :: "view \<Rightarrow> draw_cmd list" where
  "background v = [Save, FillStyle ''#ffffff'', StrokeStyle ''#000000'',
     FillRect (Num 0) (Num 0) (v_viewX v) (v_canvasY v), Restore]"

definition picture :: "view \<Rightarrow> draw_cmd list" where
  "picture v = background v
     @ concat (map (\<lambda>i. draw_widget (span_at (v_store v)) (v_widgets v ! i)) (v_listeners v Draw))"

lemma draw_eq:
  "draw v = Some (if v_viewX v < Num 200 \<or> v_viewY v < Num 200 then fst (checkCanvasTooSmall v)
                  else v_exec (picture v) v)"
  by (auto simp: draw_def checkCanvasTooSmall_def handle_def draw_event_def draw_loop picture_def background_def Let_def)

lemma draw_ok:
  assumes "view_ok v"
  shows "\<exists>v'. draw v = Some v' \<and> view_ok v' \<and> data v' = data v \<and> v_widgets v' = v_widgets v
    \<and> v_listeners v' = v_listeners v"
  using assms by (auto simp: draw_eq checkCanvasTooSmall_def)

lemma render_ok:
  assumes "view_ok v" "length (v_store v) < fuel"
  shows "\<exists>v'. render fuel v = Some v' \<and> view_ok v' \<and> data v' = data v
           \<and> length (v_widgets v) \<le> length (v_widgets v') \<and> v_attached v'"
proof -
  let ?v = "setupCoordinates v"
  have f: "v_store ?v = v_store v" "v_widgets ?v = v_widgets v" by (simp_all add: setupCoordinates_def Let_def)
  obtain v1 where v1: "setupWidgets fuel ?v = Some v1" "view_ok v1" "data v1 = data v"
    "length (v_widgets v) \<le> length (v_widgets v1)"
    using setupWidgets_ok [of ?v fuel] assms by (auto simp: f)
  obtain v2 where "draw (scaleCanvas v1) = Some v2" "view_ok v2" "data v2 = data v" "v_widgets v2 = v_widgets (scaleCanvas v1)"
    using draw_ok [of "scaleCanvas v1"] v1 by auto
  moreover have "v_widgets (scaleCanvas v1) = v_widgets v1" by (simp add: scaleCanvas_def Let_def)
  ultimately show ?thesis using v1 by (simp add: render_def)
qed

end
