(* ===== verification/View_Total.thy ===== *)
theory View_Total
  imports View_Invariant
begin

text \<open>
  Every operation of the results view returns, and keeps the invariant: the loops over all spans
  as folds over the list of the visible spans, the handlers of the widgets as an interpretation of
  the contract \<open>dispatch\<close>, and the operations of the view.
\<close>

section \<open>The visible spans\<close>

definition visible_nodes :: "store \<Rightarrow> ref \<Rightarrow> ref list" where
  "visible_nodes h r = map fst (down_nodes h r) @ map fst (filter (\<lambda>(m, e). 0 < e) (parent_nodes h r))"

definition visible :: "store \<Rightarrow> ref list \<Rightarrow> ref list" where
  "visible h rs = concat (map (visible_nodes h) rs)"

lemma visible_simps [simp]: "visible h [] = []" "visible h (r # rs) = visible_nodes h r @ visible h rs"
  by (simp_all add: visible_def)

lemma nodes_cong:
  assumes "getReifiedParents h' = getReifiedParents h" "getReifiedChildren h' = getReifiedChildren h"
  shows "down_nodes h' = down_nodes h" "parent_nodes h' = parent_nodes h" "up_nodes h' = up_nodes h"
    "visible h' = visible h"
proof -
  show d: "down_nodes h' = down_nodes h" and p: "parent_nodes h' = parent_nodes h" "up_nodes h' = up_nodes h"
    by (rule ext, simp add: assms down_nodes_def parent_nodes_def up_nodes_def)+
  have "visible_nodes h' = visible_nodes h" by (rule ext) (simp add: visible_nodes_def d p)
  then show "visible h' = visible h" by (intro ext) (simp add: visible_def)
qed

lemma set_visible_nodes:
  assumes "store_inv h"
  shows "set (visible_nodes h r) = relatives h r"
proof -
  obtain xs where "down_nodes h r = (r, 0) # xs"
    using hd_pre_nodes [of "descendants (getReifiedChildren h) r" "getReifiedChildren h" r 0]
    by (auto simp: down_nodes_def)
  then have r: "r \<in> fst ` set (down_nodes h r)" by simp
  have "set (visible_nodes h r) = fst ` set (down_nodes h r) \<union> fst ` {x \<in> set (parent_nodes h r). 0 < snd x}"
    by (auto simp: visible_nodes_def case_prod_beta)
  also have "\<dots> = fst ` set (down_nodes h r) \<union> insert r (fst ` {x \<in> set (parent_nodes h r). 0 < snd x})"
    using r by blast
  finally show ?thesis
    unfolding parent_nodes_def down_nodes_def pre_nodes_below relatives_visited [OF assms] by blast
qed

lemma set_visible: "store_inv h \<Longrightarrow> set (visible h rs) = (\<Union>r\<in>set rs. relatives h r)"
  by (simp add: visible_def set_visible_nodes)

lemma fold_fst: "fold (\<lambda>(m, e). f m) xs s = fold f (map fst xs) s"
  by (induction xs arbitrary: s) auto

lemma fold_depth:
  "fold (\<lambda>(m, e) s. if 0 < e then f m s else s) xs s = fold f (map fst (filter (\<lambda>(m, e). 0 < e) xs)) s"
  for f :: "'a \<Rightarrow> 's \<Rightarrow> 's" and xs :: "('a \<times> nat) list"
  by (induction xs arbitrary: s) auto

text \<open>Callbacks that leave the references between the spans alone.\<close>

definition gentle :: "(ref \<Rightarrow> view \<Rightarrow> view) \<Rightarrow> bool" where
  "gentle cb \<longleftrightarrow>
     (\<forall>n v. store_inv (v_store (cb n v)) = store_inv (v_store v) \<and>
            getReifiedParents (v_store (cb n v)) = getReifiedParents (v_store v) \<and>
            getReifiedChildren (v_store (cb n v)) = getReifiedChildren (v_store v) \<and>
            length (v_store (cb n v)) = length (v_store v))"

lemma gentle_fold:
  assumes "gentle cb"
  shows "store_inv (v_store (fold cb xs v)) = store_inv (v_store v)
    \<and> getReifiedParents (v_store (fold cb xs v)) = getReifiedParents (v_store v)
    \<and> getReifiedChildren (v_store (fold cb xs v)) = getReifiedChildren (v_store v)
    \<and> length (v_store (fold cb xs v)) = length (v_store v)"
  using assms by (induction xs arbitrary: v) (simp_all add: gentle_def)

lemma apply_to_result_eq:
  assumes "gentle cb" "store_inv (v_store v)" "length (v_store v) < fuel"
  shows "apply_to_result fuel cb r v = Some (fold cb (visible_nodes (v_store v) r) v)"
proof -
  let ?up = "\<lambda>node depth v. if 0 < depth then cb node v else v"
  have k: "v_children.keeps (\<lambda>node depth v. cb node v)" "v_parents.keeps ?up"
    using assms(1) by (simp_all add: v_children.keeps_def v_parents.keeps_def gentle_def)
  let ?v1 = "fold cb (map fst (down_nodes (v_store v) r)) v"
  note g = gentle_fold [OF assms(1), of "map fst (down_nodes (v_store v) r)" v]
  have "treeTraverseDepthFirstPre fuel (\<lambda>v. getReifiedChildren (v_store v)) (\<lambda>node depth v. cb node v) r 0 v = Some ?v1"
    using v_children.pre_is_fold [OF k(1), of v r fuel] assms(2) enough_fuel(2) [OF assms(2,3)]
    by (simp add: fold_fst down_nodes_def)
  moreover have "treeTraverseDepthFirstPre fuel (\<lambda>v. getReifiedParents (v_store v)) ?up r 0 ?v1
      = Some (fold cb (map fst (filter (\<lambda>(m, e). 0 < e) (parent_nodes (v_store v) r))) ?v1)"
    using v_parents.pre_is_fold [OF k(2), of ?v1 r fuel] g assms(2) enough_fuel(1) [OF assms(2,3)]
    by (simp add: fold_depth parent_nodes_def)
  ultimately show ?thesis by (simp add: apply_to_result_def visible_nodes_def)
qed

lemma applyToAllSpans_eq:
  assumes "gentle cb" "store_inv (v_store v)" "length (v_store v) < fuel"
  shows "applyToAllSpans fuel cb v = Some (fold cb (visible (v_store v) (c_models (v_results v))) v)"
proof -
  have "apply_to_results fuel cb rs v = Some (fold cb (visible (v_store v) rs) v)"
    if "store_inv (v_store v)" "length (v_store v) < fuel" for rs v
    using that
  proof (induction rs arbitrary: v)
    case Nil
    then show ?case by simp
  next
    case (Cons r rs)
    let ?v = "fold cb (visible_nodes (v_store v) r) v"
    note g = gentle_fold [OF assms(1), of "visible_nodes (v_store v) r" v]
    then have "visible (v_store ?v) = visible (v_store v)" by (intro nodes_cong(4)) auto
    then show ?case
      using Cons g apply_to_result_eq [OF assms(1) Cons.prems, of r] by simp
  qed
  with assms show ?thesis by (simp add: applyToAllSpans_def)
qed

text \<open>A callback that only accumulates.\<close>

lemma collect_results_eq:
  assumes "store_inv h" "length h < fuel"
  shows "collect_results fuel h cb rs a = Some (fold cb (visible h rs) a)"
proof (induction rs arbitrary: a)
  case Nil
  then show ?case by simp
next
  case (Cons r rs)
  have k: "children_ro.keeps h (\<lambda>node depth a. cb node a)"
    "parents_ro.keeps h (\<lambda>node depth a. if 0 < depth then cb node a else a)"
    by (simp_all add: children_ro.keeps_def parents_ro.keeps_def)
  have "collect_result fuel h cb r a = Some (fold cb (visible_nodes h r) a)"
    using children_ro.pre_is_fold [OF k(1) assms(1) enough_fuel(2) [OF assms]]
      parents_ro.pre_is_fold [OF k(2) assms(1) enough_fuel(1) [OF assms]]
    by (simp add: collect_result_def visible_nodes_def fold_fst fold_depth down_nodes_def parent_nodes_def)
  with Cons show ?case by simp
qed

section \<open>Selected spans\<close>

lemma select_or_all_started:
  "fold (select_or_all h) xs (ret, False) = (ret @ filter (is_selected h) xs, False)"
  by (induction xs arbitrary: ret) (auto simp: select_or_all_def)

lemma select_or_all_fold:
  "fold (select_or_all h) xs (ret, True) =
     (if \<exists>x\<in>set xs. is_selected h x then (filter (is_selected h) xs, False) else (ret @ xs, True))"
proof (induction xs arbitrary: ret)
  case Nil
  then show ?case by simp
next
  case (Cons x xs)
  then show ?case
    by (cases "is_selected h x") (simp_all add: select_or_all_def select_or_all_started [unfolded select_or_all_def])
qed

definition selected_or_all :: "store \<Rightarrow> ref list \<Rightarrow> ref list" where
  "selected_or_all h xs = (if \<exists>x\<in>set xs. is_selected h x then filter (is_selected h) xs else xs)"

lemma getSelectedSpansOrAllSpans_eq:
  assumes "store_inv (v_store v)" "length (v_store v) < fuel"
  shows "getSelectedSpansOrAllSpans fuel v
    = Some (selected_or_all (v_store v) (visible (v_store v) (c_models (v_results v))))"
  by (simp add: getSelectedSpansOrAllSpans_def collect_results_eq [OF assms] select_or_all_fold selected_or_all_def)

text \<open>Clicking on a span.\<close>

lemma set_selected_simps [simp]:
  "v_store (set_selected sb r v) = select_span sb r (v_store v)" "v_widgets (set_selected sb r v) = v_widgets v"
  "v_results (set_selected sb r v) = v_results v" "v_listeners (set_selected sb r v) = v_listeners v"
  "v_attached (set_selected sb r v) = v_attached v"
  by (simp_all add: set_selected_def)

lemma is_selected_select:
  "is_selected (select_span sb r h) x = (if x = r \<and> r < length h then sb else is_selected h x)"
  by (simp add: is_selected_def span_at_select)

lemma gentle_click: "gentle (click_select this)"
  by (auto simp: gentle_def click_select_def)

lemma view_ok_set_selected: "view_ok v \<Longrightarrow> view_ok (set_selected sb r v)"
  by (simp add: view_ok_def listeners_ok_def cursor_ok_def set_selected_def)

lemma click_select_keeps:
  "view_ok v \<Longrightarrow> view_ok (fold (click_select this) xs v) \<and> v_widgets (fold (click_select this) xs v) = v_widgets v
     \<and> v_results (fold (click_select this) xs v) = v_results v \<and> v_listeners (fold (click_select this) xs v) = v_listeners v
     \<and> length (v_store (fold (click_select this) xs v)) = length (v_store v)
     \<and> v_attached (fold (click_select this) xs v) = v_attached v"
  by (induction xs arbitrary: v) (simp_all add: click_select_def view_ok_set_selected)

lemma click_select_selected:
  assumes "set xs \<subseteq> {..<length (v_store v)}"
  shows "is_selected (v_store (fold (click_select this) xs v)) x =
    (if x \<in> set xs then x = this else is_selected (v_store v) x)"
  using assms
proof (induction xs arbitrary: v)
  case Nil
  then show ?case by simp
next
  case (Cons y ys)
  have "length (v_store (click_select this y v)) = length (v_store v)" by (simp add: click_select_def)
  then have "is_selected (v_store (fold (click_select this) (y # ys) v)) x
      = (if x \<in> set ys then x = this else is_selected (v_store (click_select this y v)) x)"
    using Cons by simp
  moreover have "is_selected (v_store (click_select this y v)) x = (if x = y then x = this else is_selected (v_store v) x)"
    using Cons.prems by (auto simp: click_select_def is_selected_select)
  ultimately show ?case by auto
qed

section \<open>Clearing\<close>

definition selected_below :: "store \<Rightarrow> ref \<Rightarrow> bool" where
  "selected_below h r \<longleftrightarrow> (\<exists>(m, e)\<in>set (down_nodes h r). is_selected h m)"

definition selected_above :: "store \<Rightarrow> ref \<Rightarrow> bool" where
  "selected_above h r \<longleftrightarrow> (\<exists>(m, e)\<in>set (parent_nodes h r). is_selected h m)"

lemma fold_any: "fold (\<lambda>(m, e) acc. if P m then True else acc) xs a = (a \<or> (\<exists>(m, e)\<in>set xs. P m))"
  by (induction xs arbitrary: a) auto

lemma result_selected_eq:
  assumes "store_inv h" "length h < fuel"
  shows "result_selected fuel h noneSelected r = Some ((noneSelected \<and> selected_below h r) \<or> selected_above h r)"
proof -
  have k: "children_ro.keeps h (\<lambda>m e acc. if noneSelected \<and> is_selected h m then True else acc)"
    "parents_ro.keeps h (\<lambda>m e acc. if is_selected h m then True else acc)"
    by (simp_all add: children_ro.keeps_def parents_ro.keeps_def)
  have "treeTraverseDepthFirstPre fuel (\<lambda>_. getReifiedChildren h)
      (\<lambda>m e acc. if noneSelected \<and> is_selected h m then True else acc) r 0 False
      = Some (noneSelected \<and> selected_below h r)"
    unfolding children_ro.pre_is_fold [OF k(1) assms(1) enough_fuel(2) [OF assms]] fold_any
    by (auto simp: selected_below_def down_nodes_def)
  moreover have "treeTraverseDepthFirstPre fuel (\<lambda>_. getReifiedParents h)
      (\<lambda>m e acc. if is_selected h m then True else acc) r 0 a = Some (a \<or> selected_above h r)" for a
    unfolding parents_ro.pre_is_fold [OF k(2) assms(1) enough_fuel(1) [OF assms]] fold_any
    by (auto simp: selected_above_def parent_nodes_def)
  ultimately show ?thesis by (simp add: result_selected_def)
qed

text \<open>What \<open>clearHandler\<close> removes: the first selected result and the later ones with a selected
  span among themselves and their ancestors; everything, if no result is selected.\<close>

definition to_delete :: "store \<Rightarrow> ref list \<Rightarrow> ref list" where
  "to_delete h rs =
     (case dropWhile (\<lambda>r. \<not> (selected_below h r \<or> selected_above h r)) rs of
        [] \<Rightarrow> rs
      | r # later \<Rightarrow> r # filter (selected_above h) later)"

definition none_selected :: "store \<Rightarrow> ref list \<Rightarrow> bool" where
  "none_selected h rs \<longleftrightarrow> (\<forall>r\<in>set rs. \<not> (selected_below h r \<or> selected_above h r))"

lemma clear_loop_started:
  assumes "store_inv h" "length h < fuel"
  shows "clear_loop fuel h rs (acc, False) = Some (acc @ filter (selected_above h) rs, False)"
  by (induction rs arbitrary: acc) (auto simp: result_selected_eq [OF assms])

lemma clear_loop_eq:
  assumes "store_inv h" "length h < fuel"
  shows "clear_loop fuel h rs (acc, True) =
    Some (if none_selected h rs then (acc @ rs, True) else (to_delete h rs, False))"
proof (induction rs arbitrary: acc)
  case Nil
  then show ?case by (simp add: none_selected_def)
next
  case (Cons r rs)
  show ?case
  proof (cases "selected_below h r \<or> selected_above h r")
    case True
    then show ?thesis
      by (auto simp: result_selected_eq [OF assms] clear_loop_started [OF assms] none_selected_def to_delete_def)
  next
    case False
    moreover have "dropWhile (\<lambda>r. \<not> (selected_below h r \<or> selected_above h r)) rs \<noteq> []" if "\<not> none_selected h rs"
      using that by (auto simp: none_selected_def dropWhile_eq_Nil_conv)
    ultimately show ?thesis
      using Cons by (auto simp: result_selected_eq [OF assms] none_selected_def to_delete_def split: list.split)
  qed
qed

lemma clearHandler_eq:
  assumes "store_inv (v_store v)" "length (v_store v) < fuel"
  shows "clearHandler fuel clearAll v =
    (let rs = c_models (v_results v)
     in if none_selected (v_store v) rs
        then (if clearAll then render fuel (v\<lparr>v_results := coll_remove rs (v_results v)\<rparr>) else Some v)
        else render fuel (v\<lparr>v_results := coll_remove (to_delete (v_store v) rs) (v_results v)\<rparr>))"
  by (simp add: clearHandler_def clear_loop_eq [OF assms] Let_def)

lemma view_ok_coll_remove: "view_ok v \<Longrightarrow> view_ok (v\<lparr>v_results := coll_remove ms (v_results v)\<rparr>)"
  using coll_remove_eq [of "v_results v" ms] by (auto simp: view_ok_def listeners_ok_def cursor_ok_def)

end
