(* ===== verification/View_Handlers.thy ===== *)
theory View_Handlers
  imports View_Total
begin

text \<open>
  The handlers of the widgets meet the contract of the widget manager, so that every event that is
  dispatched to the widgets of a good view returns with a good view; and so do the operations of
  the view itself.
\<close>

lemma some_bool [simp]: "\<exists>x::bool. x" "\<exists>x::bool. \<not> x"
  by blast+

lemma v_unregister_simps [simp]:
  "v_store (v_registerHigh t i v) = v_store v" "v_widgets (v_registerHigh t i v) = v_widgets v"
  "v_viewX (v_registerHigh t i v) = v_viewX v" "v_viewX (v_unregister t i v) = v_viewX v"
  "v_store (v_unregister t i v) = v_store v" "v_widgets (v_unregister t i v) = v_widgets v"
  "v_listeners (v_unregister t i v) = unregister t i (v_listeners v)"
  "v_listeners (v_registerHigh t i v) = registerHighPriority t i (v_listeners v)"
  by (simp_all add: v_registerHigh_def v_unregister_def)

text \<open>What a handler leaves behind.\<close>

definition steps_to :: "view \<Rightarrow> view \<Rightarrow> bool" where
  "steps_to v v' \<longleftrightarrow> view_ok v' \<and> length (v_store v') = length (v_store v) \<and> length (v_widgets v) \<le> length (v_widgets v')"

lemma steps_to_refl: "view_ok v \<Longrightarrow> steps_to v v"
  by (simp add: steps_to_def)

lemma steps_to_data:
  "view_ok v' \<Longrightarrow> data v' = data v \<Longrightarrow> length (v_widgets v) \<le> length (v_widgets v') \<Longrightarrow> steps_to v v'"
  using data_eqD(1) [of v' v] by (simp add: steps_to_def)

lemma handle_draw_ok: "view_ok v \<Longrightarrow> steps_to v (fst (handle_draw i v))"
  by (simp add: handle_draw_def steps_to_def)

lemma view_ok_send: "view_ok v \<Longrightarrow> callback_ref c < length (v_store v) \<Longrightarrow> view_ok (send_request c v)"
  by (auto simp: send_request_def view_ok_def listeners_ok_def cursor_ok_def)

lemma handle_triangle_ok:
  assumes ok: "view_ok v" and i: "i < length (v_widgets v)" and w: "v_widgets v ! i = WTriangle b"
  shows "steps_to v (fst (handle_triangle i b e v))"
proof -
  have r: "callback_ref (tb_callback b) < length (v_store v)" using view_okD(6) [OF ok i] w by simp
  have set: "view_ok (set_widget i (WTriangle (b\<lparr>tb_selected := sel\<rparr>)) u)"
    if "view_ok u" "v_widgets u = v_widgets v" "v_store u = v_store v" for sel u
    using that i w r by (intro view_ok_set_widget) simp_all
  have reg: "view_ok (v_register MouseOut i (v_register MouseMove i (v_register MouseUp i v)))"
    using ok i w by (intro view_ok_register) simp_all
  have send: "v_widgets (send_request c v) = v_widgets v" "v_store (send_request c v) = v_store v" for c
    by (simp_all add: send_request_def)
  show ?thesis
  proof (cases "ev_type e")
    case MouseDown
    then show ?thesis
      using set [OF reg] ok by (simp add: handle_triangle_def steps_to_def)
  next
    case MouseUp
    then show ?thesis
      using ok set [OF view_ok_send [OF ok r] send]
      by (auto simp: handle_triangle_def steps_to_def send Let_def intro!: view_ok_unregister)
  next
    case Draw
    then show ?thesis using handle_draw_ok [OF ok] by (simp add: handle_triangle_def)
  qed (use set [OF ok] ok in \<open>simp_all add: handle_triangle_def steps_to_def\<close>)
qed

lemma handle_partition_ok:
  assumes ok: "view_ok v" and fuel: "length (v_store v) < fuel" and i: "i < length (v_widgets v)"
    and w: "v_widgets v ! i = WPartition p"
  shows "\<exists>v' go. handle_partition fuel i p e v = Some (v', go) \<and> steps_to v v'"
proof -
  have set: "view_ok (set_widget i (WPartition q) u)" if "view_ok u" "v_widgets u = v_widgets v" for q u
    using that i w by (intro view_ok_set_widget) simp_all
  show ?thesis
  proof (cases "ev_type e")
    case MouseDown
    have "view_ok (v_registerHigh MouseMove i (v_registerHigh MouseUp i v))"
      using ok i w by (intro view_ok_registerHigh) simp_all
    then show ?thesis
      using set MouseDown ok by (auto simp: handle_partition_def steps_to_def)
  next
    case MouseUp
    let ?u = "(v_unregister MouseMove i (v_unregister MouseUp i v))\<lparr>v_pointer := ''pointer''\<rparr>"
    let ?w = "(set_widget i (WPartition (p\<lparr>pw_selected := False\<rparr>)) ?u)\<lparr>v_processNameFraction := pw_x0 p / v_viewX ?u\<rparr>"
    have "view_ok ?u" using ok by (simp add: view_ok_unregister)
    then have "view_ok ?w" using set [of ?u] by simp
    moreover have l: "length (v_store ?w) = length (v_store v)" "length (v_widgets ?w) = length (v_widgets v)"
      by simp_all
    ultimately obtain v' where "render fuel ?w = Some v'" "view_ok v'" "data v' = data ?w"
      "length (v_widgets ?w) \<le> length (v_widgets v')"
      using render_ok [of ?w fuel] fuel by auto
    with l show ?thesis
      using MouseUp data_eqD(1) [of v' ?w] by (auto simp: handle_partition_def steps_to_def Let_def set_widget_def)
  next
    case Draw
    then show ?thesis using ok by (simp add: handle_partition_def handle_draw_def steps_to_def)
  qed (use set [OF ok] ok in \<open>simp_all add: handle_partition_def steps_to_def\<close>)
qed

lemma handle_cursor_ok:
  assumes ok: "view_ok v" and i: "i < length (v_widgets v)" and w: "v_widgets v ! i = WCursor c"
  shows "steps_to v (fst (handle_cursor i c e v))"
proof -
  have set: "view_ok (set_widget i (WCursor q) v)" for q
    using ok i w by (intro view_ok_set_widget) simp_all
  show ?thesis
    using set ok handle_draw_ok [OF ok, of i]
    by (cases "ev_type e") (simp_all add: handle_cursor_def steps_to_def Let_def)
qed

lemma handle_span_ok:
  assumes ok: "view_ok v" and fuel: "length (v_store v) < fuel" and i: "i < length (v_widgets v)"
    and w: "v_widgets v ! i = WSpan sw"
  shows "\<exists>v' go. handle_span fuel i sw e v = Some (v', go) \<and> steps_to v v'"
proof -
  have a: "applyToAllSpans fuel (click_select this) v
      = Some (fold (click_select this) (visible (v_store v) (c_models (v_results v))) v)" for this
    by (rule applyToAllSpans_eq [OF gentle_click view_okD(1) [OF ok] fuel])
  show ?thesis
    using ok a click_select_keeps [OF ok] view_ok_set_selected [OF ok] handle_draw_ok [OF ok, of i]
    by (cases "ev_type e") (simp_all add: handle_span_def steps_to_def handle_draw_def)
qed

lemma widget_handle_ok:
  assumes ok: "view_ok v" and fuel: "length (v_store v) < fuel" and i: "i < length (v_widgets v)"
  shows "\<exists>v' go. widget_handle fuel i e v = Some (v', go) \<and> steps_to v v'"
proof (cases "v_widgets v ! i")
  case (WTriangle b)
  then show ?thesis
    by (cases "handle_triangle i b e v")
      (use handle_triangle_ok [OF ok i WTriangle, of e] in \<open>simp add: widget_handle_def\<close>)
next
  case (WPartition p)
  then show ?thesis using handle_partition_ok [OF ok fuel i WPartition] by (simp add: widget_handle_def)
next
  case (WCursor c)
  then show ?thesis
    by (cases "handle_cursor i c e v")
      (use handle_cursor_ok [OF ok i WCursor, of e] in \<open>simp add: widget_handle_def\<close>)
next
  case (WSpan w)
  then show ?thesis using handle_span_ok [OF ok fuel i WSpan] by (simp add: widget_handle_def)
next
  case (WGroup g)
  then show ?thesis
    using ok by (cases "ev_type e") (simp_all add: widget_handle_def steps_to_def handle_draw_def)
qed

interpretation manager: dispatch "widget_handle fuel"
    "\<lambda>v. view_ok v \<and> length (v_store v) < fuel" "\<lambda>v i. i < length (v_widgets v)" v_listeners for fuel
proof
  fix v w e v' go u t
  assume inv: "view_ok v \<and> length (v_store v) < fuel"
  show "w < length (v_widgets v) \<Longrightarrow> \<exists>v' go. widget_handle fuel w e v = Some (v', go)"
    using widget_handle_ok [of v fuel w e] inv by blast
  show "w < length (v_widgets v) \<Longrightarrow> widget_handle fuel w e v = Some (v', go) \<Longrightarrow>
      view_ok v' \<and> length (v_store v') < fuel"
    using widget_handle_ok [of v fuel w e] inv by (auto simp: steps_to_def)
  show "w < length (v_widgets v) \<Longrightarrow> widget_handle fuel w e v = Some (v', go) \<Longrightarrow>
      u < length (v_widgets v) \<Longrightarrow> u < length (v_widgets v')"
    using widget_handle_ok [of v fuel w e] inv by (auto simp: steps_to_def)
  show "w \<in> set (v_listeners v t) \<Longrightarrow> w < length (v_widgets v)"
    using inv by (auto simp: view_ok_def listeners_ok_def)
qed

section \<open>The operations of the view\<close>

lemma handle_mouse_ok:
  assumes "view_ok v" "length (v_store v) < fuel"
  shows "\<exists>v'. handle_mouse fuel e v = Some v' \<and> view_ok v' \<and> length (v_store v') < fuel"
proof (cases "v_attached v")
  case True
  obtain v1 where v1: "handle v_listeners (widget_handle fuel) (canvas_event e) v = Some v1"
    "view_ok v1" "length (v_store v1) < fuel"
    using manager.handle_returns [of v fuel "canvas_event e"] assms by blast
  obtain v2 where "draw v1 = Some v2" "view_ok v2" "data v2 = data v1"
    using draw_ok [OF v1(2)] by blast
  with True v1 data_eqD(1) [of v2 v1] show ?thesis by (simp add: handle_mouse_def)
next
  case False
  with assms show ?thesis by (simp add: handle_mouse_def)
qed

lemma setTimes_store [simp]:
  "v_store (setTimes pb pe v) = v_store v" "v_results (setTimes pb pe v) = v_results v"
  "v_widgets (setTimes pb pe v) = v_widgets v" "v_requests (setTimes pb pe v) = v_requests v"
  by (simp_all add: setTimes_def Let_def case_prod_beta)

lemma render_ok':
  assumes "view_ok v" "length (v_store v) < fuel"
  shows "\<exists>v'. render fuel v = Some v' \<and> view_ok v' \<and> length (v_store v') < fuel"
proof -
  obtain v' where "render fuel v = Some v'" "view_ok v'" "data v' = data v"
    using render_ok [OF assms] by blast
  moreover from this have "v_store v' = v_store v" by (intro data_eqD)
  ultimately show ?thesis using assms(2) by simp
qed

lemma selected_or_all_subset: "set (selected_or_all h xs) \<subseteq> set xs"
  by (auto simp: selected_or_all_def)

lemma get_some:
  assumes "store_inv h" "length h < fuel"
  shows "\<exists>x. getEarliestBegin fuel h r = Some x" "\<exists>x. getLatestEnd fuel h r = Some x"
proof -
  have k: "parents_ro.keeps h (\<lambda>m e acc. cb m acc)" "children_ro.keeps h (\<lambda>m e acc. cb m acc)"
    for cb :: "ref \<Rightarrow> jsnum \<Rightarrow> jsnum"
    by (simp_all add: parents_ro.keeps_def children_ro.keeps_def)
  show "\<exists>x. getEarliestBegin fuel h r = Some x" "\<exists>x. getLatestEnd fuel h r = Some x"
    by (simp_all add: getEarliestBegin_def getLatestEnd_def
        parents_ro.pre_is_fold [OF k(1) assms(1) enough_fuel(1) [OF assms]]
        children_ro.pre_is_fold [OF k(2) assms(1) enough_fuel(2) [OF assms]])
qed

lemma zoom_loop_some:
  assumes "store_inv h" "length h < fuel"
  shows "\<exists>b e. zoom_loop fuel h rs acc = Some (b, e)"
proof (induction rs arbitrary: acc)
  case Nil
  then show ?case by (cases acc) simp
next
  case (Cons r rs)
  obtain minStart maxEnd where acc: "acc = (minStart, maxEnd)" by (cases acc)
  obtain x y where "getEarliestBegin fuel h r = Some x" "getLatestEnd fuel h r = Some y"
    using get_some [OF assms, of r] by blast
  with Cons show ?case by (simp add: acc)
qed

lemma zoomHandler_ok:
  assumes "view_ok v" "length (v_store v) < fuel"
  shows "\<exists>v'. zoomHandler fuel v = Some v' \<and> view_ok v' \<and> length (v_store v') < fuel"
proof -
  note st = view_okD(1) [OF assms(1)]
  have r: "\<exists>v'. render fuel (setTimes b e v) = Some v' \<and> view_ok v' \<and> length (v_store v') < fuel" for b e
    using assms by (intro render_ok') simp_all
  obtain b e where "zoom_loop fuel (v_store v)
      (selected_or_all (v_store v) (visible (v_store v) (c_models (v_results v)))) (Num 4503599627370496, Num 0) = Some (b, e)"
    using zoom_loop_some [OF st assms(2)] by blast
  then show ?thesis
    using r by (simp add: zoomHandler_def getSelectedSpansOrAllSpans_eq [OF st assms(2)])
qed

lemma clearHandler_ok:
  assumes "view_ok v" "length (v_store v) < fuel"
  shows "\<exists>v'. clearHandler fuel flag v = Some v' \<and> view_ok v' \<and> length (v_store v') < fuel"
proof -
  have r: "\<exists>v'. render fuel (v\<lparr>v_results := coll_remove ms (v_results v)\<rparr>) = Some v' \<and> view_ok v' \<and> length (v_store v') < fuel" for ms
    using assms view_ok_coll_remove [OF assms(1)] by (intro render_ok') simp_all
  then show ?thesis
    using assms by (simp add: clearHandler_eq [OF view_okD(1) [OF assms(1)] assms(2)] Let_def)
qed

lemma handle_key_ok:
  assumes "view_ok v" "length (v_store v) < fuel"
  shows "\<exists>v'. handle_key fuel k v = Some v' \<and> view_ok v' \<and> length (v_store v') < fuel"
  using assms zoomHandler_ok [OF assms] clearHandler_ok [OF assms] by (simp add: handle_key_def)

lemma handleBeginOrEndChange_ok:
  assumes "view_ok v" "length (v_store v) < fuel"
  shows "\<exists>v'. handleBeginOrEndChange fuel text type v = Some v' \<and> view_ok v' \<and> length (v_store v') < fuel"
proof -
  have r: "\<exists>v'. render fuel (setTimes b e v) = Some v' \<and> view_ok v' \<and> length (v_store v') < fuel" for b e
    using assms by (intro render_ok') simp_all
  have "view_ok (v\<lparr>v_beginText := s, v_endText := s', v_dialogs := ds\<rparr>)" for s s' ds
    using assms(1) by (simp add: view_ok_def listeners_ok_def cursor_ok_def)
  then show ?thesis
    using r assms(2) by (auto simp: handleBeginOrEndChange_def split: sum.split)
qed

lemma request_done_ok:
  assumes "view_ok v" "store_inv h" "length (v_store v) \<le> length h" "length h < fuel"
  shows "\<exists>v'. request_done fuel (h, result) v = Some v' \<and> view_ok v' \<and> length (v_store v') < fuel"
proof -
  have ok: "view_ok (v\<lparr>v_store := h\<rparr>)"
    using assms(1-3) by (fastforce simp: view_ok_def listeners_ok_def cursor_ok_def)
  then have "\<exists>v'. render fuel (v\<lparr>v_store := h\<rparr>) = Some v' \<and> view_ok v' \<and> length (v_store v') < fuel"
    using assms(4) by (intro render_ok') simp_all
  with ok assms(4) show ?thesis
    by (cases result) (simp_all add: request_done_def Let_def)
qed

end
