(* ===== verification/Search_View.thy ===== *)
theory Search_View
  imports View_Handlers
begin

text \<open>
  The search page: \<open>search_view.js\<close>, \<open>predicate_view.js\<close>, \<open>query_results.js\<close> and
  \<open>search_results.js\<close> (under \<open>htrace-webapp/src/main/web/app\<close>). The search view owns the predicate
  views and the results view; a search sends a query, and its answer, which comes later, adds the
  spans to the results. Queries that were sent and not yet answered are part of the state. Code
  that runs after the page was closed finds \<open>null\<close> in the place of the results view: the outcome
  \<open>TypeError\<close> is the exception that this raises.
\<close>

record pview =
  pv_index :: nat
  pv_ptype :: ptype
  pv_value :: string            \<comment> \<open>what stands in the input field\<close>

text \<open>\<open>queryJson\<close>; the limit is 20 in every query.\<close>

record query =
  q_pred :: "predicate list"
  q_lim :: nat
  q_prev :: "wire option"

record search =
  s_view :: view
  s_closed :: bool                  \<comment> \<open>\<open>resultsView\<close> is \<open>null\<close>\<close>
  s_predicateViews :: "pview list"
  s_highestPredicateIndex :: nat
  s_searchInProgress :: bool
  s_pending :: "(query \<times> bool) list"     \<comment> \<open>with \<open>showDebug\<close>\<close>

datatype outcome = Returns | TypeError

definition new_search :: "view \<Rightarrow> search" where
  "new_search v =
     \<lparr>s_view = v, s_closed = False, s_predicateViews = [], s_highestPredicateIndex = 0,
      s_searchInProgress = False, s_pending = []\<rparr>"

section \<open>Predicate views\<close>

definition getText :: "pview \<Rightarrow> string" where
  "getText p = trim (pv_value p)"

definition getPredicate :: "int \<Rightarrow> pview \<Rightarrow> string + predicate" where
  "getPredicate now p =
     bind_sum (ptype_normalize now (pv_ptype p) (getText p)) (\<lambda>val. Inr (mkPredicate (pv_ptype p) val))"

text \<open>Rendering a predicate view makes a new, empty field, which gets the default value.\<close>

definition render_predicate :: "int \<Rightarrow> pview \<Rightarrow> pview" where
  "render_predicate now p =
     (let p = p\<lparr>pv_value := []\<rparr>
      in if getText p = [] then p\<lparr>pv_value := getDefaultValue now (pv_ptype p)\<rparr> else p)"

definition show_dialog :: "dialog \<Rightarrow> search \<Rightarrow> search" where
  "show_dialog d s = s\<lparr>s_view := (s_view s)\<lparr>v_dialogs := v_dialogs (s_view s) @ [d]\<rparr>\<rparr>"

definition dropdownHandler :: "string \<Rightarrow> search \<Rightarrow> search" where
  "dropdownHandler text s =
     (case parsePType text of
        None \<Rightarrow> show_dialog (Alert (''Unable to parse predicate type '' @ [CHR 0x27] @ text @ [CHR 0x27])) s
      | Some ptype \<Rightarrow>
          (let index = s_highestPredicateIndex s;
               p = \<lparr>pv_index = index, pv_ptype = ptype, pv_value = []\<rparr>
           in s\<lparr>s_highestPredicateIndex := index + 1,
                s_predicateViews := s_predicateViews s @ [render_predicate (v_now (s_view s)) p]\<rparr>))"

text \<open>A view is identified by its index.\<close>

definition removePredicateView :: "nat \<Rightarrow> search \<Rightarrow> search" where
  "removePredicateView i s =
     s\<lparr>s_predicateViews := filter (\<lambda>p. pv_index p \<noteq> i) (s_predicateViews s)\<rparr>"

text \<open>The user types into the field of a predicate.\<close>

definition type_text :: "nat \<Rightarrow> string \<Rightarrow> search \<Rightarrow> search" where
  "type_text i text s =
     s\<lparr>s_predicateViews :=
         map (\<lambda>p. if pv_index p = i then p\<lparr>pv_value := text\<rparr> else p) (s_predicateViews s)\<rparr>"

section \<open>Searching\<close>

definition validation_error :: "pview \<Rightarrow> string \<Rightarrow> dialog" where
  "validation_error p err =
     Warning ''Search Field Validation Error''
       (''Invalid search string for the '' @ [CHR 0x27] @ pt_name (pv_ptype p) @ [CHR 0x27] @ '' field.<p/>'' @ err)"

definition build_predicates :: "int \<Rightarrow> pview list \<Rightarrow> dialog + predicate list" where
  "build_predicates now ps =
     map_sum_list (\<lambda>p. case getPredicate now p of Inl err \<Rightarrow> Inl (validation_error p err) | Inr pr \<Rightarrow> Inr pr) ps"

definition last_result :: "view \<Rightarrow> wire option" where
  "last_result v =
     (let rs = c_models (v_results v)
      in if 0 < length rs then Some (unparse (span_at (v_store v) (rs ! (length rs - 1)))) else None)"

definition doSearch :: "bool \<Rightarrow> search \<Rightarrow> search" where
  "doSearch showDebug s =
     (if s_searchInProgress s then s
      else if length (s_predicateViews s) = 0 then
        show_dialog (Warning ''No Search Criteria Specified''
          (''You have not specified any search criteria.  Use the '' @ [CHR 0x27] @ ''Add Predicate'' @ [CHR 0x27]
           @ '' button to specify what to search for.'')) s
      else (case build_predicates (v_now (s_view s)) (s_predicateViews s) of
              Inl d \<Rightarrow> show_dialog d s
            | Inr predicates \<Rightarrow>
                s\<lparr>s_searchInProgress := True,
                  s_pending := s_pending s
                    @ [(\<lparr>q_pred = predicates, q_lim = 20, q_prev = last_result (s_view s)\<rparr>, showDebug)]\<rparr>))"

text \<open>
  \<open>queryResults.fetch\<close> parses the answer into new models (a collection of its own, which \<open>set\<close>
  fills; before, it holds one model made of the options of its constructor), and the callback adds
  these to the results.
\<close>

definition fetch_models :: "wire list \<Rightarrow> store \<Rightarrow> store \<times> ref list" where
  "fetch_models response h =
     (let (h, options_model) = alloc h [new_span];
          (h, models) = alloc h (map parse response)
      in (h, c_models (coll_set True models (coll_reset options_model coll_reset_state))))"

definition results_dialog :: "bool \<Rightarrow> query \<Rightarrow> bool \<Rightarrow> wire list \<Rightarrow> dialog list" where
  "results_dialog showDebug q firstResults response =
     (if showDebug then [SearchDebug (q_pred q) (q_prev q) response]
      else if length response = 0 then
        (if firstResults
         then [Warning ''No Results Found'' ''No results were found for your query.<p/>'']
         else [Warning ''No Additional Results Found'' ''No additional results were found for your query.<p/>''])
      else [])"

definition search_success ::
    "nat \<Rightarrow> query \<Rightarrow> bool \<Rightarrow> wire list \<Rightarrow> search \<Rightarrow> (search \<times> outcome) option" where
  "search_success fuel q showDebug response s =
     (let v = s_view s;
          firstResults = (c_length (v_results v) = 0);
          (h, models) = fetch_models response (v_store v);
          v = v\<lparr>v_store := h, v_results := coll_add models (v_results v)\<rparr>
      in if s_closed s then
           (if firstResults then Some (s\<lparr>s_view := v\<rparr>, TypeError)
            else Some (s\<lparr>s_view := v\<lparr>v_dialogs := v_dialogs v @ results_dialog showDebug q firstResults response\<rparr>,
                         s_searchInProgress := False\<rparr>, TypeError))
         else Option.bind (if firstResults then zoomHandler fuel v else Some v) (\<lambda>v.
              Option.bind (render fuel (v\<lparr>v_dialogs := v_dialogs v @ results_dialog showDebug q firstResults response\<rparr>)) (\<lambda>v.
              Some (s\<lparr>s_view := v, s_searchInProgress := False\<rparr>, Returns))))"

text \<open>\<open>err\<close> is the text of the failed request. The results are emptied, and nothing is rendered.\<close>

definition search_error :: "string \<Rightarrow> search \<Rightarrow> search" where
  "search_error err s =
     s\<lparr>s_view := (s_view s)\<lparr>v_results := coll_reset [] (v_results (s_view s)),
                             v_dialogs := v_dialogs (s_view s) @ [Alert err]\<rparr>,
       s_searchInProgress := False\<rparr>"

section \<open>The page\<close>

definition searchHandler :: "bool \<Rightarrow> search \<Rightarrow> search" where
  "searchHandler ctrlKey s = doSearch ctrlKey s"

definition on_view :: "(view \<Rightarrow> view option) \<Rightarrow> search \<Rightarrow> search option" where
  "on_view f s = map_option (\<lambda>v. s\<lparr>s_view := v\<rparr>) (f (s_view s))"

text \<open>The clear and zoom buttons, and the two time fields when they lose the focus.\<close>

definition s_clearHandler :: "nat \<Rightarrow> search \<Rightarrow> search option" where
  "s_clearHandler fuel s = on_view (clearHandler fuel True) s"

definition s_zoomHandler :: "nat \<Rightarrow> search \<Rightarrow> search option" where
  "s_zoomHandler fuel s = on_view (zoomHandler fuel) s"

definition blurBeginHandler :: "nat \<Rightarrow> string \<Rightarrow> search \<Rightarrow> search option" where
  "blurBeginHandler fuel text s = on_view (handleBeginOrEndChange fuel text ''begin'') s"

definition blurEndHandler :: "nat \<Rightarrow> string \<Rightarrow> search \<Rightarrow> search option" where
  "blurEndHandler fuel text s = on_view (handleBeginOrEndChange fuel text ''end'') s"

definition s_render :: "nat \<Rightarrow> search \<Rightarrow> search option" where
  "s_render fuel s = on_view (render fuel) s"

text \<open>The loop of \<open>close\<close> removes the first predicate view until none is left.\<close>

function close_predicates :: "search \<Rightarrow> search" where
  "close_predicates s =
     (case s_predicateViews s of
        [] \<Rightarrow> s
      | p # ps \<Rightarrow> close_predicates (removePredicateView (pv_index p) s))"
  by pat_completeness auto
termination
  by (relation "measure (\<lambda>s. length (s_predicateViews s))")
    (auto simp: removePredicateView_def less_Suc_eq_le)

declare close_predicates.simps [simp del]

definition search_close :: "search \<Rightarrow> search" where
  "search_close s =
     (let s = close_predicates s in s\<lparr>s_view := view_remove (s_view s), s_closed := True\<rparr>)"

text \<open>The answers to a request of a triangle button; after \<open>close\<close>, rendering fails.\<close>

definition s_request_done :: "nat \<Rightarrow> store \<times> string option \<Rightarrow> search \<Rightarrow> (search \<times> outcome) option" where
  "s_request_done fuel answer s =
     (if s_closed s \<and> snd answer = Some ''''
      then Some (s\<lparr>s_view := (s_view s)\<lparr>v_store := fst answer\<rparr>\<rparr>, TypeError)
      else map_option (\<lambda>v. (s\<lparr>s_view := v\<rparr>, Returns)) (request_done fuel answer (s_view s)))"

section \<open>What can happen to the page\<close>

text \<open>
  The events of the page, in any order: what the user does, what the server answers to the pending
  query or to a pending request of a button, that time passes, that the window changes (its
  \<open>resize\<close> event renders the view), and that the router closes the page. Events of the user reach
  an open page only.
\<close>

datatype page_event =
    AddPredicate string | RemovePredicate nat | TypeText nat string | SearchButton bool
  | ZoomButton | ClearButton | BlurBegin string | BlurEnd string | Mouse mouse | Key nat
  | Resize jsnum jsnum jsnum | Tick int
  | QueryAnswer "wire list" | QueryFails string
  | ParentsAnswer ref "ajax list" | ChildrenAnswer ref "string list option" "ajax list"
  | ClosePage

definition user_event :: "nat \<Rightarrow> page_event \<Rightarrow> search \<Rightarrow> search option" where
  "user_event fuel e s =
     (case e of
        AddPredicate text \<Rightarrow> Some (dropdownHandler text s)
      | RemovePredicate i \<Rightarrow> Some (removePredicateView i s)
      | TypeText i text \<Rightarrow> Some (type_text i text s)
      | SearchButton ctrlKey \<Rightarrow> Some (searchHandler ctrlKey s)
      | ZoomButton \<Rightarrow> s_zoomHandler fuel s
      | ClearButton \<Rightarrow> s_clearHandler fuel s
      | BlurBegin text \<Rightarrow> blurBeginHandler fuel text s
      | BlurEnd text \<Rightarrow> blurEndHandler fuel text s
      | Mouse m \<Rightarrow> on_view (handle_mouse fuel m) s
      | Key k \<Rightarrow> on_view (handle_key fuel k) s
      | Resize w h header \<Rightarrow>
          on_view (\<lambda>v. render fuel (v\<lparr>v_parentWidth := w, v_windowHeight := h, v_headerHeight := header\<rparr>)) s
      | ClosePage \<Rightarrow> Some (search_close s)
      | _ \<Rightarrow> Some s)"

definition forget_request :: "callback \<Rightarrow> search \<Rightarrow> search" where
  "forget_request c s = s\<lparr>s_view := (s_view s)\<lparr>v_requests := remove1 c (v_requests (s_view s))\<rparr>\<rparr>"

definition page_step :: "nat \<Rightarrow> page_event \<Rightarrow> search \<Rightarrow> (search \<times> outcome) option" where
  "page_step fuel e s =
     (case e of
        Tick now \<Rightarrow> Some (s\<lparr>s_view := (s_view s)\<lparr>v_now := now\<rparr>\<rparr>, Returns)
      | QueryAnswer response \<Rightarrow>
          (case s_pending s of
             [] \<Rightarrow> Some (s, Returns)
           | (q, showDebug) # qs \<Rightarrow> search_success fuel q showDebug response (s\<lparr>s_pending := qs\<rparr>))
      | QueryFails err \<Rightarrow>
          (case s_pending s of
             [] \<Rightarrow> Some (s, Returns)
           | q # qs \<Rightarrow> Some (search_error err (s\<lparr>s_pending := qs\<rparr>), Returns))
      | ParentsAnswer r calls \<Rightarrow>
          if ReifyParents r \<in> set (v_requests (s_view s))
          then s_request_done fuel (reifyParents (v_store (s_view s)) r calls) (forget_request (ReifyParents r) s)
          else Some (s, Returns)
      | ChildrenAnswer r ids calls \<Rightarrow>
          if ReifyChildren r \<in> set (v_requests (s_view s))
          then s_request_done fuel (reifyChildren (v_store (s_view s)) r ids calls) (forget_request (ReifyChildren r) s)
          else Some (s, Returns)
      | _ \<Rightarrow> if s_closed s then Some (s, Returns) else map_option (\<lambda>s. (s, Returns)) (user_event fuel e s))"

text \<open>The number of spans that an event brings.\<close>

fun arriving :: "page_event \<Rightarrow> nat" where
  "arriving (QueryAnswer response) = Suc (length response)"
| "arriving (ParentsAnswer r calls) = length calls"
| "arriving (ChildrenAnswer r ids calls) = length calls"
| "arriving _ = 0"

text \<open>The states of a page, on a call stack that is deeper than the number of its spans.\<close>

inductive reachable_page :: "search \<Rightarrow> bool" where
  start: "reachable_page (new_search (new_view now pw wh hh dpr backing))"
| step: "reachable_page s \<Longrightarrow> length (v_store (s_view s)) + arriving e < fuel \<Longrightarrow>
    page_step fuel e s = Some (s', out) \<Longrightarrow> reachable_page s'"

end
