(* ===== verification/Search_Props.thy ===== *)
theory Search_Props
  imports Search_View
begin

text \<open>
  The invariant of the search page over everything that can happen to it, and what follows: every
  event is handled to the end, at most one query is on its way, and only code that runs after the
  page was closed fails.
\<close>

section \<open>The invariant\<close>

definition known_ptype :: "ptype \<Rightarrow> bool" where
  "known_ptype pt \<longleftrightarrow> parsePType (pt_name pt) = Some pt"

definition page_core :: "search \<Rightarrow> bool" where
  "page_core s \<longleftrightarrow>
     view_ok (s_view s)
   \<and> distinct (map pv_index (s_predicateViews s))
   \<and> (\<forall>p\<in>set (s_predicateViews s). pv_index p < s_highestPredicateIndex s \<and> known_ptype (pv_ptype p))"

definition search_ok :: "search \<Rightarrow> bool" where
  "search_ok s \<longleftrightarrow>
     page_core s
   \<and> length (s_pending s) \<le> 1
   \<and> (s_pending s \<noteq> [] \<longrightarrow> s_searchInProgress s)
   \<and> (\<not> s_closed s \<and> s_pending s = [] \<longrightarrow> \<not> s_searchInProgress s)"

lemma view_ok_new_view: "view_ok (new_view now pw wh hh dpr backing)"
  by (simp add: new_view_def view_ok_def store_inv_Nil listeners_ok_def cursor_ok_def coll_reset_state_def
      coll_inv_def)

lemma search_ok_start: "search_ok (new_search (new_view now pw wh hh dpr backing))"
  by (simp add: search_ok_def page_core_def new_search_def view_ok_new_view)

lemma view_ok_frames [simp]:
  "view_ok (v\<lparr>v_now := n\<rparr>) = view_ok v" "view_ok (v\<lparr>v_parentWidth := x, v_windowHeight := y, v_headerHeight := z\<rparr>) = view_ok v"
  by (simp_all add: view_ok_def listeners_ok_def cursor_ok_def)

text \<open>Operations on the view leave the rest of the page alone.\<close>

lemma on_view_ok:
  assumes "search_ok s" "\<exists>v'. f (s_view s) = Some v' \<and> view_ok v' \<and> length (v_store v') < fuel"
  shows "\<exists>s'. on_view f s = Some s' \<and> search_ok s'"
  using assms by (auto simp: on_view_def search_ok_def page_core_def)

lemma search_ok_dialog: "search_ok s \<Longrightarrow> search_ok (show_dialog d s)"
  by (simp add: search_ok_def page_core_def show_dialog_def)

lemma parsePType_known: "parsePType name = Some pt \<Longrightarrow> known_ptype pt"
  using parsePType_SomeD [of name pt] by (simp add: known_ptype_def)

lemma search_ok_dropdown: "search_ok s \<Longrightarrow> search_ok (dropdownHandler text s)"
  by (cases "parsePType text")
    (auto simp: dropdownHandler_def search_ok_dialog search_ok_def page_core_def show_dialog_def Let_def render_predicate_def
      less_SucI parsePType_known)

lemma search_ok_remove: "search_ok s \<Longrightarrow> search_ok (removePredicateView i s)"
  by (auto simp: search_ok_def page_core_def removePredicateView_def distinct_map_filter)

lemma search_ok_type: "search_ok s \<Longrightarrow> search_ok (type_text i text s)"
proof -
  have "map pv_index (map (\<lambda>p. if pv_index p = i then p\<lparr>pv_value := text\<rparr> else p) ps) = map pv_index ps" for ps :: "pview list"
    by (induction ps) auto
  then show "search_ok s \<Longrightarrow> search_ok (type_text i text s)"
    by (auto simp: search_ok_def page_core_def type_text_def simp del: map_map)
qed

lemma search_ok_doSearch: "search_ok s \<Longrightarrow> \<not> s_closed s \<Longrightarrow> search_ok (doSearch b s)"
  by (auto simp: doSearch_def search_ok_dialog search_ok_def page_core_def show_dialog_def split: sum.split)

lemma search_ok_close: 
  assumes "search_ok s"
  shows "search_ok (search_close s) \<and> s_closed (search_close s) \<and> s_predicateViews (search_close s) = []"
proof -
  have c: "search_ok (close_predicates s) \<and> s_predicateViews (close_predicates s) = []"
    if "search_ok s" for s
    using that
  proof (induction s rule: close_predicates.induct)
    case (1 s)
    show ?case
    proof (cases "s_predicateViews s")
      case Nil
      with 1 show ?thesis by (simp add: close_predicates.simps [of s])
    next
      case (Cons p ps)
      with 1 search_ok_remove [OF 1(2)] show ?thesis by (simp add: close_predicates.simps [of s])
    qed
  qed
  then have c: "search_ok (close_predicates s)" "s_predicateViews (close_predicates s) = []"
    using assms by blast+
  then show ?thesis
    by (auto simp: search_close_def Let_def search_ok_def page_core_def view_remove_def)
qed

section \<open>Answers of the server\<close>

lemma fetch_models_eq:
  "fetch_models response h =
     (h @ new_span # map parse response, [Suc (length h) ..< Suc (length h) + length response])"
proof -
  have "coll_inv (coll_reset [length h] coll_reset_state)"
    using coll_add_eq [OF coll_inv_reset_state, of "[length h]"] by (simp add: coll_reset_def)
  then show ?thesis
    using coll_set_eq [of "coll_reset [length h] coll_reset_state" "[Suc (length h) ..< Suc (length h) + length response]"]
    by (simp add: fetch_models_def alloc_def Let_def)
qed

lemma fresh_new_span: "fresh_span new_span"
  by (simp add: fresh_span_def)

lemma arrived_view_ok:
  assumes "view_ok v" "fetch_models response (v_store v) = (h, models)"
  shows "view_ok (v\<lparr>v_store := h, v_results := coll_add models (v_results v)\<rparr>)"
    "length h = length (v_store v) + Suc (length response)"
    "c_models (coll_add models (v_results v)) = c_models (v_results v) @ models"
proof -
  have h: "h = v_store v @ new_span # map parse response"
    and m: "models = [Suc (length (v_store v)) ..< Suc (length (v_store v)) + length response]"
    using assms(2) by (simp_all add: fetch_models_eq)
  show len: "length h = length (v_store v) + Suc (length response)" by (simp add: h)
  have inv: "store_inv h"
    unfolding h by (rule store_inv_append [OF view_okD(1) [OF assms(1)]]) (simp add: fresh_new_span)
  have dist: "distinct models" by (simp add: m)
  have new: "filter (\<lambda>x. x \<notin> set (c_models (v_results v))) models = models"
    using view_okD(5) [OF assms(1)] by (intro filter_True) (fastforce simp: m)
  note add = coll_add_eq [OF view_okD(2) [OF assms(1)] dist]
  then show c: "c_models (coll_add models (v_results v)) = c_models (v_results v) @ models" using new by simp
  have sub: "{..<length (v_store v)} \<subseteq> {..<length h}" by (simp add: h)
  have "set models \<subseteq> {..<length h}" by (auto simp: m h)
  moreover have "set (c_models (v_results v)) \<subseteq> {..<length h}"
    using sub by (rule subset_trans [rotated]) (use assms(1) in \<open>simp add: view_ok_def\<close>)
  ultimately have "set (c_models (v_results v) @ models) \<subseteq> {..<length h}" by simp
  moreover have w: "\<forall>w\<in>set (v_widgets v). widget_refs w \<subseteq> {..<length (v_store v)}"
    and q: "callback_ref ` set (v_requests v) \<subseteq> {..<length (v_store v)}"
    using assms(1) by (simp_all add: view_ok_def)
  moreover have "\<forall>w\<in>set (v_widgets v). widget_refs w \<subseteq> {..<length h}"
    by (intro ballI subset_trans [OF _ sub]) (use w in blast)
  moreover have "callback_ref ` set (v_requests v) \<subseteq> {..<length h}"
    by (rule subset_trans [OF q sub])
  ultimately show "view_ok (v\<lparr>v_store := h, v_results := coll_add models (v_results v)\<rparr>)"
    using assms(1) inv add c by (simp add: view_ok_def listeners_ok_def cursor_ok_def)
qed

lemma view_ok_dialogs: "view_ok v \<Longrightarrow> view_ok (v\<lparr>v_dialogs := v_dialogs v @ ds\<rparr>)"
  by simp

lemma search_success_ok:
  assumes core: "page_core s" and p: "s_pending s = []"
    and fuel: "length (v_store (s_view s)) + Suc (length response) < fuel"
  shows "\<exists>s' out. search_success fuel q dbg response s = Some (s', out) \<and> search_ok s'
    \<and> (out = TypeError \<longleftrightarrow> s_closed s)"
proof -
  let ?v = "s_view s" and ?first = "c_length (v_results (s_view s)) = 0"
  obtain h models where fm: "fetch_models response (v_store ?v) = (h, models)" by (cases "fetch_models response (v_store ?v)")
  have "view_ok ?v" using core by (simp add: page_core_def)
  note arr = arrived_view_ok [OF this fm]
  let ?w = "?v\<lparr>v_store := h, v_results := coll_add models (v_results ?v)\<rparr>"
  have fw: "length (v_store ?w) < fuel" using fuel by (simp add: arr(2))
  show ?thesis
  proof (cases "s_closed s")
    case True
    with core p fm arr(1) show ?thesis
      by (simp add: search_success_def Let_def search_ok_def page_core_def)
  next
    case False
    obtain v1 where v1: "(if ?first then zoomHandler fuel ?w else Some ?w) = Some v1" "view_ok v1" "length (v_store v1) < fuel"
      using zoomHandler_ok [OF arr(1) fw] arr(1) fw by (cases ?first) auto
    let ?v1 = "v1\<lparr>v_dialogs := v_dialogs v1 @ results_dialog dbg q ?first response\<rparr>"
    have "\<exists>v2. render fuel ?v1 = Some v2 \<and> view_ok v2 \<and> length (v_store v2) < fuel"
      using v1(2,3) by (intro render_ok') simp_all
    then obtain v2 where v2: "render fuel ?v1 = Some v2" "view_ok v2" by blast
    have "search_success fuel q dbg response s = Some (s\<lparr>s_view := v2, s_searchInProgress := False\<rparr>, Returns)"
      using False fm v1(1) v2(1) by (simp add: search_success_def Let_def)
    with False core p v2(2) show ?thesis by (simp add: search_ok_def page_core_def)
  qed
qed

text \<open>The store after the answer to a request of a button.\<close>

lemma reifyParents_length: "length h \<le> length (fst (reifyParents h r calls)) \<and> length (fst (reifyParents h r calls)) \<le> length h + length calls"
  by (auto simp: reifyParents_cases parseMultiSpanAjaxQueryResults_def dest!: map_sum_list_InrD list_all2_lengthD split: sum.split)

lemma reifyChildren_length: "length h \<le> length (fst (reifyChildren h r ids calls)) \<and> length (fst (reifyChildren h r ids calls)) \<le> length h + length calls"
  by (cases ids)
    (auto simp: reifyChildren_cases reifyChildren_def [of _ _ None] parseMultiSpanAjaxQueryResults_def
      dest!: map_sum_list_InrD list_all2_lengthD split: sum.split)

lemma view_ok_forget: "view_ok v \<Longrightarrow> view_ok (v\<lparr>v_requests := remove1 c (v_requests v)\<rparr>)"
  using set_remove1_subset [of c "v_requests v"] by (fastforce simp: view_ok_def listeners_ok_def cursor_ok_def)

lemma s_request_done_ok:
  assumes ok: "search_ok s" and h: "store_inv h" "length (v_store (s_view s)) \<le> length h" "length h < fuel"
  shows "\<exists>s' out. s_request_done fuel (h, result) s = Some (s', out) \<and> search_ok s'
    \<and> (out = TypeError \<longrightarrow> s_closed s) \<and> s_closed s' = s_closed s"
proof -
  have v: "view_ok (s_view s)" using ok by (simp add: search_ok_def page_core_def)
  have "view_ok ((s_view s)\<lparr>v_store := h\<rparr>)"
    using v h(1,2) by (fastforce simp: view_ok_def listeners_ok_def cursor_ok_def)
  moreover obtain v' where "request_done fuel (h, result) (s_view s) = Some v'" "view_ok v'"
    using request_done_ok [OF v h] by blast
  ultimately show ?thesis
    using ok by (auto simp: s_request_done_def search_ok_def page_core_def)
qed

section \<open>Every event is handled\<close>

lemma user_event_ok:
  assumes ok: "search_ok s" and fuel: "length (v_store (s_view s)) < fuel" and "\<not> s_closed s"
  shows "\<exists>s'. user_event fuel e s = Some s' \<and> search_ok s'"
proof -
  have v: "view_ok (s_view s)" using ok by (simp add: search_ok_def page_core_def)
  note on = on_view_ok [OF ok]
  show ?thesis
  proof (cases e)
    case (Resize w h header)
    let ?v = "(s_view s)\<lparr>v_parentWidth := w, v_windowHeight := h, v_headerHeight := header\<rparr>"
    have "\<exists>v'. render fuel ?v = Some v' \<and> view_ok v' \<and> length (v_store v') < fuel"
      using v fuel by (intro render_ok') simp_all
    then show ?thesis using on [of "\<lambda>v. render fuel (v\<lparr>v_parentWidth := w, v_windowHeight := h, v_headerHeight := header\<rparr>)"] Resize
      by (simp add: user_event_def)
  qed (use ok assms(3) on [of "zoomHandler fuel", OF zoomHandler_ok [OF v fuel]]
      on [of "clearHandler fuel True", OF clearHandler_ok [OF v fuel]]
      on [of "handleBeginOrEndChange fuel t w" for t w, OF handleBeginOrEndChange_ok [OF v fuel]]
      on [of "handle_mouse fuel m" for m, OF handle_mouse_ok [OF v fuel]]
      on [of "handle_key fuel k" for k, OF handle_key_ok [OF v fuel]]
      in \<open>simp_all add: user_event_def search_ok_dropdown search_ok_remove search_ok_type search_ok_doSearch
        searchHandler_def s_zoomHandler_def s_clearHandler_def blurBeginHandler_def blurEndHandler_def search_ok_close\<close>)
qed

lemma page_step_ok:
  assumes ok: "search_ok s" and fuel: "length (v_store (s_view s)) + arriving e < fuel"
  shows "\<exists>s' out. page_step fuel e s = Some (s', out) \<and> search_ok s' \<and> (out = TypeError \<longrightarrow> s_closed s)"
proof -
  have v: "view_ok (s_view s)" using ok by (simp add: search_ok_def page_core_def)
  have fuel0: "length (v_store (s_view s)) < fuel" using fuel by simp
  have user: "\<exists>s' out. (if s_closed s then Some (s, Returns) else map_option (\<lambda>s. (s, Returns)) (user_event fuel e s)) = Some (s', out)
      \<and> search_ok s' \<and> (out = TypeError \<longrightarrow> s_closed s)"
    using user_event_ok [OF ok fuel0, of e] ok by (cases "s_closed s") auto
  show ?thesis
  proof (cases e)
    case (Tick now)
    then show ?thesis using ok by (simp add: page_step_def search_ok_def page_core_def)
  next
    case (QueryAnswer response)
    show ?thesis
    proof (cases "s_pending s")
      case Nil
      with QueryAnswer ok show ?thesis by (simp add: page_step_def)
    next
      case (Cons q qs)
      obtain q1 dbg where q: "q = (q1, dbg)" by (cases q)
      have "page_core (s\<lparr>s_pending := qs\<rparr>)" "qs = []" using ok Cons by (auto simp: search_ok_def page_core_def)
      then show ?thesis
        using search_success_ok [of "s\<lparr>s_pending := qs\<rparr>" response fuel q1 dbg] fuel QueryAnswer Cons q
        by (auto simp: page_step_def)
    qed
  next
    case (QueryFails err)
    show ?thesis
    proof (cases "s_pending s")
      case Nil
      with QueryFails ok show ?thesis by (simp add: page_step_def)
    next
      case (Cons q qs)
      have "view_ok ((s_view s)\<lparr>v_results := coll_reset [] (v_results (s_view s))\<rparr>)"
        using v coll_add_eq [OF coll_inv_reset_state, of "[]"]
        by (simp add: view_ok_def listeners_ok_def cursor_ok_def coll_reset_def coll_reset_state_def)
      with Cons QueryFails ok show ?thesis
        by (simp add: page_step_def search_error_def search_ok_def page_core_def)
    qed
  next
    case (ParentsAnswer r calls)
    obtain h result where hr: "reifyParents (v_store (s_view s)) r calls = (h, result)"
      by (cases "reifyParents (v_store (s_view s)) r calls")
    let ?s = "forget_request (ReifyParents r) s"
    have f: "search_ok ?s" "v_store (s_view ?s) = v_store (s_view s)" "s_closed ?s = s_closed s"
      using ok view_ok_forget [OF v] by (simp_all add: forget_request_def search_ok_def page_core_def)
    show ?thesis
    proof (cases "ReifyParents r \<in> set (v_requests (s_view s))")
      case True
      then have r: "r < length (v_store (s_view s))" using view_okD(7) [OF v True] by simp
      have "store_inv h" "length (v_store (s_view s)) \<le> length h" "length h < fuel"
        using store_inv_reifyParents [OF view_okD(1) [OF v] r, of calls] fuel ParentsAnswer hr
          reifyParents_length [of "v_store (s_view s)" r calls] by simp_all
      then show ?thesis
        using s_request_done_ok [OF f(1), of h fuel result] True ParentsAnswer hr f by (auto simp: page_step_def)
    next
      case False
      with ParentsAnswer ok show ?thesis by (simp add: page_step_def)
    qed
  next
    case (ChildrenAnswer r ids calls)
    obtain h result where hr: "reifyChildren (v_store (s_view s)) r ids calls = (h, result)"
      by (cases "reifyChildren (v_store (s_view s)) r ids calls")
    let ?s = "forget_request (ReifyChildren r) s"
    have f: "search_ok ?s" "v_store (s_view ?s) = v_store (s_view s)" "s_closed ?s = s_closed s"
      using ok view_ok_forget [OF v] by (simp_all add: forget_request_def search_ok_def page_core_def)
    show ?thesis
    proof (cases "ReifyChildren r \<in> set (v_requests (s_view s))")
      case True
      then have r: "r < length (v_store (s_view s))" using view_okD(7) [OF v True] by simp
      have "store_inv h" "length (v_store (s_view s)) \<le> length h" "length h < fuel"
        using store_inv_reifyChildren [OF view_okD(1) [OF v] r, of ids calls] fuel ChildrenAnswer hr
          reifyChildren_length [of "v_store (s_view s)" r ids calls] by simp_all
      then show ?thesis
        using s_request_done_ok [OF f(1), of h fuel result] True ChildrenAnswer hr f by (auto simp: page_step_def)
    next
      case False
      with ChildrenAnswer ok show ?thesis by (simp add: page_step_def)
    qed
  qed (use user in \<open>simp_all only: page_step_def page_event.case\<close>)
qed

lemma reachable_page_ok: "reachable_page s \<Longrightarrow> search_ok s"
proof (induction rule: reachable_page.induct)
  case (start now pw wh hh dpr backing)
  then show ?case by (rule search_ok_start)
next
  case (step s e fuel s' out)
  then show ?case using page_step_ok [OF step.IH step.hyps(2)] by auto
qed

section \<open>Properties\<close>

text \<open>C1: whatever has happened to the search page, every further event is handled to the end: on a
  call stack deeper than the number of spans no handler, traversal or rendering fails to return, and
  no code meets a missing object, except that an answer of the server which arrives after the page
  was closed may.\<close>

theorem page_total:
  assumes "reachable_page s" and "length (v_store (s_view s)) + arriving e < fuel"
  shows "\<exists>s' out. page_step fuel e s = Some (s', out) \<and> (out = TypeError \<longrightarrow> s_closed s)"
  using page_step_ok [OF reachable_page_ok [OF assms(1)] assms(2)] by blast

definition example_page :: search where
  "example_page = new_search (new_view 0 (Num 1000) (Num 800) (Num 50) (Num 1) [])"

lemma example_page_reachable: "reachable_page example_page"
  unfolding example_page_def by (rule reachable_page.start)

lemma example_page_store [simp]: "v_store (s_view example_page) = []"
  by (simp add: example_page_def new_search_def new_view_def)

theorem page_total_witness:
  "\<exists>s' out. page_step 1 (AddPredicate ''Span ID is'') example_page = Some (s', out)"
  using page_total [OF example_page_reachable, of "AddPredicate ''Span ID is''" 1] by auto

text \<open>C22: at any time at most one query is on its way, the page knows whether one is, and pressing the
  search button meanwhile sends nothing.\<close>

theorem one_query:
  assumes "reachable_page s"
  shows "length (s_pending s) \<le> 1
    \<and> (\<not> s_closed s \<longrightarrow> s_searchInProgress s = (s_pending s \<noteq> []))
    \<and> (s_pending s \<noteq> [] \<longrightarrow> searchHandler b s = s)"
  using reachable_page_ok [OF assms] by (auto simp: search_ok_def searchHandler_def doSearch_def)

theorem one_query_witness: "length (s_pending example_page) \<le> 1"
  using one_query [OF example_page_reachable, of False] by simp

text \<open>C23: at any time the page is well-formed: the listeners of every type of event are widgets of a kind
  that has a case for it, the widgets, the results and the requests on their way refer to spans of the
  store, and the predicate views have numbers of their own and types that \<open>predicate.js\<close> knows.\<close>

theorem page_well_formed:
  assumes "reachable_page s"
  shows "let v = s_view s; n = length (v_store v); ws = v_widgets v; ps = s_predicateViews s
    in set (c_models (v_results v)) \<union> (\<Union>w\<in>set ws. widget_refs w) \<union> callback_ref ` set (v_requests v) \<subseteq> {..<n}
     \<and> (\<Union>r\<in>{..<n}. set (getReifiedParents (v_store v) r) \<union> set (getReifiedChildren (v_store v) r)) \<subseteq> {..<n}
     \<and> (\<forall>t. set (v_listeners v t) \<subseteq> {i. i < length ws \<and> t \<in> handles (kind (ws ! i))})
     \<and> distinct (map pv_index ps) \<and> set (map pv_index ps) \<subseteq> {..<s_highestPredicateIndex s}
     \<and> map (parsePType \<circ> pt_name \<circ> pv_ptype) ps = map (Some \<circ> pv_ptype) ps"
proof -
  have s: "view_ok (s_view s)" "page_core s" using reachable_page_ok [OF assms] by (simp_all add: search_ok_def page_core_def)
  note v = s(1) [unfolded view_ok_def store_inv_def closed_refs_def listeners_ok_def]
  show ?thesis
    unfolding Let_def
  proof (intro conjI)
    show "distinct (map pv_index (s_predicateViews s))" "set (map pv_index (s_predicateViews s)) \<subseteq> {..<s_highestPredicateIndex s}"
      "map (parsePType \<circ> pt_name \<circ> pv_ptype) (s_predicateViews s) = map (Some \<circ> pv_ptype) (s_predicateViews s)"
      using s(2) by (auto simp: page_core_def known_ptype_def)
  qed (use v in \<open>auto\<close>)
qed

theorem page_well_formed_witness: "set (map pv_index (s_predicateViews example_page)) \<subseteq> {..<s_highestPredicateIndex example_page}"
  using page_well_formed [OF example_page_reachable] unfolding Let_def by blast

end
