(* ===== verification/View_Props.thy ===== *)
theory View_Props
  imports Search_Props
begin

text \<open>
  What the operations of the results view achieve, on any view that satisfies the invariant (every
  reachable page has one): the time line, zooming, selecting by a click, clearing, the buttons of the
  rows, and the layout of the columns. The last section is an example view with two related spans.
\<close>

section \<open>The example\<close>

definition example_view :: view where
  "example_view =
     (new_view 0 (Num 1000) (Num 800) (Num 50) (Num 1) [])
       \<lparr>v_store := example_store, v_results := coll_add [0] coll_reset_state\<rparr>"

lemma example_view_simps [simp]:
  "v_store example_view = example_store" "c_models (v_results example_view) = [0]"
  "v_requests example_view = []" "v_widgets example_view = []" "v_listeners example_view = no_listeners"
  using coll_add_eq [OF coll_inv_reset_state, of "[0]"]
  by (simp_all add: example_view_def new_view_def coll_reset_state_def)

lemma example_view_ok: "view_ok example_view"
proof -
  have "coll_inv (v_results example_view)"
    using coll_add_eq [OF coll_inv_reset_state, of "[0]"] by (simp add: example_view_def)
  moreover have "cursor_ok example_view" "listeners_ok example_view"
    by (simp_all add: cursor_ok_def listeners_ok_def) (simp add: example_view_def new_view_def)
  ultimately show ?thesis
    using reachable_inv [OF example_reachable] by (simp add: view_ok_def)
qed

lemma example_begin_end:
  "begin_of example_store 0 = Num 20" "end_of example_store 0 = Num 30"
  "begin_of example_store (Suc 0) = Num 10" "end_of example_store (Suc 0) = Num 40"
  by (simp_all add: begin_of_def end_of_def span_at_def example_store_eq parse_def Let_def wire0_def parse_time_def
      rat_trunc_def)

lemma example_not_selected: "\<not> is_selected example_store m"
  by (cases "m < 2")
    (auto simp: less_2_cases_iff is_selected_def span_at_def example_store_eq parse_def Let_def new_span_def)

lemma example_inv: "store_inv example_store"
  by (rule reachable_inv [OF example_reachable])

lemma example_relatives: "Suc 0 \<in> relatives example_store 0" "0 \<in> relatives example_store 0"
proof -
  have "getReifiedParents example_store 0 = [1]" by (simp add: getReifiedParents_def span_at_def example_store_eq)
  then show "Suc 0 \<in> relatives example_store 0" by (auto simp: relatives_def)
qed (rule relatives_self)

section \<open>The time line\<close>

lemma setTimes_nums:
  assumes "(if js_truthy pb then pb else v_begin v) = Num b"
    and "(if js_truthy pe then pe else v_end v) = Num e"
  shows "v_begin (setTimes pb pe v) = Num ((b + e - max 100 \<bar>e - b\<bar>) / 2)"
    and "v_end (setTimes pb pe v) = Num ((b + e + max 100 \<bar>e - b\<bar>) / 2)"
proof -
  have s: "setTimes pb pe v =
      (let (x, y) = (if Num e < Num b then (Num e, Num b) else (Num b, Num e)); delta = y - x;
           (x, y) = (if delta < MINIMUM_TIME_SPAN
                     then (let needed = MINIMUM_TIME_SPAN - delta in (x - needed / Num 2, y + needed / Num 2))
                     else (x, y))
       in v\<lparr>v_begin := x, v_end := y, v_beginText := dateToString (v_now v) x,
            v_endText := dateToString (v_now v) y\<rparr>)"
    unfolding setTimes_def assms by (simp only: Let_def)
  show "v_begin (setTimes pb pe v) = Num ((b + e - max 100 \<bar>e - b\<bar>) / 2)"
    "v_end (setTimes pb pe v) = Num ((b + e + max 100 \<bar>e - b\<bar>) / 2)"
    unfolding s by (simp_all add: Let_def MINIMUM_TIME_SPAN_def field_simps max_def abs_if)
qed

text \<open>Setting the times orders them and stretches a line shorter than a tenth of a second to that
  length about its middle; both fields show the times of the line. A time that is missing or zero
  keeps the old one.\<close>

theorem setTimes_interval:
  assumes "(if js_truthy pb then pb else v_begin v) = Num b"
    and "(if js_truthy pe then pe else v_end v) = Num e"
  shows "v_begin (setTimes pb pe v) = Num ((b + e - max 100 \<bar>e - b\<bar>) / 2)
    \<and> v_end (setTimes pb pe v) = Num ((b + e + max 100 \<bar>e - b\<bar>) / 2)
    \<and> v_beginText (setTimes pb pe v) = dateToString (v_now v) (v_begin (setTimes pb pe v))
    \<and> v_endText (setTimes pb pe v) = dateToString (v_now v) (v_end (setTimes pb pe v))"
  using setTimes_nums [OF assms] by (simp add: setTimes_def Let_def case_prod_beta)

theorem setTimes_interval_witness:
  "v_begin (setTimes (Num 2000) (Num 1980) example_view) = Num 1940
   \<and> v_end (setTimes (Num 2000) (Num 1980) example_view) = Num 2040"
  using setTimes_interval [of "Num 2000" example_view 2000 "Num 1980" 1980] by simp

section \<open>Zooming\<close>

lemma zoom_loop_bounds:
  assumes "store_inv h" "length h < fuel"
    and "\<forall>r\<in>set rs. \<forall>m\<in>relatives h r. is_num (begin_of h m) \<and> is_num (end_of h m)"
    and "zoom_loop fuel h rs (Num a, Num c) = Some (x, y)"
  shows "\<exists>a' c'. x = Num a' \<and> y = Num c' \<and> a' \<le> a \<and> c \<le> c'
     \<and> (\<forall>r\<in>set rs. \<forall>m\<in>relatives h r. a' \<le> num_val (begin_of h m) \<and> num_val (end_of h m) \<le> c')
     \<and> (a' = a \<or> (\<exists>r\<in>set rs. \<exists>m\<in>relatives h r. a' = num_val (begin_of h m)))
     \<and> (c' = c \<or> (\<exists>r\<in>set rs. \<exists>m\<in>relatives h r. c' = num_val (end_of h m)))"
  using assms(3,4)
proof (induction rs arbitrary: a c)
  case Nil
  then show ?case by simp
next
  case (Cons r rs)
  let ?b = "Min ((\<lambda>m. num_val (begin_of h m)) ` relatives h r)"
    and ?e = "Max ((\<lambda>m. num_val (end_of h m)) ` relatives h r)"
  have fin: "finite (relatives h r)" and ne: "relatives h r \<noteq> {}"
    using relatives_finite [OF assms(1)] relatives_self [of r h] by auto
  have g: "getEarliestBegin fuel h r = Some (Num ?b)" "getLatestEnd fuel h r = Some (Num ?e)"
    using earliest_begin_eq [OF assms(1,2)] latest_end_eq [OF assms(1,2)] Cons.prems(1) by simp_all
  have lo: "?b \<le> num_val (begin_of h m)" "num_val (end_of h m) \<le> ?e" if "m \<in> relatives h r" for m
    using that fin by (auto intro: Min_le Max_ge)
  have at: "?b \<in> (\<lambda>m. num_val (begin_of h m)) ` relatives h r"
    "?e \<in> (\<lambda>m. num_val (end_of h m)) ` relatives h r"
    using fin ne by (auto intro!: Min_in Max_in)
  have "zoom_loop fuel h rs (Num (min ?b a), Num (max ?e c)) = Some (x, y)"
    using Cons.prems(2) by (simp add: g min_def max_def split: if_splits)
  from Cons.IH [OF _ this] Cons.prems(1) obtain a' c' where ac: "x = Num a'" "y = Num c'"
      "a' \<le> min ?b a" "max ?e c \<le> c'"
      "\<forall>r\<in>set rs. \<forall>m\<in>relatives h r. a' \<le> num_val (begin_of h m) \<and> num_val (end_of h m) \<le> c'"
      "a' = min ?b a \<or> (\<exists>r\<in>set rs. \<exists>m\<in>relatives h r. a' = num_val (begin_of h m))"
      "c' = max ?e c \<or> (\<exists>r\<in>set rs. \<exists>m\<in>relatives h r. c' = num_val (end_of h m))"
    by auto
  have "a' \<le> num_val (begin_of h m) \<and> num_val (end_of h m) \<le> c'" if "m \<in> relatives h r" for m
    using lo [OF that] ac(3,4) by linarith
  moreover have "a' = a \<or> (\<exists>r'\<in>set (r # rs). \<exists>m\<in>relatives h r'. a' = num_val (begin_of h m))"
    using ac(6) at(1) by (auto simp: min_def split: if_splits)
  moreover have "c' = c \<or> (\<exists>r'\<in>set (r # rs). \<exists>m\<in>relatives h r'. c' = num_val (end_of h m))"
    using ac(7) at(2) by (auto simp: max_def split: if_splits)
  ultimately show ?case using ac(1-5) by auto
qed

lemma setTimes_covers:
  assumes "b \<noteq> 0" "e \<noteq> 0"
  shows "is_num (v_begin (setTimes (Num b) (Num e) v))" "is_num (v_end (setTimes (Num b) (Num e) v))"
    "num_val (v_begin (setTimes (Num b) (Num e) v)) \<le> b"
    "e \<le> num_val (v_end (setTimes (Num b) (Num e) v))"
  using setTimes_nums [of "Num b" v b "Num e" e] assms by (simp_all add: max_def abs_if field_simps)



section \<open>Selecting\<close>

text \<open>Pressing the mouse button on the row of a span, without the control key, selects that span
  and no other span that is visible; with the control key it flips the selection of that span alone.
  A press outside of the row changes nothing.\<close>

theorem click_selects:
  assumes ok: "view_ok v" and fuel: "length (v_store v) < fuel" and "i < length (v_widgets v)"
    and "v_widgets v ! i = WSpan w" and "ev_type e = MouseDown"
  shows "\<exists>v'. widget_handle fuel i e v = Some (v', True) \<and>
    (\<forall>r. is_selected (v_store v') r =
       (if \<not> inBoundingBox (ev_x e) (ev_y e) (sw_x0 w) (sw_xF w) (sw_y0 w) (sw_yF w)
        then is_selected (v_store v) r
        else if ev_ctrl e then (r = sw_span w) \<noteq> is_selected (v_store v) r
        else if r \<in> (\<Union>n\<in>set (c_models (v_results v)). relatives (v_store v) n) then r = sw_span w
        else is_selected (v_store v) r))"
proof -
  let ?h = "v_store v" and ?vis = "visible (v_store v) (c_models (v_results v))"
  note st = view_okD(1) [OF ok]
  have w: "sw_span w < length ?h" using view_okD(6) [OF ok assms(3)] assms(4) by simp
  have "closed_refs ?h" using st by (simp add: store_inv_def)
  then have "set ?vis \<subseteq> {..<length ?h}"
    unfolding set_visible [OF st] using view_okD(5) [OF ok] relatives_bound by blast
  note sel = click_select_selected [OF this, of "sw_span w", unfolded set_visible [OF st]]
  have "is_selected (select_span (\<not> is_selected ?h (sw_span w)) (sw_span w) ?h) r
      = ((r = sw_span w) \<noteq> is_selected ?h r)" for r
    using w by (auto simp: is_selected_select)
  then show ?thesis
    using sel by (simp add: widget_handle_def assms(4,5) handle_span_def applyToAllSpans_eq [OF gentle_click st fuel])
qed

definition example_row :: swidget where
  "example_row = group_row (group_start (new_group (setupCoordinates example_view) 0 (Num 5) (Num 25) (Num 0))) 0 (Num 0)"

definition example_click :: event where
  "example_click = \<lparr>ev_type = MouseDown, ev_x = Num 300, ev_y = Num 10, ev_ctrl = False\<rparr>"

theorem click_selects_witness:
  "\<exists>v'. widget_handle 3 0 example_click (new_widget (WSpan example_row) example_view) = Some (v', True)
     \<and> is_selected (v_store v') 0 \<and> \<not> is_selected (v_store v') (Suc 0)"
proof -
  let ?v = "new_widget (WSpan example_row) example_view"
  have "view_ok ?v"
    using view_ok_new_widget [OF example_view_ok, of "WSpan example_row"]
    by (simp add: example_row_def group_row_def)
  moreover have "v_widgets ?v ! 0 = WSpan example_row" "v_results ?v = v_results example_view"
    by (simp_all add: new_widget_def)
  moreover have "inBoundingBox (Num 300) (Num 10) (sw_x0 example_row) (sw_xF example_row) (sw_y0 example_row) (sw_yF example_row)"
    by (simp add: example_row_def group_row_def group_start_def new_group_def setupCoordinates_def Let_def
        example_view_def new_view_def inBoundingBox_def)
  moreover have "sw_span example_row = 0" by (simp add: example_row_def group_row_def)
  ultimately show ?thesis
    using click_selects [of ?v 3 0 example_row example_click] example_relatives
    by (auto simp: example_click_def)
qed

section \<open>Removing results\<close>

text \<open>When nothing is selected, the delete key removes nothing and the clear button every result.
  Otherwise the results that are left are the others, in their order: removed are the first result that
  is selected or has a selected reified ancestor or descendant, and of the later ones only those
  selected themselves or through an ancestor. (A later result with a selected descendant stays.)\<close>

theorem clear_removes:
  assumes ok: "view_ok v" and fuel: "length (v_store v) < fuel"
  shows "\<exists>v'. clearHandler fuel clearAll v = Some v' \<and> v_store v' = v_store v
    \<and> c_models (v_results v') =
        (if none_selected (v_store v) (c_models (v_results v))
         then (if clearAll then [] else c_models (v_results v))
         else filter (\<lambda>r. r \<notin> set (to_delete (v_store v) (c_models (v_results v)))) (c_models (v_results v)))"
proof -
  let ?rs = "c_models (v_results v)"
  have r: "\<exists>v'. render fuel (v\<lparr>v_results := coll_remove ms (v_results v)\<rparr>) = Some v' \<and> v_store v' = v_store v
      \<and> c_models (v_results v') = filter (\<lambda>r. r \<notin> set ms) ?rs" for ms
  proof -
    let ?v = "v\<lparr>v_results := coll_remove ms (v_results v)\<rparr>"
    obtain v' where "render fuel ?v = Some v'" "data v' = data ?v"
      using render_ok [of ?v fuel] view_ok_coll_remove [OF ok] fuel by auto
    with data_eqD(1,2) [of v' ?v] coll_remove_eq [OF view_okD(2) [OF ok], of ms] show ?thesis by simp
  qed
  have "filter (\<lambda>r. r \<notin> set ?rs) ?rs = []" by (simp add: filter_empty_conv)
  then show ?thesis
    using r [of ?rs] r [of "to_delete (v_store v) ?rs"]
    by (simp add: clearHandler_eq [OF view_okD(1) [OF ok] fuel] Let_def)
qed

theorem clear_removes_witness:
  "\<exists>v'. clearHandler 3 True example_view = Some v' \<and> c_models (v_results v') = []"
  using clear_removes [OF example_view_ok, of 3 True] example_not_selected
  by (auto simp: none_selected_def selected_below_def selected_above_def)

section \<open>The buttons of the rows\<close>

text \<open>A widget gets the events of a list one after the other.\<close>

fun widget_events :: "nat \<Rightarrow> nat \<Rightarrow> event list \<Rightarrow> view \<Rightarrow> view option" where
  "widget_events fuel i [] v = Some v"
| "widget_events fuel i (e # es) v =
     Option.bind (widget_handle fuel i e v) (\<lambda>(v, go). widget_events fuel i es v)"

definition on_button :: "triangle \<Rightarrow> event \<Rightarrow> bool" where
  "on_button b e \<longleftrightarrow> ev_type e = MouseMove
     \<and> inBoundingBox (ev_x e) (ev_y e) (tb_x0 b) (tb_xF b) (tb_y0 b) (tb_yF b)"

lemma on_button_frame [simp]: "on_button (b\<lparr>tb_selected := s\<rparr>) e = on_button b e"
  by (simp add: on_button_def)

lemma set_widget_twice [simp]: "set_widget i w (set_widget i w' v) = set_widget i w v"
  by (simp add: set_widget_def)

lemma set_widget_same: "v_widgets v ! i = w \<Longrightarrow> set_widget i w v = v"
  by (auto simp: set_widget_def)

lemma triangle_moves:
  assumes "i < length (v_widgets v)" "v_widgets v ! i = WTriangle b" "ev_type ` set es \<subseteq> {MouseMove, MouseOut}"
  shows "widget_events fuel i (es @ rest) v =
    widget_events fuel i rest
      (set_widget i (WTriangle (b\<lparr>tb_selected := (if es = [] then tb_selected b else on_button b (last es))\<rparr>)) v)"
  using assms
proof (induction es arbitrary: v b)
  case Nil
  then show ?case by (simp add: set_widget_same)
next
  case (Cons e es)
  let ?b = "b\<lparr>tb_selected := on_button b e\<rparr>"
  have "widget_handle fuel i e v = Some (set_widget i (WTriangle ?b) v, True)"
    using Cons.prems by (auto simp: widget_handle_def handle_triangle_def on_button_def)
  then show ?case
    using Cons.IH [of "set_widget i (WTriangle ?b) v" ?b] Cons.prems by simp
qed

text \<open>A press on a triangle button, any movement of the mouse, and its release send exactly one
  request when the mouse was last seen on the button, and none otherwise; afterwards the button is not
  highlighted and listens to what it listened to before.\<close>

theorem button_press:
  assumes "i < length (v_widgets v)" "v_widgets v ! i = WTriangle b" "\<not> tb_selected b"
    and "i \<notin> set (v_listeners v MouseUp) \<union> set (v_listeners v MouseMove) \<union> set (v_listeners v MouseOut)"
    and "ev_type down = MouseDown" and "ev_type up = MouseUp"
    and "inBoundingBox (ev_x down) (ev_y down) (tb_x0 b) (tb_xF b) (tb_y0 b) (tb_yF b)"
    and "ev_type ` set es \<subseteq> {MouseMove, MouseOut}"
  shows "widget_events fuel i (down # es @ [up]) v =
    Some (if es = [] \<or> on_button b (last es)
          then v\<lparr>v_requests := v_requests v @ [tb_callback b]\<rparr> else v)"
proof -
  let ?sel = "es = [] \<or> on_button b (last es)"
  let ?r = "v_register MouseOut i (v_register MouseMove i (v_register MouseUp i v))"
  let ?d = "set_widget i (WTriangle (b\<lparr>tb_selected := True\<rparr>)) ?r"
  have d: "widget_handle fuel i down v = Some (?d, False)"
    using assms by (simp add: widget_handle_def handle_triangle_def)
  have m: "widget_events fuel i (es @ [up]) ?d
      = widget_events fuel i [up] (set_widget i (WTriangle (b\<lparr>tb_selected := ?sel\<rparr>)) ?d)"
    using triangle_moves [of i ?d "b\<lparr>tb_selected := True\<rparr>" es fuel "[up]"] assms(1,8) by simp
  have b: "set_widget i (WTriangle (b\<lparr>tb_selected := False\<rparr>)) u = u" if "v_widgets u = v_widgets v" for u
  proof (rule set_widget_same)
    have "b\<lparr>tb_selected := False\<rparr> = b" using assms(3) by simp
    then show "v_widgets u ! i = WTriangle (b\<lparr>tb_selected := False\<rparr>)" using assms(2) that by simp
  qed
  have l: "v_unregister MouseOut i (v_unregister MouseMove i (v_unregister MouseUp i ?r)) = v"
  proof -
    have "without (ls @ [i]) i = ls" if "i \<notin> set ls" for ls
      using that by (auto simp: without_def intro!: filter_True)
    then have "v_listeners (v_unregister MouseOut i (v_unregister MouseMove i (v_unregister MouseUp i ?r))) = v_listeners v"
      using assms(4) by (auto simp: fun_eq_iff)
    then show ?thesis by (simp add: v_unregister_def v_register_def)
  qed
  have fr: "v_unregister t i (set_widget i w u) = set_widget i w (v_unregister t i u)"
    "v_unregister t i (send_request c u) = send_request c (v_unregister t i u)"
    "set_widget i w (send_request c u) = send_request c (set_widget i w u)" for t w u c
    by (simp_all add: v_unregister_def set_widget_def send_request_def)
  have u: "widget_handle fuel i up (set_widget i (WTriangle (b\<lparr>tb_selected := ?sel\<rparr>)) ?d)
      = Some (if ?sel then send_request (tb_callback b) v else v, True)"
    using assms(1,6) b [of v] by (simp add: widget_handle_def handle_triangle_def fr l)
  have "widget_events fuel i (down # es @ [up]) v = widget_events fuel i (es @ [up]) ?d" by (simp add: d)
  also note m
  also have "widget_events fuel i [up] (set_widget i (WTriangle (b\<lparr>tb_selected := ?sel\<rparr>)) ?d)
      = Some (if ?sel then send_request (tb_callback b) v else v)"
    unfolding widget_events.simps u by simp
  finally show ?thesis by (simp add: send_request_def)
qed

definition example_button :: triangle where
  "example_button = up_button (sized example_row)"

theorem button_press_witness:
  "widget_events 1 0
     [\<lparr>ev_type = MouseDown, ev_x = Num 210, ev_y = Num 10, ev_ctrl = False\<rparr>,
      \<lparr>ev_type = MouseMove, ev_x = Num 500, ev_y = Num 10, ev_ctrl = False\<rparr>,
      \<lparr>ev_type = MouseUp, ev_x = Num 500, ev_y = Num 10, ev_ctrl = False\<rparr>]
     (new_TriangleButton example_button example_view) = Some (new_TriangleButton example_button example_view)"
proof -
  let ?v = "new_TriangleButton example_button example_view"
  let ?e = "\<lambda>t x. \<lparr>ev_type = t, ev_x = Num x, ev_y = Num 10, ev_ctrl = False\<rparr>"
  have box: "tb_x0 example_button = Num 207" "tb_xF example_button = Num (451 / 2)"
      "tb_y0 example_button = Num 6" "tb_yF example_button = Num 27"
    by (simp_all add: example_button_def up_button_def sized_def example_row_def group_row_def group_start_def
        new_group_def setupCoordinates_def Let_def example_view_def new_view_def)
  have "v_widgets ?v = [WTriangle example_button]" "\<not> tb_selected example_button"
      "0 \<notin> set (v_listeners ?v MouseUp) \<union> set (v_listeners ?v MouseMove) \<union> set (v_listeners ?v MouseOut)"
    by (simp_all add: new_TriangleButton_def new_widget_def v_register_def Let_def)
      (simp_all add: example_button_def up_button_def)
  then show ?thesis
    using button_press [of 0 ?v example_button "?e MouseDown 210" "?e MouseUp 500" "[?e MouseMove 500]" 1]
    by (simp add: box inBoundingBox_def on_button_def)
qed

section \<open>The columns\<close>

text \<open>While the names of the processes take less than 85 percent of a view that is at least 20 wide,
  the columns of the view lie side by side in their order: the names, the buttons, the time area of
  positive width, the scroll bar.\<close>

theorem columns_in_order:
  assumes "v_parentWidth v = Num w" and "v_processNameFraction v = Num f"
    and "20 \<le> w" and "0 \<le> f" and "f < 17 / 20"
  shows "let u = setupCoordinates v
         in Num 0 \<le> v_xB u \<and> v_xB u < v_xD u \<and> v_xD u < v_xS u \<and> v_xS u < v_viewX u"
proof -
  let ?xB = "of_int \<lfloor>w * f\<rfloor> :: rat" and ?d = "min 75 (of_int \<lfloor>w / 20\<rfloor>) :: rat"
    and ?s = "min 50 (of_int \<lfloor>w / 10\<rfloor>) :: rat"
  have "?d \<le> w / 20" by (rule min.coboundedI2 [OF of_int_floor_le])
  moreover have "?s \<le> w / 10" by (rule min.coboundedI2 [OF of_int_floor_le])
  moreover have "1 \<le> \<lfloor>w / 20\<rfloor>" "1 \<le> \<lfloor>w / 10\<rfloor>" using assms(3) by simp_all
  then have "1 \<le> ?d" "1 \<le> ?s" by simp_all
  moreover have "w * f < w * (17 / 20)" using assms(3,5) by (intro mult_strict_left_mono) auto
  moreover have "?xB \<le> w * f" "0 \<le> ?xB" using assms(3,4) by simp_all
  ultimately have "0 \<le> ?xB" "?xB < ?xB + ?d" "?xB + ?d < w - ?s" "w - ?s < w" by linarith+
  then show ?thesis
    using assms(1,2) by (simp add: setupCoordinates_def Let_def)
qed

theorem columns_in_order_witness:
  "v_xD (setupCoordinates example_view) < v_xS (setupCoordinates example_view)"
  using columns_in_order [of example_view 1000 "1 / 5"] by (simp add: Let_def) (simp add: example_view_def new_view_def)

text \<open>With 90 percent, where the partition can be dragged to (its left edge may be half a width short of
  it), the time area of a view that is 600 wide gets a negative width.\<close>

lemma columns_cross:
  "v_parentWidth v = Num 600 \<Longrightarrow> v_processNameFraction v = Num (537 / 600) \<Longrightarrow>
     v_xS (setupCoordinates v) = Num 550 \<and> v_xD (setupCoordinates v) = Num 567"
  by (simp add: setupCoordinates_def Let_def)

end
