(* ===== verification/Backbone_Router.thy ===== *)
theory Backbone_Router
  imports Js_String
begin

text \<open>
  \<open>Backbone.Router\<close> and \<open>Backbone.History\<close> (\<open>htrace-webapp/src/main/web/lib/backbone-1.1.2.js\<close>), in a
  browser with the \<open>hashchange\<close> event and without \<open>pushState\<close> being asked for, as the viewer starts
  it: routes are compiled to patterns, the patterns are tried on the fragment of the address in the
  order in which they were declared, and the history decides when a change of the address, or a call
  of \<open>navigate\<close>, reaches a route.
\<close>

section \<open>Patterns\<close>

text \<open>
  What \<open>_routeToRegExp\<close> builds: a character, \<open>([^/?]+)\<close> for a named parameter, \<open>([^?]*?)\<close> for a
  splat, and an optional group of these. \<open>None\<close> stands for a route that turns into some other regular
  expression (a lone \<open>*\<close>, an unmatched parenthesis).
\<close>

datatype piece = Lit char | Named | Splat

datatype part = One piece | Opt "piece list"

definition word_char :: "char \<Rightarrow> bool" where
  "word_char c =
     (is_digit c \<or> (97 \<le> code c \<and> code c \<le> 122) \<or> (65 \<le> code c \<and> code c \<le> 90) \<or> c = CHR ''_'')"

function pieces :: "string \<Rightarrow> piece list option" where
  "pieces [] = Some []"
| "pieces (c # cs) =
     (if c = CHR ''('' \<or> c = CHR '')'' then None
      else if (c = CHR '':'' \<or> c = CHR ''*'') \<and> takeWhile word_char cs \<noteq> [] then
        map_option ((#) (if c = CHR '':'' then Named else Splat)) (pieces (dropWhile word_char cs))
      else if c = CHR ''*'' then None
      else map_option ((#) (Lit c)) (pieces cs))"
  by pat_completeness auto
termination
  by (relation "measure length") (auto simp: less_Suc_eq_le length_dropWhile_le)

function routeToRegExp :: "string \<Rightarrow> part list option" where
  "routeToRegExp [] = Some []"
| "routeToRegExp (c # cs) =
     (if c = CHR ''('' then
        (let inner = takeWhile (\<lambda>d. d \<noteq> CHR '')'') cs; rest = dropWhile (\<lambda>d. d \<noteq> CHR '')'') cs
         in if rest = [] \<or> CHR 0x0A \<in> set inner then None
            else (case (pieces inner, routeToRegExp (tl rest)) of
                    (Some ps, Some parts) \<Rightarrow> Some (Opt ps # parts)
                  | _ \<Rightarrow> None))
      else
        (let plain = takeWhile (\<lambda>d. d \<noteq> CHR ''('') (c # cs)
         in case (pieces plain, routeToRegExp (dropWhile (\<lambda>d. d \<noteq> CHR ''('') (c # cs))) of
              (Some ps, Some parts) \<Rightarrow> Some (map One ps @ parts)
            | _ \<Rightarrow> None))"
  by pat_completeness auto
termination
proof (relation "measure length", goal_cases)
  case (2 c cs inner rest)
  then have "length (tl rest) \<le> length cs"
    using length_dropWhile_le [of "\<lambda>d. d \<noteq> CHR '')''" cs] by simp
  then show ?case by (simp add: less_Suc_eq_le)
qed (auto simp: less_Suc_eq_le length_dropWhile_le)

section \<open>Matching\<close>

fun first_some :: "('a \<Rightarrow> 'b option) \<Rightarrow> 'a list \<Rightarrow> 'b option" where
  "first_some f [] = None"
| "first_some f (x # xs) = (case f x of None \<Rightarrow> first_some f xs | Some y \<Rightarrow> Some y)"

type_synonym captures = "string option list"

text \<open>
  The matching of the language, with backtracking: a named parameter takes as many characters as it
  can, a splat as few. The continuation matches the rest.
\<close>

fun match_pieces :: "piece list \<Rightarrow> string \<Rightarrow> (string \<Rightarrow> captures option) \<Rightarrow> captures option" where
  "match_pieces [] s k = k s"
| "match_pieces (Lit c # ps) s k =
     (case s of [] \<Rightarrow> None | d # t \<Rightarrow> if c = d then match_pieces ps t k else None)"
| "match_pieces (Named # ps) s k =
     (let n = length (takeWhile (\<lambda>d. d \<noteq> CHR ''/'' \<and> d \<noteq> CHR ''?'') s)
      in first_some (\<lambda>i. map_option ((#) (Some (take i s))) (match_pieces ps (drop i s) k)) (rev [1..<Suc n]))"
| "match_pieces (Splat # ps) s k =
     (let n = length (takeWhile (\<lambda>d. d \<noteq> CHR ''?'') s)
      in first_some (\<lambda>i. map_option ((#) (Some (take i s))) (match_pieces ps (drop i s) k)) [0..<Suc n])"

definition is_group :: "piece \<Rightarrow> bool" where
  "is_group p = (p = Named \<or> p = Splat)"

text \<open>An optional group that matches nothing counts as absent. The end is \<open>(?:\?([\s\S]*))?$\<close>.\<close>

fun match_parts :: "part list \<Rightarrow> string \<Rightarrow> captures option" where
  "match_parts [] s =
     (case s of [] \<Rightarrow> Some [None] | c # q \<Rightarrow> if c = CHR ''?'' then Some [Some q] else None)"
| "match_parts (One p # ps) s = match_pieces [p] s (match_parts ps)"
| "match_parts (Opt qs # ps) s =
     (case match_pieces qs s (\<lambda>t. if length t = length s then None else match_parts ps t) of
        Some cs \<Rightarrow> Some cs
      | None \<Rightarrow> map_option (\<lambda>cs. map (\<lambda>_. None) (filter is_group qs) @ cs) (match_parts ps s))"

section \<open>Parameters\<close>

text \<open>
  \<open>decodeURIComponent\<close>: escapes are bytes of UTF-8; the result is a list of code points, and
  \<open>None\<close> is a \<open>URIError\<close>.
\<close>

definition hex_value :: "char \<Rightarrow> nat" where
  "hex_value c = (if is_digit c then code c - 48 else if 97 \<le> code c then code c - 87 else code c - 55)"

text \<open>One escape at the beginning of a string: the byte and the rest.\<close>

definition escape_byte :: "string \<Rightarrow> (nat \<times> string) option" where
  "escape_byte s =
     (case s of
        c # x # y # t \<Rightarrow>
          if c = CHR ''%'' \<and> is_hex_digit x \<and> is_hex_digit y then Some (16 * hex_value x + hex_value y, t) else None
      | _ \<Rightarrow> None)"

fun continuation_bytes :: "nat \<Rightarrow> nat \<Rightarrow> string \<Rightarrow> (nat \<times> string) option" where
  "continuation_bytes 0 v s = Some (v, s)"
| "continuation_bytes (Suc n) v s =
     (case escape_byte s of
        Some (b, t) \<Rightarrow> if b div 64 = 2 then continuation_bytes n (64 * v + b mod 64) t else None
      | None \<Rightarrow> None)"

text \<open>A code point of UTF-8, not overlong, not a surrogate and not beyond U+10FFFF.\<close>

definition escaped_point :: "string \<Rightarrow> (nat \<times> string) option" where
  "escaped_point s =
     (case escape_byte s of
        None \<Rightarrow> None
      | Some (b, t) \<Rightarrow>
          if b < 128 then Some (b, t)
          else if b div 32 = 6 then
            (case continuation_bytes 1 (b mod 32) t of
               Some (v, u) \<Rightarrow> if 128 \<le> v then Some (v, u) else None | None \<Rightarrow> None)
          else if b div 16 = 14 then
            (case continuation_bytes 2 (b mod 16) t of
               Some (v, u) \<Rightarrow> if 2048 \<le> v \<and> \<not> (55296 \<le> v \<and> v < 57344) then Some (v, u) else None
             | None \<Rightarrow> None)
          else if b div 8 = 30 then
            (case continuation_bytes 3 (b mod 8) t of
               Some (v, u) \<Rightarrow> if 65536 \<le> v \<and> v < 1114112 then Some (v, u) else None | None \<Rightarrow> None)
          else None)"

lemma escape_byte_shorter: "escape_byte s = Some (b, t) \<Longrightarrow> length t < length s"
  by (auto simp: escape_byte_def split: list.splits if_splits)

lemma continuation_bytes_shorter: "continuation_bytes n v s = Some (w, t) \<Longrightarrow> length t \<le> length s"
proof (induction n v s rule: continuation_bytes.induct)
  case (2 n v s)
  then show ?case by (fastforce dest: escape_byte_shorter split: option.splits if_splits)
qed simp

lemma escaped_point_shorter: "escaped_point s = Some (v, t) \<Longrightarrow> length t < length s"
  by (fastforce simp: escaped_point_def dest: escape_byte_shorter continuation_bytes_shorter
      split: option.splits if_splits)

function decodeURIComponent :: "string \<Rightarrow> nat list option" where
  "decodeURIComponent [] = Some []"
| "decodeURIComponent (c # cs) =
     (if c \<noteq> CHR ''%'' then map_option ((#) (code c)) (decodeURIComponent cs)
      else case escaped_point (c # cs) of
             Some (v, t) \<Rightarrow> map_option ((#) v) (decodeURIComponent t)
           | None \<Rightarrow> None)"
  by pat_completeness auto
termination
  by (relation "measure length") (auto dest: escaped_point_shorter)

text \<open>
  Parameters are decoded, an empty or missing one is \<open>null\<close>, and the query (the last) is taken as
  it is.
\<close>

definition decode_param :: "string option \<Rightarrow> nat list option option" where
  "decode_param p =
     (case p of
        None \<Rightarrow> Some None
      | Some s \<Rightarrow> if s = [] then Some None else map_option Some (decodeURIComponent s))"

definition query_param :: "string option \<Rightarrow> nat list option" where
  "query_param p = (case p of None \<Rightarrow> None | Some s \<Rightarrow> if s = [] then None else Some (map code s))"

fun extractParameters :: "captures \<Rightarrow> nat list option list option" where
  "extractParameters [] = Some []"
| "extractParameters [q] = Some [query_param q]"
| "extractParameters (p # q # ps) =
     (case decode_param p of
        None \<Rightarrow> None
      | Some v \<Rightarrow> map_option ((#) v) (extractParameters (q # ps)))"

section \<open>History\<close>

text \<open>
  The browser's part of the state is the list of the visited fragments as they stand in the address
  (the last one is the current address) and the number of \<open>hashchange\<close> events that it has yet to
  deliver. The handlers are the compiled routes with the names of their callbacks.
\<close>

record history =
  h_started :: bool
  h_fragment :: "string option"
  h_handlers :: "(part list \<times> string) list"
  h_entries :: "string list"
  h_changes :: nat

definition getHash :: "history \<Rightarrow> string" where
  "getHash h = (if h_entries h = [] then [] else last (h_entries h))"

text \<open>\<open>replace(routeStripper, '')\<close>: one leading \<open>#\<close> or \<open>/\<close>, and trailing white space.\<close>

definition strip_route :: "string \<Rightarrow> string" where
  "strip_route s =
     (let s = (case s of [] \<Rightarrow> [] | c # t \<Rightarrow> if c = CHR ''#'' \<or> c = CHR ''/'' then t else s)
      in rev (dropWhile is_space (rev s)))"

definition getFragment :: "string option \<Rightarrow> history \<Rightarrow> string" where
  "getFragment fragment h = strip_route (case fragment of None \<Rightarrow> getHash h | Some f \<Rightarrow> f)"

definition add_handler :: "part list \<Rightarrow> string \<Rightarrow> history \<Rightarrow> history" where
  "add_handler route name h = h\<lparr>h_handlers := (route, name) # h_handlers h\<rparr>"

text \<open>The routes are popped from the end of the list of the declared ones.\<close>

fun bindRoutes :: "(string \<times> string) list \<Rightarrow> history \<Rightarrow> history option" where
  "bindRoutes [] h = Some h"
| "bindRoutes (r # rs) h =
     (case routeToRegExp (fst (last (r # rs))) of
        None \<Rightarrow> None
      | Some route \<Rightarrow> bindRoutes (butlast (r # rs)) (add_handler route (snd (last (r # rs))) h))"

text \<open>
  The handler that \<open>loadUrl\<close> calls, and the arguments of its callback; \<open>Some (name, None)\<close> means that
  the extraction of the parameters throws. The callback is the last thing that \<open>loadUrl\<close> does.
\<close>

definition matching :: "string \<Rightarrow> (part list \<times> string) list \<Rightarrow> (string \<times> nat list option list option) option" where
  "matching fragment =
     first_some (\<lambda>(route, name). map_option (\<lambda>cs. (name, extractParameters cs)) (match_parts route fragment))"

definition loadUrl :: "string option \<Rightarrow> history \<Rightarrow> history \<times> (string \<times> nat list option list option) option" where
  "loadUrl fragment h =
     (let f = getFragment fragment h
      in (h\<lparr>h_fragment := Some f\<rparr>, matching f (h_handlers h)))"

definition history_start :: "history \<Rightarrow> (history \<times> (string \<times> nat list option list option) option) option" where
  "history_start h =
     (if h_started h then None
      else Some (loadUrl None (h\<lparr>h_started := True, h_fragment := Some (getFragment None h)\<rparr>)))"

text \<open>A \<open>hashchange\<close> event.\<close>

definition checkUrl :: "history \<Rightarrow> history \<times> (string \<times> nat list option list option) option" where
  "checkUrl h = (if Some (getFragment None h) = h_fragment h then (h, None) else loadUrl None h)"

text \<open>Writing the address; the browser announces a change of the fragment.\<close>

definition updateHash :: "string \<Rightarrow> bool \<Rightarrow> history \<Rightarrow> history" where
  "updateHash fragment replace h =
     (let h' = h\<lparr>h_changes := (if fragment = getHash h then h_changes h else Suc (h_changes h))\<rparr>
      in if replace then h'\<lparr>h_entries := butlast (h_entries h) @ [fragment]\<rparr>
         else if fragment = getHash h then h'
         else h'\<lparr>h_entries := h_entries h @ [fragment]\<rparr>)"

definition navigate ::
    "string \<Rightarrow> bool \<Rightarrow> bool \<Rightarrow> history \<Rightarrow> history \<times> (string \<times> nat list option list option) option" where
  "navigate fragment trigger replace h =
     (if \<not> h_started h then (h, None)
      else
        (let fragment = takeWhile (\<lambda>c. c \<noteq> CHR ''#'') (getFragment (Some fragment) h)
         in if h_fragment h = Some fragment then (h, None)
            else
              (let h = updateHash fragment replace (h\<lparr>h_fragment := Some fragment\<rparr>)
               in if trigger then loadUrl (Some fragment) h else (h, None))))"

end
