(* ===== verification/App_Router.thy ===== *)
theory App_Router
  imports Backbone_Router Search_Props
begin

text \<open>
  The application: \<open>router.js\<close>, \<open>about_view.js\<close> and \<open>server_info.js\<close> (under
  \<open>htrace-webapp/src/main/web/app\<close>) around the search page. The router keeps the view that is shown;
  a page that was replaced is closed, but the answers to its requests may still arrive. The about page
  is shown only when the server has answered \<open>GET server/info\<close>.
\<close>

section \<open>The state\<close>

record server_info =
  ReleaseVersion :: string
  GitVersion :: string

text \<open>The defaults of \<open>ServerInfo\<close>; \<open>fetch\<close> sets the attributes that the answer has.\<close>

definition new_server_info :: server_info where
  "new_server_info = \<lparr>ReleaseVersion = ''unknown'', GitVersion = ''unknown''\<rparr>"

definition set_info :: "(string \<rightharpoonup> string) \<Rightarrow> server_info \<Rightarrow> server_info" where
  "set_info response i =
     i\<lparr>ReleaseVersion := (case response ''ReleaseVersion'' of None \<Rightarrow> ReleaseVersion i | Some s \<Rightarrow> s),
       GitVersion := (case response ''GitVersion'' of None \<Rightarrow> GitVersion i | Some s \<Rightarrow> s)\<rparr>"

text \<open>The about page is the text that its template made from the model when it was rendered.\<close>

datatype page = AboutPage server_info | SearchPage search

text \<open>
  \<open>a_serverInfo\<close> is the global variable \<open>serverInfo\<close> (it is assigned without \<open>var\<close>), an index of the
  model objects \<open>a_infos\<close>; \<open>a_fetches\<close> are the objects whose fetch has not been answered. The closed
  search pages are kept, since their requests may still be answered.
\<close>

record app =
  a_history :: history
  a_view :: "page option"
  a_closed :: "search list"
  a_active :: "string option"          \<comment> \<open>the entry of the navigation bar\<close>
  a_infos :: "server_info list"
  a_serverInfo :: nat
  a_fetches :: "nat list"
  a_alerts :: "string list"

section \<open>The router\<close>

definition routes :: "(string \<times> string) list" where
  "routes = [('''', ''empty''), (''about'', ''about''), (''search'', ''search''), (''*unknown'', ''unknown'')]"

text \<open>\<open>AboutView.close\<close> only detaches its (empty) list of event handlers.\<close>

definition close_page :: "page \<Rightarrow> app \<Rightarrow> app" where
  "close_page p a =
     (case p of
        AboutPage i \<Rightarrow> a
      | SearchPage s \<Rightarrow> a\<lparr>a_closed := a_closed a @ [search_close s]\<rparr>)"

definition render_page :: "nat \<Rightarrow> page \<Rightarrow> page option" where
  "render_page fuel p =
     (case p of
        AboutPage i \<Rightarrow> Some (AboutPage i)
      | SearchPage s \<Rightarrow> map_option SearchPage (s_render fuel s))"

definition switchView :: "nat \<Rightarrow> page \<Rightarrow> app \<Rightarrow> app option" where
  "switchView fuel view a =
     (let a = (case a_view a of None \<Rightarrow> a | Some old \<Rightarrow> close_page old a)
      in map_option (\<lambda>view. a\<lparr>a_view := Some view\<rparr>) (render_page fuel view))"

definition activateNavBarEntry :: "string \<Rightarrow> app \<Rightarrow> app" where
  "activateNavBarEntry i a = a\<lparr>a_active := Some i\<rparr>"

definition about :: "app \<Rightarrow> app" where
  "about a =
     (let k = length (a_infos a)
      in a\<lparr>a_infos := a_infos a @ [new_server_info], a_serverInfo := k, a_fetches := a_fetches a @ [k]\<rparr>)"

text \<open>The callback shows the object that the global variable holds then.\<close>

definition about_success :: "nat \<Rightarrow> nat \<Rightarrow> (string \<rightharpoonup> string) \<Rightarrow> app \<Rightarrow> app option" where
  "about_success fuel k response a =
     (let a = a\<lparr>a_infos := (a_infos a)[k := set_info response (a_infos a ! k)]\<rparr>
      in map_option (activateNavBarEntry ''about'')
           (switchView fuel (AboutPage (a_infos a ! a_serverInfo a)) a))"

definition about_error :: "string \<Rightarrow> app \<Rightarrow> app" where
  "about_error response a =
     a\<lparr>a_alerts := a_alerts a @ [''Failed to fetch htraced server info via GET /server/info: '' @ response]\<rparr>"

text \<open>A new search page; the argument is the view that its constructor makes on the window.\<close>

definition search_route :: "nat \<Rightarrow> view \<Rightarrow> app \<Rightarrow> app option" where
  "search_route fuel v a =
     map_option (activateNavBarEntry ''search'') (switchView fuel (SearchPage (new_search v)) a)"

text \<open>\<open>empty\<close> redirects to \<open>about\<close>, whose callback \<open>navigate\<close> calls; \<open>unknown\<close> only writes to the console.\<close>

definition run_callback ::
    "nat \<Rightarrow> view \<Rightarrow> (string \<times> nat list option list option) option \<Rightarrow> app \<Rightarrow> app option" where
  "run_callback fuel v call a =
     (case call of
        None \<Rightarrow> Some a
      | Some (name, None) \<Rightarrow> Some a
      | Some (name, Some args) \<Rightarrow>
          if name = ''empty'' then
            (let (h, call) = navigate ''about'' True True (a_history a); a = a\<lparr>a_history := h\<rparr>
             in case call of
                  Some (name, Some args) \<Rightarrow> if name = ''about'' then Some (about a) else Some a
                | _ \<Rightarrow> Some a)
          else if name = ''about'' then Some (about a)
          else if name = ''search'' then search_route fuel v a
          else Some a)"

definition on_history ::
    "nat \<Rightarrow> view \<Rightarrow> history \<times> (string \<times> nat list option list option) option \<Rightarrow> app \<Rightarrow> app option" where
  "on_history fuel v result a = run_callback fuel v (snd result) (a\<lparr>a_history := fst result\<rparr>)"

section \<open>The application from its start\<close>

definition new_app :: "string \<Rightarrow> app" where
  "new_app address =
     \<lparr>a_history = \<lparr>h_started = False, h_fragment = None, h_handlers = [], h_entries = [address], h_changes = 0\<rparr>,
      a_view = None, a_closed = [], a_active = None, a_infos = [], a_serverInfo = 0, a_fetches = [],
      a_alerts = []\<rparr>"

text \<open>\<open>htrace.router = new htrace.HTraceRouter(); Backbone.history.start()\<close>.\<close>

definition app_start :: "nat \<Rightarrow> view \<Rightarrow> string \<Rightarrow> app option" where
  "app_start fuel v address =
     (let a = new_app address
      in Option.bind (bindRoutes routes (a_history a)) (\<lambda>h.
         Option.bind (history_start h) (\<lambda>result. on_history fuel v result a)))"

text \<open>
  What happens: the user goes to another address (the event that announces it comes later), the event
  arrives, the server answers the fetch of an info object or fails, something happens to the search
  page that is shown, or an answer comes for one that was closed.
\<close>

datatype app_event =
    GoTo string | HashChange view | InfoAnswer nat "string \<rightharpoonup> string" | InfoFails nat string
  | OnPage page_event | OnClosed nat page_event

text \<open>The router alone closes pages.\<close>

definition app_step :: "nat \<Rightarrow> app_event \<Rightarrow> app \<Rightarrow> app option" where
  "app_step fuel e a =
     (case e of
        GoTo hash \<Rightarrow> Some (a\<lparr>a_history := updateHash hash False (a_history a)\<rparr>)
      | HashChange v \<Rightarrow>
          if h_changes (a_history a) = 0 then Some a
          else on_history fuel v (checkUrl ((a_history a)\<lparr>h_changes := h_changes (a_history a) - 1\<rparr>)) a
      | InfoAnswer k response \<Rightarrow>
          if k \<in> set (a_fetches a) then about_success fuel k response (a\<lparr>a_fetches := remove1 k (a_fetches a)\<rparr>)
          else Some a
      | InfoFails k response \<Rightarrow>
          if k \<in> set (a_fetches a) then Some (about_error response (a\<lparr>a_fetches := remove1 k (a_fetches a)\<rparr>))
          else Some a
      | OnPage e \<Rightarrow>
          (case a_view a of
             Some (SearchPage s) \<Rightarrow>
               if e = ClosePage then Some a
               else map_option (\<lambda>(s, out). a\<lparr>a_view := Some (SearchPage s)\<rparr>) (page_step fuel e s)
           | _ \<Rightarrow> Some a)
      | OnClosed i e \<Rightarrow>
          if i < length (a_closed a)
          then map_option (\<lambda>(s, out). a\<lparr>a_closed := (a_closed a)[i := s]\<rparr>) (page_step fuel e (a_closed a ! i))
          else Some a)"

text \<open>Enough call stack for an event: more than the spans of any page and those that arrive.\<close>

fun stack_needed :: "app_event \<Rightarrow> app \<Rightarrow> nat" where
  "stack_needed (OnPage e) a =
     (case a_view a of Some (SearchPage s) \<Rightarrow> length (v_store (s_view s)) + arriving e | _ \<Rightarrow> 0)"
| "stack_needed (OnClosed i e) a =
     (if i < length (a_closed a) then length (v_store (s_view (a_closed a ! i))) + arriving e else 0)"
| "stack_needed _ a = 0"

text \<open>The views that a constructor makes.\<close>

inductive fresh_view :: "view \<Rightarrow> bool" where
  "fresh_view (new_view now pw wh hh dpr backing)"

fun event_views :: "app_event \<Rightarrow> view set" where
  "event_views (HashChange v) = {v}"
| "event_views _ = {}"

inductive reachable_app :: "app \<Rightarrow> bool" where
  start: "fresh_view v \<Longrightarrow> 0 < fuel \<Longrightarrow> app_start fuel v address = Some a \<Longrightarrow> reachable_app a"
| step: "reachable_app a \<Longrightarrow> \<forall>v\<in>event_views e. fresh_view v \<Longrightarrow> stack_needed e a < fuel \<Longrightarrow>
    app_step fuel e a = Some a' \<Longrightarrow> reachable_app a'"

end
