(* ===== verification/Router_Props.thy ===== *)
theory Router_Props
  imports App_Router View_Props
begin

text \<open>
  Which route an address takes, and the invariant of the application: one page is shown, it is the one
  that the navigation bar marks, and every other page is closed.
\<close>

section \<open>Literal routes and the splat\<close>

lemma pieces_word:
  "\<forall>c\<in>set w. word_char c \<Longrightarrow> pieces w = Some (map Lit w)"
proof (induction w)
  case (Cons c w)
  then have "word_char c" by simp
  then have "c \<noteq> CHR ''(''" "c \<noteq> CHR '')''" "c \<noteq> CHR '':''" "c \<noteq> CHR ''*''"
    by (auto simp: word_char_def is_digit_def code_def)
  with Cons show ?case by simp
qed simp

definition literal :: "string \<Rightarrow> part list" where
  "literal w = map (One \<circ> Lit) w"

lemma match_literal_map:
  "CHR ''?'' \<notin> set w \<Longrightarrow>
     match_parts (map (One \<circ> Lit) w) s =
       (if takeWhile (\<lambda>c. c \<noteq> CHR ''?'') s = w
        then Some [if dropWhile (\<lambda>c. c \<noteq> CHR ''?'') s = [] then None else Some (tl (dropWhile (\<lambda>c. c \<noteq> CHR ''?'') s))]
        else None)"
proof (induction w arbitrary: s)
  case Nil
  then show ?case by (cases s) auto
next
  case (Cons c w)
  then show ?case by (cases s) auto
qed

lemma match_literal:
  assumes "CHR ''?'' \<notin> set w"
  obtains q where "match_parts (literal w) s = (if takeWhile (\<lambda>c. c \<noteq> CHR ''?'') s = w then Some [q] else None)"
  unfolding literal_def match_literal_map [OF assms] by blast

lemma first_some_None: "first_some f xs = None \<longleftrightarrow> (\<forall>x\<in>set xs. f x = None)"
  by (induction xs) (auto split: option.splits)

lemma match_splat: "match_parts [One Splat] s \<noteq> None"
proof -
  let ?n = "length (takeWhile (\<lambda>d. d \<noteq> CHR ''?'') s)"
  have "match_parts [] (dropWhile (\<lambda>d. d \<noteq> CHR ''?'') s) \<noteq> None" by (induction s) auto
  then have "match_parts [] (drop ?n s) \<noteq> None" by (simp add: dropWhile_eq_drop)
  then have "first_some (\<lambda>i. map_option ((#) (Some (take i s))) (match_parts [] (drop i s))) [0..<Suc ?n] \<noteq> None"
    unfolding first_some_None by (auto simp del: match_parts.simps(1))
  then show ?thesis by (simp add: Let_def del: match_parts.simps(1))
qed

lemma routes_compile:
  "routeToRegExp [] = Some (literal [])"
  "routeToRegExp ''about'' = Some (literal ''about'')"
  "routeToRegExp ''search'' = Some (literal ''search'')"
  "routeToRegExp ''*unknown'' = Some [One Splat]"
  by (simp_all add: Let_def word_char_def is_digit_def code_def literal_def)

definition app_handlers :: "(part list \<times> string) list" where
  "app_handlers =
     [(literal [], ''empty''), (literal ''about'', ''about''), (literal ''search'', ''search''),
      ([One Splat], ''unknown'')]"

lemma bindRoutes_routes: "bindRoutes routes h = Some (h\<lparr>h_handlers := app_handlers @ h_handlers h\<rparr>)"
  by (simp add: routes_def routes_compile add_handler_def app_handlers_def del: routeToRegExp.simps)

definition route_name :: "string \<Rightarrow> string" where
  "route_name fragment =
     (let path = takeWhile (\<lambda>c. c \<noteq> CHR ''?'') fragment
      in if path = [] then ''empty'' else if path = ''about'' then ''about''
         else if path = ''search'' then ''search'' else ''unknown'')"

lemma matching_app:
  "\<exists>args. matching f app_handlers = Some (route_name f, args) \<and> (route_name f \<noteq> ''unknown'' \<longrightarrow> args \<noteq> None)"
proof -
  obtain q0 where q0: "match_parts (literal []) f = (if takeWhile (\<lambda>c. c \<noteq> CHR ''?'') f = [] then Some [q0] else None)"
    using match_literal [of "[]" f] by auto
  obtain q1 where q1: "match_parts (literal ''about'') f = (if takeWhile (\<lambda>c. c \<noteq> CHR ''?'') f = ''about'' then Some [q1] else None)"
    using match_literal [of "''about''" f] by auto
  obtain q2 where q2: "match_parts (literal ''search'') f = (if takeWhile (\<lambda>c. c \<noteq> CHR ''?'') f = ''search'' then Some [q2] else None)"
    using match_literal [of "''search''" f] by auto
  obtain cs where cs: "match_parts [One Splat] f = Some cs" using match_splat [of f] by blast
  show ?thesis
    by (simp add: matching_def app_handlers_def q0 q1 q2 cs route_name_def Let_def del: match_parts.simps)
qed

section \<open>Pages\<close>

text \<open>Only closing closes a search page.\<close>

lemma close_predicates_closed: "s_closed (close_predicates s) = s_closed s"
  by (induction s rule: close_predicates.induct)
    (subst close_predicates.simps, simp add: removePredicateView_def split: list.split)

lemma search_close_closed: "s_closed (search_close s)"
  by (simp add: search_close_def Let_def)

lemma on_view_closed: "on_view f s = Some s' \<Longrightarrow> s_closed s' = s_closed s"
  by (auto simp: on_view_def)

lemma user_event_closed:
  "user_event fuel e s = Some s' \<Longrightarrow> e \<noteq> ClosePage \<Longrightarrow> s_closed s' = s_closed s"
  by (cases e)
    (auto simp: user_event_def dropdownHandler_def show_dialog_def removePredicateView_def type_text_def searchHandler_def
      doSearch_def s_zoomHandler_def s_clearHandler_def blurBeginHandler_def blurEndHandler_def Let_def
      dest!: on_view_closed split: option.splits if_splits sum.splits)

lemma search_success_closed:
  "search_success fuel q d response s = Some (s', out) \<Longrightarrow> s_closed s' = s_closed s"
  by (auto simp: search_success_def Let_def bind_eq_Some_conv split: prod.splits if_splits)

lemma s_request_done_closed:
  "s_request_done fuel answer s = Some (s', out) \<Longrightarrow> s_closed s' = s_closed s"
  by (auto simp: s_request_done_def split: if_splits)

lemma page_step_closed:
  assumes "page_step fuel e s = Some (s', out)" "e \<noteq> ClosePage"
  shows "s_closed s' = s_closed s"
proof -
  have f: "s_closed (forget_request c s) = s_closed s" for c by (simp add: forget_request_def)
  show ?thesis
    using assms
    by (cases e)
      (auto simp: page_step_def search_error_def f split: list.splits if_splits
        dest!: user_event_closed search_success_closed s_request_done_closed)
qed

lemma page_step_stays_closed: "page_step fuel ClosePage s = Some (s', out) \<Longrightarrow> s_closed s'"
  by (auto simp: page_step_def user_event_def search_close_closed split: if_splits)

lemma reachable_close:
  assumes "reachable_page s" "\<not> s_closed s"
  shows "reachable_page (search_close s)"
proof -
  have "page_step (Suc (length (v_store (s_view s)))) ClosePage s = Some (search_close s, Returns)"
    using assms(2) by (simp add: page_step_def user_event_def)
  from reachable_page.step [OF assms(1) _ this] show ?thesis by simp
qed

lemma reachable_rendered:
  assumes "fresh_view v" "0 < fuel"
  shows "\<exists>s. s_render fuel (new_search v) = Some s \<and> reachable_page s \<and> \<not> s_closed s"
  using assms(1)
proof cases
  case (1 now pw wh hh dpr backing)
  let ?s = "new_search v"
  have same: "v\<lparr>v_parentWidth := v_parentWidth v, v_windowHeight := v_windowHeight v, v_headerHeight := v_headerHeight v\<rparr> = v"
    by simp
  have st: "v_store v = []" by (simp add: 1 new_view_def)
  obtain v' where v': "render fuel v = Some v'"
    using render_ok' [of v fuel] view_ok_new_view assms(2) st 1 by auto
  then have r: "s_render fuel ?s = Some (?s\<lparr>s_view := v'\<rparr>)"
    by (simp add: s_render_def on_view_def new_search_def)
  have "page_step fuel (Resize (v_parentWidth v) (v_windowHeight v) (v_headerHeight v)) ?s
      = Some (?s\<lparr>s_view := v'\<rparr>, Returns)"
    using v' same by (simp add: page_step_def user_event_def on_view_def new_search_def)
  moreover have "reachable_page ?s" unfolding 1 by (rule reachable_page.start)
  moreover have "length (v_store (s_view ?s)) + arriving (Resize (v_parentWidth v) (v_windowHeight v) (v_headerHeight v)) < fuel"
    using assms(2) st by (simp add: new_search_def)
  ultimately have "reachable_page (?s\<lparr>s_view := v'\<rparr>)" using reachable_page.step by blast
  then show ?thesis using r by (simp add: new_search_def)
qed

section \<open>The invariant of the application\<close>

fun page_name :: "page \<Rightarrow> string" where
  "page_name (AboutPage i) = ''about''"
| "page_name (SearchPage s) = ''search''"

definition app_ok :: "app \<Rightarrow> bool" where
  "app_ok a \<longleftrightarrow>
     h_started (a_history a) \<and> h_handlers (a_history a) = app_handlers
   \<and> a_active a = map_option page_name (a_view a)
   \<and> (\<forall>s. a_view a = Some (SearchPage s) \<longrightarrow> reachable_page s \<and> \<not> s_closed s)
   \<and> (\<forall>s\<in>set (a_closed a). reachable_page s \<and> s_closed s)
   \<and> set (a_fetches a) \<subseteq> {..<length (a_infos a)}"

lemma history_frames [simp]:
  "h_started (updateHash f r h) = h_started h" "h_handlers (updateHash f r h) = h_handlers h"
  "h_started (fst (loadUrl g h)) = h_started h" "h_handlers (fst (loadUrl g h)) = h_handlers h"
  "h_started (fst (checkUrl h)) = h_started h" "h_handlers (fst (checkUrl h)) = h_handlers h"
  "h_started (fst (navigate f t r h)) = h_started h" "h_handlers (fst (navigate f t r h)) = h_handlers h"
  by (simp_all add: updateHash_def loadUrl_def checkUrl_def navigate_def Let_def)

lemma app_ok_history:
  "app_ok a \<Longrightarrow> h_started h \<Longrightarrow> h_handlers h = app_handlers \<Longrightarrow> app_ok (a\<lparr>a_history := h\<rparr>)"
  by (simp add: app_ok_def)

text \<open>Showing a page closes the one before it.\<close>

lemma switch_ok:
  assumes "app_ok a" and "render_page fuel p = Some p'" "page_name p' = page_name p"
    and "\<And>s. p' = SearchPage s \<Longrightarrow> reachable_page s \<and> \<not> s_closed s"
  shows "\<exists>a'. map_option (activateNavBarEntry (page_name p)) (switchView fuel p a) = Some a' \<and> app_ok a'
    \<and> a_view a' = Some p' \<and> a_history a' = a_history a \<and> a_infos a' = a_infos a
    \<and> a_serverInfo a' = a_serverInfo a \<and> a_fetches a' = a_fetches a
    \<and> a_closed a' = a_closed a @ (case a_view a of Some (SearchPage s) \<Rightarrow> [search_close s] | _ \<Rightarrow> [])"
proof -
  have c: "reachable_page (search_close s) \<and> s_closed (search_close s)" if "a_view a = Some (SearchPage s)" for s
    using assms(1) that by (simp add: app_ok_def reachable_close search_close_closed)
  show ?thesis
    using assms c
    by (auto simp: switchView_def close_page_def activateNavBarEntry_def app_ok_def Let_def split: option.splits page.splits)
qed

lemma about_ok: "app_ok a \<Longrightarrow> app_ok (about a)"
  by (auto simp: app_ok_def about_def Let_def)

lemma run_callback_ok:
  assumes "app_ok a" "fresh_view v" "0 < fuel"
  shows "\<exists>a'. run_callback fuel v call a = Some a' \<and> app_ok a'"
proof -
  obtain s where "s_render fuel (new_search v) = Some s" "reachable_page s" "\<not> s_closed s"
    using reachable_rendered [OF assms(2,3)] by blast
  then have s: "\<exists>a'. search_route fuel v a = Some a' \<and> app_ok a'"
    using switch_ok [OF assms(1), of fuel "SearchPage (new_search v)" "SearchPage s"]
    by (auto simp: search_route_def render_page_def)
  have n: "app_ok (a\<lparr>a_history := fst (navigate ''about'' True True (a_history a))\<rparr>)"
    using assms(1) by (intro app_ok_history) (simp_all add: app_ok_def)
  show ?thesis
    using assms(1) s n about_ok [OF assms(1)] about_ok [OF n]
    by (simp add: run_callback_def Let_def case_prod_beta split: option.split)
qed

lemma on_history_ok:
  assumes "app_ok a" "fresh_view v" "0 < fuel" "h_started (fst r)" "h_handlers (fst r) = app_handlers"
  shows "\<exists>a'. on_history fuel v r a = Some a' \<and> app_ok a'"
  unfolding on_history_def using app_ok_history [OF assms(1,4,5)] by (rule run_callback_ok [OF _ assms(2,3)])

lemma about_success_ok:
  assumes "app_ok a"
  shows "\<exists>a'. about_success fuel k response a = Some a' \<and> app_ok a' \<and> a_history a' = a_history a
    \<and> a_view a' = Some (AboutPage ((a_infos a)[k := set_info response (a_infos a ! k)] ! a_serverInfo a))
    \<and> a_closed a' = a_closed a @ (case a_view a of Some (SearchPage s) \<Rightarrow> [search_close s] | _ \<Rightarrow> [])"
proof -
  let ?a = "a\<lparr>a_infos := (a_infos a)[k := set_info response (a_infos a ! k)]\<rparr>"
  have "app_ok ?a" using assms by (simp add: app_ok_def)
  from switch_ok [OF this, of fuel "AboutPage (a_infos ?a ! a_serverInfo ?a)"] show ?thesis
    by (simp add: render_page_def about_success_def) blast
qed

lemma app_start_ok:
  assumes "fresh_view v" "0 < fuel"
  shows "\<exists>a. app_start fuel v address = Some a \<and> app_ok a"
proof -
  let ?a = "new_app address"
  let ?h = "(a_history ?a)\<lparr>h_handlers := app_handlers\<rparr>"
  let ?h1 = "?h\<lparr>h_started := True, h_fragment := Some (getFragment None ?h)\<rparr>"
  have "bindRoutes routes (a_history ?a) = Some ?h"
    by (simp add: bindRoutes_routes) (simp add: new_app_def)
  moreover have "history_start ?h = Some (loadUrl None ?h1)"
    by (simp add: history_start_def new_app_def)
  moreover have "app_ok (?a\<lparr>a_history := ?h1\<rparr>)" by (simp add: app_ok_def new_app_def)
  then have "\<exists>a'. on_history fuel v (loadUrl None ?h1) (?a\<lparr>a_history := ?h1\<rparr>) = Some a' \<and> app_ok a'"
    by (rule on_history_ok [OF _ assms]) simp_all
  ultimately show ?thesis by (simp add: app_start_def Let_def on_history_def)
qed

lemma app_step_ok:
  assumes "app_ok a" "\<forall>v\<in>event_views e. fresh_view v" "stack_needed e a < fuel"
  shows "\<exists>a'. app_step fuel e a = Some a' \<and> app_ok a'"
proof (cases e)
  case (GoTo hash)
  then show ?thesis using assms(1) by (simp add: app_step_def app_ok_def)
next
  case (HashChange v)
  let ?h = "(a_history a)\<lparr>h_changes := h_changes (a_history a) - 1\<rparr>"
  have "h_started (fst (checkUrl ?h))" "h_handlers (fst (checkUrl ?h)) = app_handlers"
    using assms(1) by (simp_all add: app_ok_def)
  with HashChange assms on_history_ok [OF assms(1), of v fuel "checkUrl ?h"] show ?thesis
    by (simp add: app_step_def)
next
  case (InfoAnswer k response)
  have "app_ok (a\<lparr>a_fetches := remove1 k (a_fetches a)\<rparr>)"
    using assms(1) set_remove1_subset [of k "a_fetches a"] by (auto simp: app_ok_def)
  with InfoAnswer assms(1) about_success_ok show ?thesis by (fastforce simp: app_step_def)
next
  case (InfoFails k response)
  then show ?thesis
    using assms(1) set_remove1_subset [of k "a_fetches a"] by (auto simp: app_step_def app_ok_def about_error_def)
next
  case (OnPage pe)
  show ?thesis
  proof (cases "\<exists>s. a_view a = Some (SearchPage s) \<and> pe \<noteq> ClosePage")
    case True
    then obtain s where s: "a_view a = Some (SearchPage s)" "pe \<noteq> ClosePage" by blast
    then have ok: "reachable_page s" "\<not> s_closed s" and f: "length (v_store (s_view s)) + arriving pe < fuel"
      using assms(1,3) OnPage by (simp_all add: app_ok_def)
    obtain s' out where st: "page_step fuel pe s = Some (s', out)"
      using page_step_ok [OF reachable_page_ok [OF ok(1)] f] by blast
    then have "reachable_page s'" "\<not> s_closed s'"
      using reachable_page.step [OF ok(1) f st] page_step_closed [OF st s(2)] ok(2) by simp_all
    with st s OnPage assms(1) show ?thesis by (simp add: app_step_def app_ok_def)
  next
    case False
    then show ?thesis
      using OnPage assms(1) by (auto simp: app_step_def split: option.split page.split)
  qed
next
  case (OnClosed i pe)
  show ?thesis
  proof (cases "i < length (a_closed a)")
    case True
    let ?s = "a_closed a ! i"
    have ok: "reachable_page ?s" "s_closed ?s" and f: "length (v_store (s_view ?s)) + arriving pe < fuel"
      using assms(1,3) OnClosed True by (simp_all add: app_ok_def)
    obtain s' out where st: "page_step fuel pe ?s = Some (s', out)"
      using page_step_ok [OF reachable_page_ok [OF ok(1)] f] by blast
    then have "reachable_page s'" "s_closed s'"
      using reachable_page.step [OF ok(1) f st] page_step_closed [OF st] page_step_stays_closed ok(2)
      by (cases "pe = ClosePage"; blast)+
    with assms(1) have "\<forall>s\<in>set ((a_closed a)[i := s']). reachable_page s \<and> s_closed s"
      using set_update_subset_insert [of "a_closed a" i s'] by (auto simp: app_ok_def)
    with st True OnClosed assms(1) show ?thesis by (simp add: app_step_def app_ok_def)
  next
    case False
    then show ?thesis using OnClosed assms(1) by (simp add: app_step_def)
  qed
qed

lemma reachable_app_ok: "reachable_app a \<Longrightarrow> app_ok a"
proof (induction rule: reachable_app.induct)
  case (start v fuel address a)
  then show ?case using app_start_ok [OF start(1,2), of address] by simp
next
  case (step a e fuel a')
  then show ?case using app_step_ok [OF step.IH step.hyps(2,3)] by simp
qed

section \<open>Properties\<close>


text \<open>The address decides the route: its part before a question mark, without a leading sharp or
  slash and without trailing blanks, when it is empty, \<open>about\<close> or \<open>search\<close>; any other address takes
  the last route. Every address is handled.\<close>

theorem address_route:
  assumes "reachable_app a" and "Some (getFragment None (a_history a)) \<noteq> h_fragment (a_history a)"
  shows "\<exists>args. checkUrl (a_history a) =
      ((a_history a)\<lparr>h_fragment := Some (strip_route (getHash (a_history a)))\<rparr>,
       Some (route_name (strip_route (getHash (a_history a))), args))
    \<and> (args = None \<longrightarrow> route_name (strip_route (getHash (a_history a))) = ''unknown'')"
proof -
  have "h_handlers (a_history a) = app_handlers" using reachable_app_ok [OF assms(1)] by (simp add: app_ok_def)
  then show ?thesis
    using assms(2) matching_app [of "strip_route (getHash (a_history a))"]
    by (auto simp: checkUrl_def loadUrl_def getFragment_def Let_def)
qed

text \<open>The answer to a fetch of the server info shows the about page whatever the address is by then,
  and closes the search page that was shown; what is shown is the info of the last visit, which is
  this answer only if there was no later visit.\<close>

theorem about_answer:
  assumes "reachable_app a" and "k \<in> set (a_fetches a)"
  shows "\<exists>a'. app_step fuel (InfoAnswer k response) a = Some a'
    \<and> a_history a' = a_history a
    \<and> a_view a' = Some (AboutPage (if k = a_serverInfo a then set_info response (a_infos a ! k)
                                   else a_infos a ! a_serverInfo a))
    \<and> a_closed a' = a_closed a @ (case a_view a of Some (SearchPage s) \<Rightarrow> [search_close s] | _ \<Rightarrow> [])"
proof -
  let ?a = "a\<lparr>a_fetches := remove1 k (a_fetches a)\<rparr>"
  note ok = reachable_app_ok [OF assms(1)]
  have "k < length (a_infos a)" using ok assms(2) by (auto simp: app_ok_def)
  moreover have "app_ok ?a"
    using ok set_remove1_subset [of k "a_fetches a"] by (auto simp: app_ok_def)
  ultimately show ?thesis
    using about_success_ok [of ?a fuel k response] assms(2) by (auto simp: app_step_def nth_list_update)
qed

section \<open>An application that was started at the about page\<close>

definition example_window :: view where
  "example_window = new_view 0 (Num 1000) (Num 800) (Num 50) (Num 1) []"

definition example_history :: history where
  "example_history =
     \<lparr>h_started = True, h_fragment = Some ''about'', h_handlers = app_handlers, h_entries = [''about''], h_changes = 0\<rparr>"

definition example_app :: app where
  "example_app =
     (new_app ''about'')\<lparr>a_history := example_history, a_infos := [new_server_info], a_fetches := [0]\<rparr>"

lemma strip_words:
  "strip_route ''about'' = ''about''" "strip_route ''search'' = ''search''"
  by (simp_all add: strip_route_def Let_def is_space_def code_def)

lemma example_app_reachable: "reachable_app example_app"
proof (rule reachable_app.start)
  show "fresh_view example_window" unfolding example_window_def by (rule fresh_view.intros)
  show "(0::nat) < 1" by simp
  obtain args where "matching ''about'' app_handlers = Some (''about'', Some args)"
    using matching_app [of "''about''"] by (auto simp: route_name_def)
  then show "app_start 1 example_window ''about'' = Some example_app"
    by (simp add: app_start_def Let_def bindRoutes_routes)
      (simp add: history_start_def new_app_def loadUrl_def getFragment_def getHash_def Let_def strip_words
        on_history_def run_callback_def about_def example_app_def example_history_def)
qed


theorem address_route_witness:
  "\<exists>args. snd (checkUrl (updateHash ''search'' False example_history)) = Some (''search'', args)"
proof -
  have "reachable_app (example_app\<lparr>a_history := updateHash ''search'' False example_history\<rparr>)"
    using reachable_app.step [OF example_app_reachable, of "GoTo ''search''" 1]
    by (simp add: app_step_def example_app_def)
  from address_route [OF this] show ?thesis
    by (auto simp: getFragment_def updateHash_def getHash_def example_history_def Let_def strip_words route_name_def)
qed

text \<open>The about page that was asked for first appears over the search page.\<close>

theorem about_answer_witness:
  "\<exists>a'. app_step 1 (InfoAnswer 0 [''ReleaseVersion'' \<mapsto> ''4.1'']) example_app = Some a'
     \<and> a_view a' = Some (AboutPage \<lparr>ReleaseVersion = ''4.1'', GitVersion = ''unknown''\<rparr>)"
proof -
  have "a_fetches example_app = [0]" "a_infos example_app = [new_server_info]" "a_serverInfo example_app = 0"
    by (simp_all add: example_app_def new_app_def)
  then show ?thesis
    using about_answer [OF example_app_reachable, of 0 1 "[''ReleaseVersion'' \<mapsto> ''4.1'']"]
    by (auto simp: set_info_def new_server_info_def)
qed

end
