(* ===== verification/Jquery_Callbacks.thy ===== *)
theory Jquery_Callbacks
  imports Htrace_Prelude
begin

text \<open>
  \<open>jQuery.Callbacks\<close>, \<open>jQuery.Deferred\<close> and \<open>jQuery.when\<close>
  (\<open>htrace-webapp/src/main/web/lib/jquery-2.1.4.js\<close>), on which the requests of the span widgets are
  built. Callback lists are mutable objects, callbacks are called in the middle of their loops, and may
  add, remove, fire and settle again, so the code is a machine: its frames are the calls that are
  under way, \<open>step\<close> performs the topmost one up to the next call, and \<open>runs\<close> is the execution until no
  frame is left.

  Functions are data: what the library itself puts into its lists, and functions of the user, which are
  known by a number, perform a list of actions and return a value. A list is known by its index; the
  deferred \<open>d\<close> has the lists \<open>3 * d\<close> (done), \<open>3 * d + 1\<close> (fail) and \<open>3 * d + 2\<close> (progress).
\<close>

section \<open>Values, functions and objects\<close>

datatype val = Undefined | FalseV | Atom nat | Arr "val list" | Promise nat

text \<open>The context (\<open>this\<close>) and the arguments of a call.\<close>

type_synonym call_data = "val \<times> val list"

datatype dstate = Pending | Resolved | Rejected

datatype fn =
    User nat val "act list"
  | SetState nat dstate
  | DisableFn nat
  | LockFn nat
  | FireFn nat                  \<comment> \<open>\<open>deferred.resolve\<close>, \<open>reject\<close> or \<open>notify\<close>\<close>
  | Update nat nat bool         \<comment> \<open>of \<open>when\<close>; \<open>True\<close> for progress\<close>
  | Chain nat nat nat "fn option"   \<comment> \<open>of \<open>then\<close>: the deferred, the new one, the action, the function\<close>
and act =
    AddTo nat "fn list"
  | RemoveFrom nat fn
  | EmptyList nat
  | FireAt nat val "val list"

record clist =
  cb_once :: bool
  cb_keep :: bool                    \<comment> \<open>the option \<open>memory\<close>\<close>
  cb_unique :: bool
  cb_stop :: bool                    \<comment> \<open>the option \<open>stopOnFalse\<close>\<close>
  cb_list :: "fn list option"
  cb_stack :: "call_data list option"
  cb_memory :: "call_data option"
  cb_fired :: bool
  cb_firing :: bool
  cb_start :: nat
  cb_len :: int
  cb_index :: int

record when_state =
  wh_master :: nat
  wh_remaining :: int
  wh_values :: "val list"
  wh_contexts :: "val list"
  wh_pvalues :: "val list"
  wh_pcontexts :: "val list"

record machine =
  m_lists :: "clist list"
  m_states :: "dstate list"
  m_whens :: "when_state list"
  m_log :: "(nat \<times> call_data) list"   \<comment> \<open>the calls of functions of the user\<close>
  m_ret :: val

section \<open>Callback lists\<close>

definition new_callbacks :: "bool \<Rightarrow> bool \<Rightarrow> bool \<Rightarrow> bool \<Rightarrow> clist" where
  "new_callbacks once memory unique stopOnFalse =
     \<lparr>cb_once = once, cb_keep = memory, cb_unique = unique, cb_stop = stopOnFalse, cb_list = Some [],
      cb_stack = (if once then None else Some []), cb_memory = None, cb_fired = False, cb_firing = False,
      cb_start = 0, cb_len = 0, cb_index = 0\<rparr>"

definition cb_disable :: "clist \<Rightarrow> clist" where
  "cb_disable c = c\<lparr>cb_list := None, cb_stack := None, cb_memory := None\<rparr>"

definition cb_lock :: "clist \<Rightarrow> clist" where
  "cb_lock c = (let c = c\<lparr>cb_stack := None\<rparr> in if cb_memory c = None then cb_disable c else c)"

definition cb_empty :: "clist \<Rightarrow> clist" where
  "cb_empty c = c\<lparr>cb_list := Some [], cb_len := 0\<rparr>"

definition cb_has :: "fn \<Rightarrow> clist \<Rightarrow> bool" where
  "cb_has f c = (case cb_list c of None \<Rightarrow> False | Some fs \<Rightarrow> f \<in> set fs)"

definition cb_push :: "fn \<Rightarrow> clist \<Rightarrow> clist" where
  "cb_push f c =
     (if \<not> cb_unique c \<or> \<not> cb_has f c then c\<lparr>cb_list := map_option (\<lambda>fs. fs @ [f]) (cb_list c)\<rparr> else c)"

text \<open>The loop of \<open>remove\<close> for one argument: \<open>index\<close> is where the search goes on.\<close>

fun cb_remove_loop :: "fn \<Rightarrow> fn list \<Rightarrow> fn list \<Rightarrow> clist \<Rightarrow> clist" where
  "cb_remove_loop f before [] c = c\<lparr>cb_list := Some before\<rparr>"
| "cb_remove_loop f before (g # gs) c =
     (if g = f then
        (let index = int (length before);
             c = (if cb_firing c then
                    (let c = (if index \<le> cb_len c then c\<lparr>cb_len := cb_len c - 1\<rparr> else c)
                     in if index \<le> cb_index c then c\<lparr>cb_index := cb_index c - 1\<rparr> else c)
                  else c)
         in cb_remove_loop f before gs c)
      else cb_remove_loop f (before @ [g]) gs c)"

definition cb_remove :: "fn \<Rightarrow> clist \<Rightarrow> clist" where
  "cb_remove f c = (case cb_list c of None \<Rightarrow> c | Some fs \<Rightarrow> cb_remove_loop f [] fs c)"

text \<open>The beginning of \<open>fire\<close>, before its loop.\<close>

definition fire_begin :: "call_data \<Rightarrow> clist \<Rightarrow> clist" where
  "fire_begin d c =
     c\<lparr>cb_memory := (if cb_keep c then Some d else None), cb_fired := True, cb_index := int (cb_start c),
       cb_start := 0, cb_len := (case cb_list c of None \<Rightarrow> 0 | Some fs \<Rightarrow> int (length fs)), cb_firing := True\<rparr>"

section \<open>The machine\<close>

definition on_list :: "nat \<Rightarrow> (clist \<Rightarrow> clist) \<Rightarrow> machine \<Rightarrow> machine" where
  "on_list l f m = m\<lparr>m_lists := (m_lists m)[l := f (m_lists m ! l)]\<rparr>"

definition returns :: "val \<Rightarrow> machine \<Rightarrow> machine" where
  "returns v m = m\<lparr>m_ret := v\<rparr>"

datatype frame =
    Call fn call_data
  | Act act
  | Return val
  | Fire nat call_data            \<comment> \<open>the inner function \<open>fire\<close>\<close>
  | Loop nat call_data            \<comment> \<open>its test\<close>
  | Next nat call_data            \<comment> \<open>its step, after the call\<close>
  | End nat                       \<comment> \<open>what follows its loop\<close>
  | FireWith nat call_data
  | Skip nat                      \<comment> \<open>\<open>when\<close> passes an argument that is no deferred\<close>
  | Finish nat                    \<comment> \<open>the end of \<open>when\<close>\<close>
  | Settle nat nat nat bool call_data   \<comment> \<open>\<open>then\<close>, after the call of its function, if it has one\<close>

definition action_list :: "nat \<Rightarrow> nat \<Rightarrow> nat" where
  "action_list d action = 3 * d + action"

text \<open>\<open>updateFunc\<close> of \<open>when\<close>: \<open>value\<close> is the first argument.\<close>

definition update_value :: "val list \<Rightarrow> val" where
  "update_value args = (if 1 < length args then Arr args else case args of [] \<Rightarrow> Undefined | v # _ \<Rightarrow> v)"

definition step_update :: "nat \<Rightarrow> nat \<Rightarrow> bool \<Rightarrow> call_data \<Rightarrow> machine \<Rightarrow> frame list \<times> machine" where
  "step_update w i progress d m =
     (let s = m_whens m ! w
      in if progress then
           (let s = s\<lparr>wh_pcontexts := (wh_pcontexts s)[i := fst d], wh_pvalues := (wh_pvalues s)[i := update_value (snd d)]\<rparr>
            in ([FireWith (action_list (wh_master s) 2) (Arr (wh_pcontexts s), wh_pvalues s), Return Undefined],
                m\<lparr>m_whens := (m_whens m)[w := s]\<rparr>))
         else
           (let s = s\<lparr>wh_contexts := (wh_contexts s)[i := fst d], wh_values := (wh_values s)[i := update_value (snd d)],
                      wh_remaining := wh_remaining s - 1\<rparr>
            in (if wh_remaining s = 0
                then [FireWith (action_list (wh_master s) 0) (Arr (wh_contexts s), wh_values s), Return Undefined]
                else [Return Undefined],
                m\<lparr>m_whens := (m_whens m)[w := s]\<rparr>)))"

definition step_call :: "fn \<Rightarrow> call_data \<Rightarrow> machine \<Rightarrow> frame list \<times> machine" where
  "step_call f d m =
     (case f of
        User n v acts \<Rightarrow> (map Act acts @ [Return v], m\<lparr>m_log := m_log m @ [(n, d)]\<rparr>)
      | SetState k s \<Rightarrow> ([Return Undefined], m\<lparr>m_states := (m_states m)[k := s]\<rparr>)
      | DisableFn l \<Rightarrow> ([Return (fst d)], on_list l cb_disable m)
      | LockFn l \<Rightarrow> ([Return (fst d)], on_list l cb_lock m)
      | FireFn l \<Rightarrow> ([FireWith l d, Return (fst d)], m)
      | Update w i progress \<Rightarrow> step_update w i progress d m
      | Chain k new action g \<Rightarrow>
          (case g of
             None \<Rightarrow> ([Settle k new action False d], m)
           | Some g \<Rightarrow> ([Call g d, Settle k new action True d], m)))"

text \<open>The listener of \<open>then\<close>, after the call.\<close>

definition step_settle :: "nat \<Rightarrow> nat \<Rightarrow> nat \<Rightarrow> bool \<Rightarrow> call_data \<Rightarrow> machine \<Rightarrow> frame list \<times> machine" where
  "step_settle k new action called d m =
     (let this = (if fst d = Promise k then Promise new else fst d)
      in if \<not> called then ([FireWith (action_list new action) (this, snd d), Return Undefined], m)
         else (case m_ret m of
                 Promise p \<Rightarrow>
                   (map (\<lambda>i. Act (AddTo (action_list p i) [FireFn (action_list new i)])) [0, 1, 2] @ [Return Undefined], m)
               | v \<Rightarrow> ([FireWith (action_list new action) (this, [v]), Return Undefined], m)))"

fun step_act :: "act \<Rightarrow> machine \<Rightarrow> frame list \<times> machine" where
  "step_act (AddTo l fs) m =
     (let c = m_lists m ! l
      in case cb_list c of
           None \<Rightarrow> ([], m)
         | Some gs \<Rightarrow>
             (let start = length gs; c = fold cb_push fs c
              in if cb_firing c
                 then ([], on_list l (\<lambda>_. c\<lparr>cb_len := (case cb_list c of None \<Rightarrow> 0 | Some hs \<Rightarrow> int (length hs))\<rparr>) m)
                 else case cb_memory c of
                        None \<Rightarrow> ([], on_list l (\<lambda>_. c) m)
                      | Some d \<Rightarrow> ([Fire l d], on_list l (\<lambda>_. c\<lparr>cb_start := start\<rparr>) m)))"
| "step_act (RemoveFrom l f) m = ([], on_list l (cb_remove f) m)"
| "step_act (EmptyList l) m = ([], on_list l cb_empty m)"
| "step_act (FireAt l this args) m = ([FireWith l (this, args)], m)"


text \<open>The loop of \<open>fire\<close>. A list that was disabled during the call ends it.\<close>

definition step_loop :: "nat \<Rightarrow> call_data \<Rightarrow> machine \<Rightarrow> frame list \<times> machine" where
  "step_loop l d m =
     (let c = m_lists m ! l
      in case cb_list c of
           None \<Rightarrow> ([End l], m)
         | Some fs \<Rightarrow>
             if cb_index c < cb_len c then ([Call (fs ! nat (cb_index c)) d, Next l d], m) else ([End l], m))"

definition step_next :: "nat \<Rightarrow> call_data \<Rightarrow> machine \<Rightarrow> frame list \<times> machine" where
  "step_next l d m =
     (if m_ret m = FalseV \<and> cb_stop (m_lists m ! l)
      then ([End l], on_list l (\<lambda>c. c\<lparr>cb_memory := None\<rparr>) m)
      else ([Loop l d], on_list l (\<lambda>c. c\<lparr>cb_index := cb_index c + 1\<rparr>) m))"

definition step_end :: "nat \<Rightarrow> machine \<Rightarrow> frame list \<times> machine" where
  "step_end l m =
     (let m = on_list l (\<lambda>c. c\<lparr>cb_firing := False\<rparr>) m; c = m_lists m ! l
      in if cb_list c = None then ([], m)
         else case cb_stack c of
                Some [] \<Rightarrow> ([], m)
              | Some (d # ds) \<Rightarrow> ([Fire l d], on_list l (\<lambda>c. c\<lparr>cb_stack := Some ds\<rparr>) m)
              | None \<Rightarrow>
                  if cb_memory c \<noteq> None then ([], on_list l (\<lambda>c. c\<lparr>cb_list := Some []\<rparr>) m)
                  else ([], on_list l cb_disable m))"

definition step_fire_with :: "nat \<Rightarrow> call_data \<Rightarrow> machine \<Rightarrow> frame list \<times> machine" where
  "step_fire_with l d m =
     (let c = m_lists m ! l
      in if cb_list c \<noteq> None \<and> (\<not> cb_fired c \<or> cb_stack c \<noteq> None) then
           (if cb_firing c then ([], on_list l (\<lambda>c. c\<lparr>cb_stack := map_option (\<lambda>ds. ds @ [d]) (cb_stack c)\<rparr>) m)
            else ([Fire l d], m))
         else ([], m))"

definition step :: "frame \<Rightarrow> machine \<Rightarrow> frame list \<times> machine" where
  "step fr m =
     (case fr of
        Call f d \<Rightarrow> step_call f d m
      | Act a \<Rightarrow> step_act a m
      | Return v \<Rightarrow> ([], m\<lparr>m_ret := v\<rparr>)
      | Fire l d \<Rightarrow> ([Loop l d], on_list l (fire_begin d) m)
      | Loop l d \<Rightarrow> step_loop l d m
      | Next l d \<Rightarrow> step_next l d m
      | End l \<Rightarrow> step_end l m
      | FireWith l d \<Rightarrow> step_fire_with l d m
      | Skip w \<Rightarrow>
          (let s = m_whens m ! w in ([], m\<lparr>m_whens := (m_whens m)[w := s\<lparr>wh_remaining := wh_remaining s - 1\<rparr>]\<rparr>))
      | Finish w \<Rightarrow>
          (let s = m_whens m ! w
           in (if wh_remaining s = 0
               then [FireWith (action_list (wh_master s) 0)
                       (if 1 < length (wh_values s) then Arr (wh_contexts s) else Undefined, wh_values s)]
               else [], m))
      | Settle k new action called d \<Rightarrow> step_settle k new action called d m)"

text \<open>An execution until no call is under way. With fuel it can be computed.\<close>

inductive runs :: "frame list \<Rightarrow> machine \<Rightarrow> machine \<Rightarrow> bool" where
  stop: "runs [] m m"
| more: "step fr m = (new, m') \<Longrightarrow> runs (new @ frs) m' m'' \<Longrightarrow> runs (fr # frs) m m''"

fun exec_frames :: "nat \<Rightarrow> frame list \<Rightarrow> machine \<Rightarrow> machine option" where
  "exec_frames fuel [] m = Some m"
| "exec_frames 0 (fr # frs) m = None"
| "exec_frames (Suc fuel) (fr # frs) m = exec_frames fuel (fst (step fr m) @ frs) (snd (step fr m))"

inductive_cases runs_NilE [elim!]: "runs [] m m'"
inductive_cases runs_ConsE: "runs (fr # frs) m m'"

lemma runs_iff_exec: "runs frs m m' \<longleftrightarrow> (\<exists>fuel. exec_frames fuel frs m = Some m')"
proof
  assume "runs frs m m'"
  then show "\<exists>fuel. exec_frames fuel frs m = Some m'"
  proof (induction rule: runs.induct)
    case (more fr m new m' frs m'')
    then obtain fuel where "exec_frames fuel (new @ frs) m' = Some m''" by blast
    with more(1) have "exec_frames (Suc fuel) (fr # frs) m = Some m''" by simp
    then show ?case by blast
  qed simp
next
  assume "\<exists>fuel. exec_frames fuel frs m = Some m'"
  then obtain fuel where "exec_frames fuel frs m = Some m'" by blast
  then show "runs frs m m'"
  proof (induction fuel frs m rule: exec_frames.induct)
    case (3 fuel fr frs m)
    then show ?case by (intro runs.more [of fr m "fst (step fr m)" "snd (step fr m)"]) simp_all
  qed (auto intro: runs.stop)
qed

lemma runs_deterministic: "runs frs m m1 \<Longrightarrow> runs frs m m2 \<Longrightarrow> m1 = m2"
proof (induction arbitrary: m2 rule: runs.induct)
  case (more fr m new m' frs m'')
  from more.prems show ?case by (rule runs_ConsE) (use more in auto)
qed auto

lemma runs_append: "runs frs m m' \<Longrightarrow> runs gs m' m'' \<Longrightarrow> runs (frs @ gs) m m''"
  by (induction rule: runs.induct) (auto intro: runs.more)

lemma runs_Cons: "runs [fr] m m' \<Longrightarrow> runs gs m' m'' \<Longrightarrow> runs (fr # gs) m m''"
  using runs_append [of "[fr]"] by simp

lemma runs_step: "step fr m = (new, m') \<Longrightarrow> runs new m' m'' \<Longrightarrow> runs [fr] m m''"
  using runs.more [of fr m new m' "[]"] by simp

section \<open>Deferreds\<close>

definition tuple_lists :: "clist list" where
  "tuple_lists = [new_callbacks True True False False, new_callbacks True True False False, new_callbacks False True False False]"

text \<open>
  What \<open>Deferred\<close> puts into its first two lists; the other list of the pair is \<open>i XOR 1\<close>.
\<close>

definition setup_done :: "nat \<Rightarrow> fn list" where
  "setup_done d = [SetState d Resolved, DisableFn (3 * d + 1), LockFn (3 * d + 2)]"

definition setup_fail :: "nat \<Rightarrow> fn list" where
  "setup_fail d = [SetState d Rejected, DisableFn (3 * d), LockFn (3 * d + 2)]"

text \<open>A new deferred; its number is that of the existing ones. (The listeners are added to empty lists
  that have not fired, so \<open>add\<close> only appends.)\<close>

definition new_deferred :: "machine \<Rightarrow> machine" where
  "new_deferred m =
     (let d = length (m_states m);
          m = m\<lparr>m_states := m_states m @ [Pending], m_lists := m_lists m @ tuple_lists\<rparr>
      in snd (step_act (AddTo (3 * d + 1) (setup_fail d)) (snd (step_act (AddTo (3 * d) (setup_done d)) m))))"

text \<open>\<open>then\<close>: a new deferred that follows \<open>d\<close>.\<close>

definition then_frames :: "nat \<Rightarrow> nat \<Rightarrow> fn option list \<Rightarrow> frame list" where
  "then_frames d new fns =
     map (\<lambda>i. Act (AddTo (action_list d i) [Chain d new i (if i < length fns then fns ! i else None)])) [0, 1, 2]"

definition then_deferred :: "nat \<Rightarrow> fn option list \<Rightarrow> machine \<Rightarrow> frame list \<times> machine" where
  "then_deferred d fns m = (then_frames d (length (m_states m)) fns, new_deferred m)"

section \<open>When\<close>

text \<open>
  The arguments of \<open>when\<close> are deferreds (or promises) and other values, which count as resolved. The
  listeners of the deferred argument \<open>i\<close> update the slot \<open>i\<close>. A single deferred is its own master.
\<close>

definition when_frames :: "nat \<Rightarrow> nat \<Rightarrow> nat \<times> val \<Rightarrow> frame list" where
  "when_frames w master iv =
     (case snd iv of
        Promise p \<Rightarrow>
          [Act (AddTo (action_list p 0) [Update w (fst iv) False]),
           Act (AddTo (action_list p 1) [FireFn (action_list master 1)]),
           Act (AddTo (action_list p 2) [Update w (fst iv) True])]
      | _ \<Rightarrow> [Skip w])"

definition new_when :: "nat \<Rightarrow> int \<Rightarrow> val list \<Rightarrow> when_state" where
  "new_when master remaining vs =
     \<lparr>wh_master = master, wh_remaining = remaining, wh_values = vs,
      wh_contexts = replicate (length vs) Undefined, wh_pvalues = replicate (length vs) Undefined,
      wh_pcontexts = replicate (length vs) Undefined\<rparr>"

text \<open>The master, the calls to make, and the machine.\<close>

definition js_when :: "val list \<Rightarrow> machine \<Rightarrow> nat \<times> frame list \<times> machine" where
  "js_when vs m =
     (case vs of
        [Promise p] \<Rightarrow> (p, [], m)
      | _ \<Rightarrow>
          (let remaining = (if length vs \<noteq> 1 then int (length vs) else 0);
               master = length (m_states m); w = length (m_whens m);
               m = new_deferred m;
               m = m\<lparr>m_whens := m_whens m @ [new_when master remaining vs]\<rparr>
           in (master,
               (if 1 < length vs then concat (map (when_frames w master) (enumerate 0 vs)) else []) @ [Finish w],
               m)))"

end
