(* ===== verification/Deferred_Props.thy ===== *)
theory Deferred_Props
  imports Jquery_Callbacks
begin

text \<open>
  A deferred is a promise: its machine of three callback lists refines a promise that is pending with
  its listeners, or settled once and for all with a value that every later listener is given. The
  listeners here are functions of the user that do nothing but take note of their call.
\<close>

section \<open>Computing executions\<close>

lemma runs_Nil_iff: "runs [] m m' \<longleftrightarrow> m' = m"
  by (auto intro: runs.stop)

lemma runs_step_iff: "runs (fr # frs) m m' \<longleftrightarrow> runs (fst (step fr m) @ frs) (snd (step fr m)) m'"
proof
  assume "runs (fr # frs) m m'"
  then show "runs (fst (step fr m) @ frs) (snd (step fr m)) m'" by (rule runs_ConsE) simp
next
  assume "runs (fst (step fr m) @ frs) (snd (step fr m)) m'"
  then show "runs (fr # frs) m m'" by (intro runs.more [OF prod.collapse [symmetric]])
qed

definition plain :: "nat \<Rightarrow> fn" where
  "plain k = User k Undefined []"

lemma call_plain:
  "runs (Call (plain k) d # frs) m m' \<longleftrightarrow> runs frs (m\<lparr>m_log := m_log m @ [(k, d)], m_ret := Undefined\<rparr>) m'"
  by (simp add: runs_step_iff step_def step_call_def plain_def)

lemma on_list_simps [simp]:
  "m_states (on_list l f m) = m_states m" "m_log (on_list l f m) = m_log m" "m_whens (on_list l f m) = m_whens m"
  "m_ret (on_list l f m) = m_ret m" "length (m_lists (on_list l f m)) = length (m_lists m)"
  by (simp_all add: on_list_def)

lemma on_list_nth:
  "l < length (m_lists m) \<Longrightarrow> m_lists (on_list l f m) ! k = (if k = l then f (m_lists m ! l) else m_lists m ! k)"
  by (simp add: on_list_def)

text \<open>The rest of a loop over such functions.\<close>

lemma loop_plain:
  assumes "l < length (m_lists m)" "cb_list (m_lists m ! l) = Some fs" "\<not> cb_stop (m_lists m ! l)"
    and "cb_len (m_lists m ! l) = int (length fs)" "cb_index (m_lists m ! l) = int i" "i \<le> length fs"
    and "drop i fs = map plain ks"
  shows "runs (Loop l d # frs) m m' \<longleftrightarrow>
    runs (End l # frs)
      (m\<lparr>m_log := m_log m @ map (\<lambda>k. (k, d)) ks, m_ret := (if ks = [] then m_ret m else Undefined),
         m_lists := (m_lists m)[l := (m_lists m ! l)\<lparr>cb_index := int (length fs)\<rparr>]\<rparr>) m'"
  using assms
proof (induction ks arbitrary: i m)
  case Nil
  then have "i = length fs" by simp
  then have "(m_lists m ! l)\<lparr>cb_index := int (length fs)\<rparr> = m_lists m ! l"
    using Nil.prems(5) by (cases "m_lists m ! l") simp
  then have "(m_lists m)[l := (m_lists m ! l)\<lparr>cb_index := int (length fs)\<rparr>] = m_lists m" by simp
  with Nil \<open>i = length fs\<close> show ?case by (simp add: runs_step_iff [of "Loop l d"] step_def step_loop_def)
next
  case (Cons k ks)
  have i: "i < length fs" using Cons.prems(7) by (cases "i < length fs") auto
  have f: "fs ! i = plain k" "drop (Suc i) fs = map plain ks"
    using Cons.prems(7) i by (simp_all add: Cons_nth_drop_Suc [symmetric])
  let ?m = "on_list l (\<lambda>c. c\<lparr>cb_index := cb_index c + 1\<rparr>) (m\<lparr>m_log := m_log m @ [(k, d)], m_ret := Undefined\<rparr>)"
  have "runs (Loop l d # frs) m m' \<longleftrightarrow> runs (Call (plain k) d # Next l d # frs) m m'"
    using Cons.prems(2,4,5) i f(1) by (simp add: runs_step_iff [of "Loop l d"] step_def step_loop_def)
  also have "\<dots> \<longleftrightarrow> runs (Loop l d # frs) ?m m'"
    unfolding call_plain runs_step_iff [of "Next l d"] by (simp add: step_def step_next_def)
  also have "\<dots> \<longleftrightarrow> runs (End l # frs)
      (?m\<lparr>m_log := m_log ?m @ map (\<lambda>k. (k, d)) ks, m_ret := (if ks = [] then m_ret ?m else Undefined),
         m_lists := (m_lists ?m)[l := (m_lists ?m ! l)\<lparr>cb_index := int (length fs)\<rparr>]\<rparr>) m'"
    using Cons.prems(1-5) i f(2) by (intro Cons.IH [of ?m "Suc i"]) (simp_all add: on_list_nth)
  finally show ?case using Cons.prems(1) by (simp add: on_list_def)
qed

section \<open>The abstract promise\<close>

text \<open>
  A pending promise knows its listeners and the last progress; a settled one whether it was resolved,
  its value, and the last progress.
\<close>

datatype promise =
    Open "nat list" "nat list" "nat list" "call_data option"
  | Closed bool call_data "call_data option"

datatype promise_op =
    DoneOp nat | FailOp nat | ProgressOp nat | ResolveOp call_data | RejectOp call_data | NotifyOp call_data

fun promise_step :: "promise_op \<Rightarrow> promise \<Rightarrow> promise \<times> (nat \<times> call_data) list" where
  "promise_step (DoneOp k) (Open ds fs ps n) = (Open (ds @ [k]) fs ps n, [])"
| "promise_step (FailOp k) (Open ds fs ps n) = (Open ds (fs @ [k]) ps n, [])"
| "promise_step (ProgressOp k) (Open ds fs ps n) =
     (Open ds fs (ps @ [k]) n, case n of None \<Rightarrow> [] | Some d \<Rightarrow> [(k, d)])"
| "promise_step (ResolveOp d) (Open ds fs ps n) = (Closed True d n, map (\<lambda>k. (k, d)) ds)"
| "promise_step (RejectOp d) (Open ds fs ps n) = (Closed False d n, map (\<lambda>k. (k, d)) fs)"
| "promise_step (NotifyOp d) (Open ds fs ps n) = (Open ds fs ps (Some d), map (\<lambda>k. (k, d)) ps)"
| "promise_step (DoneOp k) (Closed ok d n) = (Closed ok d n, if ok then [(k, d)] else [])"
| "promise_step (FailOp k) (Closed ok d n) = (Closed ok d n, if ok then [] else [(k, d)])"
| "promise_step (ProgressOp k) (Closed ok d n) =
     (Closed ok d n, case n of None \<Rightarrow> [] | Some d \<Rightarrow> [(k, d)])"
| "promise_step _ (Closed ok d n) = (Closed ok d n, [])"

fun promise_run :: "promise_op list \<Rightarrow> promise \<Rightarrow> promise \<times> (nat \<times> call_data) list" where
  "promise_run [] p = (p, [])"
| "promise_run (x # xs) p =
     (let (p, out) = promise_step x p; (p, out') = promise_run xs p in (p, out @ out'))"

fun op_frame :: "nat \<Rightarrow> promise_op \<Rightarrow> frame" where
  "op_frame d (DoneOp k) = Act (AddTo (3 * d) [plain k])"
| "op_frame d (FailOp k) = Act (AddTo (3 * d + 1) [plain k])"
| "op_frame d (ProgressOp k) = Act (AddTo (3 * d + 2) [plain k])"
| "op_frame d (ResolveOp v) = FireWith (3 * d) v"
| "op_frame d (RejectOp v) = FireWith (3 * d + 1) v"
| "op_frame d (NotifyOp v) = FireWith (3 * d + 2) v"

section \<open>Callback lists in the states that a deferred brings them to\<close>

definition waiting :: "fn list \<Rightarrow> clist" where
  "waiting fs = (new_callbacks True True False False)\<lparr>cb_list := Some fs\<rparr>"

text \<open>A list that was fired with \<open>d\<close>, and may not be fired again.\<close>

definition spent :: "call_data \<Rightarrow> clist \<Rightarrow> bool" where
  "spent d c \<longleftrightarrow> cb_keep c \<and> \<not> cb_unique c \<and> \<not> cb_stop c \<and> (\<exists>fs. cb_list c = Some fs) \<and> cb_stack c = None
     \<and> cb_memory c = Some d \<and> cb_fired c \<and> \<not> cb_firing c \<and> cb_start c = 0"

definition progressing :: "fn list \<Rightarrow> call_data option \<Rightarrow> clist \<Rightarrow> bool" where
  "progressing fs n c \<longleftrightarrow> cb_keep c \<and> \<not> cb_unique c \<and> \<not> cb_stop c \<and> cb_list c = Some fs \<and> cb_stack c = Some []
     \<and> cb_memory c = n \<and> \<not> cb_firing c \<and> cb_start c = 0 \<and> cb_fired c = (n \<noteq> None)"

text \<open>One more listener on a spent list is called at once.\<close>

lemma add_spent:
  assumes "l < length (m_lists m)" "spent d (m_lists m ! l)"
  shows "\<exists>c. spent d c \<and>
    (\<forall>m'. runs (Act (AddTo l [plain k]) # frs) m m' \<longleftrightarrow>
       runs frs (m\<lparr>m_log := m_log m @ [(k, d)], m_ret := Undefined, m_lists := (m_lists m)[l := c]\<rparr>) m')"
proof -
  let ?c = "m_lists m ! l"
  obtain fs where fs: "cb_list ?c = Some fs" using assms(2) by (auto simp: spent_def)
  let ?c1 = "fire_begin d (?c\<lparr>cb_list := Some (fs @ [plain k]), cb_start := length fs\<rparr>)"
  let ?m1 = "m\<lparr>m_lists := (m_lists m)[l := ?c1]\<rparr>"
  let ?c2 = "?c1\<lparr>cb_index := int (length (fs @ [plain k])), cb_firing := False, cb_list := Some []\<rparr>"
  have push: "cb_push (plain k) ?c = ?c\<lparr>cb_list := Some (fs @ [plain k])\<rparr>"
    using assms(2) fs by (simp add: cb_push_def spent_def)
  have "runs (Act (AddTo l [plain k]) # frs) m m' \<longleftrightarrow> runs (Loop l d # frs) ?m1 m'" for m'
    using assms fs by (simp add: runs_step_iff step_def push Let_def spent_def on_list_def)
  moreover have "runs (Loop l d # frs) ?m1 m' \<longleftrightarrow>
      runs (End l # frs) (m\<lparr>m_log := m_log m @ [(k, d)], m_ret := Undefined,
        m_lists := (m_lists m)[l := ?c1\<lparr>cb_index := int (length (fs @ [plain k]))\<rparr>]\<rparr>) m'" for m'
    using assms fs loop_plain [of l ?m1 "fs @ [plain k]" "length fs" "[k]" d frs m']
    by (simp add: fire_begin_def spent_def)
  moreover have "runs (End l # frs) (m\<lparr>m_log := m_log m @ [(k, d)], m_ret := Undefined,
        m_lists := (m_lists m)[l := ?c1\<lparr>cb_index := int (length (fs @ [plain k]))\<rparr>]\<rparr>) m' \<longleftrightarrow>
      runs frs (m\<lparr>m_log := m_log m @ [(k, d)], m_ret := Undefined, m_lists := (m_lists m)[l := ?c2]\<rparr>) m'" for m'
    using assms fs by (simp add: runs_step_iff [of "End l"] step_def step_end_def Let_def on_list_def fire_begin_def spent_def)
  moreover have "spent d ?c2" using assms(2) by (simp add: spent_def fire_begin_def)
  ultimately show ?thesis by blast
qed

text \<open>Progress listeners: one more is called with the last progress, if there was any.\<close>

lemma add_progressing:
  assumes "l < length (m_lists m)" "progressing fs n (m_lists m ! l)"
  shows "\<exists>c r. progressing (fs @ [plain k]) n c \<and>
    (\<forall>m'. runs (Act (AddTo l [plain k]) # frs) m m' \<longleftrightarrow>
       runs frs (m\<lparr>m_log := m_log m @ (case n of None \<Rightarrow> [] | Some d \<Rightarrow> [(k, d)]), m_ret := r,
                   m_lists := (m_lists m)[l := c]\<rparr>) m')"
proof (cases n)
  case None
  let ?c = "(m_lists m ! l)\<lparr>cb_list := Some (fs @ [plain k])\<rparr>"
  have "cb_push (plain k) (m_lists m ! l) = ?c" using assms(2) by (simp add: cb_push_def progressing_def)
  then have "runs (Act (AddTo l [plain k]) # frs) m m' \<longleftrightarrow>
      runs frs (m\<lparr>m_log := m_log m, m_ret := m_ret m, m_lists := (m_lists m)[l := ?c]\<rparr>) m'" for m'
    using assms None by (simp add: runs_step_iff step_def Let_def progressing_def on_list_def)
  moreover have "progressing (fs @ [plain k]) n ?c" using assms(2) by (simp add: progressing_def)
  ultimately show ?thesis using None by (intro exI [of _ ?c] exI [of _ "m_ret m"]) simp
next
  case (Some d)
  let ?c = "m_lists m ! l"
  let ?c1 = "fire_begin d (?c\<lparr>cb_list := Some (fs @ [plain k]), cb_start := length fs\<rparr>)"
  let ?m1 = "m\<lparr>m_lists := (m_lists m)[l := ?c1]\<rparr>"
  let ?c2 = "?c1\<lparr>cb_index := int (length (fs @ [plain k])), cb_firing := False\<rparr>"
  have push: "cb_push (plain k) ?c = ?c\<lparr>cb_list := Some (fs @ [plain k])\<rparr>"
    using assms(2) by (simp add: cb_push_def progressing_def)
  have "runs (Act (AddTo l [plain k]) # frs) m m' \<longleftrightarrow> runs (Loop l d # frs) ?m1 m'" for m'
    using assms Some by (simp add: runs_step_iff step_def push Let_def progressing_def on_list_def)
  moreover have "runs (Loop l d # frs) ?m1 m' \<longleftrightarrow>
      runs (End l # frs) (m\<lparr>m_log := m_log m @ [(k, d)], m_ret := Undefined,
        m_lists := (m_lists m)[l := ?c1\<lparr>cb_index := int (length (fs @ [plain k]))\<rparr>]\<rparr>) m'" for m'
    using assms loop_plain [of l ?m1 "fs @ [plain k]" "length fs" "[k]" d frs m']
    by (simp add: fire_begin_def progressing_def)
  moreover have "runs (End l # frs) (m\<lparr>m_log := m_log m @ [(k, d)], m_ret := Undefined,
        m_lists := (m_lists m)[l := ?c1\<lparr>cb_index := int (length (fs @ [plain k]))\<rparr>]\<rparr>) m' \<longleftrightarrow>
      runs frs (m\<lparr>m_log := m_log m @ [(k, d)], m_ret := Undefined, m_lists := (m_lists m)[l := ?c2]\<rparr>) m'" for m'
    using assms by (simp add: runs_step_iff [of "End l"] step_def step_end_def Let_def on_list_def fire_begin_def progressing_def)
  moreover have "progressing (fs @ [plain k]) n ?c2" using assms(2) Some by (simp add: progressing_def fire_begin_def)
  ultimately show ?thesis using Some by (intro exI [of _ ?c2] exI [of _ Undefined]) simp
qed

lemma notify_progressing:
  assumes "l < length (m_lists m)" "progressing (map plain ps) n (m_lists m ! l)"
  shows "\<exists>c r. progressing (map plain ps) (Some d) c \<and>
    (\<forall>m'. runs (FireWith l d # frs) m m' \<longleftrightarrow>
       runs frs (m\<lparr>m_log := m_log m @ map (\<lambda>k. (k, d)) ps, m_ret := r, m_lists := (m_lists m)[l := c]\<rparr>) m')"
proof -
  let ?c1 = "fire_begin d (m_lists m ! l)"
  let ?m1 = "m\<lparr>m_lists := (m_lists m)[l := ?c1]\<rparr>"
  let ?r = "if ps = [] then m_ret m else Undefined"
  let ?c2 = "?c1\<lparr>cb_index := int (length (map plain ps)), cb_firing := False\<rparr>"
  have "runs (FireWith l d # frs) m m' \<longleftrightarrow> runs (Loop l d # frs) ?m1 m'" for m'
    using assms
    by (simp add: runs_step_iff [of "FireWith l d"] step_def step_fire_with_def Let_def progressing_def)
      (simp add: runs_step_iff [of "Fire l d"] step_def on_list_def)
  moreover have "runs (Loop l d # frs) ?m1 m' \<longleftrightarrow>
      runs (End l # frs) (m\<lparr>m_log := m_log m @ map (\<lambda>k. (k, d)) ps, m_ret := ?r,
        m_lists := (m_lists m)[l := ?c1\<lparr>cb_index := int (length (map plain ps))\<rparr>]\<rparr>) m'" for m'
    using assms loop_plain [of l ?m1 "map plain ps" 0 ps d frs m']
    by (simp add: fire_begin_def progressing_def)
  moreover have "runs (End l # frs) (m\<lparr>m_log := m_log m @ map (\<lambda>k. (k, d)) ps, m_ret := ?r,
        m_lists := (m_lists m)[l := ?c1\<lparr>cb_index := int (length (map plain ps))\<rparr>]\<rparr>) m' \<longleftrightarrow>
      runs frs (m\<lparr>m_log := m_log m @ map (\<lambda>k. (k, d)) ps, m_ret := ?r, m_lists := (m_lists m)[l := ?c2]\<rparr>) m'" for m'
    using assms by (simp add: runs_step_iff [of "End l"] step_def step_end_def Let_def on_list_def fire_begin_def progressing_def)
  moreover have "progressing (map plain ps) (Some d) ?c2" using assms(2) by (simp add: progressing_def fire_begin_def)
  ultimately show ?thesis by (intro exI [of _ ?c2] exI [of _ ?r]) simp
qed

text \<open>A disabled list does nothing, and a spent one cannot be fired.\<close>

lemma disabled_noop:
  assumes "cb_list (m_lists m ! l) = None"
  shows "runs (Act (AddTo l fs) # frs) m m' \<longleftrightarrow> runs frs m m'" "runs (FireWith l d # frs) m m' \<longleftrightarrow> runs frs m m'"
  using assms by (simp_all add: runs_step_iff [of "FireWith l d"] runs_step_iff [of "Act (AddTo l fs)"] step_def
      step_fire_with_def Let_def)

lemma spent_noop:
  assumes "spent e (m_lists m ! l)"
  shows "runs (FireWith l d # frs) m m' \<longleftrightarrow> runs frs m m'"
  using assms by (simp add: runs_step_iff [of "FireWith l d"] step_def step_fire_with_def Let_def spent_def)

lemma add_waiting:
  assumes "l < length (m_lists m)" "m_lists m ! l = waiting fs"
  shows "runs (Act (AddTo l gs) # frs) m m' \<longleftrightarrow> runs frs (m\<lparr>m_lists := (m_lists m)[l := waiting (fs @ gs)]\<rparr>) m'"
proof -
  have "fold cb_push gs (waiting hs) = waiting (hs @ gs)" for hs
    by (induction gs arbitrary: hs) (simp_all add: waiting_def new_callbacks_def cb_push_def)
  with assms show ?thesis
    by (simp add: runs_step_iff step_def Let_def) (simp add: waiting_def new_callbacks_def on_list_def)
qed

section \<open>Settling\<close>

text \<open>One turn of a loop, for a callback that leaves the list alone.\<close>

lemma loop_turn:
  assumes "cb_list (m_lists m ! l) = Some fs" "cb_index (m_lists m ! l) = int i" "int i < cb_len (m_lists m ! l)"
    and "runs (Call (fs ! i) d # Next l d # frs) m m' \<longleftrightarrow> runs (Next l d # frs) m1 m'"
    and "m_lists m1 ! l = m_lists m ! l" "\<not> cb_stop (m_lists m ! l)"
  shows "runs (Loop l d # frs) m m' \<longleftrightarrow> runs (Loop l d # frs) (on_list l (\<lambda>c. c\<lparr>cb_index := int (Suc i)\<rparr>) m1) m'"
proof -
  have "runs (Loop l d # frs) m m' \<longleftrightarrow> runs (Call (fs ! i) d # Next l d # frs) m m'"
    using assms(1-3) by (simp add: runs_step_iff [of "Loop l d"] step_def step_loop_def)
  also have "\<dots> \<longleftrightarrow> runs (Next l d # frs) m1 m'" by (rule assms(4))
  also have "\<dots> \<longleftrightarrow> runs (Loop l d # frs) (on_list l (\<lambda>c. c\<lparr>cb_index := int (Suc i)\<rparr>) m1) m'"
    using assms(2,5,6) by (simp add: runs_step_iff [of "Next l d"] step_def step_next_def on_list_def add.commute)
  finally show ?thesis .
qed

lemma call_setup:
  "runs (Call (SetState k s) d # frs) m m' \<longleftrightarrow> runs frs (m\<lparr>m_states := (m_states m)[k := s], m_ret := Undefined\<rparr>) m'"
  "runs (Call (DisableFn l) d # frs) m m' \<longleftrightarrow> runs frs ((on_list l cb_disable m)\<lparr>m_ret := fst d\<rparr>) m'"
  "runs (Call (LockFn l) d # frs) m m' \<longleftrightarrow> runs frs ((on_list l cb_lock m)\<lparr>m_ret := fst d\<rparr>) m'"
  by (simp_all add: runs_step_iff [of "Call f d" for f] step_def step_call_def runs_step_iff [of "Return v" for v])

lemma end_spent:
  assumes "l < length (m_lists m)" "cb_list (m_lists m ! l) = Some fs" "cb_stack (m_lists m ! l) = None"
    "cb_memory (m_lists m ! l) = Some d"
  shows "runs (End l # frs) m m' \<longleftrightarrow>
    runs frs (m\<lparr>m_lists := (m_lists m)[l := (m_lists m ! l)\<lparr>cb_firing := False, cb_list := Some []\<rparr>]\<rparr>) m'"
  using assms by (simp add: runs_step_iff [of "End l"] step_def step_end_def Let_def on_list_def)

text \<open>The callbacks that the library puts first: the state is set, one list disabled, one locked.\<close>

lemma fire_setup:
  assumes len: "l < length (m_lists m)" "j < length (m_lists m)" "p < length (m_lists m)"
    and dist: "j \<noteq> l" "p \<noteq> l" "p \<noteq> j"
    and w: "m_lists m ! l = waiting ([SetState k s, DisableFn j, LockFn p] @ rest)"
  shows "runs (FireWith l d # frs) m m' \<longleftrightarrow>
    runs (Loop l d # frs) (m\<lparr>m_states := (m_states m)[k := s], m_ret := fst d,
      m_lists := (m_lists m)[j := cb_disable (m_lists m ! j), p := cb_lock (m_lists m ! p),
                             l := (fire_begin d (m_lists m ! l))\<lparr>cb_index := 3\<rparr>]\<rparr>) m'"
proof -
  let ?fs = "[SetState k s, DisableFn j, LockFn p] @ rest"
  define C where "C = fire_begin d (m_lists m ! l)"
  let ?c = "\<lambda>i. C\<lparr>cb_index := int i\<rparr>"
  let ?m0 = "m\<lparr>m_lists := (m_lists m)[l := C]\<rparr>"
  let ?m1 = "m\<lparr>m_states := (m_states m)[k := s], m_ret := Undefined, m_lists := (m_lists m)[l := ?c 1]\<rparr>"
  let ?m2 = "m\<lparr>m_states := (m_states m)[k := s], m_ret := fst d,
      m_lists := (m_lists m)[j := cb_disable (m_lists m ! j), l := ?c 2]\<rparr>"
  let ?m3 = "m\<lparr>m_states := (m_states m)[k := s], m_ret := fst d,
      m_lists := (m_lists m)[j := cb_disable (m_lists m ! j), p := cb_lock (m_lists m ! p), l := ?c 3]\<rparr>"
  have sw: "xs[l := x, j := y] = xs[j := y, l := x]" "xs[l := x, p := y] = xs[p := y, l := x]" for xs :: "clist list" and x y
    using dist by (simp_all add: list_update_swap)
  have c: "cb_list (?c i) = Some ?fs" "cb_len (?c i) = int (length ?fs)" "\<not> cb_stop (?c i)" "cb_index (?c i) = int i" for i
    by (simp_all add: C_def fire_begin_def w waiting_def new_callbacks_def)
  have c0: "cb_list C = Some ?fs" "cb_len C = int (length ?fs)" "\<not> cb_stop C" "cb_index C = 0"
    by (simp_all add: C_def fire_begin_def w waiting_def new_callbacks_def)
  have "runs (FireWith l d # frs) m m' \<longleftrightarrow> runs (Fire l d # frs) m m'"
    by (simp add: runs_step_iff [of "FireWith l d"] step_def step_fire_with_def) (simp add: w waiting_def new_callbacks_def)
  also have "\<dots> \<longleftrightarrow> runs (Loop l d # frs) ?m0 m'"
    by (simp add: runs_step_iff [of "Fire l d"] step_def on_list_def C_def)
  also have "\<dots> \<longleftrightarrow> runs (Loop l d # frs) ?m1 m'"
    using loop_turn [of ?m0 l ?fs 0 d frs m' "?m0\<lparr>m_states := (m_states m)[k := s], m_ret := Undefined\<rparr>"] c0 len
    by (simp add: call_setup on_list_def)
  also have "\<dots> \<longleftrightarrow> runs (Loop l d # frs) ?m2 m'"
    using loop_turn [of ?m1 l ?fs 1 d frs m' "(on_list j cb_disable ?m1)\<lparr>m_ret := fst d\<rparr>"] c len dist
    by (simp add: call_setup on_list_def sw numeral_2_eq_2)
  also have "\<dots> \<longleftrightarrow> runs (Loop l d # frs) ?m3 m'"
    using loop_turn [of ?m2 l ?fs 2 d frs m' "(on_list p cb_lock ?m2)\<lparr>m_ret := fst d\<rparr>"] c len dist
    by (simp add: call_setup on_list_def sw numeral_3_eq_3 numeral_2_eq_2)
  finally show ?thesis by (simp add: C_def)
qed

lemma fire_begin_waiting:
  "cb_list (fire_begin d (waiting fs)) = Some fs" "cb_len (fire_begin d (waiting fs)) = int (length fs)"
  "\<not> cb_stop (fire_begin d (waiting fs))" "cb_stack (fire_begin d (waiting fs)) = None"
  "cb_memory (fire_begin d (waiting fs)) = Some d"
  "spent d ((fire_begin d (waiting fs))\<lparr>cb_index := i, cb_firing := False, cb_list := Some gs\<rparr>)"
  by (simp_all add: fire_begin_def waiting_def new_callbacks_def spent_def)

text \<open>The lists after a deferred was settled.\<close>

lemma fire_waiting:
  assumes len: "l < length (m_lists m)" "j < length (m_lists m)" "p < length (m_lists m)"
    and dist: "j \<noteq> l" "p \<noteq> l" "p \<noteq> j"
    and w: "m_lists m ! l = waiting ([SetState k s, DisableFn j, LockFn p] @ map plain ks)"
  shows "\<exists>c r. spent d c \<and>
    (\<forall>m'. runs (FireWith l d # frs) m m' \<longleftrightarrow>
       runs frs (m\<lparr>m_states := (m_states m)[k := s], m_log := m_log m @ map (\<lambda>k. (k, d)) ks, m_ret := r,
         m_lists := (m_lists m)[j := cb_disable (m_lists m ! j), p := cb_lock (m_lists m ! p), l := c]\<rparr>) m')"
proof -
  let ?fs = "[SetState k s, DisableFn j, LockFn p] @ map plain ks"
  let ?ls = "\<lambda>c. (m_lists m)[j := cb_disable (m_lists m ! j), p := cb_lock (m_lists m ! p), l := c]"
  let ?C = "fire_begin d (m_lists m ! l)"
  let ?m3 = "m\<lparr>m_states := (m_states m)[k := s], m_ret := fst d, m_lists := ?ls (?C\<lparr>cb_index := 3\<rparr>)\<rparr>"
  let ?r = "if ks = [] then fst d else Undefined"
  let ?m4 = "\<lambda>c. m\<lparr>m_states := (m_states m)[k := s], m_log := m_log m @ map (\<lambda>k. (k, d)) ks, m_ret := ?r, m_lists := ?ls c\<rparr>"
  let ?c4 = "?C\<lparr>cb_index := int (length ?fs)\<rparr>"
  let ?c5 = "?c4\<lparr>cb_firing := False, cb_list := Some []\<rparr>"
  note C = fire_begin_waiting [of d ?fs, folded w]
  have "runs (FireWith l d # frs) m m' \<longleftrightarrow> runs (Loop l d # frs) ?m3 m'" for m'
    by (rule fire_setup [OF len dist w])
  moreover have "runs (Loop l d # frs) ?m3 m' \<longleftrightarrow> runs (End l # frs) (?m4 ?c4) m'" for m'
    using loop_plain [of l ?m3 ?fs 3 ks d frs m'] C len dist by (simp add: numeral_3_eq_3)
  moreover have "runs (End l # frs) (?m4 ?c4) m' \<longleftrightarrow> runs frs (?m4 ?c5) m'" for m'
    using end_spent [of l "?m4 ?c4" ?fs d frs m'] len dist C by simp
  moreover have "spent d ?c5" unfolding w by (rule fire_begin_waiting(6))
  ultimately show ?thesis by (intro exI [of _ ?c5] exI [of _ ?r]) simp
qed

section \<open>The simulation\<close>

definition follows :: "nat \<Rightarrow> machine \<Rightarrow> promise \<Rightarrow> bool" where
  "follows d m p \<longleftrightarrow>
     d < length (m_states m) \<and> 3 * d + 2 < length (m_lists m) \<and>
     (case p of
        Open ds fs ps n \<Rightarrow>
          m_states m ! d = Pending
        \<and> m_lists m ! (3 * d) = waiting (setup_done d @ map plain ds)
        \<and> m_lists m ! (3 * d + 1) = waiting (setup_fail d @ map plain fs)
        \<and> progressing (map plain ps) n (m_lists m ! (3 * d + 2))
      | Closed ok v n \<Rightarrow>
          m_states m ! d = (if ok then Resolved else Rejected)
        \<and> spent v (m_lists m ! (3 * d + (if ok then 0 else 1)))
        \<and> cb_list (m_lists m ! (3 * d + (if ok then 1 else 0))) = None
        \<and> (case n of None \<Rightarrow> cb_list (m_lists m ! (3 * d + 2)) = None
                   | Some x \<Rightarrow> spent x (m_lists m ! (3 * d + 2))))"

lemma lock_progressing:
  "progressing fs n c \<Longrightarrow>
     (case n of None \<Rightarrow> cb_list (cb_lock c) = None | Some x \<Rightarrow> spent x (cb_lock c))"
  by (auto simp: progressing_def spent_def cb_lock_def cb_disable_def Let_def split: option.split)

lemma follows_open_step:
  assumes f: "follows d m (Open ds fs ps n)"
  shows "\<exists>m'. runs [op_frame d x] m m' \<and> follows d m' (fst (promise_step x (Open ds fs ps n)))
    \<and> m_log m' = m_log m @ snd (promise_step x (Open ds fs ps n))"
proof -
  have len: "3 * d < length (m_lists m)" "Suc (3 * d) < length (m_lists m)" "Suc (Suc (3 * d)) < length (m_lists m)"
    "d < length (m_states m)"
    and dn: "m_lists m ! (3 * d) = waiting (setup_done d @ map plain ds)"
    and fail: "m_lists m ! Suc (3 * d) = waiting (setup_fail d @ map plain fs)"
    and prog: "progressing (map plain ps) n (m_lists m ! Suc (Suc (3 * d)))"
    and pending: "m_states m ! d = Pending"
    using f by (simp_all add: follows_def)
  show ?thesis
  proof (cases x)
    case (DoneOp k)
    show ?thesis
      using DoneOp f len dn pending prog fail add_waiting [OF len(1) dn, of "[plain k]" "[]"]
      by (simp add: runs_Nil_iff follows_def)
  next
    case (FailOp k)
    show ?thesis
      using FailOp f len dn pending prog fail add_waiting [OF len(2) fail, of "[plain k]" "[]"]
      by (simp add: runs_Nil_iff follows_def)
  next
    case (ProgressOp k)
    obtain c r where "progressing (map plain ps @ [plain k]) n c"
      "\<forall>m'. runs [Act (AddTo (Suc (Suc (3 * d))) [plain k])] m m' \<longleftrightarrow>
        runs [] (m\<lparr>m_log := m_log m @ (case n of None \<Rightarrow> [] | Some d \<Rightarrow> [(k, d)]), m_ret := r,
                   m_lists := (m_lists m)[Suc (Suc (3 * d)) := c]\<rparr>) m'"
      using add_progressing [OF len(3) prog, of k "[]"] by blast
    with ProgressOp len dn fail pending show ?thesis by (simp add: runs_Nil_iff follows_def)
  next
    case (ResolveOp v)
    obtain c r where "spent v c"
      "\<forall>m'. runs [FireWith (3 * d) v] m m' \<longleftrightarrow>
       runs [] (m\<lparr>m_states := (m_states m)[d := Resolved], m_log := m_log m @ map (\<lambda>k. (k, v)) ds, m_ret := r,
         m_lists := (m_lists m)[Suc (3 * d) := cb_disable (m_lists m ! Suc (3 * d)),
           Suc (Suc (3 * d)) := cb_lock (m_lists m ! Suc (Suc (3 * d))), 3 * d := c]\<rparr>) m'"
      using fire_waiting [of "3 * d" m "Suc (3 * d)" "Suc (Suc (3 * d))" d Resolved ds v "[]"] len dn
      by (auto simp: setup_done_def)
    with ResolveOp len show ?thesis
      using lock_progressing [OF prog] by (cases n) (simp_all add: runs_Nil_iff follows_def cb_disable_def)
  next
    case (RejectOp v)
    obtain c r where "spent v c"
      "\<forall>m'. runs [FireWith (Suc (3 * d)) v] m m' \<longleftrightarrow>
       runs [] (m\<lparr>m_states := (m_states m)[d := Rejected], m_log := m_log m @ map (\<lambda>k. (k, v)) fs, m_ret := r,
         m_lists := (m_lists m)[3 * d := cb_disable (m_lists m ! (3 * d)),
           Suc (Suc (3 * d)) := cb_lock (m_lists m ! Suc (Suc (3 * d))), Suc (3 * d) := c]\<rparr>) m'"
      using fire_waiting [of "Suc (3 * d)" m "3 * d" "Suc (Suc (3 * d))" d Rejected fs v "[]"] len fail
      by (auto simp: setup_fail_def)
    with RejectOp len show ?thesis
      using lock_progressing [OF prog] by (cases n) (simp_all add: runs_Nil_iff follows_def cb_disable_def)
  next
    case (NotifyOp v)
    obtain c r where "progressing (map plain ps) (Some v) c"
      "\<forall>m'. runs [FireWith (Suc (Suc (3 * d))) v] m m' \<longleftrightarrow>
       runs [] (m\<lparr>m_log := m_log m @ map (\<lambda>k. (k, v)) ps, m_ret := r,
                  m_lists := (m_lists m)[Suc (Suc (3 * d)) := c]\<rparr>) m'"
      using notify_progressing [OF len(3) prog, of v "[]"] by blast
    with NotifyOp len dn fail pending show ?thesis by (simp add: runs_Nil_iff follows_def)
  qed
qed

lemma follows_add_spent:
  assumes f: "follows d m (Closed ok v n)" and i: "i < 3" and sp: "spent x (m_lists m ! (3 * d + i))"
  shows "\<exists>m'. runs [Act (AddTo (3 * d + i) [plain k])] m m' \<and> follows d m' (Closed ok v n) \<and> m_log m' = m_log m @ [(k, x)]"
proof -
  let ?l = "3 * d + i"
  have l: "?l < length (m_lists m)" using f i by (simp add: follows_def)
  obtain c where c: "spent x c"
    "\<forall>m'. runs [Act (AddTo ?l [plain k])] m m' \<longleftrightarrow>
       runs [] (m\<lparr>m_log := m_log m @ [(k, x)], m_ret := Undefined, m_lists := (m_lists m)[?l := c]\<rparr>) m'"
    using add_spent [OF l sp, of k "[]"] by blast
  let ?m = "m\<lparr>m_log := m_log m @ [(k, x)], m_ret := Undefined, m_lists := (m_lists m)[?l := c]\<rparr>"
  have same: "cb_list (m_lists ?m ! j) = None \<longleftrightarrow> cb_list (m_lists m ! j) = None"
    "spent y (m_lists ?m ! j) \<longleftrightarrow> spent y (m_lists m ! j)" for j y
    using l sp c(1) by (auto simp: nth_list_update spent_def)
  have "follows d ?m (Closed ok v n)"
    using f unfolding follows_def promise.case same by simp
  with c(2) show ?thesis by (intro exI [of _ ?m]) (simp add: runs_Nil_iff)
qed

lemma follows_closed_step:
  assumes f: "follows d m (Closed ok v n)"
  shows "\<exists>m'. runs [op_frame d x] m m' \<and> follows d m' (fst (promise_step x (Closed ok v n)))
    \<and> m_log m' = m_log m @ snd (promise_step x (Closed ok v n))"
proof -
  have winner: "spent v (m_lists m ! (3 * d + (if ok then 0 else 1)))"
    and loser: "cb_list (m_lists m ! (3 * d + (if ok then 1 else 0))) = None"
    and prog: "case n of None \<Rightarrow> cb_list (m_lists m ! (3 * d + 2)) = None | Some x \<Rightarrow> spent x (m_lists m ! (3 * d + 2))"
    using f by (simp_all add: follows_def)
  show ?thesis
  proof (cases x)
    case (DoneOp k)
    then show ?thesis
      using f winner loser disabled_noop(1) [of m "3 * d" "[plain k]" "[]"] follows_add_spent [OF f, of 0 v k]
      by (cases ok) (simp_all add: runs_Nil_iff)
  next
    case (FailOp k)
    then show ?thesis
      using f winner loser disabled_noop(1) [of m "Suc (3 * d)" "[plain k]" "[]"] follows_add_spent [OF f, of 1 v k]
      by (cases ok) (simp_all add: runs_Nil_iff)
  next
    case (ProgressOp k)
    then show ?thesis
      using f prog disabled_noop(1) [of m "3 * d + 2" "[plain k]" "[]"] follows_add_spent [OF f, of 2 _ k]
      by (cases n) (simp_all add: runs_Nil_iff)
  next
    case (ResolveOp w)
    then show ?thesis
      using f winner loser disabled_noop(2) [of m "3 * d" w "[]"] spent_noop [of v m "3 * d" w "[]"]
      by (cases ok) (simp_all add: runs_Nil_iff)
  next
    case (RejectOp w)
    then show ?thesis
      using f winner loser disabled_noop(2) [of m "Suc (3 * d)" w "[]"] spent_noop [of v m "Suc (3 * d)" w "[]"]
      by (cases ok) (simp_all add: runs_Nil_iff)
  next
    case (NotifyOp w)
    then show ?thesis
      using f prog disabled_noop(2) [of m "3 * d + 2" w "[]"] spent_noop [of _ m "3 * d + 2" w "[]"]
      by (cases n) (simp_all add: runs_Nil_iff)
  qed
qed

lemma follows_run:
  "follows d m p \<Longrightarrow> \<exists>m'. runs (map (op_frame d) ops) m m' \<and> follows d m' (fst (promise_run ops p))
     \<and> m_log m' = m_log m @ snd (promise_run ops p)"
proof (induction ops arbitrary: m p)
  case Nil
  then show ?case by (auto intro: runs.stop)
next
  case (Cons x ops)
  obtain m1 where m1: "runs [op_frame d x] m m1" "follows d m1 (fst (promise_step x p))"
    "m_log m1 = m_log m @ snd (promise_step x p)"
    using follows_open_step follows_closed_step Cons.prems by (cases p) blast+
  obtain m2 where "runs (map (op_frame d) ops) m1 m2" "follows d m2 (fst (promise_run ops (fst (promise_step x p))))"
    "m_log m2 = m_log m1 @ snd (promise_run ops (fst (promise_step x p)))"
    using Cons.IH [OF m1(2)] by blast
  with m1 show ?case by (auto simp: Let_def case_prod_beta intro: runs_Cons)
qed

lemma follows_new_deferred:
  assumes "length (m_lists m) = 3 * length (m_states m)"
  shows "follows (length (m_states m)) (new_deferred m) (Open [] [] [] None)" "m_log (new_deferred m) = m_log m"
    "m_states (new_deferred m) = m_states m @ [Pending]"
    "m_lists (new_deferred m) = m_lists m @
       [waiting (setup_done (length (m_states m))), waiting (setup_fail (length (m_states m))), new_callbacks False True False False]"
  using assms
  by (simp_all add: new_deferred_def tuple_lists_def Let_def nth_append new_callbacks_def cb_push_def on_list_def
      setup_done_def setup_fail_def follows_def waiting_def progressing_def list_update_append)

definition promise_state :: "promise \<Rightarrow> dstate" where
  "promise_state p = (case p of Open _ _ _ _ \<Rightarrow> Pending | Closed ok _ _ \<Rightarrow> if ok then Resolved else Rejected)"

text \<open>C5: a deferred behaves as the promise: whatever is asked of it, in any order (adding listeners,
  resolving, rejecting, notifying), it calls the same functions with the same values in the same order
  and ends in the same state.\<close>

theorem deferred_refines_promise:
  assumes "length (m_lists m) = 3 * length (m_states m)"
  shows "\<exists>m'. runs (map (op_frame (length (m_states m))) ops) (new_deferred m) m'
    \<and> m_log m' = m_log m @ snd (promise_run ops (Open [] [] [] None))
    \<and> m_states m' ! length (m_states m) = promise_state (fst (promise_run ops (Open [] [] [] None)))"
proof -
  obtain m' where "runs (map (op_frame (length (m_states m))) ops) (new_deferred m) m'"
    "follows (length (m_states m)) m' (fst (promise_run ops (Open [] [] [] None)))"
    "m_log m' = m_log m @ snd (promise_run ops (Open [] [] [] None))"
    using follows_run [OF follows_new_deferred(1) [OF assms], of ops] follows_new_deferred(2) [OF assms] by auto
  moreover from this(2) have "m_states m' ! length (m_states m) = promise_state (fst (promise_run ops (Open [] [] [] None)))"
    by (auto simp: follows_def promise_state_def split: promise.splits)
  ultimately show ?thesis by blast
qed

definition no_machine :: machine where
  "no_machine = \<lparr>m_lists = [], m_states = [], m_whens = [], m_log = [], m_ret = Undefined\<rparr>"

theorem deferred_refines_promise_witness:
  "\<exists>m'. runs (map (op_frame 0)
      [DoneOp 1, FailOp 2, ResolveOp (Undefined, [Atom 7]), RejectOp (Undefined, [Atom 8]), DoneOp 3]) (new_deferred no_machine) m'
    \<and> m_log m' = [(1, (Undefined, [Atom 7])), (3, (Undefined, [Atom 7]))] \<and> m_states m' ! 0 = Resolved"
  using deferred_refines_promise [of no_machine
      "[DoneOp 1, FailOp 2, ResolveOp (Undefined, [Atom 7]), RejectOp (Undefined, [Atom 8]), DoneOp 3]"]
  by (simp add: no_machine_def promise_state_def)

end
