(* ===== verification/When_Props.thy ===== *)
theory When_Props
  imports Deferred_Props
begin

text \<open>
  \<open>jQuery.when\<close> on deferreds that are pending: the master is resolved by the last of them, whatever the
  order, with the values in the order of the arguments.
\<close>

section \<open>Wiring\<close>

lemma add_progressing_silent:
  assumes "l < length (m_lists m)" "progressing fs None (m_lists m ! l)"
  shows "runs (Act (AddTo l [f]) # frs) m m' \<longleftrightarrow>
    runs frs (m\<lparr>m_lists := (m_lists m)[l := (m_lists m ! l)\<lparr>cb_list := Some (fs @ [f])\<rparr>]\<rparr>) m'"
proof -
  have "cb_push f (m_lists m ! l) = (m_lists m ! l)\<lparr>cb_list := Some (fs @ [f])\<rparr>"
    using assms(2) by (simp add: cb_push_def progressing_def)
  then show ?thesis
    using assms by (simp add: runs_step_iff step_def Let_def progressing_def on_list_def)
qed

text \<open>The machine that \<open>when\<close> leaves: \<open>settled\<close> are the arguments that were resolved since.\<close>

definition wired :: "machine \<Rightarrow> nat \<Rightarrow> nat \<Rightarrow> nat list \<Rightarrow> nat set \<Rightarrow> (nat \<Rightarrow> val) \<Rightarrow> (nat \<Rightarrow> val) \<Rightarrow> bool" where
  "wired m w master ps settled ctx val \<longleftrightarrow>
     (\<forall>i<length ps. ps ! i < length (m_states m) \<and> 3 * (ps ! i) + 2 < length (m_lists m) \<and> ps ! i \<noteq> master \<and>
        (i \<notin> settled \<longrightarrow> m_lists m ! (3 * (ps ! i)) = waiting (setup_done (ps ! i) @ [Update w i False])))
   \<and> distinct ps \<and> settled \<subseteq> {..<length ps}
   \<and> w < length (m_whens m) \<and> wh_master (m_whens m ! w) = master
   \<and> wh_remaining (m_whens m ! w) = int (length ps) - int (card settled)
   \<and> length (wh_values (m_whens m ! w)) = length ps \<and> length (wh_contexts (m_whens m ! w)) = length ps
   \<and> (\<forall>i\<in>settled. wh_values (m_whens m ! w) ! i = val i \<and> wh_contexts (m_whens m ! w) ! i = ctx i)"

lemma wiredD:
  assumes "wired m w master ps settled ctx val" "i < length ps"
  shows "ps ! i < length (m_states m)" "3 * (ps ! i) + 2 < length (m_lists m)" "ps ! i \<noteq> master"
    and "i \<notin> settled \<Longrightarrow> m_lists m ! (3 * (ps ! i)) = waiting (setup_done (ps ! i) @ [Update w i False])"
  using assms unfolding wired_def by blast+

lemma wiredD':
  assumes "wired m w master ps settled ctx val"
  shows "distinct ps" "settled \<subseteq> {..<length ps}" "w < length (m_whens m)" "wh_master (m_whens m ! w) = master"
    "wh_remaining (m_whens m ! w) = int (length ps) - int (card settled)"
    "length (wh_values (m_whens m ! w)) = length ps" "length (wh_contexts (m_whens m ! w)) = length ps"
    "\<forall>i\<in>settled. wh_values (m_whens m ! w) ! i = val i \<and> wh_contexts (m_whens m ! w) ! i = ctx i"
  using assms unfolding wired_def by blast+

lemma lists_apart: "p \<noteq> q \<Longrightarrow> a < 3 \<Longrightarrow> b < 3 \<Longrightarrow> 3 * p + a \<noteq> 3 * q + (b::nat)"
  by presburger

lemma lists_apart_simps [simp]:
  assumes "p \<noteq> (q::nat)"
  shows "3 * p \<noteq> 3 * q" "3 * p \<noteq> Suc (3 * q)" "3 * p \<noteq> Suc (Suc (3 * q))"
    "Suc (3 * p) \<noteq> 3 * q" "Suc (3 * p) \<noteq> Suc (Suc (3 * q))" "Suc (Suc (3 * p)) \<noteq> 3 * q" "Suc (Suc (3 * p)) \<noteq> Suc (3 * q)"
  using assms by presburger+

text \<open>The call of the listener of \<open>when\<close>.\<close>

definition updated :: "nat \<Rightarrow> nat \<Rightarrow> call_data \<Rightarrow> machine \<Rightarrow> machine" where
  "updated w i d m =
     (let s = m_whens m ! w
      in m\<lparr>m_whens := (m_whens m)[w := s\<lparr>wh_contexts := (wh_contexts s)[i := fst d],
             wh_values := (wh_values s)[i := update_value (snd d)], wh_remaining := wh_remaining s - 1\<rparr>]\<rparr>)"

lemma updated_simps [simp]:
  "m_lists (updated w i d m) = m_lists m" "m_states (updated w i d m) = m_states m" "m_log (updated w i d m) = m_log m"
  "m_ret (updated w i d m) = m_ret m"
  by (simp_all add: updated_def Let_def)

lemma call_update:
  assumes "w < length (m_whens m)"
  shows "runs (Call (Update w i False) d # frs) m m' \<longleftrightarrow>
    (if wh_remaining (m_whens m ! w) = 1
     then runs (FireWith (3 * wh_master (m_whens m ! w))
            (Arr (wh_contexts (m_whens (updated w i d m) ! w)), wh_values (m_whens (updated w i d m) ! w)) # Return Undefined # frs)
            (updated w i d m) m'
     else runs frs ((updated w i d m)\<lparr>m_ret := Undefined\<rparr>) m')"
  using assms
  by (simp add: runs_step_iff [of "Call f d" for f] step_def step_call_def step_update_def updated_def Let_def action_list_def
      runs_step_iff [of "Return v" for v])

section \<open>Resolving one argument\<close>

text \<open>The end of the loop over a list with one listener behind those of the library.\<close>

lemma last_turn:
  assumes l: "l < length (m_lists m)" and fs: "length fs = 4"
    and c: "m_lists m ! l = (fire_begin d (waiting fs))\<lparr>cb_index := 3\<rparr>"
    and turn: "\<And>m'. runs (Call (fs ! 3) d # Next l d # frs) m m' \<longleftrightarrow> runs (Next l d # frs) m1 m'"
    and m1: "m_lists m1 ! l = m_lists m ! l" "length (m_lists m1) = length (m_lists m)"
  shows "runs (Loop l d # frs) m m' \<longleftrightarrow>
    runs frs (m1\<lparr>m_lists := (m_lists m1)[l := (fire_begin d (waiting fs))\<lparr>cb_index := 4, cb_firing := False, cb_list := Some []\<rparr>]\<rparr>) m'"
proof -
  let ?c = "(fire_begin d (waiting fs))\<lparr>cb_index := 4\<rparr>"
  let ?m2 = "m1\<lparr>m_lists := (m_lists m1)[l := ?c]\<rparr>"
  note C = fire_begin_waiting [of d fs]
  have "runs (Loop l d # frs) m m' \<longleftrightarrow> runs (Loop l d # frs) ?m2 m'"
    using loop_turn [of m l fs 3 d frs m' m1] C c turn m1 fs by (simp add: on_list_def)
  also have "\<dots> \<longleftrightarrow> runs (End l # frs) ?m2 m'"
    using loop_plain [of l ?m2 fs 4 "[]" d frs m'] C l m1 fs by simp
  also have "\<dots> \<longleftrightarrow> runs frs (m1\<lparr>m_lists := (m_lists m1)[l := ?c\<lparr>cb_firing := False, cb_list := Some []\<rparr>]\<rparr>) m'"
    using end_spent [of l ?m2 fs d frs m'] C l m1 by simp
  finally show ?thesis by simp
qed

lemma ret_update:
  "m\<lparr>m_states := a, m_log := b, m_ret := r, m_lists := c\<rparr>\<lparr>m_ret := v\<rparr> =
     m\<lparr>m_states := a, m_log := b, m_ret := v, m_lists := c\<rparr>"
  by (cases m) simp

lemma resolve_argument:
  assumes wi: "wired m w master ps settled ctx val" and i: "i < length ps" "i \<notin> settled"
    and ma: "follows master m (Open [k] [] [] None)"
    and d: "d = (ctx i, [val i])"
  shows "if Suc (card settled) < length ps
     then \<exists>m'. runs [FireWith (3 * (ps ! i)) d] m m' \<and> wired m' w master ps (insert i settled) ctx val
            \<and> follows master m' (Open [k] [] [] None) \<and> m_log m' = m_log m
     else \<exists>m'. runs [FireWith (3 * (ps ! i)) d] m m' \<and> m_states m' ! master = Resolved
            \<and> m_log m' = m_log m @ [(k, (Arr (map ctx [0..<length ps]), map val [0..<length ps]))]"
proof -
  let ?p = "ps ! i" and ?N = "length ps"
  let ?l = "3 * ?p"
  let ?fs = "setup_done ?p @ [Update w i False]"
  have b: "?p < length (m_states m)" "?l < length (m_lists m)" "Suc ?l < length (m_lists m)" "Suc (Suc ?l) < length (m_lists m)"
      "?p \<noteq> master" "m_lists m ! ?l = waiting ?fs" "w < length (m_whens m)" "wh_master (m_whens m ! w) = master"
    using wiredD [OF wi i(1)] wiredD'(3,4) [OF wi] i(2) by simp_all
  have mb: "master < length (m_states m)" "3 * master < length (m_lists m)" "Suc (3 * master) < length (m_lists m)"
      "Suc (Suc (3 * master)) < length (m_lists m)"
    using ma by (simp_all add: follows_def)
  have fin: "finite settled" and ic: "card (insert i settled) = Suc (card settled)"
    using i(2) finite_subset [OF wiredD'(2) [OF wi]] by simp_all
  let ?L = "\<lambda>c. (m_lists m)[Suc ?l := cb_disable (m_lists m ! Suc ?l), Suc (Suc ?l) := cb_lock (m_lists m ! Suc (Suc ?l)), ?l := c]"
  let ?m3 = "m\<lparr>m_states := (m_states m)[?p := Resolved], m_ret := fst d, m_lists := ?L ((fire_begin d (waiting ?fs))\<lparr>cb_index := 3\<rparr>)\<rparr>"
  let ?c = "(fire_begin d (waiting ?fs))\<lparr>cb_index := 4, cb_firing := False, cb_list := Some []\<rparr>"
  let ?u = "updated w i d ?m3"
  have uw: "m_whens ?u = m_whens (updated w i d m)" by (simp add: updated_def Let_def)
  have start: "runs [FireWith ?l d] m m' \<longleftrightarrow> runs [Loop ?l d] ?m3 m'" for m'
    using fire_setup [of ?l m "Suc ?l" "Suc (Suc ?l)" ?p Resolved "[Update w i False]" d "[]" m'] b
    by (simp add: setup_done_def)
  have len: "length ?fs = 4" and nth: "?fs ! 3 = Update w i False"
    by (simp_all add: setup_done_def numeral_3_eq_3)
  have rem: "wh_remaining (m_whens m ! w) = 1 \<longleftrightarrow> \<not> Suc (card settled) < ?N"
  proof -
    have "card (insert i settled) \<le> ?N"
      using i(1) wiredD'(2) [OF wi] card_mono [of "{..<?N}" "insert i settled"] by simp
    then have "card settled < ?N" unfolding ic by simp
    then show ?thesis unfolding wiredD'(5) [OF wi] by linarith
  qed
  show ?thesis
  proof (cases "Suc (card settled) < ?N")
    case True
    let ?m' = "(?u\<lparr>m_ret := Undefined\<rparr>)\<lparr>m_lists := (m_lists ?u)[?l := ?c]\<rparr>"
    have turn: "runs (Call (?fs ! 3) d # Next ?l d # []) ?m3 m' \<longleftrightarrow> runs [Next ?l d] (?u\<lparr>m_ret := Undefined\<rparr>) m'" for m'
      unfolding nth using call_update [of w ?m3 i d "[Next ?l d]" m'] b rem True by simp
    have "runs [FireWith ?l d] m ?m'"
      unfolding start
      using last_turn [OF _ len _ turn, of ?m'] b by (simp add: runs_Nil_iff)
    moreover have "wired ?m' w master ps (insert i settled) ctx val"
    proof -
      have apart: "ps ! j \<noteq> ?p" if "j < ?N" "j \<noteq> i" for j
        using nth_eq_iff_index_eq [OF wiredD'(1) [OF wi] that(1) i(1)] that(2) by simp
      have ls: "m_lists ?m' ! (3 * (ps ! j)) = m_lists m ! (3 * (ps ! j))" if "j < ?N" "j \<noteq> i" for j
        using apart [OF that] by simp
      have w': "m_whens ?m' ! w = (m_whens m ! w)\<lparr>wh_contexts := (wh_contexts (m_whens m ! w))[i := ctx i],
          wh_values := (wh_values (m_whens m ! w))[i := val i], wh_remaining := wh_remaining (m_whens m ! w) - 1\<rparr>"
        using b d by (simp add: updated_def Let_def update_value_def)
      have whens: "length (m_whens ?m') = length (m_whens m)" by (simp add: updated_def Let_def)
      have sizes: "length (m_lists ?m') = length (m_lists m)" "length (m_states ?m') = length (m_states m)" by simp_all
      note D = wiredD [OF wi] and D' = wiredD' [OF wi]
      show ?thesis
        unfolding wired_def
      proof (intro conjI allI impI ballI)
        fix j assume j: "j < ?N"
        show "ps ! j < length (m_states ?m')" "3 * (ps ! j) + 2 < length (m_lists ?m')" "ps ! j \<noteq> master"
          unfolding sizes using D(1-3) [OF j] by blast+
        assume "j \<notin> insert i settled"
        then show "m_lists ?m' ! (3 * (ps ! j)) = waiting (setup_done (ps ! j) @ [Update w j False])"
          using ls [OF j] D(4) [OF j] by simp
      next
        fix j assume j: "j \<in> insert i settled"
        then have "j < ?N" using D'(2) i(1) by auto
        with j D'(6-8) show "wh_values (m_whens ?m' ! w) ! j = val j" "wh_contexts (m_whens ?m' ! w) ! j = ctx j"
          unfolding w' by (cases "j = i"; simp)+
      qed (unfold w' whens, simp_all add: D'(1-7) i(1) ic)
    qed
    moreover have "follows master ?m' (Open [k] [] [] None)"
      using ma b(5) by (simp add: follows_def)
    moreover have "m_log ?m' = m_log m" by simp
    ultimately show ?thesis using True by (simp only: if_True) blast
  next
    case False
    let ?D = "(Arr (map ctx [0..<?N]), map val [0..<?N])"
    have whole: "wh_contexts (m_whens ?u ! w) = map ctx [0..<?N]" "wh_values (m_whens ?u ! w) = map val [0..<?N]"
    proof -
      have "\<not> Suc (card settled) < ?N \<Longrightarrow> j \<in> insert i settled" if "j < ?N" for j
      proof (rule ccontr)
        assume "\<not> Suc (card settled) < ?N" "j \<notin> insert i settled"
        then have "card (insert j (insert i settled)) = Suc (Suc (card settled))" using fin ic by simp
        moreover have "card (insert j (insert i settled)) \<le> ?N"
          using that i(1) wiredD'(2) [OF wi] card_mono [of "{..<?N}" "insert j (insert i settled)"] by simp
        ultimately show False using \<open>\<not> Suc (card settled) < ?N\<close> by simp
      qed
      then have all: "j = i \<or> j \<in> settled" if "j < ?N" for j using False that by blast
      have w': "wh_contexts (m_whens ?u ! w) = (wh_contexts (m_whens m ! w))[i := ctx i]"
        "wh_values (m_whens ?u ! w) = (wh_values (m_whens m ! w))[i := val i]"
        using b d by (simp_all add: updated_def Let_def update_value_def)
      note D' = wiredD'(6-8) [OF wi]
      show "wh_contexts (m_whens ?u ! w) = map ctx [0..<?N]"
        unfolding w' using D' all i(1) by (intro nth_equalityI) (auto simp: nth_list_update)
      show "wh_values (m_whens ?u ! w) = map val [0..<?N]"
        unfolding w' using D' all i(1) by (intro nth_equalityI) (auto simp: nth_list_update)
    qed
    have mw: "m_lists ?u ! (3 * master) = waiting ([SetState master Resolved, DisableFn (Suc (3 * master)),
        LockFn (Suc (Suc (3 * master)))] @ map plain [k])"
      using ma b(5) by (simp add: follows_def setup_done_def)
    obtain c r where cr: "\<And>frs m'. runs (FireWith (3 * master) ?D # frs) ?u m' \<longleftrightarrow>
       runs frs (?u\<lparr>m_states := (m_states ?u)[master := Resolved], m_log := m_log ?u @ map (\<lambda>k. (k, ?D)) [k], m_ret := r frs,
         m_lists := (m_lists ?u)[Suc (3 * master) := cb_disable (m_lists ?u ! Suc (3 * master)),
           Suc (Suc (3 * master)) := cb_lock (m_lists ?u ! Suc (Suc (3 * master))), 3 * master := c frs]\<rparr>) m'"
      using fire_waiting [OF _ _ _ _ _ _ mw, of ?D] mb by simp metis
    let ?frs = "[Return Undefined, Next ?l d]"
    let ?m1 = "?u\<lparr>m_states := (m_states ?u)[master := Resolved], m_log := m_log ?u @ [(k, ?D)], m_ret := Undefined,
         m_lists := (m_lists ?u)[Suc (3 * master) := cb_disable (m_lists ?u ! Suc (3 * master)),
           Suc (Suc (3 * master)) := cb_lock (m_lists ?u ! Suc (Suc (3 * master))), 3 * master := c ?frs]\<rparr>"
    let ?m' = "?m1\<lparr>m_lists := (m_lists ?m1)[?l := ?c]\<rparr>"
    have turn: "runs (Call (?fs ! 3) d # Next ?l d # []) ?m3 m' \<longleftrightarrow> runs [Next ?l d] ?m1 m'" for m'
    proof -
      have "runs (Call (?fs ! 3) d # Next ?l d # []) ?m3 m' \<longleftrightarrow> runs (FireWith (3 * master) ?D # ?frs) ?u m'"
        unfolding nth whole [symmetric] using call_update [of w ?m3 i d "[Next ?l d]" m'] b rem False by simp
      also have "\<dots> \<longleftrightarrow> runs [Next ?l d] ?m1 m'"
        unfolding cr runs_step_iff [of "Return Undefined"] step_def frame.case fst_conv snd_conv append_Nil ret_update
        by (simp only: list.map)
      finally show ?thesis .
    qed
    have "m_lists ?m1 ! ?l = m_lists ?m3 ! ?l" using b(5) by simp
    then have "runs [FireWith ?l d] m ?m'"
      unfolding start using last_turn [OF _ len _ turn, of ?m'] b by (simp add: runs_Nil_iff)
    moreover have "m_states ?m' ! master = Resolved" "m_log ?m' = m_log m @ [(k, ?D)]" using mb by simp_all
    ultimately show ?thesis using False by (simp only: if_False) blast
  qed
qed

section \<open>Adding the listeners\<close>

definition wiring :: "machine \<Rightarrow> nat \<Rightarrow> nat \<Rightarrow> nat list \<Rightarrow> nat \<Rightarrow> bool" where
  "wiring m w master ps n \<longleftrightarrow>
     distinct ps \<and> master \<notin> set ps \<and> w < length (m_whens m)
   \<and> m_whens m ! w = new_when master (int (length ps)) (map Promise ps)
   \<and> follows master m (Open [] [] [] None)
   \<and> (\<forall>j<length ps. ps ! j < length (m_states m) \<and> 3 * (ps ! j) + 2 < length (m_lists m)
        \<and> (if j < n then m_lists m ! (3 * (ps ! j)) = waiting (setup_done (ps ! j) @ [Update w j False])
            else follows (ps ! j) m (Open [] [] [] None)))"

lemma wiring_step:
  assumes wi: "wiring m w master ps n" and n: "n < length ps"
  shows "\<exists>m'. runs (when_frames w master (n, Promise (ps ! n))) m m' \<and> wiring m' w master ps (Suc n) \<and> m_log m' = m_log m"
proof -
  let ?p = "ps ! n"
  have f: "follows ?p m (Open [] [] [] None)" and dist: "distinct ps" and np: "?p \<noteq> master"
    using wi n by (auto simp: wiring_def)
  have len: "3 * ?p < length (m_lists m)" "Suc (3 * ?p) < length (m_lists m)" "Suc (Suc (3 * ?p)) < length (m_lists m)"
    and dn: "m_lists m ! (3 * ?p) = waiting (setup_done ?p)" "m_lists m ! Suc (3 * ?p) = waiting (setup_fail ?p)"
    and pr: "progressing [] None (m_lists m ! Suc (Suc (3 * ?p)))"
    using f by (simp_all add: follows_def)
  let ?a = "waiting (setup_done ?p @ [Update w n False])" and ?b = "waiting (setup_fail ?p @ [FireFn (3 * master + 1)])"
  let ?c = "(m_lists m ! Suc (Suc (3 * ?p)))\<lparr>cb_list := Some [Update w n True]\<rparr>"
  let ?m1 = "m\<lparr>m_lists := (m_lists m)[3 * ?p := ?a]\<rparr>"
  let ?m2 = "m\<lparr>m_lists := (m_lists m)[3 * ?p := ?a, Suc (3 * ?p) := ?b]\<rparr>"
  let ?m' = "m\<lparr>m_lists := (m_lists m)[3 * ?p := ?a, Suc (3 * ?p) := ?b, Suc (Suc (3 * ?p)) := ?c]\<rparr>"
  have "runs (when_frames w master (n, Promise ?p)) m ?m'"
    using add_waiting [OF len(1) dn(1), of "[Update w n False]" "tl (when_frames w master (n, Promise ?p))" ?m']
      add_waiting [of "Suc (3 * ?p)" ?m1 "setup_fail ?p" "[FireFn (3 * master + 1)]" "tl (tl (when_frames w master (n, Promise ?p)))" ?m']
      add_progressing_silent [of "Suc (Suc (3 * ?p))" ?m2 "[]" "Update w n True" "[]" ?m'] len dn pr
    by (simp add: when_frames_def action_list_def runs_Nil_iff)
  moreover have "wiring ?m' w master ps (Suc n)"
  proof -
    have keep: "follows q ?m' (Open [] [] [] None) \<longleftrightarrow> follows q m (Open [] [] [] None)" if "q \<noteq> ?p" for q
      using that by (auto simp: follows_def)
    have apart: "ps ! j \<noteq> ?p" if "j < length ps" "j \<noteq> n" for j
      using nth_eq_iff_index_eq [OF dist that(1) n] that(2) by simp
    have sz: "ps ! j < length (m_states ?m')" "3 * (ps ! j) + 2 < length (m_lists ?m')" if "j < length ps" for j
      using wi that by (simp_all add: wiring_def)
    have "(if j < Suc n then m_lists ?m' ! (3 * (ps ! j)) = waiting (setup_done (ps ! j) @ [Update w j False])
        else follows (ps ! j) ?m' (Open [] [] [] None))" if j: "j < length ps" for j
    proof (cases "j = n")
      case True
      then show ?thesis using len by simp
    next
      case False
      then show ?thesis
        using wi j apart [OF j False] keep [OF apart [OF j False]] unfolding wiring_def by (cases "j < n") auto
    qed
    then have "\<forall>j<length ps. ps ! j < length (m_states ?m') \<and> 3 * (ps ! j) + 2 < length (m_lists ?m')
        \<and> (if j < Suc n then m_lists ?m' ! (3 * (ps ! j)) = waiting (setup_done (ps ! j) @ [Update w j False])
            else follows (ps ! j) ?m' (Open [] [] [] None))"
      using sz by blast
    moreover have "follows master ?m' (Open [] [] [] None)" using wi keep [of master] np by (simp add: wiring_def)
    moreover have "m_whens ?m' = m_whens m" by simp
    ultimately show ?thesis using wi unfolding wiring_def by metis
  qed
  moreover have "m_log ?m' = m_log m" by simp
  ultimately show ?thesis by blast
qed

lemma wiring_all:
  "wiring m w master ps n \<Longrightarrow> n \<le> length ps \<Longrightarrow>
     \<exists>m'. runs (concat (map (when_frames w master) (enumerate n (map Promise (drop n ps))))) m m'
        \<and> wiring m' w master ps (length ps) \<and> m_log m' = m_log m"
proof (induction "length ps - n" arbitrary: n m)
  case 0
  then show ?case by (auto intro: runs.stop)
next
  case (Suc k)
  then have n: "n < length ps" by simp
  have k: "k = length ps - Suc n" using Suc.hyps(2) by simp
  obtain m1 where m1: "runs (when_frames w master (n, Promise (ps ! n))) m m1" "wiring m1 w master ps (Suc n)" "m_log m1 = m_log m"
    using wiring_step [OF Suc.prems(1) n] by blast
  obtain m2 where m2: "runs (concat (map (when_frames w master) (enumerate (Suc n) (map Promise (drop (Suc n) ps))))) m1 m2"
    "wiring m2 w master ps (length ps)" "m_log m2 = m_log m1"
    using Suc.hyps(1) [of "Suc n" m1] m1(2) n k by auto
  have "drop n ps = ps ! n # drop (Suc n) ps" by (rule Cons_nth_drop_Suc [OF n, symmetric])
  with m1 m2 show ?case by (auto intro: runs_append)
qed

lemma step_act_whens: "m_whens (snd (step_act a m)) = m_whens m"
  by (cases a) (simp_all add: Let_def split: option.split)

lemma wiring_wired: "wiring m w master ps (length ps) \<Longrightarrow> wired m w master ps {} ctx val"
  by (auto simp: wiring_def wired_def new_when_def)

lemma when_wired:
  assumes "2 \<le> length ps" "distinct ps" "\<forall>p\<in>set ps. follows p m (Open [] [] [] None)"
    and "length (m_lists m) = 3 * length (m_states m)"
    and "js_when (map Promise ps) m = (master, frs, m1)"
  shows "\<exists>m' w. runs frs m1 m' \<and> wired m' w master ps {} ctx val \<and> follows master m' (Open [] [] [] None) \<and> m_log m' = m_log m"
proof -
  let ?w = "length (m_whens m)" and ?M = "length (m_states m)"
  let ?m1 = "(new_deferred m)\<lparr>m_whens := m_whens (new_deferred m) @ [new_when ?M (int (length ps)) (map Promise ps)]\<rparr>"
  have w: "m_whens (new_deferred m) = m_whens m"
    by (simp add: new_deferred_def Let_def step_act_whens del: step_act.simps)
  obtain p q qs where ps: "ps = p # q # qs" using assms(1) by (cases ps; cases "tl ps") auto
  have js: "master = ?M" "m1 = ?m1"
    "frs = concat (map (when_frames ?w ?M) (enumerate 0 (map Promise (drop 0 ps)))) @ [Finish ?w]"
    using assms(5) by (auto simp: js_when_def ps Let_def)
  note new = follows_new_deferred [OF assms(4)]
  have "follows p ?m1 (Open [] [] [] None)" if "p \<in> set ps" for p
  proof -
    have "follows p m (Open [] [] [] None)" using assms(3) that by blast
    then show ?thesis using new(3,4) by (simp add: follows_def nth_append)
  qed
  moreover have "?M \<notin> set ps" using assms(3) by (auto simp: follows_def)
  moreover have "follows ?M ?m1 (Open [] [] [] None)" using new(1) by (simp add: follows_def)
  ultimately have "wiring ?m1 ?w ?M ps 0"
    using assms(2) w by (auto simp: wiring_def follows_def)
  then obtain m2 where m2: "runs (concat (map (when_frames ?w ?M) (enumerate 0 (map Promise (drop 0 ps))))) ?m1 m2"
    "wiring m2 ?w ?M ps (length ps)" "m_log m2 = m_log m"
    using wiring_all [of ?m1 ?w ?M ps 0] new(2) by auto
  have "runs [Finish ?w] m2 m2"
    using m2(2) assms(1) by (auto simp: runs_step_iff runs_Nil_iff step_def Let_def wiring_def new_when_def)
  then have "runs frs m1 m2" unfolding js using m2(1) by (rule runs_append [rotated])
  with m2 js wiring_wired [OF m2(2)] show ?thesis by (auto simp: wiring_def)
qed

section \<open>Resolving all arguments\<close>

lemma wired_master:
  assumes "wired m w master ps settled ctx val"
  shows "wired (m\<lparr>m_lists := (m_lists m)[3 * master := c]\<rparr>) w master ps settled ctx val"
proof -
  let ?m = "m\<lparr>m_lists := (m_lists m)[3 * master := c]\<rparr>"
  have "m_lists ?m ! (3 * (ps ! j)) = m_lists m ! (3 * (ps ! j))" if "j < length ps" for j
    using wiredD(3) [OF assms that] by simp
  moreover have "m_states ?m = m_states m" "length (m_lists ?m) = length (m_lists m)" "m_whens ?m = m_whens m"
    by simp_all
  ultimately show ?thesis using assms unfolding wired_def by metis
qed

lemma resolve_rest:
  assumes "wired m w master ps settled ctx val" "follows master m (Open [k] [] [] None)"
    and "distinct order" "set order = {..<length ps} - settled" "order \<noteq> []"
  shows "\<exists>m'. runs (map (\<lambda>i. FireWith (3 * (ps ! i)) (ctx i, [val i])) order) m m' \<and> m_states m' ! master = Resolved
      \<and> m_log m' = m_log m @ [(k, (Arr (map ctx [0..<length ps]), map val [0..<length ps]))]"
  using assms
proof (induction order arbitrary: m settled)
  case Nil
  then show ?case by simp
next
  case (Cons i order)
  have i: "i < length ps" "i \<notin> settled" using Cons.prems(4) by auto
  have sub: "settled \<subseteq> {..<length ps}" using wiredD'(2) [OF Cons.prems(1)] .
  then have fin: "finite settled" by (rule finite_subset) simp
  have "card ({..<length ps} - settled) = length ps - card settled"
    using sub by (simp add: card_Diff_subset [OF fin])
  then have len: "Suc (length order) = length ps - card settled"
    using Cons.prems(3,4) distinct_card [of "i # order"] by simp
  note r = resolve_argument [OF Cons.prems(1) i Cons.prems(2) refl]
  show ?case
  proof (cases "order = []")
    case True
    then have "\<not> Suc (card settled) < length ps" using len by simp
    with r True show ?thesis by simp
  next
    case False
    then have "Suc (card settled) < length ps" using len by (cases order) auto
    with r obtain m1 where m1: "runs [FireWith (3 * (ps ! i)) (ctx i, [val i])] m m1"
      "wired m1 w master ps (insert i settled) ctx val" "follows master m1 (Open [k] [] [] None)" "m_log m1 = m_log m"
      by auto
    have "set order = {..<length ps} - insert i settled" using Cons.prems(3,4) by auto
    with Cons.IH [OF m1(2,3)] Cons.prems(3) False m1 show ?thesis by (auto intro: runs_Cons)
  qed
qed

text \<open>C6: \<open>when\<close> on at least two pending deferreds: once each of them has been resolved, in whatever
  order, the master is resolved, and its listener has been called once, with the contexts and the
  values in the order of the arguments.\<close>

theorem when_resolves:
  assumes "2 \<le> length ps" and "distinct ps" and "\<forall>p\<in>set ps. follows p m (Open [] [] [] None)"
    and "length (m_lists m) = 3 * length (m_states m)"
    and "js_when (map Promise ps) m = (master, frs, m1)"
    and "distinct order" and "set order = {..<length ps}"
  shows "\<exists>m'. runs (frs @ [Act (AddTo (3 * master) [plain k])]
                      @ map (\<lambda>i. FireWith (3 * (ps ! i)) (ctx i, [val i])) order) m1 m'
    \<and> m_states m' ! master = Resolved
    \<and> m_log m' = m_log m @ [(k, (Arr (map ctx [0..<length ps]), map val [0..<length ps]))]"
proof -
  obtain m2 w where m2: "runs frs m1 m2" "wired m2 w master ps {} ctx val" "follows master m2 (Open [] [] [] None)"
    "m_log m2 = m_log m"
    using when_wired [OF assms(1-5)] by blast
  let ?m3 = "m2\<lparr>m_lists := (m_lists m2)[3 * master := waiting (setup_done master @ [plain k])]\<rparr>"
  have b: "3 * master < length (m_lists m2)" "m_lists m2 ! (3 * master) = waiting (setup_done master)"
    using m2(3) by (simp_all add: follows_def)
  have add: "runs [Act (AddTo (3 * master) [plain k])] m2 ?m3"
    using add_waiting [OF b, of "[plain k]" "[]" ?m3] by (simp add: runs_Nil_iff)
  have "follows master ?m3 (Open [k] [] [] None)" using m2(3) by (simp add: follows_def)
  moreover have "wired ?m3 w master ps {} ctx val"
    by (rule wired_master [OF m2(2)])
  moreover have "order \<noteq> []"
  proof
    assume "order = []"
    with assms(7) have "{..<length ps} = {}" by simp
    with assms(1) show False by (simp add: lessThan_empty_iff)
  qed
  ultimately obtain m' where m': "runs (map (\<lambda>i. FireWith (3 * (ps ! i)) (ctx i, [val i])) order) ?m3 m'"
    "m_states m' ! master = Resolved"
    "m_log m' = m_log ?m3 @ [(k, (Arr (map ctx [0..<length ps]), map val [0..<length ps]))]"
    using resolve_rest [of ?m3 w master ps "{}" ctx val k order] assms(6,7) by (simp only: Diff_empty) blast
  have "m_log ?m3 = m_log m" using m2(4) by simp
  with m'(2,3) runs_append [OF m2(1) runs_append [OF add m'(1)]] show ?thesis by auto
qed

definition two_deferreds :: machine where
  "two_deferreds = new_deferred (new_deferred no_machine)"

theorem when_resolves_witness:
  "\<exists>m'. runs (fst (snd (js_when [Promise 0, Promise 1] two_deferreds)) @ [Act (AddTo 6 [plain 9])]
        @ [FireWith 3 (Undefined, [Atom 5]), FireWith 0 (Undefined, [Atom 4])]) (snd (snd (js_when [Promise 0, Promise 1] two_deferreds))) m'
     \<and> m_states m' ! 2 = Resolved \<and> m_log m' = [(9, (Arr [Undefined, Undefined], [Atom 4, Atom 5]))]"
proof -
  let ?m1 = "new_deferred no_machine"
  have n: "length (m_lists no_machine) = 3 * length (m_states no_machine)" "m_states no_machine = []" "m_lists no_machine = []"
    "m_log no_machine = []"
    by (simp_all add: no_machine_def)
  note d0 = follows_new_deferred [OF n(1)]
  have n1: "length (m_lists ?m1) = 3 * length (m_states ?m1)" using d0(3,4) n by simp
  note d1 = follows_new_deferred [OF n1]
  have len: "length (m_lists two_deferreds) = 3 * length (m_states two_deferreds)" "length (m_states two_deferreds) = 2"
    "m_log two_deferreds = []"
    unfolding two_deferreds_def using d0 d1 n by simp_all
  have "follows 1 two_deferreds (Open [] [] [] None)" unfolding two_deferreds_def using d1(1) d0(3) n by simp
  moreover have "follows 0 two_deferreds (Open [] [] [] None)"
    unfolding two_deferreds_def using d0(1) d1(3,4) n by (auto simp: follows_def nth_append)
  moreover have "fst (js_when [Promise 0, Promise 1] two_deferreds) = 2" using len by (simp add: js_when_def Let_def)
  ultimately show ?thesis
    using when_resolves [of "[0, 1]" two_deferreds 2 "fst (snd (js_when [Promise 0, Promise 1] two_deferreds))"
        "snd (snd (js_when [Promise 0, Promise 1] two_deferreds))" "[1, 0]" 9 "\<lambda>_. Undefined" "\<lambda>i. if i = 0 then Atom 4 else Atom 5"] len
    by (simp add: prod_eq_iff insert_commute numeral_2_eq_2 lessThan_Suc)
qed

end
