(* ===== verification/Hbase_Viewer.thy ===== *)
theory Hbase_Viewer
  imports Span_Store
begin

text \<open>
  The trace viewer of the HBase storage (\<open>htrace-hbase/src/main/webapps/htrace\<close>): \<open>traces.js\<close>, the
  table of the traces, and \<open>spans.js\<close>, the tree of the spans of one trace. The spans of the answer are
  objects that the code extends with \<open>children\<close> and \<open>depth\<close>; a span is known by its index in the
  answer. \<open>fuel\<close> is the depth of the call stack, and \<open>None\<close> that it was exhausted. The time scale and
  the time format of the library d3 are parameters.
\<close>

section \<open>The spans of the answer\<close>

record hspan =
  hs_trace_id :: string
  hs_span_id :: string
  hs_parent_id :: string
  hs_process_id :: string
  hs_description :: string
  hs_start :: jsnum
  hs_stop :: jsnum
  hs_timeline :: "(jsnum \<times> string) list option"

text \<open>\<open>parseInt(x)\<close> without a radix: a string that begins with \<open>0x\<close> is hexadecimal.\<close>

definition hex_digit_val :: "char \<Rightarrow> nat" where
  "hex_digit_val c = (if is_digit c then code c - 48 else if 97 \<le> code c then code c - 87 else code c - 55)"

definition parseInt :: "wnum \<Rightarrow> jsnum" where
  "parseInt x =
     (case x of
        WNum n \<Rightarrow> parse_int_num n
      | WStr s \<Rightarrow>
          (let t = dropWhile is_space s;
               u = (case t of c # cs \<Rightarrow> if c = CHR ''-'' \<or> c = CHR ''+'' then cs else t | [] \<Rightarrow> t)
           in if starts_with ''0x'' u \<or> starts_with ''0X'' u then
                (let ds = takeWhile is_hex_digit (drop 2 u);
                     n = foldl (\<lambda>acc c. 16 * acc + hex_digit_val c) 0 ds
                 in if ds = [] then NaN else Num (if starts_with ''-'' t then - of_nat n else of_nat n))
              else parse_int s))"

record hwire =
  hw_trace_id :: string
  hw_span_id :: string
  hw_parent_id :: string
  hw_process_id :: string
  hw_description :: string
  hw_start :: wnum
  hw_stop :: wnum
  hw_timeline :: "(wnum \<times> string) list option"

definition read_span :: "hwire \<Rightarrow> hspan" where
  "read_span w =
     \<lparr>hs_trace_id = hw_trace_id w, hs_span_id = hw_span_id w, hs_parent_id = hw_parent_id w,
      hs_process_id = hw_process_id w, hs_description = hw_description w, hs_start = parseInt (hw_start w),
      hs_stop = parseInt (hw_stop w),
      hs_timeline = map_option (map (\<lambda>(t, message). (parseInt t, message))) (hw_timeline w)\<rparr>"

section \<open>The spans by their parent\<close>

definition ROOT_SPAN_ID :: string where
  "ROOT_SPAN_ID = ''477902''"

text \<open>
  \<open>d3.nest\<close> with a key and \<open>sortValues\<close>: the spans of each key in the order of the answer, sorted by
  the comparison. A key that no span has is missing.
\<close>

definition byparent :: "hspan list \<Rightarrow> string \<Rightarrow> nat list option" where
  "byparent spans key =
     (let es = filter (\<lambda>i. hs_parent_id (spans ! i) = key) [0..<length spans]
      in if es = [] then None else Some (sort_by (num_cmp (\<lambda>i. hs_start (spans ! i))) es))"

record hstate =
  hs_children :: "nat \<Rightarrow> nat list option"
  hs_depth :: "nat \<Rightarrow> nat option"
  hs_sorted :: "nat list"

definition fresh_state :: hstate where
  "fresh_state = \<lparr>hs_children = (\<lambda>_. None), hs_depth = (\<lambda>_. None), hs_sorted = []\<rparr>"

fun addchildren :: "nat \<Rightarrow> hspan list \<Rightarrow> nat list \<Rightarrow> hstate \<Rightarrow> hstate option" where
  "addchildren fuel spans [] s = Some s"
| "addchildren 0 spans (e # es) s = None"
| "addchildren (Suc fuel) spans (e # es) s =
     (case byparent spans (hs_span_id (spans ! e)) of
        None \<Rightarrow> addchildren (Suc fuel) spans es s
      | Some cs \<Rightarrow>
          Option.bind (addchildren fuel spans cs (s\<lparr>hs_children := (hs_children s)(e \<mapsto> cs)\<rparr>))
            (addchildren (Suc fuel) spans es))"

text \<open>The function that \<open>traverse\<close> is given puts the span at the end of \<open>sortedspans\<close>.\<close>

definition visit :: "nat \<Rightarrow> nat \<Rightarrow> hstate \<Rightarrow> hstate" where
  "visit e depth s = s\<lparr>hs_depth := (hs_depth s)(e \<mapsto> depth), hs_sorted := hs_sorted s @ [e]\<rparr>"

fun traverse :: "nat \<Rightarrow> nat \<Rightarrow> nat list \<Rightarrow> hstate \<Rightarrow> hstate option" where
  "traverse fuel depth [] s = Some s"
| "traverse 0 depth (e # es) s = None"
| "traverse (Suc fuel) depth (e # es) s =
     (let s = visit e depth s
      in case hs_children s e of
           None \<Rightarrow> traverse (Suc fuel) depth es s
         | Some cs \<Rightarrow> Option.bind (traverse fuel (Suc depth) cs s) (traverse (Suc fuel) depth es))"

text \<open>Without a root span, \<open>byparent.get\<close> gives \<open>undefined\<close>, and calling its \<open>forEach\<close> is an error.\<close>

datatype page_error = MissingRoot

definition sort_spans :: "nat \<Rightarrow> hspan list \<Rightarrow> (page_error + hstate) option" where
  "sort_spans fuel spans =
     (case byparent spans ROOT_SPAN_ID of
        None \<Rightarrow> Some (Inl MissingRoot)
      | Some roots \<Rightarrow>
          map_option Inr (Option.bind (addchildren fuel spans roots fresh_state) (traverse fuel 0 roots)))"

section \<open>The picture\<close>

definition height_span :: jsnum where "height_span = Num 20"
definition width_span :: jsnum where "width_span = Num 700"
definition size_tl :: jsnum where "size_tl = Num 6"

text \<open>\<open>d3.min\<close> and \<open>d3.max\<close> skip what is not a number.\<close>

definition d3_min :: "jsnum list \<Rightarrow> jsnum" where
  "d3_min xs = fold (\<lambda>x m. if js_is_nan x then m else if js_is_nan m \<or> x < m then x else m) xs Undef"

definition d3_max :: "jsnum list \<Rightarrow> jsnum" where
  "d3_max xs = fold (\<lambda>x m. if js_is_nan x then m else if js_is_nan m \<or> m < x then x else m) xs Undef"

text \<open>What is drawn for one span: the row, the name of the process, the bar with its labels, the marks.\<close>

record picture_row =
  pr_y :: jsnum
  pr_process :: string
  pr_processX :: jsnum
  pr_barX :: jsnum
  pr_width :: jsnum
  pr_description :: string
  pr_duration :: jsnum
  pr_marks :: "(jsnum \<times> jsnum) list"

definition span_row ::
    "(jsnum \<times> jsnum \<Rightarrow> jsnum \<Rightarrow> jsnum) \<Rightarrow> jsnum \<Rightarrow> jsnum \<Rightarrow> nat \<Rightarrow> nat \<Rightarrow> hspan \<Rightarrow> picture_row" where
  "span_row scale tmin tmax i depth s =
     \<lparr>pr_y = Num (of_nat i) * height_span + Num 5, pr_process = hs_process_id s,
      pr_processX = Num (of_nat depth) * Num 10 - Num 250, pr_barX = scale (tmin, tmax) (hs_start s),
      pr_width = (width_span * (hs_stop s - hs_start s)) / (tmax - tmin) + Num 1,
      pr_description = hs_description s, pr_duration = hs_stop s - hs_start s,
      pr_marks = (case hs_timeline s of
                    None \<Rightarrow> []
                  | Some ts \<Rightarrow> map (\<lambda>(t, message). (scale (tmin, tmax) t, height_span - Num 1 - size_tl)) ts)\<rparr>"

definition spans_page ::
    "(jsnum \<times> jsnum \<Rightarrow> jsnum \<Rightarrow> jsnum) \<Rightarrow> nat \<Rightarrow> hwire list \<Rightarrow> (page_error + picture_row list) option" where
  "spans_page scale fuel answer =
     (let spans = map read_span answer;
          tmin = d3_min (map hs_start spans);
          tmax = d3_max (map hs_stop spans)
      in map_option
           (map_sum id (\<lambda>s. map (\<lambda>(i, e). span_row scale tmin tmax i (case hs_depth s e of None \<Rightarrow> 0 | Some d \<Rightarrow> d) (spans ! e))
                                 (enumerate 0 (hs_sorted s))))
           (sort_spans fuel spans))"

text \<open>
  The popup of a span with a timeline, and the two ends of the axis. The numbers are whole, from
  \<open>parseInt\<close>, or not a number.
\<close>

fun whole_string :: "jsnum \<Rightarrow> string" where
  "whole_string (Num q) = int_string \<lfloor>q\<rfloor>"
| "whole_string PosInf = ''Infinity''"
| "whole_string NegInf = ''-Infinity''"
| "whole_string NaN = ''NaN''"
| "whole_string Undef = ''undefined''"

definition popup_text :: "jsnum \<Rightarrow> (jsnum \<times> string) list \<Rightarrow> string" where
  "popup_text tmin timeline =
     fold (\<lambda>(t, message) text.
             text @ ''<tr><td>'' @ whole_string (t - tmin) @ ''</td>'' @ ''<td> : '' @ message @ ''<td/></tr>'')
       timeline ''<table>'' @ ''</table>''"

definition svg_size :: "hspan list \<Rightarrow> jsnum \<times> jsnum" where
  "svg_size spans =
     (width_span + Num 250 + Num 50 + Num 1000, (Num (of_nat (length spans)) * height_span + Num 50) + Num 50)"

section \<open>The table of the traces\<close>

text \<open>The newest trace first; the first cell shows the start in the format of d3.\<close>

definition trace_cmp :: "hspan \<Rightarrow> hspan \<Rightarrow> int" where
  "trace_cmp a b = (if hs_start b < hs_start a then -1 else if hs_start a < hs_start b then 1 else 0)"

definition trace_row :: "(jsnum \<Rightarrow> string) \<Rightarrow> hspan \<Rightarrow> string \<times> string list" where
  "trace_row format s =
     (''window.location='' @ [CHR 0x27] @ ''spans.html?traceid='' @ hs_trace_id s @ [CHR 0x27],
      [format (hs_start s), hs_process_id s, hs_description s])"

definition traces_page :: "(jsnum \<Rightarrow> string) \<Rightarrow> hwire list \<Rightarrow> (string \<times> string list) list" where
  "traces_page format answer = map (trace_row format) (sort_by trace_cmp (map read_span answer))"

end
