(* ===== verification/Hbase_Props.thy ===== *)
theory Hbase_Props
  imports Hbase_Viewer
begin

text \<open>
  The tree of the HBase viewer: its two recursions are the depth-first traversal of \<open>tree.js\<close> over the
  relation between parent and child, so what is proved of that traversal applies.
\<close>

section \<open>The relation of the spans\<close>

definition parent_of :: "hspan list \<Rightarrow> (nat \<times> nat) set" where
  "parent_of spans =
     {(a, b). a < length spans \<and> b < length spans \<and> hs_parent_id (spans ! b) = hs_span_id (spans ! a)}"

definition is_root :: "hspan list \<Rightarrow> nat \<Rightarrow> bool" where
  "is_root spans r \<longleftrightarrow> r < length spans \<and> hs_parent_id (spans ! r) = ROOT_SPAN_ID"

definition kids :: "hspan list \<Rightarrow> nat \<Rightarrow> nat list" where
  "kids spans e =
     (if e < length spans then (case byparent spans (hs_span_id (spans ! e)) of None \<Rightarrow> [] | Some cs \<Rightarrow> cs) else [])"

lemma set_byparent:
  "byparent spans key = Some cs \<Longrightarrow> set cs = {i. i < length spans \<and> hs_parent_id (spans ! i) = key} \<and> distinct cs \<and> cs \<noteq> []"
proof -
  let ?es = "filter (\<lambda>i. hs_parent_id (spans ! i) = key) [0..<length spans]"
  assume "byparent spans key = Some cs"
  then have cs: "cs = sort_by (num_cmp (\<lambda>i. hs_start (spans ! i))) ?es" "?es \<noteq> []"
    by (auto simp: byparent_def Let_def split: if_splits)
  then have m: "mset cs = mset ?es" by simp
  then have st: "set cs = set ?es" by (rule mset_eq_setD)
  moreover have "distinct cs" using m mset_eq_imp_distinct_iff [of cs ?es] by simp
  moreover have "cs \<noteq> []" using st cs(2) by (metis set_empty)
  ultimately show ?thesis using st by auto
qed

lemma byparent_None: "byparent spans key = None \<longleftrightarrow> (\<forall>i<length spans. hs_parent_id (spans ! i) \<noteq> key)"
  by (auto simp: byparent_def Let_def filter_empty_conv)

lemma edges_kids: "edges (kids spans) = parent_of spans"
proof -
  have "b \<in> set (kids spans a) \<longleftrightarrow> (a, b) \<in> parent_of spans" for a b
  proof (cases "byparent spans (hs_span_id (spans ! a))")
    case None
    have "kids spans a = []" unfolding kids_def None by simp
    moreover have "(a, b) \<notin> parent_of spans" using None unfolding byparent_None parent_of_def by blast
    ultimately show ?thesis by simp
  next
    case (Some cs)
    have "kids spans a = (if a < length spans then cs else [])" unfolding kids_def Some by simp
    moreover have "b \<in> set cs \<longleftrightarrow> b < length spans \<and> hs_parent_id (spans ! b) = hs_span_id (spans ! a)"
      using set_byparent [OF Some] by blast
    ultimately show ?thesis unfolding parent_of_def by simp
  qed
  then show ?thesis unfolding edges_def by fast
qed

lemma kids_iff: "b \<in> set (kids spans a) \<longleftrightarrow> (a, b) \<in> parent_of spans"
  unfolding edges_kids [symmetric] edges_def by simp

lemma distinct_kids: "distinct (kids spans e)"
  using set_byparent by (auto simp: kids_def split: option.split)

lemma finite_parent_of: "finite (parent_of spans)"
  by (rule finite_subset [of _ "{..<length spans} \<times> {..<length spans}"]) (auto simp: parent_of_def)

lemma kids_less: "acyclic (parent_of spans) \<Longrightarrow> m \<in> set (kids spans n) \<Longrightarrow> descendants (kids spans) m < descendants (kids spans) n"
  by (rule descendants_less) (simp_all add: edges_kids finite_parent_of)

lemma kids_bound: "descendants (kids spans) n \<le> length spans"
proof -
  have "(n, m) \<in> (parent_of spans)\<^sup>+ \<Longrightarrow> m < length spans" for m
    by (erule tranclE) (auto simp: parent_of_def)
  then show ?thesis
    using card_mono [of "{..<length spans}" "{m. (n, m) \<in> (parent_of spans)\<^sup>+}"]
    by (auto simp: descendants_def edges_kids)
qed

section \<open>Both recursions are the traversal of \<open>tree.js\<close>\<close>

interpretation kids_nav: navigation "\<lambda>_::hstate. acyclic (parent_of spans)" "\<lambda>_. kids spans" "\<lambda>_. descendants (kids spans)" for spans
  by unfold_locales (rule kids_less)

definition field_children :: "hstate \<Rightarrow> nat \<Rightarrow> nat list" where
  "field_children s e = (case hs_children s e of None \<Rightarrow> [] | Some cs \<Rightarrow> cs)"

definition children_ok :: "hspan list \<Rightarrow> hstate \<Rightarrow> bool" where
  "children_ok spans s \<longleftrightarrow> (\<forall>e. hs_children s e \<noteq> None \<longrightarrow> hs_children s e = Some (kids spans e))"

interpretation field_nav: navigation "\<lambda>s. acyclic (parent_of spans) \<and> children_ok spans s" field_children
    "\<lambda>_. descendants (kids spans)" for spans
proof unfold_locales
  fix s m n
  assume s: "acyclic (parent_of spans) \<and> children_ok spans s" and m: "m \<in> set (field_children s n)"
  then have "m \<in> set (kids spans n)" by (cases "hs_children s n") (auto simp: field_children_def children_ok_def)
  with s show "descendants (kids spans) m < descendants (kids spans) n" by (simp add: kids_less)
qed

definition set_kids :: "hspan list \<Rightarrow> nat \<Rightarrow> nat \<Rightarrow> hstate \<Rightarrow> hstate" where
  "set_kids spans e d s = (if kids spans e = [] then s else s\<lparr>hs_children := (hs_children s)(e \<mapsto> kids spans e)\<rparr>)"

lemma addchildren_is_pre:
  "set es \<subseteq> {..<length spans} \<Longrightarrow>
     addchildren fuel spans es s = pre_loop fuel (\<lambda>_. kids spans) (set_kids spans) es d s"
proof (induction fuel spans es s arbitrary: d rule: addchildren.induct)
  case (3 fuel spans e es s)
  have e: "e < length spans" using "3.prems" by simp
  show ?case
  proof (cases "byparent spans (hs_span_id (spans ! e))")
    case None
    then have "kids spans e = []" by (simp add: kids_def)
    with None 3 show ?thesis by (simp add: set_kids_def)
  next
    case (Some cs)
    then have k: "kids spans e = cs" "cs \<noteq> []" "set cs \<subseteq> {..<length spans}"
      using e set_byparent [OF Some] by (auto simp: kids_def)
    let ?s = "s\<lparr>hs_children := (hs_children s)(e \<mapsto> cs)\<rparr>"
    have sk: "set_kids spans e d s = ?s" using k by (simp add: set_kids_def)
    have "addchildren fuel spans cs ?s = pre_loop fuel (\<lambda>_. kids spans) (set_kids spans) cs (Suc d) ?s"
      by (rule "3.IH"(2) [OF Some k(3)])
    moreover have "addchildren (Suc fuel) spans es t = pre_loop (Suc fuel) (\<lambda>_. kids spans) (set_kids spans) es d t"
      if "addchildren fuel spans cs ?s = Some t" for t
      using "3.IH"(3) [OF Some that] "3.prems" by simp
    ultimately show ?thesis
      using Some k sk by (cases "pre_loop fuel (\<lambda>_. kids spans) (set_kids spans) cs (Suc d) ?s") simp_all
  qed
qed simp_all

lemma traverse_is_pre:
  "traverse fuel d es s = pre_loop fuel field_children visit es d s"
proof (induction fuel d es s rule: traverse.induct)
  case (3 fuel depth e es s)
  show ?case
  proof (cases "hs_children (visit e depth s) e")
    case None
    then show ?thesis using 3 by (simp add: Let_def field_children_def)
  next
    case (Some cs)
    then show ?thesis using 3 by (simp add: Let_def field_children_def split: option.split)
  qed
qed simp_all

text \<open>The traversal of a list of nodes.\<close>

lemma pre_loop_fold:
  assumes one: "\<And>s n. P s \<Longrightarrow> n \<in> set ns \<Longrightarrow> treeTraverseDepthFirstPre fuel g cb n d s = Some (fold (\<lambda>(m, e). cb m e) (nodes n) s)"
    and keeps: "\<And>s n. P s \<Longrightarrow> n \<in> set ns \<Longrightarrow> P (fold (\<lambda>(m, e). cb m e) (nodes n) s)"
    and "P s"
  shows "pre_loop fuel g cb ns d s = Some (fold (\<lambda>(m, e). cb m e) (concat (map nodes ns)) s)"
  using assms
proof (induction ns arbitrary: s)
  case (Cons n ns)
  then show ?case by simp
qed simp

lemma pre_nodes_cong:
  "(\<And>m. (n, m) \<in> (edges g)\<^sup>* \<Longrightarrow> g' m = g m) \<Longrightarrow> pre_nodes k g' n d = pre_nodes k g n d"
proof (induction k arbitrary: n d)
  case (Suc k)
  have "pre_nodes k g' m (Suc d) = pre_nodes k g m (Suc d)" if "m \<in> set (g n)" for m
    using that by (intro Suc) (auto simp: edges_def intro: converse_rtrancl_into_rtrancl)
  moreover have "g' n = g n" by (rule Suc.prems) simp
  ultimately show ?case by (simp cong: map_cong)
qed simp

section \<open>What the viewer lists\<close>

definition tree_nodes :: "hspan list \<Rightarrow> nat list \<Rightarrow> (nat \<times> nat) list" where
  "tree_nodes spans roots = concat (map (\<lambda>r. pre_nodes (descendants (kids spans) r) (kids spans) r 0) roots)"

lemma tree_nodes_path:
  assumes "acyclic (parent_of spans)"
  shows "(m, e) \<in> set (tree_nodes spans roots) \<longleftrightarrow> (\<exists>r\<in>set roots. (r, m) \<in> parent_of spans ^^ e)"
proof -
  have "(m, e) \<in> set (pre_nodes (descendants (kids spans) r) (kids spans) r 0) \<longleftrightarrow> (r, m) \<in> parent_of spans ^^ e" for r
    using kids_nav.pre_nodes_path_iff [OF assms order_refl, of m 0 e r]
    by (simp add: edges_kids [unfolded edges_def, symmetric])
  then show ?thesis by (simp add: tree_nodes_def)
qed

lemma set_kids_simps [simp]:
  "hs_children (set_kids spans m d s) n = (if n = m \<and> kids spans n \<noteq> [] then Some (kids spans n) else hs_children s n)"
  "hs_sorted (set_kids spans m d s) = hs_sorted s" "hs_depth (set_kids spans m d s) = hs_depth s"
  by (auto simp: set_kids_def)

lemma set_kids_fold:
  "hs_children (fold (\<lambda>(m, e). set_kids spans m e) xs s) n =
     (if n \<in> fst ` set xs \<and> kids spans n \<noteq> [] then Some (kids spans n) else hs_children s n)
   \<and> hs_sorted (fold (\<lambda>(m, e). set_kids spans m e) xs s) = hs_sorted s"
  by (induction xs arbitrary: s) (auto split: if_splits)

lemma visit_fold:
  "hs_sorted (fold (\<lambda>(m, e). visit m e) xs s) = hs_sorted s @ map fst xs
   \<and> hs_children (fold (\<lambda>(m, e). visit m e) xs s) = hs_children s
   \<and> hs_depth (fold (\<lambda>(m, e). visit m e) xs s) = hs_depth s ++ map_of (rev xs)"
  by (induction xs arbitrary: s) (auto simp: visit_def map_add_assoc [symmetric] map_of_append fun_eq_iff map_add_def split: option.split)

lemma sort_spans_eq:
  assumes ac: "acyclic (parent_of spans)" and fuel: "length spans < fuel"
    and roots: "byparent spans ROOT_SPAN_ID = Some roots"
  shows "\<exists>s. sort_spans fuel spans = Some (Inr s) \<and> hs_sorted s = map fst (tree_nodes spans roots)
    \<and> hs_depth s = map_of (rev (tree_nodes spans roots))"
proof -
  let ?k = "descendants (kids spans)"
  let ?nodes = "\<lambda>r. pre_nodes (?k r) (kids spans) r 0"
  let ?s1 = "fold (\<lambda>(m, e). set_kids spans m e) (tree_nodes spans roots) fresh_state"
  have k: "?k n < fuel" for n using kids_bound [of spans n] fuel by simp
  have sub: "set roots \<subseteq> {..<length spans}" using set_byparent [OF roots] by auto
  have k1: "kids_nav.keeps spans (set_kids spans)" by (simp add: kids_nav.keeps_def)
  have "addchildren fuel spans roots fresh_state = Some ?s1"
    unfolding addchildren_is_pre [OF sub, of fuel fresh_state 0] tree_nodes_def
    using kids_nav.pre_is_fold [OF k1 ac k] by (intro pre_loop_fold [where P = "\<lambda>_. True"]) simp_all
  moreover
  have reach: "n \<in> fst ` set (tree_nodes spans roots)" if rn: "r \<in> set roots" "(r, n) \<in> (parent_of spans)\<^sup>*" for r n
  proof -
    obtain e where "(r, n) \<in> parent_of spans ^^ e" using rn(2) by (auto simp: rtrancl_is_UN_relpow)
    then have "(n, e) \<in> set (tree_nodes spans roots)" unfolding tree_nodes_path [OF ac] using rn(1) by blast
    then show ?thesis by force
  qed
  have k2: "field_nav.keeps spans visit"
    unfolding field_nav.keeps_def by (auto simp: children_ok_def visit_def field_children_def fun_eq_iff)
  let ?P = "\<lambda>s. hs_children s = hs_children ?s1"
  have ok: "children_ok spans s" if "?P s" for s
    using that set_kids_fold by (auto simp: children_ok_def fresh_state_def)
  have same: "pre_nodes j (field_children s) r 0 = pre_nodes j (kids spans) r 0" if "?P s" "r \<in> set roots" for s r j
  proof (rule pre_nodes_cong)
    fix m assume "(r, m) \<in> (edges (kids spans))\<^sup>*"
    then have "m \<in> fst ` set (tree_nodes spans roots)" using reach [OF that(2)] by (simp add: edges_kids)
    then show "field_children s m = kids spans m"
      using that(1) by (simp add: field_children_def set_kids_fold fresh_state_def)
  qed
  have "traverse fuel 0 roots ?s1 = Some (fold (\<lambda>(m, e). visit m e) (tree_nodes spans roots) ?s1)"
    unfolding traverse_is_pre tree_nodes_def
  proof (rule pre_loop_fold [where P = ?P])
    show "treeTraverseDepthFirstPre fuel field_children visit n 0 s = Some (fold (\<lambda>(m, e). visit m e) (?nodes n) s)"
      if "?P s" "n \<in> set roots" for s n
      using field_nav.pre_is_fold [OF k2 _ k, of s n 0] ac ok [OF that(1)] same [OF that] by simp
  qed (simp_all add: visit_fold tree_nodes_def)
  ultimately have "sort_spans fuel spans = Some (Inr (fold (\<lambda>(m, e). visit m e) (tree_nodes spans roots) ?s1))"
    by (simp add: sort_spans_def roots)
  moreover have "hs_sorted ?s1 = []" "hs_depth ?s1 = (\<lambda>_. None)"
  proof -
    show "hs_sorted ?s1 = []" by (simp add: set_kids_fold fresh_state_def)
    have "hs_depth (fold (\<lambda>(m, e). set_kids spans m e) xs s) = hs_depth s" for xs s
      by (induction xs arbitrary: s) auto
    then show "hs_depth ?s1 = (\<lambda>_. None)" by (simp add: fresh_state_def)
  qed
  ultimately show ?thesis by (auto simp: visit_fold)
qed

section \<open>Each span once\<close>

lemma unique_parent:
  assumes "distinct (map hs_span_id spans)" "(a, m) \<in> parent_of spans" "(b, m) \<in> parent_of spans"
  shows "a = b"
proof -
  have "a < length spans" "b < length spans" "hs_span_id (spans ! a) = hs_span_id (spans ! b)"
    using assms(2,3) by (auto simp: parent_of_def)
  then show ?thesis using assms(1) by (simp add: distinct_conv_nth) metis
qed

text \<open>Two ancestors of the same span lie on one line.\<close>

lemma ancestors_in_line:
  assumes d: "distinct (map hs_span_id spans)" and "(a, m) \<in> (parent_of spans)\<^sup>*" "(b, m) \<in> (parent_of spans)\<^sup>*"
  shows "(a, b) \<in> (parent_of spans)\<^sup>* \<or> (b, a) \<in> (parent_of spans)\<^sup>*"
  using assms(2,3)
proof (induction arbitrary: b rule: rtrancl_induct)
  case base
  then show ?case by simp
next
  case (step y z)
  from step.prems consider "b = z" | w where "(b, w) \<in> (parent_of spans)\<^sup>*" "(w, z) \<in> parent_of spans"
    by (cases rule: rtranclE) blast+
  then show ?case
  proof cases
    case 1
    then show ?thesis using step.hyps by (simp add: rtrancl_into_rtrancl)
  next
    case 2
    then have "w = y" using unique_parent [OF d] step.hyps(2) by blast
    then show ?thesis using step.IH 2 by blast
  qed
qed

lemma siblings_apart:
  assumes d: "distinct (map hs_span_id spans)" and ac: "acyclic (parent_of spans)"
    and "(n, a) \<in> parent_of spans" "(n, b) \<in> parent_of spans" "(a, m) \<in> (parent_of spans)\<^sup>*" "(b, m) \<in> (parent_of spans)\<^sup>*"
  shows "a = b"
proof -
  have no: "x = y" if "(n, x) \<in> parent_of spans" "(n, y) \<in> parent_of spans" "(x, y) \<in> (parent_of spans)\<^sup>*" for x y
    using that(3)
  proof (cases rule: rtranclE)
    case (step w)
    then have "w = n" using unique_parent [OF d] that(2) by blast
    with step that(1) have "(n, n) \<in> (parent_of spans)\<^sup>+" by (auto intro: rtrancl_into_trancl2)
    with ac show ?thesis by (simp add: acyclic_def)
  qed
  then show ?thesis using ancestors_in_line [OF d assms(5,6)] assms(3,4) by metis
qed

lemma distinct_concat_map:
  assumes "distinct xs" "\<And>x. x \<in> set xs \<Longrightarrow> distinct (f x)"
    and "\<And>x y m. x \<in> set xs \<Longrightarrow> y \<in> set xs \<Longrightarrow> m \<in> set (f x) \<Longrightarrow> m \<in> set (f y) \<Longrightarrow> x = y"
  shows "distinct (concat (map f xs))"
  using assms
proof (induction xs)
  case (Cons x xs)
  have "set (f x) \<inter> (\<Union>y\<in>set xs. set (f y)) = {}"
    using Cons.prems(1) Cons.prems(3) [of x] by fastforce
  moreover have "distinct (concat (map f xs))"
  proof (rule Cons.IH)
    show "distinct xs" using Cons.prems(1) by simp
    show "distinct (f y)" if "y \<in> set xs" for y using Cons.prems(2) that by simp
    show "y = z" if "y \<in> set xs" "z \<in> set xs" "m \<in> set (f y)" "m \<in> set (f z)" for y z m
      using Cons.prems(3) that by (meson list.set_intros(2))
  qed
  ultimately show ?case using Cons.prems(2) by simp
qed simp

lemma fst_pre_nodes_reachable: "m \<in> fst ` set (pre_nodes k (kids spans) n d) \<Longrightarrow> (n, m) \<in> (parent_of spans)\<^sup>*"
  using pre_nodes_reachable [of m _ k "kids spans" n d] by (auto simp: edges_kids [unfolded edges_def, symmetric])

lemma distinct_pre_nodes:
  assumes d: "distinct (map hs_span_id spans)" and ac: "acyclic (parent_of spans)"
  shows "distinct (map fst (pre_nodes k (kids spans) n e))"
proof (induction k arbitrary: n e)
  case (Suc k)
  have "distinct (concat (map (\<lambda>m. map fst (pre_nodes k (kids spans) m (Suc e))) (kids spans n)))"
  proof (rule distinct_concat_map [OF distinct_kids Suc.IH])
    fix x y m
    assume "x \<in> set (kids spans n)" "y \<in> set (kids spans n)" "m \<in> set (map fst (pre_nodes k (kids spans) x (Suc e)))"
      "m \<in> set (map fst (pre_nodes k (kids spans) y (Suc e)))"
    then show "x = y" using siblings_apart [OF d ac] fst_pre_nodes_reachable by (simp add: kids_iff) blast
  qed
  moreover have "n \<notin> fst ` set (pre_nodes k (kids spans) m (Suc e))" if "m \<in> set (kids spans n)" for m
  proof
    assume "n \<in> fst ` set (pre_nodes k (kids spans) m (Suc e))"
    then have "(m, n) \<in> (parent_of spans)\<^sup>*" by (rule fst_pre_nodes_reachable)
    then have "(n, n) \<in> (parent_of spans)\<^sup>+" using that by (auto simp: kids_iff intro: rtrancl_into_trancl2)
    with ac show False by (simp add: acyclic_def)
  qed
  ultimately show ?case by (auto simp: map_concat comp_def)
qed simp

lemma roots_apart:
  assumes d: "distinct (map hs_span_id spans)" and no: "ROOT_SPAN_ID \<notin> set (map hs_span_id spans)"
    and "is_root spans r" "is_root spans r'" "(r, m) \<in> (parent_of spans)\<^sup>*" "(r', m) \<in> (parent_of spans)\<^sup>*"
  shows "r = r'"
proof -
  have "x = y" if "(x, y) \<in> (parent_of spans)\<^sup>*" "is_root spans y" for x y
    using that(1)
  proof (cases rule: rtranclE)
    case (step w)
    then have "hs_span_id (spans ! w) = ROOT_SPAN_ID" "w < length spans"
      using that(2) by (auto simp: parent_of_def is_root_def)
    with no show ?thesis by (metis nth_map nth_mem length_map)
  qed
  then show ?thesis using ancestors_in_line [OF d assms(5,6)] assms(3,4) by metis
qed

text \<open>C24: when the ids of the spans of an answer are distinct and differ from the id of the root, no span is
  its own ancestor and there is a root span, the viewer lists every span that descends from a root
  exactly once, and indents it by its distance from its root.\<close>

theorem viewer_lists_tree:
  assumes "distinct (map hs_span_id spans)" and "ROOT_SPAN_ID \<notin> set (map hs_span_id spans)"
    and "acyclic (parent_of spans)" and "is_root spans r0" and "length spans < fuel"
  shows "\<exists>s. sort_spans fuel spans = Some (Inr s) \<and> distinct (hs_sorted s)
    \<and> (\<forall>m e. (\<exists>r. is_root spans r \<and> (r, m) \<in> parent_of spans ^^ e) \<longleftrightarrow> (m \<in> set (hs_sorted s) \<and> hs_depth s m = Some e))"
proof -
  have "byparent spans ROOT_SPAN_ID \<noteq> None" using assms(4) by (auto simp: byparent_None is_root_def)
  then obtain roots where roots: "byparent spans ROOT_SPAN_ID = Some roots" by auto
  have root: "r \<in> set roots \<longleftrightarrow> is_root spans r" for r
    using set_byparent [OF roots] by (simp add: is_root_def)
  let ?N = "tree_nodes spans roots"
  have "distinct (map fst ?N)"
    unfolding tree_nodes_def map_concat map_map
  proof (rule distinct_concat_map)
    show "distinct roots" using set_byparent [OF roots] by simp
    show "distinct ((map fst \<circ> (\<lambda>r. pre_nodes (descendants (kids spans) r) (kids spans) r 0)) r)" for r
      using distinct_pre_nodes [OF assms(1,3)] by simp
    show "x = y" if "x \<in> set roots" "y \<in> set roots"
      "m \<in> set ((map fst \<circ> (\<lambda>r. pre_nodes (descendants (kids spans) r) (kids spans) r 0)) x)"
      "m \<in> set ((map fst \<circ> (\<lambda>r. pre_nodes (descendants (kids spans) r) (kids spans) r 0)) y)" for x y m
      using roots_apart [OF assms(1,2)] that fst_pre_nodes_reachable by (simp add: root) blast
  qed
  moreover from this have "map_of (rev ?N) m = Some e \<longleftrightarrow> (m, e) \<in> set ?N" for m e
    by (simp add: map_of_eq_Some_iff rev_map [symmetric])
  moreover have "(m, e) \<in> set ?N \<longleftrightarrow> (\<exists>r. is_root spans r \<and> (r, m) \<in> parent_of spans ^^ e)" for m e
    unfolding tree_nodes_path [OF assms(3)] using root by blast
  moreover have "(m, e) \<in> set ?N \<Longrightarrow> m \<in> set (map fst ?N)" for m e by force
  ultimately show ?thesis
    using sort_spans_eq [OF assms(3,5) roots] by (auto simp: image_iff) metis+
qed

definition example_span :: "string \<Rightarrow> string \<Rightarrow> hspan" where
  "example_span i p =
     \<lparr>hs_trace_id = ''1'', hs_span_id = i, hs_parent_id = p, hs_process_id = ''dn'', hs_description = ''read'',
      hs_start = Num 1, hs_stop = Num 3, hs_timeline = None\<rparr>"

definition example_answer :: "hspan list" where
  "example_answer = [example_span ''10'' ROOT_SPAN_ID, example_span ''11'' ''10'']"

lemma viewer_lists_tree_witness:
  "\<exists>s. sort_spans 3 example_answer = Some (Inr s) \<and> distinct (hs_sorted s) \<and> 1 \<in> set (hs_sorted s) \<and> hs_depth s 1 = Some 1"
proof -
  note defs = example_answer_def example_span_def ROOT_SPAN_ID_def
  have edge: "parent_of example_answer = {(0, 1)}"
    by (auto simp: parent_of_def defs less_Suc_eq nth_Cons')
  have "acyclic (parent_of example_answer)"
    unfolding edge by (rule acyclic_subset [OF wf_acyclic [OF wf_less_than]]) auto
  moreover have "is_root example_answer 0" by (simp add: is_root_def defs)
  moreover have "distinct (map hs_span_id example_answer)" "ROOT_SPAN_ID \<notin> set (map hs_span_id example_answer)"
    "length example_answer < 3"
    by (simp_all add: defs)
  ultimately obtain s where s: "sort_spans 3 example_answer = Some (Inr s)" "distinct (hs_sorted s)"
    "(\<exists>r. is_root example_answer r \<and> (r, 1) \<in> parent_of example_answer ^^ 1) \<longleftrightarrow>
       (1 \<in> set (hs_sorted s) \<and> hs_depth s 1 = Some 1)"
    using viewer_lists_tree [of example_answer 0 3] by blast
  have "(0, 1) \<in> parent_of example_answer ^^ 1" by (simp add: edge)
  then show ?thesis using s \<open>is_root example_answer 0\<close> by blast
qed

end
