(* ===== verification/Underscore.thy ===== *)
theory Underscore
  imports Js_Number
begin

text \<open>
  The collection functions of underscore.js (\<open>htrace-webapp/src/main/web/lib/underscore-1.7.0.js\<close>),
  which the viewer calls and which the collections of backbone.js offer as methods. A collection is an
  array, an object without a numeric \<open>length\<close> (its keys and values in the order of enumeration), or
  \<open>null\<close>. All values are of one type; callbacks are functions without effects on the collection, and
  what a callback of \<open>each\<close> changes is an explicit state. \<open>===\<close> and \<open><\<close> are parameters where values of
  any type may be compared (\<open>===\<close> is not reflexive on \<open>NaN\<close>). The missing value \<open>undefined\<close> is
  \<open>None\<close>. Names that clash with the library have the suffix \<open>_us\<close>.
\<close>

section \<open>Collections\<close>

datatype key = Index nat | Name string

datatype 'v coll = Absent | Array "'v list" | Object "(string \<times> 'v) list"

text \<open>The values that a loop reads as \<open>obj[currentKey]\<close>, each with its key.\<close>

fun entries :: "'v coll \<Rightarrow> ('v \<times> key) list" where
  "entries Absent = []"
| "entries (Array xs) = zip xs (map Index [0..<length xs])"
| "entries (Object ps) = map (\<lambda>(k, v). (v, Name k)) ps"

fun keys_us :: "'v coll \<Rightarrow> key list" where
  "keys_us Absent = []"
| "keys_us (Array xs) = map Index [0..<length xs]"
| "keys_us (Object ps) = map (\<lambda>(k, v). Name k) ps"

definition values_us :: "'v coll \<Rightarrow> 'v list" where
  "values_us obj = map fst (entries obj)"

definition each :: "'v coll \<Rightarrow> ('v \<Rightarrow> key \<Rightarrow> 's \<Rightarrow> 's) \<Rightarrow> 's \<Rightarrow> 's" where
  "each obj iteratee s = fold (\<lambda>(v, k). iteratee v k) (entries obj) s"

definition map_us :: "'v coll \<Rightarrow> ('v \<Rightarrow> key \<Rightarrow> 'b) \<Rightarrow> 'b list" where
  "map_us obj iteratee = map (\<lambda>(v, k). iteratee v k) (entries obj)"

definition pluck :: "'v coll \<Rightarrow> ('v \<Rightarrow> 'b) \<Rightarrow> 'b list" where
  "pluck obj property = map_us obj (\<lambda>v k. property v)"

text \<open>Without a memo, the first (or last) value is the memo; a collection without one is an error.\<close>

datatype reduce_error = ReduceOfEmpty

definition reduce :: "'v coll \<Rightarrow> ('v \<Rightarrow> 'v \<Rightarrow> key \<Rightarrow> 'v) \<Rightarrow> 'v option \<Rightarrow> reduce_error + 'v" where
  "reduce obj iteratee memo =
     (case memo of
        Some m \<Rightarrow> Inr (fold (\<lambda>(v, k) m. iteratee m v k) (entries obj) m)
      | None \<Rightarrow>
          (case entries obj of
             [] \<Rightarrow> Inl ReduceOfEmpty
           | (v0, k0) # es \<Rightarrow> Inr (fold (\<lambda>(v, k) m. iteratee m v k) es v0)))"

definition reduceRight :: "'v coll \<Rightarrow> ('v \<Rightarrow> 'v \<Rightarrow> key \<Rightarrow> 'v) \<Rightarrow> 'v option \<Rightarrow> reduce_error + 'v" where
  "reduceRight obj iteratee memo =
     (case memo of
        Some m \<Rightarrow> Inr (fold (\<lambda>(v, k) m. iteratee m v k) (rev (entries obj)) m)
      | None \<Rightarrow>
          (case rev (entries obj) of
             [] \<Rightarrow> Inl ReduceOfEmpty
           | (v0, k0) # es \<Rightarrow> Inr (fold (\<lambda>(v, k) m. iteratee m v k) es v0)))"

text \<open>\<open>some\<close> stops at the first value that the test accepts; \<open>find\<close> runs it with a test that also
  stores the value.\<close>

fun some_loop :: "('v \<Rightarrow> key \<Rightarrow> 's \<Rightarrow> bool \<times> 's) \<Rightarrow> ('v \<times> key) list \<Rightarrow> 's \<Rightarrow> bool \<times> 's" where
  "some_loop test [] s = (False, s)"
| "some_loop test ((v, k) # es) s =
     (case test v k s of (True, s') \<Rightarrow> (True, s') | (False, s') \<Rightarrow> some_loop test es s')"

definition some_us :: "'v coll \<Rightarrow> ('v \<Rightarrow> key \<Rightarrow> bool) \<Rightarrow> bool" where
  "some_us obj predicate = fst (some_loop (\<lambda>v k s. (predicate v k, s)) (entries obj) ())"

definition find_us :: "'v coll \<Rightarrow> ('v \<Rightarrow> key \<Rightarrow> bool) \<Rightarrow> 'v option" where
  "find_us obj predicate =
     snd (some_loop (\<lambda>v k result. if predicate v k then (True, Some v) else (False, result)) (entries obj) None)"

definition filter_us :: "'v coll \<Rightarrow> ('v \<Rightarrow> key \<Rightarrow> bool) \<Rightarrow> 'v list" where
  "filter_us obj predicate = each obj (\<lambda>v k results. if predicate v k then results @ [v] else results) []"

definition reject :: "'v coll \<Rightarrow> ('v \<Rightarrow> key \<Rightarrow> bool) \<Rightarrow> 'v list" where
  "reject obj predicate = filter_us obj (\<lambda>v k. \<not> predicate v k)"

fun every_loop :: "('v \<Rightarrow> key \<Rightarrow> bool) \<Rightarrow> ('v \<times> key) list \<Rightarrow> bool" where
  "every_loop predicate [] = True"
| "every_loop predicate ((v, k) # es) = (if \<not> predicate v k then False else every_loop predicate es)"

definition every_us :: "'v coll \<Rightarrow> ('v \<Rightarrow> key \<Rightarrow> bool) \<Rightarrow> bool" where
  "every_us obj predicate = every_loop predicate (entries obj)"

definition partition_us :: "'v coll \<Rightarrow> ('v \<Rightarrow> key \<Rightarrow> bool) \<Rightarrow> 'v list \<times> 'v list" where
  "partition_us obj predicate =
     each obj (\<lambda>v k (pass, fail). if predicate v k then (pass @ [v], fail) else (pass, fail @ [v])) ([], [])"

fun toArray :: "'v coll \<Rightarrow> 'v list" where
  "toArray Absent = []"
| "toArray (Array xs) = xs"
| "toArray (Object ps) = values_us (Object ps)"

fun size_us :: "'v coll \<Rightarrow> nat" where
  "size_us Absent = 0"
| "size_us (Array xs) = length xs"
| "size_us (Object ps) = length (keys_us (Object ps))"

section \<open>The largest and the smallest value\<close>

text \<open>Without an iteratee the values are compared; the result starts as \<open>-Infinity\<close>.\<close>

definition max_us :: "jsnum coll \<Rightarrow> jsnum" where
  "max_us obj = fold (\<lambda>value result. if value > result then value else result) (values_us obj) NegInf"

definition min_us :: "jsnum coll \<Rightarrow> jsnum" where
  "min_us obj = fold (\<lambda>value result. if value < result then value else result) (values_us obj) PosInf"

text \<open>
  With an iteratee, \<open>infinity\<close> is the number \<open>-Infinity\<close> (for \<open>min\<close>, \<open>Infinity\<close>) among the values.
\<close>

definition max_by :: "'v \<Rightarrow> 'v coll \<Rightarrow> ('v \<Rightarrow> key \<Rightarrow> jsnum) \<Rightarrow> 'v" where
  "max_by infinity obj iteratee =
     fst (each obj
       (\<lambda>value index (result, lastComputed).
          let computed = iteratee value index
          in if computed > lastComputed \<or> js_eq computed NegInf \<and> result = infinity
             then (value, computed) else (result, lastComputed))
       (infinity, NegInf))"

definition min_by :: "'v \<Rightarrow> 'v coll \<Rightarrow> ('v \<Rightarrow> key \<Rightarrow> jsnum) \<Rightarrow> 'v" where
  "min_by infinity obj iteratee =
     fst (each obj
       (\<lambda>value index (result, lastComputed).
          let computed = iteratee value index
          in if computed < lastComputed \<or> js_eq computed PosInf \<and> result = infinity
             then (value, computed) else (result, lastComputed))
       (infinity, PosInf))"

section \<open>Shuffling\<close>

text \<open>\<open>rnd\<close> is the result of \<open>Math.random()\<close>; a missing \<open>max\<close> is \<open>None\<close>.\<close>

definition random_us :: "rat \<Rightarrow> int \<Rightarrow> int option \<Rightarrow> int" where
  "random_us rnd mn mx =
     (let (mn, mx) = (case mx of None \<Rightarrow> (0, mn) | Some m \<Rightarrow> (mn, m))
      in mn + \<lfloor>rnd * of_int (mx - mn + 1)\<rfloor>)"

text \<open>\<open>Array(length)\<close> is an array of holes, which read as \<open>undefined\<close>.\<close>

definition shuffle_step :: "(nat \<Rightarrow> rat) \<Rightarrow> 'v list \<Rightarrow> nat \<Rightarrow> 'v option list \<Rightarrow> 'v option list" where
  "shuffle_step rnd xs index shuffled =
     (let rand = nat (random_us (rnd index) 0 (Some (int index)));
          shuffled = (if rand \<noteq> index then shuffled[index := shuffled ! rand] else shuffled)
      in shuffled[rand := Some (xs ! index)])"

definition shuffle_us :: "(nat \<Rightarrow> rat) \<Rightarrow> 'v coll \<Rightarrow> 'v option list" where
  "shuffle_us rnd obj =
     (let xs = values_us obj
      in fold (shuffle_step rnd xs) [0..<length xs] (replicate (length xs) None))"

datatype 'v sampled = One_value "'v option" | Some_values "'v option list"

definition sample :: "(nat \<Rightarrow> rat) \<Rightarrow> 'v coll \<Rightarrow> int option \<Rightarrow> bool \<Rightarrow> 'v sampled" where
  "sample rnd obj n guard =
     (case n of
        Some n \<Rightarrow>
          if guard then
            (let xs = values_us obj; i = random_us (rnd 0) (int (length xs) - 1) None
             in One_value (if 0 \<le> i \<and> i < int (length xs) then Some (xs ! nat i) else None))
          else Some_values (take (nat (max 0 n)) (shuffle_us rnd obj))
      | None \<Rightarrow>
          (let xs = values_us obj; i = random_us (rnd 0) (int (length xs) - 1) None
           in One_value (if 0 \<le> i \<and> i < int (length xs) then Some (xs ! nat i) else None)))"

section \<open>Sorting and searching\<close>

text \<open>The comparison of \<open>sortBy\<close>: \<open>undefined\<close> comes last, and equal criteria keep their order.\<close>

record 'v criterion =
  cr_value :: 'v
  cr_index :: nat
  cr_criteria :: jsnum

definition criterion_cmp :: "'v criterion \<Rightarrow> 'v criterion \<Rightarrow> int" where
  "criterion_cmp left right =
     (let a = cr_criteria left; b = cr_criteria right; tie = int (cr_index left) - int (cr_index right)
      in if \<not> js_eq a b then
           (if a > b \<or> a = Undef then 1 else if a < b \<or> b = Undef then -1 else tie)
         else tie)"

definition with_criteria :: "'v coll \<Rightarrow> ('v \<Rightarrow> key \<Rightarrow> jsnum) \<Rightarrow> 'v criterion list" where
  "with_criteria obj iteratee =
     map (\<lambda>(index, (value, k)). \<lparr>cr_value = value, cr_index = index, cr_criteria = iteratee value k\<rparr>)
       (enumerate 0 (entries obj))"

definition sortBy :: "'v coll \<Rightarrow> ('v \<Rightarrow> key \<Rightarrow> jsnum) \<Rightarrow> 'v list" where
  "sortBy obj iteratee = pluck (Array (sort_by criterion_cmp (with_criteria obj iteratee))) cr_value"

text \<open>
  \<open>low + high >>> 1\<close> is taken modulo \<open>2 ^ 32\<close>, so nothing says at once that the loop ends: \<open>None\<close> is
  a loop that does not. \<open>lt\<close> is \<open><\<close> on what the iteratee gives.
\<close>

partial_function (option) sortedIndex_loop ::
    "('c \<Rightarrow> 'c \<Rightarrow> bool) \<Rightarrow> ('v \<Rightarrow> 'c) \<Rightarrow> 'v list \<Rightarrow> 'c \<Rightarrow> nat \<Rightarrow> nat \<Rightarrow> nat option" where
  "sortedIndex_loop lt iteratee array value low high =
     (if low < high then
        let mid = ((low + high) mod 2 ^ 32) div 2
        in if lt (iteratee (array ! mid)) value then sortedIndex_loop lt iteratee array value (mid + 1) high
           else sortedIndex_loop lt iteratee array value low mid
      else Some low)"

definition sortedIndex :: "('c \<Rightarrow> 'c \<Rightarrow> bool) \<Rightarrow> 'v list \<Rightarrow> 'v \<Rightarrow> ('v \<Rightarrow> 'c) \<Rightarrow> nat option" where
  "sortedIndex lt array obj iteratee = sortedIndex_loop lt iteratee array (iteratee obj) 0 (length array)"

section \<open>Grouping\<close>

text \<open>The result object by its keys. (The key \<open>__proto__\<close>, which is no property, is not modelled.)\<close>

definition group_us ::
    "((string \<rightharpoonup> 'b) \<Rightarrow> 'v \<Rightarrow> string \<Rightarrow> (string \<rightharpoonup> 'b)) \<Rightarrow> 'v coll \<Rightarrow> ('v \<Rightarrow> key \<Rightarrow> string) \<Rightarrow> (string \<rightharpoonup> 'b)" where
  "group_us behavior obj iteratee =
     each obj (\<lambda>value index result. behavior result value (iteratee value index)) Map.empty"

definition groupBy :: "'v coll \<Rightarrow> ('v \<Rightarrow> key \<Rightarrow> string) \<Rightarrow> (string \<rightharpoonup> 'v list)" where
  "groupBy = group_us (\<lambda>result value k.
     case result k of Some vs \<Rightarrow> result(k \<mapsto> vs @ [value]) | None \<Rightarrow> result(k \<mapsto> [value]))"

definition indexBy :: "'v coll \<Rightarrow> ('v \<Rightarrow> key \<Rightarrow> string) \<Rightarrow> (string \<rightharpoonup> 'v)" where
  "indexBy = group_us (\<lambda>result value k. result(k \<mapsto> value))"

definition countBy :: "'v coll \<Rightarrow> ('v \<Rightarrow> key \<Rightarrow> string) \<Rightarrow> (string \<rightharpoonup> nat)" where
  "countBy = group_us (\<lambda>result value k.
     case result k of Some n \<Rightarrow> result(k \<mapsto> n + 1) | None \<Rightarrow> result(k \<mapsto> 1))"

section \<open>Arrays\<close>

text \<open>\<open>slice(start, end)\<close> of an array: negative positions count from the end.\<close>

definition slice :: "'v list \<Rightarrow> int \<Rightarrow> int option \<Rightarrow> 'v list" where
  "slice xs start stop =
     (let n = int (length xs);
          from = (if start < 0 then max (n + start) 0 else min start n);
          to = (case stop of None \<Rightarrow> n | Some e \<Rightarrow> if e < 0 then max (n + e) 0 else min e n)
      in take (nat (to - from)) (drop (nat from) xs))"

datatype 'v picked = Element "'v option" | Elements "'v list"

text \<open>\<open>None\<close> as the array is \<open>null\<close>, \<open>None\<close> as \<open>n\<close> a missing argument.\<close>

definition first_us :: "'v list option \<Rightarrow> int option \<Rightarrow> bool \<Rightarrow> 'v picked" where
  "first_us array n guard =
     (case array of
        None \<Rightarrow> Element None
      | Some xs \<Rightarrow>
          (case n of
             Some n \<Rightarrow>
               if guard then Element (if xs = [] then None else Some (xs ! 0))
               else if n < 0 then Elements [] else Elements (slice xs 0 (Some n))
           | None \<Rightarrow> Element (if xs = [] then None else Some (xs ! 0))))"

definition initial_us :: "'v list \<Rightarrow> int option \<Rightarrow> bool \<Rightarrow> 'v list" where
  "initial_us array n guard =
     slice array 0 (Some (max 0 (int (length array) - (case n of None \<Rightarrow> 1 | Some n \<Rightarrow> if guard then 1 else n))))"

definition last_us :: "'v list option \<Rightarrow> int option \<Rightarrow> bool \<Rightarrow> 'v picked" where
  "last_us array n guard =
     (case array of
        None \<Rightarrow> Element None
      | Some xs \<Rightarrow>
          (let one = Element (if xs = [] then None else Some (xs ! (length xs - 1)))
           in case n of
                Some n \<Rightarrow> if guard then one else Elements (slice xs (max (int (length xs) - n) 0) None)
              | None \<Rightarrow> one))"

definition rest_us :: "'v list \<Rightarrow> int option \<Rightarrow> bool \<Rightarrow> 'v list" where
  "rest_us array n guard = slice array (case n of None \<Rightarrow> 1 | Some n \<Rightarrow> if guard then 1 else n) None"

definition compact :: "('v \<Rightarrow> bool) \<Rightarrow> 'v list \<Rightarrow> 'v list" where
  "compact truthy array = filter_us (Array array) (\<lambda>v k. truthy v)"

text \<open>Arrays whose elements may be arrays.\<close>

datatype 'v nested = Leaf 'v | Nest "'v nested list"

fun is_nest :: "'v nested \<Rightarrow> bool" where
  "is_nest (Leaf v) = False"
| "is_nest (Nest vs) = True"

fun elements :: "'v nested \<Rightarrow> 'v nested list" where
  "elements (Leaf v) = []"
| "elements (Nest vs) = vs"

fun flatten_loop :: "bool \<Rightarrow> bool \<Rightarrow> 'v nested list \<Rightarrow> 'v nested list \<Rightarrow> 'v nested list" where
  "flatten_loop shallow strict [] output = output"
| "flatten_loop shallow strict (Leaf v # vs) output =
     flatten_loop shallow strict vs (if strict then output else output @ [Leaf v])"
| "flatten_loop shallow strict (Nest ws # vs) output =
     flatten_loop shallow strict vs (if shallow then output @ ws else flatten_loop shallow strict ws output)"

definition flatten_inner :: "bool \<Rightarrow> bool \<Rightarrow> 'v nested list \<Rightarrow> 'v nested list \<Rightarrow> 'v nested list" where
  "flatten_inner shallow strict input output =
     (if shallow \<and> every_us (Array input) (\<lambda>v k. is_nest v) then output @ concat (map elements input)
      else flatten_loop shallow strict input output)"

definition flatten_us :: "'v nested list \<Rightarrow> bool \<Rightarrow> 'v nested list" where
  "flatten_us array shallow = flatten_inner shallow False array []"

section \<open>Positions\<close>

datatype start_at = From_start | From_index int | Sorted_array

fun indexOf_loop :: "('v \<Rightarrow> 'v \<Rightarrow> bool) \<Rightarrow> 'v \<Rightarrow> int \<Rightarrow> 'v list \<Rightarrow> int" where
  "indexOf_loop eq item i [] = -1"
| "indexOf_loop eq item i (x # xs) = (if eq x item then i else indexOf_loop eq item (i + 1) xs)"

definition indexOf ::
    "('v \<Rightarrow> 'v \<Rightarrow> bool) \<Rightarrow> ('v \<Rightarrow> 'v \<Rightarrow> bool) \<Rightarrow> 'v list option \<Rightarrow> 'v \<Rightarrow> start_at \<Rightarrow> int option" where
  "indexOf eq lt array item isSorted =
     (case array of
        None \<Rightarrow> Some (-1)
      | Some xs \<Rightarrow>
          (case isSorted of
             From_start \<Rightarrow> Some (indexOf_loop eq item 0 xs)
           | From_index n \<Rightarrow>
               (let i = (if n < 0 then max 0 (int (length xs) + n) else n)
                in Some (indexOf_loop eq item i (drop (nat i) xs)))
           | Sorted_array \<Rightarrow>
               map_option (\<lambda>i. if i < length xs \<and> eq (xs ! i) item then int i else -1)
                 (sortedIndex lt xs item (\<lambda>v. v))))"

fun lastIndexOf_loop :: "('v \<Rightarrow> 'v \<Rightarrow> bool) \<Rightarrow> 'v \<Rightarrow> 'v list \<Rightarrow> nat \<Rightarrow> int" where
  "lastIndexOf_loop eq item xs 0 = -1"
| "lastIndexOf_loop eq item xs (Suc idx) =
     (if idx < length xs \<and> eq (xs ! idx) item then int idx else lastIndexOf_loop eq item xs idx)"

definition lastIndexOf :: "('v \<Rightarrow> 'v \<Rightarrow> bool) \<Rightarrow> 'v list option \<Rightarrow> 'v \<Rightarrow> int option \<Rightarrow> int" where
  "lastIndexOf eq array item from =
     (case array of
        None \<Rightarrow> -1
      | Some xs \<Rightarrow>
          (let n = int (length xs);
               idx = (case from of None \<Rightarrow> n | Some f \<Rightarrow> if f < 0 then n + f + 1 else min n (f + 1))
           in lastIndexOf_loop eq item xs (nat idx)))"

definition index_in :: "('v \<Rightarrow> 'v \<Rightarrow> bool) \<Rightarrow> 'v list \<Rightarrow> 'v \<Rightarrow> int" where
  "index_in eq xs item = indexOf_loop eq item 0 xs"

fun contains :: "('v \<Rightarrow> 'v \<Rightarrow> bool) \<Rightarrow> 'v coll \<Rightarrow> 'v \<Rightarrow> bool" where
  "contains eq Absent target = False"
| "contains eq obj target = (index_in eq (values_us obj) target \<ge> 0)"

section \<open>Arrays as sets\<close>

definition uniq_sorted_step :: "('v \<Rightarrow> 'v \<Rightarrow> bool) \<Rightarrow> 'v \<Rightarrow> 'v list \<times> 'v option \<Rightarrow> 'v list \<times> 'v option" where
  "uniq_sorted_step eq value s =
     (let (result, seen) = s
      in case seen of
           None \<Rightarrow> (result @ [value], Some value)
         | Some x \<Rightarrow> (if \<not> eq x value then result @ [value] else result, Some value))"

definition uniq_by_step ::
    "('c \<Rightarrow> 'c \<Rightarrow> bool) \<Rightarrow> ('v \<Rightarrow> key \<Rightarrow> 'c) \<Rightarrow> 'v \<times> key \<Rightarrow> 'v list \<times> 'c list \<Rightarrow> 'v list \<times> 'c list" where
  "uniq_by_step eqc iteratee e s =
     (let (value, i) = e; (result, seen) = s; computed = iteratee value i
      in if index_in eqc seen computed < 0 then (result @ [value], seen @ [computed]) else (result, seen))"

definition uniq_step :: "('v \<Rightarrow> 'v \<Rightarrow> bool) \<Rightarrow> 'v \<Rightarrow> 'v list \<Rightarrow> 'v list" where
  "uniq_step eq value result = (if index_in eq result value < 0 then result @ [value] else result)"

definition uniq ::
    "('v \<Rightarrow> 'v \<Rightarrow> bool) \<Rightarrow> ('c \<Rightarrow> 'c \<Rightarrow> bool) \<Rightarrow> 'v list option \<Rightarrow> bool \<Rightarrow> ('v \<Rightarrow> key \<Rightarrow> 'c) option \<Rightarrow> 'v list" where
  "uniq eq eqc array isSorted iteratee =
     (case array of
        None \<Rightarrow> []
      | Some xs \<Rightarrow>
          if isSorted then fst (fold (uniq_sorted_step eq) xs ([], None))
          else (case iteratee of
                  Some f \<Rightarrow> fst (fold (uniq_by_step eqc f) (entries (Array xs)) ([], []))
                | None \<Rightarrow> fold (uniq_step eq) xs []))"

definition union_us :: "('v nested \<Rightarrow> 'v nested \<Rightarrow> bool) \<Rightarrow> 'v nested list \<Rightarrow> 'v nested list" where
  "union_us eq arguments = uniq eq eq (Some (flatten_inner True True arguments [])) False None"

text \<open>\<open>arrays\<close> are the arguments after the first.\<close>

fun in_all :: "('v \<Rightarrow> 'v \<Rightarrow> bool) \<Rightarrow> 'v coll list \<Rightarrow> 'v \<Rightarrow> bool" where
  "in_all eq [] item = True"
| "in_all eq (a # as) item = (if \<not> contains eq a item then False else in_all eq as item)"

definition intersection_step :: "('v \<Rightarrow> 'v \<Rightarrow> bool) \<Rightarrow> 'v coll list \<Rightarrow> 'v \<Rightarrow> 'v list \<Rightarrow> 'v list" where
  "intersection_step eq arrays item result =
     (if contains eq (Array result) item then result
      else if in_all eq arrays item then result @ [item] else result)"

definition intersection :: "('v \<Rightarrow> 'v \<Rightarrow> bool) \<Rightarrow> 'v list option \<Rightarrow> 'v coll list \<Rightarrow> 'v list" where
  "intersection eq array arrays =
     (case array of None \<Rightarrow> [] | Some xs \<Rightarrow> fold (intersection_step eq arrays) xs [])"

definition difference :: "('v nested \<Rightarrow> 'v nested \<Rightarrow> bool) \<Rightarrow> 'v nested coll \<Rightarrow> 'v nested list \<Rightarrow> 'v nested list" where
  "difference eq array arrays =
     (let rest = flatten_inner True True arrays []
      in filter_us array (\<lambda>value k. \<not> contains eq (Array rest) value))"

definition without_us :: "('v nested \<Rightarrow> 'v nested \<Rightarrow> bool) \<Rightarrow> 'v nested coll \<Rightarrow> 'v nested list \<Rightarrow> 'v nested list" where
  "without_us eq array values = difference eq array [Nest values]"

text \<open>The arguments of \<open>zip\<close> are arrays; \<open>max\<close> gives \<open>None\<close>, its \<open>-Infinity\<close>, when there is none.\<close>

definition zip_us :: "'v list list \<Rightarrow> 'v option list list" where
  "zip_us arguments =
     (case max_by None (Array (map Some arguments)) (\<lambda>a k. case a of None \<Rightarrow> Undef | Some xs \<Rightarrow> Num (of_nat (length xs))) of
        None \<Rightarrow> []
      | Some longest \<Rightarrow>
          map (\<lambda>i. pluck (Array arguments) (\<lambda>xs. if i < length xs then Some (xs ! i) else None)) [0..<length longest])"

definition object_pairs :: "(string \<times> 'v) list option \<Rightarrow> (string \<rightharpoonup> 'v)" where
  "object_pairs list =
     (case list of None \<Rightarrow> Map.empty | Some ps \<Rightarrow> fold (\<lambda>(k, v) result. result(k \<mapsto> v)) ps Map.empty)"

definition object_values :: "string list option \<Rightarrow> 'v list \<Rightarrow> (string \<rightharpoonup> 'v option)" where
  "object_values list vs =
     (case list of
        None \<Rightarrow> Map.empty
      | Some ks \<Rightarrow>
          fold (\<lambda>(i, k) result. result(k \<mapsto> (if i < length vs then Some (vs ! i) else None)))
            (enumerate 0 ks) Map.empty)"

text \<open>Numbers without rounding; a missing or zero step is 1.\<close>

fun range_loop :: "nat \<Rightarrow> rat \<Rightarrow> rat \<Rightarrow> rat list" where
  "range_loop 0 start step = []"
| "range_loop (Suc n) start step = start # range_loop n (start + step) step"

definition range_us :: "rat \<Rightarrow> rat option \<Rightarrow> rat option \<Rightarrow> rat list" where
  "range_us start stop step =
     (let (start, stop) = (case stop of None \<Rightarrow> (0, start) | Some e \<Rightarrow> (start, e));
          step = (case step of None \<Rightarrow> 1 | Some d \<Rightarrow> if d = 0 then 1 else d)
      in range_loop (nat (max \<lceil>(stop - start) / step\<rceil> 0)) start step)"

section \<open>Objects\<close>

definition pairs_us :: "(string \<times> 'v) list \<Rightarrow> (string \<times> 'v) list" where
  "pairs_us obj = map (\<lambda>(k, v). (k, v)) obj"

definition invert :: "(string \<times> string) list \<Rightarrow> (string \<rightharpoonup> string)" where
  "invert obj = fold (\<lambda>(k, v) result. result(v \<mapsto> k)) obj Map.empty"

text \<open>
  The properties that \<open>for in\<close> visits, each with whether it is an own property of the source.
\<close>

type_synonym 'v source = "(string \<times> 'v \<times> bool) list"

definition extend_source :: "'v source \<Rightarrow> (string \<rightharpoonup> 'v) \<Rightarrow> (string \<rightharpoonup> 'v)" where
  "extend_source source obj = fold (\<lambda>(prop, v, own) obj. if own then obj(prop \<mapsto> v) else obj) source obj"

definition extend_us :: "(string \<rightharpoonup> 'v) \<Rightarrow> 'v source list \<Rightarrow> (string \<rightharpoonup> 'v)" where
  "extend_us obj sources = fold extend_source sources obj"

text \<open>\<open>undef\<close> tells the value \<open>undefined\<close>; a property with it is filled in.\<close>

definition defaults_source :: "('v \<Rightarrow> bool) \<Rightarrow> 'v source \<Rightarrow> (string \<rightharpoonup> 'v) \<Rightarrow> (string \<rightharpoonup> 'v)" where
  "defaults_source undef source obj =
     fold (\<lambda>(prop, v, own) obj. if (case obj prop of None \<Rightarrow> True | Some w \<Rightarrow> undef w) then obj(prop \<mapsto> v) else obj) source obj"

definition defaults_us :: "('v \<Rightarrow> bool) \<Rightarrow> (string \<rightharpoonup> 'v) \<Rightarrow> 'v source list \<Rightarrow> (string \<rightharpoonup> 'v)" where
  "defaults_us undef obj sources = fold (defaults_source undef) sources obj"

definition pick_by :: "'v source \<Rightarrow> ('v \<Rightarrow> string \<Rightarrow> bool) \<Rightarrow> (string \<rightharpoonup> 'v)" where
  "pick_by obj iteratee =
     fold (\<lambda>(k, v, own) result. if iteratee v k then result(k \<mapsto> v) else result) obj Map.empty"

definition pick_keys :: "(string \<rightharpoonup> 'v) \<Rightarrow> string list \<Rightarrow> (string \<rightharpoonup> 'v)" where
  "pick_keys obj ks =
     fold (\<lambda>k result. case obj k of Some v \<Rightarrow> result(k \<mapsto> v) | None \<Rightarrow> result) ks Map.empty"

definition omit_by :: "'v source \<Rightarrow> ('v \<Rightarrow> string \<Rightarrow> bool) \<Rightarrow> (string \<rightharpoonup> 'v)" where
  "omit_by obj iteratee = pick_by obj (\<lambda>v k. \<not> iteratee v k)"

definition omit_keys :: "'v source \<Rightarrow> string list \<Rightarrow> (string \<rightharpoonup> 'v)" where
  "omit_keys obj ks = pick_by obj (\<lambda>v k. \<not> contains (=) (Array ks) k)"

text \<open>\<open>matches(attrs)\<close>: the predicate that tells the objects with these properties.\<close>

fun matches_loop :: "('v \<Rightarrow> 'v \<Rightarrow> bool) \<Rightarrow> (string \<times> 'v) list \<Rightarrow> (string \<rightharpoonup> 'v) \<Rightarrow> bool" where
  "matches_loop eq [] obj = True"
| "matches_loop eq ((k, v) # ps) obj =
     (case obj k of None \<Rightarrow> False | Some w \<Rightarrow> if \<not> eq v w then False else matches_loop eq ps obj)"

definition matches_us :: "('v \<Rightarrow> 'v \<Rightarrow> bool) \<Rightarrow> (string \<times> 'v) list \<Rightarrow> (string \<rightharpoonup> 'v) option \<Rightarrow> bool" where
  "matches_us eq attrs obj =
     (case obj of None \<Rightarrow> pairs_us attrs = [] | Some obj \<Rightarrow> matches_loop eq (pairs_us attrs) obj)"

definition where_us :: "('v \<Rightarrow> 'v \<Rightarrow> bool) \<Rightarrow> (string \<rightharpoonup> 'v) option coll \<Rightarrow> (string \<times> 'v) list \<Rightarrow> (string \<rightharpoonup> 'v) option list" where
  "where_us eq obj attrs = filter_us obj (\<lambda>v k. matches_us eq attrs v)"

definition findWhere :: "('v \<Rightarrow> 'v \<Rightarrow> bool) \<Rightarrow> (string \<rightharpoonup> 'v) option coll \<Rightarrow> (string \<times> 'v) list \<Rightarrow> (string \<rightharpoonup> 'v) option option" where
  "findWhere eq obj attrs = find_us obj (\<lambda>v k. matches_us eq attrs v)"

definition times_us :: "int \<Rightarrow> (nat \<Rightarrow> 'b) \<Rightarrow> 'b list" where
  "times_us n iteratee = map iteratee [0..<nat n]"

end
