(* ===== verification/Underscore_Props.thy ===== *)
theory Underscore_Props
  imports Underscore
begin

text \<open>
  What the functions of underscore.js compute, in terms of the functions on lists: the loops over a
  collection, the searches, the set operations, the shuffle, the sort and the binary search.
\<close>

section \<open>Loops\<close>

lemma map_fst_entries [simp]: "map fst (entries (Array xs)) = xs"
  by simp

lemma values_Array [simp]: "values_us (Array xs) = xs"
  by (simp add: values_us_def)

lemma fold_entries: "fold (\<lambda>(v, k). f v) (entries (Array xs)) s = fold f xs s"
proof -
  have "fold (\<lambda>(v, k). f v) es s = fold f (map fst es) s" for es  and s
    by (induction es arbitrary: s) (auto split: prod.split)
  from this [of "entries (Array xs)" s] show ?thesis by (simp only: map_fst_entries)
qed

lemma each_Array: "each (Array xs) (\<lambda>v k. f v) s = fold f xs s"
  unfolding each_def by (rule fold_entries)

lemma filter_us_entries: "filter_us obj p = map fst (filter (\<lambda>(v, k). p v k) (entries obj))"
proof -
  have "fold (\<lambda>(v, k) results. if p v k then results @ [v] else results) es rs
      = rs @ map fst (filter (\<lambda>(v, k). p v k) es)" for es rs
    by (induction es arbitrary: rs) (auto split: prod.split)
  then show ?thesis by (simp add: filter_us_def each_def)
qed

lemma filter_us_Array: "filter_us (Array xs) (\<lambda>v k. p v) = filter p xs"
proof -
  have "map fst (filter (\<lambda>(v, k). p v) es) = filter p (map fst es)" for es :: "('a \<times> key) list"
    by (induction es) auto
  then show ?thesis unfolding filter_us_entries by (simp only: map_fst_entries)
qed

lemma reject_Array: "reject (Array xs) (\<lambda>v k. p v) = filter (\<lambda>v. \<not> p v) xs"
  unfolding reject_def by (rule filter_us_Array)

lemma some_loop_iff: "fst (some_loop (\<lambda>v k s. (p v k, s)) es s) \<longleftrightarrow> (\<exists>(v, k)\<in>set es. p v k)"
  by (induction es) (auto split: bool.split)

lemma some_us_iff: "some_us obj p \<longleftrightarrow> (\<exists>(v, k)\<in>set (entries obj). p v k)"
  unfolding some_us_def by (rule some_loop_iff)

lemma every_us_iff: "every_us obj p \<longleftrightarrow> (\<forall>(v, k)\<in>set (entries obj). p v k)"
proof -
  have "every_loop p es \<longleftrightarrow> (\<forall>(v, k)\<in>set es. p v k)" for es
    by (induction es) (auto split: if_splits)
  then show ?thesis by (simp add: every_us_def)
qed

lemma find_us_entries: "find_us obj p = map_option fst (List.find (\<lambda>(v, k). p v k) (entries obj))"
proof -
  have "snd (some_loop (\<lambda>v k r. if p v k then (True, Some v) else (False, r)) es None)
      = map_option fst (List.find (\<lambda>(v, k). p v k) es)" for es
    by (induction es) auto
  then show ?thesis by (simp add: find_us_def)
qed

lemma partition_us_entries: "partition_us obj p = (filter_us obj p, reject obj p)"
proof -
  have "fold (\<lambda>(v, k) (pass, fail). if p v k then (pass @ [v], fail) else (pass, fail @ [v])) es (ps, fs)
      = (ps @ map fst (filter (\<lambda>(v, k). p v k) es), fs @ map fst (filter (\<lambda>(v, k). \<not> p v k) es))" for es ps fs
    by (induction es arbitrary: ps fs) (auto split: prod.split)
  then show ?thesis by (simp add: partition_us_def each_def reject_def filter_us_entries)
qed

section \<open>Positions and sets\<close>

lemma indexOf_loop_neg: "0 \<le> i \<Longrightarrow> indexOf_loop eq item i xs < 0 \<longleftrightarrow> \<not> (\<exists>x\<in>set xs. eq x item)"
  by (induction xs arbitrary: i) auto

lemma indexOf_loop_first:
  "0 \<le> i \<Longrightarrow> \<exists>x\<in>set xs. eq x item \<Longrightarrow>
     indexOf_loop eq item i xs = i + int (length (takeWhile (\<lambda>x. \<not> eq x item) xs))"
proof (induction xs arbitrary: i)
  case (Cons x xs)
  show ?case
  proof (cases "eq x item")
    case False
    then have "indexOf_loop eq item (i + 1) xs = i + 1 + int (length (takeWhile (\<lambda>x. \<not> eq x item) xs))"
      using Cons.prems by (intro Cons.IH) auto
    with False show ?thesis by simp
  qed simp
qed simp

lemma contains_Array: "contains eq (Array xs) item \<longleftrightarrow> (\<exists>x\<in>set xs. eq x item)"
  using indexOf_loop_neg [of 0 eq item xs] by (auto simp: index_in_def not_less [symmetric])

lemma index_in_neg: "index_in eq xs item < 0 \<longleftrightarrow> \<not> (\<exists>x\<in>set xs. eq x item)"
  by (simp add: index_in_def indexOf_loop_neg)

lemma in_all_iff: "in_all eq as item \<longleftrightarrow> (\<forall>a\<in>set as. contains eq a item)"
  by (induction as) auto

text \<open>On values where \<open>===\<close> is equality, the set operations are those of sets, without duplicates.\<close>

lemma fold_uniq_step:
  "set (fold (uniq_step (=)) xs rs) = set rs \<union> set xs \<and> (distinct rs \<longrightarrow> distinct (fold (uniq_step (=)) xs rs))"
  by (induction xs arbitrary: rs) (auto simp: uniq_step_def index_in_neg)

lemma uniq_correct: "set (uniq (=) eqc (Some xs) False None) = set xs \<and> distinct (uniq (=) eqc (Some xs) False None)"
  using fold_uniq_step [of xs "[]"] by (simp add: uniq_def)

lemma uniq_sorted_remdups_adj: "uniq (=) eqc (Some xs) True f = remdups_adj xs"
proof -
  have step: "fst (fold (uniq_sorted_step (=)) ys (rs @ [x], Some x)) = rs @ remdups_adj (x # ys)" for ys rs x
  proof (induction ys arbitrary: rs x)
    case (Cons y ys)
    show ?case
      using Cons.IH [of rs x] Cons.IH [of "rs @ [x]" y] by (cases "x = y") (simp_all add: uniq_sorted_step_def)
  qed simp
  show ?thesis
  proof (cases xs)
    case (Cons y ys)
    then show ?thesis using step [of ys "[]" y] by (simp add: uniq_def uniq_sorted_step_def)
  qed (simp add: uniq_def)
qed

lemma intersection_correct:
  "set (intersection (=) (Some xs) as) = {x \<in> set xs. \<forall>a\<in>set as. contains (=) a x}
   \<and> distinct (intersection (=) (Some xs) as)"
proof -
  have "set (fold (intersection_step (=) as) xs rs) = set rs \<union> {x \<in> set xs. \<forall>a\<in>set as. contains (=) a x}
      \<and> (distinct rs \<longrightarrow> distinct (fold (intersection_step (=) as) xs rs))" for rs
    by (induction xs arbitrary: rs) (auto simp: intersection_step_def contains_Array in_all_iff simp del: contains.simps)
  from this [of "[]"] show ?thesis by (simp add: intersection_def)
qed

section \<open>Shuffling\<close>

lemma random_us_range:
  assumes "0 \<le> r" "r < 1" "0 \<le> n"
  shows "0 \<le> random_us r 0 (Some n) \<and> random_us r 0 (Some n) \<le> n"
proof -
  have "r * of_int (n + 1) < of_int (n + 1)" using assms by simp
  then have "\<lfloor>r * of_int (n + 1)\<rfloor> < n + 1" unfolding floor_less_iff .
  moreover have "0 \<le> \<lfloor>r * of_int (n + 1)\<rfloor>" using assms by simp
  ultimately show ?thesis by (simp add: random_us_def)
qed

lemma shuffle_step_prefix:
  assumes r: "0 \<le> rnd n" "rnd n < 1" and s: "length s = length xs" "n < length xs" "mset (take n s) = mset (map Some (take n xs))"
  shows "length (shuffle_step rnd xs n s) = length xs
    \<and> mset (take (Suc n) (shuffle_step rnd xs n s)) = mset (map Some (take (Suc n) xs))"
proof -
  define k where "k = nat (random_us (rnd n) 0 (Some (int n)))"
  have k: "k \<le> n" using random_us_range [of "rnd n" "int n"] r by (simp add: k_def nat_le_iff)
  have step: "shuffle_step rnd xs n s = (if k \<noteq> n then s[n := s ! k] else s)[k := Some (xs ! n)]"
    by (simp add: shuffle_step_def k_def Let_def)
  have xs: "map Some (take (Suc n) xs) = map Some (take n xs) @ [Some (xs ! n)]"
    using s(2) by (simp add: take_Suc_conv_app_nth)
  show ?thesis
  proof (cases "k = n")
    case True
    then have "take (Suc n) (shuffle_step rnd xs n s) = take n s @ [Some (xs ! n)]"
      using s(1,2) by (simp add: step take_Suc_conv_app_nth)
    then show ?thesis using True s xs by (simp add: step)
  next
    case False
    with k have kn: "k < n" by simp
    have "take (Suc n) (shuffle_step rnd xs n s) = (take n s)[k := Some (xs ! n)] @ [s ! k]"
      using kn s(1,2) by (simp add: step take_Suc_conv_app_nth take_update_swap list_update_append)
    moreover have "mset ((take n s)[k := Some (xs ! n)]) = add_mset (Some (xs ! n)) (mset (take n s) - {#s ! k#})"
      using kn s(1,2) by (simp add: mset_update)
    moreover have "s ! k \<in># mset (take n s)"
      using kn s(1,2) by (auto simp: in_set_conv_nth intro!: exI [of _ k])
    ultimately show ?thesis using False s xs by (simp add: step)
  qed
qed

text \<open>Whatever the random numbers are, shuffling loses and invents nothing.\<close>

lemma shuffle_permutes:
  assumes "\<And>i. 0 \<le> rnd i \<and> rnd i < 1"
  shows "mset (shuffle_us rnd obj) = mset (map Some (values_us obj))"
proof -
  let ?xs = "values_us obj"
  have "length (fold (shuffle_step rnd ?xs) [0..<n] (replicate (length ?xs) None)) = length ?xs
      \<and> mset (take n (fold (shuffle_step rnd ?xs) [0..<n] (replicate (length ?xs) None))) = mset (map Some (take n ?xs))"
    if "n \<le> length ?xs" for n
    using that
  proof (induction n)
    case (Suc n)
    then show ?case using assms [of n] by (simp add: shuffle_step_prefix)
  qed simp
  from this [OF order_refl]
  have "length (shuffle_us rnd obj) = length ?xs" "mset (take (length ?xs) (shuffle_us rnd obj)) = mset (map Some ?xs)"
    unfolding shuffle_us_def Let_def take_all [OF order_refl] by blast+
  then show ?thesis by (metis take_all order_refl)
qed

section \<open>Sorting and grouping\<close>

text \<open>Among numbers, \<open>sortBy\<close> is the stable sort of the library.\<close>

lemma criterion_cmp_le:
  assumes "cr_criteria a = Num p" "cr_criteria b = Num q" "cr_index a < cr_index b"
  shows "criterion_cmp a b \<le> 0 \<longleftrightarrow> p \<le> q"
  using assms by (auto simp: criterion_cmp_def Let_def less_jsnum_def)

lemma map_insert_by_criterion:
  assumes "\<forall>y\<in>set ys. cr_index x < cr_index y \<and> cr_criteria y = Num (f (cr_value y))" "cr_criteria x = Num (f (cr_value x))"
  shows "map cr_value (insert_by criterion_cmp x ys) = insort_key f (cr_value x) (map cr_value ys)"
  using assms by (induction ys) (simp_all add: criterion_cmp_le)

lemma sort_by_criteria:
  "map cr_value (sort_by criterion_cmp
     (map (\<lambda>(index, value, k). \<lparr>cr_value = value, cr_index = index, cr_criteria = Num (f value)\<rparr>) (enumerate n es)))
   = sort_key f (map fst es)"
proof (induction es arbitrary: n)
  case (Cons e es)
  let ?c = "\<lambda>(index, value, k). \<lparr>cr_value = value, cr_index = index, cr_criteria = Num (f value)\<rparr>"
  have "\<forall>y\<in>set (sort_by criterion_cmp (map ?c (enumerate (Suc n) es))). n < cr_index y \<and> cr_criteria y = Num (f (cr_value y))"
    by (auto simp: in_set_enumerate_eq)
  then have "map cr_value (insert_by criterion_cmp (?c (n, e)) (sort_by criterion_cmp (map ?c (enumerate (Suc n) es))))
      = insort_key f (cr_value (?c (n, e))) (map cr_value (sort_by criterion_cmp (map ?c (enumerate (Suc n) es))))"
    by (intro map_insert_by_criterion) (cases e, simp)+
  then show ?case unfolding Cons.IH by (cases e) simp
qed simp

lemma sortBy_is_sort_key: "sortBy (Array xs) (\<lambda>v k. Num (f v)) = sort_key f xs"
proof -
  have "pluck (Array cs) g = map g (map fst (entries (Array cs)))" for cs and g :: "'a criterion \<Rightarrow> 'a"
    unfolding pluck_def map_us_def map_map comp_def case_prod_unfold ..
  then show ?thesis
    using sort_by_criteria [of f 0 "entries (Array xs)"]
    by (simp only: sortBy_def with_criteria_def map_fst_entries)
qed

lemma groupBy_Array:
  "groupBy (Array xs) (\<lambda>v k. f v) key = (if key \<in> f ` set xs then Some (filter (\<lambda>v. f v = key) xs) else None)"
proof -
  let ?step = "\<lambda>v r. case r (f v) of Some vs \<Rightarrow> r(f v \<mapsto> vs @ [v]) | None \<Rightarrow> r(f v \<mapsto> [v])"
  have "fold ?step xs r key =
      (case r key of
         Some vs \<Rightarrow> Some (vs @ filter (\<lambda>v. f v = key) xs)
       | None \<Rightarrow> if key \<in> f ` set xs then Some (filter (\<lambda>v. f v = key) xs) else None)" for r
    by (induction xs arbitrary: r) (auto split: option.splits)
  from this [of Map.empty] show ?thesis
    unfolding groupBy_def group_us_def each_Array by simp
qed

text \<open>The widget manager and the search view call \<open>without\<close> with one value.\<close>

lemma flatten_inner_Nest: "flatten_inner True True [Nest vs] [] = vs"
  by (simp add: flatten_inner_def every_us_iff)

lemma without_us_is_without: "without_us (=) (Array (map Leaf xs)) [Leaf x] = map Leaf (Htrace_Prelude.without xs x)"
proof -
  have "without_us (=) (Array (map Leaf xs)) [Leaf x] = filter (\<lambda>v. \<not> contains (=) (Array [Leaf x]) v) (map Leaf xs)"
    unfolding without_us_def difference_def flatten_inner_Nest Let_def by (rule filter_us_Array)
  then show ?thesis
    by (auto simp: contains_Array without_def filter_map comp_def eq_commute simp del: contains.simps)
qed

section \<open>Binary search\<close>

text \<open>The loop keeps: everything before \<open>low\<close> is less, nothing from \<open>high\<close> on is.\<close>

lemma sortedIndex_loop_correct:
  assumes "\<And>i j. i \<le> j \<Longrightarrow> j < length xs \<Longrightarrow> lt (f (xs ! j)) v \<Longrightarrow> lt (f (xs ! i)) v"
    and "length xs < 2 ^ 31" and "low \<le> high" "high \<le> length xs"
    and "\<forall>i<low. lt (f (xs ! i)) v" "\<forall>i. high \<le> i \<longrightarrow> i < length xs \<longrightarrow> \<not> lt (f (xs ! i)) v"
  shows "\<exists>p. sortedIndex_loop lt f xs v low high = Some p \<and> p \<le> length xs
    \<and> (\<forall>i<length xs. i < p \<longleftrightarrow> lt (f (xs ! i)) v)"
  using assms(3-6)
proof (induction "high - low" arbitrary: low high rule: less_induct)
  case less
  show ?case
  proof (cases "low < high")
    case False
    then have eq: "high = low" using less.prems(1) by simp
    have "sortedIndex_loop lt f xs v low high = Some low" using False by (subst sortedIndex_loop.simps) simp
    moreover have "i < low \<longleftrightarrow> lt (f (xs ! i)) v" if "i < length xs" for i
      using less.prems(3,4) that eq by (metis not_less)
    ultimately show ?thesis using less.prems(1,2) by auto
  next
    case True
    define mid where "mid = (low + high) div 2"
    have mid: "low \<le> mid" "mid < high" "((low + high) mod 2 ^ 32) div 2 = mid"
      using True less.prems(2) assms(2) by (simp_all add: mid_def)
    show ?thesis
    proof (cases "lt (f (xs ! mid)) v")
      case lt: True
      have "sortedIndex_loop lt f xs v low high = sortedIndex_loop lt f xs v (mid + 1) high"
        by (subst sortedIndex_loop.simps) (use True mid lt in \<open>simp add: Let_def\<close>)
      moreover have "\<forall>i<mid + 1. lt (f (xs ! i)) v"
      proof (intro allI impI)
        fix i assume "i < mid + 1"
        then show "lt (f (xs ! i)) v" using assms(1) [of i mid] lt mid(2) less.prems(2) by simp
      qed
      ultimately show ?thesis
        using less.hyps [of high "mid + 1"] mid less.prems by simp
    next
      case False
      have "sortedIndex_loop lt f xs v low high = sortedIndex_loop lt f xs v low mid"
        by (subst sortedIndex_loop.simps) (use True mid False in \<open>simp add: Let_def\<close>)
      moreover have "\<forall>i. mid \<le> i \<longrightarrow> i < length xs \<longrightarrow> \<not> lt (f (xs ! i)) v"
        using assms(1) False by blast
      ultimately show ?thesis
        using less.hyps [of mid low] mid less.prems by simp
    qed
  qed
qed

text \<open>C39: on an array that is sorted by the iteratee and has fewer than two thousand million
  elements, the binary search returns, and with the same position as a scan from the left: the number
  of leading elements that are less than the new one.\<close>

theorem sortedIndex_is_scan:
  assumes "\<And>i j. i \<le> j \<Longrightarrow> j < length xs \<Longrightarrow> lt (f (xs ! j)) (f x) \<Longrightarrow> lt (f (xs ! i)) (f x)"
    and "length xs < 2 ^ 31"
  shows "sortedIndex lt xs x f = Some (length (takeWhile (\<lambda>y. lt (f y) (f x)) xs))"
proof -
  obtain p where p: "sortedIndex lt xs x f = Some p" "p \<le> length xs" "\<forall>i<length xs. i < p \<longleftrightarrow> lt (f (xs ! i)) (f x)"
    using sortedIndex_loop_correct [of xs lt f "f x" 0 "length xs"] assms by (auto simp: sortedIndex_def)
  have "takeWhile (\<lambda>y. lt (f y) (f x)) xs = take p xs"
    by (rule takeWhile_eq_take_P_nth) (use p in auto)
  with p show ?thesis by simp
qed

lemma sortedIndex_is_scan_witness:
  "sortedIndex (<) [10, 20, 20, 30 :: int] 20 (\<lambda>x. x) = Some (length (takeWhile (\<lambda>y. y < 20) [10, 20, 20, 30 :: int]))"
proof (rule sortedIndex_is_scan)
  fix i j :: nat
  assume "i \<le> j" "j < length [10, 20, 20, 30 :: int]" "[10, 20, 20, 30] ! j < (20 :: int)"
  then show "[10, 20, 20, 30] ! i < (20 :: int)"
    by (auto simp: less_Suc_eq le_less nth_Cons' split: if_splits)
qed simp

end
