(* ===== verification/Debounce.thy ===== *)
theory Debounce
  imports Results_View
begin

text \<open>
  \<open>_.debounce\<close> of underscore.js (\<open>htrace-webapp/src/main/web/lib/underscore-1.7.0.js\<close>), by which the
  results view renders itself again 250 ms after the window was resized
  (\<open>htrace-webapp/src/main/web/app/search_results_view.js\<close>). Times are milliseconds of \<open>_.now()\<close>; the
  pending timer is the time from which it may fire. The calls of the wrapped function are recorded with
  their time; the function does not call its debounced version. The state of an invocation is its
  argument list (\<open>args\<close>, set and reset together with \<open>context\<close>).
\<close>

record 'a debouncer =
  db_timeout :: "int option"
  db_args :: "'a option"
  db_timestamp :: int
  db_runs :: "(int \<times> 'a option) list"

definition new_debounced :: "'a debouncer" where
  "new_debounced = \<lparr>db_timeout = None, db_args = None, db_timestamp = 0, db_runs = []\<rparr>"

definition db_apply :: "int \<Rightarrow> 'a debouncer \<Rightarrow> 'a debouncer" where
  "db_apply now s = s\<lparr>db_runs := db_runs s @ [(now, db_args s)]\<rparr>"

definition debounce_later :: "int \<Rightarrow> bool \<Rightarrow> int \<Rightarrow> 'a debouncer \<Rightarrow> 'a debouncer" where
  "debounce_later wait immediate now s =
     (let last = now - db_timestamp s
      in if last < wait \<and> last > 0 then s\<lparr>db_timeout := Some (now + (wait - last))\<rparr>
         else
           (let s = s\<lparr>db_timeout := None\<rparr>
            in if \<not> immediate then
                 (let s = db_apply now s
                  in if db_timeout s = None then s\<lparr>db_args := None\<rparr> else s)
               else s))"

definition debounce_call :: "int \<Rightarrow> bool \<Rightarrow> int \<Rightarrow> 'a \<Rightarrow> 'a debouncer \<Rightarrow> 'a debouncer" where
  "debounce_call wait immediate now args s =
     (let s = s\<lparr>db_args := Some args, db_timestamp := now\<rparr>;
          callNow = (immediate \<and> db_timeout s = None);
          s = (if db_timeout s = None then s\<lparr>db_timeout := Some (now + wait)\<rparr> else s)
      in if callNow then (db_apply now s)\<lparr>db_args := None\<rparr> else s)"

section \<open>What may happen\<close>

text \<open>The clock does not go back, and a timer does not fire before its time.\<close>

inductive debounced :: "int \<Rightarrow> bool \<Rightarrow> int \<Rightarrow> (int \<times> 'a) list \<Rightarrow> 'a debouncer \<Rightarrow> bool" for wait immediate where
  start: "debounced wait immediate now [] new_debounced"
| call: "debounced wait immediate now calls s \<Longrightarrow> now \<le> t \<Longrightarrow>
    debounced wait immediate t (calls @ [(t, a)]) (debounce_call wait immediate t a s)"
| fire: "debounced wait immediate now calls s \<Longrightarrow> now \<le> t \<Longrightarrow> db_timeout s = Some due \<Longrightarrow> due \<le> t \<Longrightarrow>
    debounced wait immediate t calls (debounce_later wait immediate t s)"

inductive_cases debouncedE: "debounced wait immediate now calls s"

section \<open>The invariant\<close>

definition quiet_before :: "int \<Rightarrow> (int \<times> 'a) list \<Rightarrow> int \<Rightarrow> bool" where
  "quiet_before wait calls t \<longleftrightarrow>
     (\<exists>a. (t, a) \<in> set calls) \<or> (\<forall>(c, a)\<in>set calls. c < t \<longrightarrow> c + wait \<le> t)"

definition db_inv :: "int \<Rightarrow> int \<Rightarrow> (int \<times> 'a) list \<Rightarrow> 'a debouncer \<Rightarrow> bool" where
  "db_inv wait now calls s \<longleftrightarrow>
     (\<forall>(c, a)\<in>set calls. c \<le> now)
     \<and> (calls \<noteq> [] \<longrightarrow> db_timestamp s = fst (last calls) \<and> (\<forall>(c, a)\<in>set calls. c \<le> fst (last calls)))
     \<and> (\<forall>(t, a)\<in>set (db_runs s). t \<le> now \<and> quiet_before wait calls t \<and> a \<in> Some ` snd ` set calls)
     \<and> (case db_timeout s of
          Some due \<Rightarrow> calls \<noteq> [] \<and> db_args s = Some (snd (last calls)) \<and> due \<le> fst (last calls) + wait
        | None \<Rightarrow> calls \<noteq> [] \<longrightarrow> db_runs s \<noteq> [] \<and> snd (last (db_runs s)) = Some (snd (last calls)))"

lemma db_invD:
  assumes "db_inv wait now calls s"
  shows "\<forall>(c, a)\<in>set calls. c \<le> now"
    and "calls \<noteq> [] \<Longrightarrow> db_timestamp s = fst (last calls)"
    and "calls \<noteq> [] \<Longrightarrow> \<forall>(c, a)\<in>set calls. c \<le> fst (last calls)"
    and "\<forall>(t, a)\<in>set (db_runs s). t \<le> now \<and> quiet_before wait calls t \<and> a \<in> Some ` snd ` set calls"
    and "db_timeout s = Some due \<Longrightarrow> calls \<noteq> [] \<and> db_args s = Some (snd (last calls)) \<and> due \<le> fst (last calls) + wait"
  using assms unfolding db_inv_def by simp_all

lemma last_call_le: "db_inv wait now calls s \<Longrightarrow> calls \<noteq> [] \<Longrightarrow> fst (last calls) \<le> now"
  using db_invD(1) [of wait now calls s] last_in_set [of calls] by (cases "last calls") auto

lemma quiet_before_later: "quiet_before wait calls t \<Longrightarrow> t \<le> c \<Longrightarrow> quiet_before wait (calls @ [(c, a)]) t"
  by (auto simp: quiet_before_def)

lemma db_inv_call:
  assumes "db_inv wait now calls s" "now \<le> t" "0 < wait"
  shows "db_inv wait t (calls @ [(t, a)]) (debounce_call wait False t a s)"
proof -
  have runs: "db_runs (debounce_call wait False t a s) = db_runs s"
    and stamp: "db_timestamp (debounce_call wait False t a s) = t"
    and args: "db_args (debounce_call wait False t a s) = Some a"
    by (simp_all add: debounce_call_def Let_def)
  have due: "\<exists>due. db_timeout (debounce_call wait False t a s) = Some due \<and> due \<le> t + wait"
  proof (cases "db_timeout s")
    case (Some due)
    then have "calls \<noteq> []" "due \<le> fst (last calls) + wait" using db_invD(5) [OF assms(1)] by blast+
    moreover from this have "fst (last calls) \<le> now" using last_call_le [OF assms(1)] by blast
    ultimately show ?thesis using Some assms(2) by (simp add: debounce_call_def Let_def)
  qed (simp add: debounce_call_def Let_def)
  have old: "\<forall>(c, a)\<in>set calls. c \<le> t" using db_invD(1) [OF assms(1)] assms(2) by force
  have "\<forall>(u, b)\<in>set (db_runs s). u \<le> t \<and> quiet_before wait (calls @ [(t, a)]) u \<and> b \<in> Some ` snd ` set (calls @ [(t, a)])"
    using db_invD(4) [OF assms(1)] assms(2) by (force intro: quiet_before_later)
  then show ?thesis using due old by (auto simp: db_inv_def runs stamp args)
qed

lemma db_inv_fire:
  assumes inv: "db_inv wait now calls s" and t: "now \<le> t" and due: "db_timeout s = Some due" "due \<le> t"
  shows "db_inv wait t calls (debounce_later wait False t s)"
proof -
  have calls: "calls \<noteq> []" "db_args s = Some (snd (last calls))" "db_timestamp s = fst (last calls)"
    "\<forall>(c, a)\<in>set calls. c \<le> fst (last calls)"
    using db_invD(2,3,5) [OF inv] due(1) by blast+
  have before: "\<forall>(c, a)\<in>set calls. c \<le> t" using db_invD(1) [OF inv] t by force
  have last: "fst (last calls) \<le> t" using last_call_le [OF inv calls(1)] t by simp
  have runs: "\<forall>(u, b)\<in>set (db_runs s). u \<le> t \<and> quiet_before wait calls u \<and> b \<in> Some ` snd ` set calls"
    using db_invD(4) [OF inv] t by force
  show ?thesis
  proof (cases "t - fst (last calls) < wait \<and> 0 < t - fst (last calls)")
    case True
    then have "debounce_later wait False t s = s\<lparr>db_timeout := Some (fst (last calls) + wait)\<rparr>"
      by (simp add: debounce_later_def Let_def calls(3))
    then show ?thesis using calls before runs by (simp add: db_inv_def)
  next
    case False
    then have later: "debounce_later wait False t s = (db_apply t s)\<lparr>db_timeout := None, db_args := None\<rparr>"
      using False by (auto simp: debounce_later_def Let_def calls(3) db_apply_def)
    have "quiet_before wait calls t"
    proof (cases "t = fst (last calls)")
      case True
      then have "(t, snd (last calls)) \<in> set calls" using calls(1) by simp
      then show ?thesis by (auto simp: quiet_before_def)
    next
      case ne: False
      then have "fst (last calls) + wait \<le> t" using False last by simp
      then show ?thesis using calls(4) by (force simp: quiet_before_def)
    qed
    moreover have "Some (snd (last calls)) \<in> Some ` snd ` set calls" using calls(1) by simp
    ultimately show ?thesis using calls before runs by (simp add: db_inv_def later db_apply_def)
  qed
qed

lemma debounced_inv: "debounced wait False now calls s \<Longrightarrow> 0 < wait \<Longrightarrow> db_inv wait now calls s"
proof (induction rule: debounced.induct)
  case (start now)
  then show ?case by (simp add: db_inv_def new_debounced_def)
qed (simp_all add: db_inv_call db_inv_fire)

definition resize_wait :: int where
  "resize_wait = 250"

text \<open>C36: the resize handler of the results view, however the events of the window fall: it renders
  only when the window has not been resized for 250 ms, or has just been in the same millisecond; and
  after the last event either a timer is set for at most 250 ms later or the view was rendered for it.\<close>

theorem resize_debounced:
  assumes "debounced resize_wait False now calls s"
  shows "(\<forall>(t, a)\<in>set (db_runs s). quiet_before resize_wait calls t \<and> a \<in> Some ` snd ` set calls)
    \<and> (calls \<noteq> [] \<longrightarrow>
        (case db_timeout s of
           Some due \<Rightarrow> db_args s = Some (snd (last calls)) \<and> due \<le> fst (last calls) + resize_wait
         | None \<Rightarrow> db_runs s \<noteq> [] \<and> snd (last (db_runs s)) = Some (snd (last calls))))"
  using debounced_inv [OF assms] by (auto simp: db_inv_def resize_wait_def split: option.splits)

text \<open>Three events, the last when the timer fires: the view is rendered 50 ms after the second.\<close>

definition resized :: "unit debouncer" where
  "resized =
     debounce_later resize_wait False 250 (debounce_call resize_wait False 250 ()
       (debounce_call resize_wait False 200 () (debounce_call resize_wait False 0 () new_debounced)))"

lemma resized_reachable: "debounced resize_wait False 250 [(0, ()), (200, ()), (250, ())] resized"
proof -
  have "debounced resize_wait False 250 ((([] @ [(0, ())]) @ [(200, ())]) @ [(250, ())]) resized"
    unfolding resized_def
    by (rule debounced.fire [where due = 250 and now = 250],
        (rule debounced.call [where now = 200] debounced.call [where now = 0] debounced.start | simp)+)
       (simp_all add: debounce_call_def new_debounced_def resize_wait_def Let_def)
  then show ?thesis by simp
qed

lemma resize_debounced_witness:
  "quiet_before resize_wait [(0, ()), (200, ()), (250, ())] 250 \<and> db_runs resized = [(250, Some ())]"
proof -
  have runs: "db_runs resized = [(250, Some ())]"
    by (simp add: resized_def debounce_later_def debounce_call_def new_debounced_def resize_wait_def Let_def db_apply_def)
  show ?thesis using resize_debounced [OF resized_reachable] by (simp add: runs)
qed

end
