(* ===== verification/Modal_Dialog.thy ===== *)
theory Modal_Dialog
  imports Main
begin

text \<open>
  The modal dialogs of the viewer (\<open>htrace-webapp/src/main/web/app/modal.js\<close>): the element that shows
  the dialog, and the key handlers of the document, of which each call of \<open>showModal\<close> adds one. The
  templates of the page and the effect of a click on the first button of the dialog (in bootstrap, that
  it is hidden) are parameters.
\<close>

record modal =
  md_html :: string
  md_visible :: bool
  md_handlers :: nat

definition showModal :: "string \<Rightarrow> modal \<Rightarrow> modal" where
  "showModal html m = m\<lparr>md_html := html, md_visible := True, md_handlers := Suc (md_handlers m)\<rparr>"

definition showModalWarning :: "(string \<Rightarrow> string \<Rightarrow> string) \<Rightarrow> string \<Rightarrow> string \<Rightarrow> modal \<Rightarrow> modal" where
  "showModalWarning template title body m = showModal (template title body) m"

text \<open>
  A key press runs every handler that was there when it was dispatched; each of them removes all
  handlers and clicks when the key is enter. The result tells whether a handler returned \<open>false\<close>.
\<close>

fun press_loop :: "(modal \<Rightarrow> modal) \<Rightarrow> nat \<Rightarrow> nat \<Rightarrow> modal \<Rightarrow> modal \<times> bool" where
  "press_loop click which 0 m = (m, False)"
| "press_loop click which (Suc n) m =
     (if which = 13 then (fst (press_loop click which n (click (m\<lparr>md_handlers := 0\<rparr>))), True)
      else press_loop click which n m)"

definition keypress :: "(modal \<Rightarrow> modal) \<Rightarrow> nat \<Rightarrow> modal \<Rightarrow> modal \<times> bool" where
  "keypress click which m = press_loop click which (md_handlers m) m"

text \<open>Enter hides the dialog, once or more often.\<close>

lemma enter_hides:
  assumes "\<And>m. \<not> md_visible (click m)" "\<And>m. md_handlers (click m) = md_handlers m"
  shows "let (m', swallowed) = keypress click 13 (showModal html m)
         in \<not> md_visible m' \<and> md_handlers m' = 0 \<and> swallowed"
proof -
  have "\<not> md_visible m \<Longrightarrow> md_handlers m = 0 \<Longrightarrow>
      \<not> md_visible (fst (press_loop click 13 n m)) \<and> md_handlers (fst (press_loop click 13 n m)) = 0" for n m
    by (induction n arbitrary: m) (simp_all add: assms)
  then show ?thesis using assms by (simp add: keypress_def showModal_def case_prod_unfold)
qed

lemma other_keys_pass: "which \<noteq> 13 \<Longrightarrow> keypress click which m = (m, False)"
proof -
  assume "which \<noteq> 13"
  then have "press_loop click which n m = (m, False)" for n by (induction n) simp_all
  then show ?thesis by (simp add: keypress_def)
qed

text \<open>A dialog that is dismissed in another way leaves its handler: it takes the next enter key of the page.\<close>

lemma enter_swallowed_later:
  "snd (keypress click 13 ((showModal html m)\<lparr>md_visible := False\<rparr>))"
  by (simp add: keypress_def showModal_def)

end
