(* ===== verification/Event_Props.thy ===== *)
theory Event_Props
  imports Jquery_Events
begin

text \<open>
  The registry of jQuery against its specification: the bindings of each element are one list in the
  order in which they were made, \<open>on\<close> appends to it and \<open>off\<close> filters it. The handlers that are kept for an
  event type are then those of the delegated bindings, followed by those of the direct ones.
\<close>

section \<open>The specification\<close>

definition event_type :: "'h handle_obj \<Rightarrow> string" where
  "event_type obj = special_type (ho_selector obj) (ho_origType obj)"

definition delegated :: "'h handle_obj \<Rightarrow> bool" where
  "delegated obj \<longleftrightarrow> ho_selector obj \<noteq> None"

definition handlers_of :: "'h handle_obj list \<Rightarrow> string \<Rightarrow> 'h handlers option" where
  "handlers_of b t =
     (let ds = filter (\<lambda>obj. event_type obj = t \<and> delegated obj) b;
          ps = filter (\<lambda>obj. event_type obj = t \<and> \<not> delegated obj) b
      in if ds @ ps = [] then None else Some \<lparr>hl_objs = ds @ ps, hl_delegateCount = length ds\<rparr>)"

record ('e, 'h) bindings =
  bi_list :: "'e \<Rightarrow> 'h handle_obj list"
  bi_guid :: nat

definition no_bindings :: "('e, 'h) bindings" where
  "no_bindings = \<lparr>bi_list = (\<lambda>_. []), bi_guid = 1\<rparr>"

definition bind_word :: "'e \<Rightarrow> 'h \<Rightarrow> nat \<Rightarrow> string option \<Rightarrow> string \<Rightarrow> ('e, 'h) bindings \<Rightarrow> ('e, 'h) bindings" where
  "bind_word elem handler guid selector word b =
     (let (origType, ns) = split_type word
      in if origType = '''' then b
         else b\<lparr>bi_list := (bi_list b)(elem := bi_list b elem @
                [\<lparr>ho_origType = origType, ho_handler = handler, ho_guid = guid, ho_selector = selector,
                  ho_namespace = (case ns of None \<Rightarrow> [''''] | Some xs \<Rightarrow> xs)\<rparr>])\<rparr>)"

definition hit :: "nat option \<Rightarrow> string option \<Rightarrow> string \<Rightarrow> 'h handle_obj \<Rightarrow> bool" where
  "hit guid selector word obj =
     (let (origType, ns) = split_type word
      in if origType = '''' then removed True origType ns guid selector obj
         else special_type selector origType = event_type obj \<and> removed False origType ns guid selector obj)"

definition unbind_word :: "'e \<Rightarrow> nat option \<Rightarrow> string option \<Rightarrow> string \<Rightarrow> ('e, 'h) bindings \<Rightarrow> ('e, 'h) bindings" where
  "unbind_word elem guid selector word b =
     b\<lparr>bi_list := (bi_list b)(elem := filter (\<lambda>obj. \<not> hit guid selector word obj) (bi_list b elem))\<rparr>"

datatype ('e, 'h) event_op =
    On 'e string 'h "nat option" "string option"
  | Off 'e string "nat option" "string option"
  | Clean 'e

fun do_op :: "('e, 'h) event_op \<Rightarrow> ('e, 'h) events \<Rightarrow> ('e, 'h) events" where
  "do_op (On elem types handler guid selector) s = event_add elem types handler guid selector s"
| "do_op (Off elem types guid selector) s = event_remove elem types guid selector s"
| "do_op (Clean elem) s = clean_element elem s"

fun spec_op :: "('e, 'h) event_op \<Rightarrow> ('e, 'h) bindings \<Rightarrow> ('e, 'h) bindings" where
  "spec_op (On elem types handler guid selector) b =
     (let (g, b) = (case guid of Some g \<Rightarrow> (g, b) | None \<Rightarrow> (bi_guid b, b\<lparr>bi_guid := bi_guid b + 1\<rparr>))
      in fold (bind_word elem handler g selector) (rev (type_words types)) b)"
| "spec_op (Off elem types guid selector) b = fold (unbind_word elem guid selector) (rev (type_words types)) b"
| "spec_op (Clean elem) b = b\<lparr>bi_list := (bi_list b)(elem := [])\<rparr>"

definition implements :: "('e, 'h) events \<Rightarrow> ('e, 'h) bindings \<Rightarrow> bool" where
  "implements s b \<longleftrightarrow>
     ev_guid s = bi_guid b
     \<and> (\<forall>elem. distinct (map fst (ev_data s elem)) \<and> map_of (ev_data s elem) = handlers_of (bi_list b elem)
          \<and> set (ev_native s elem) = set (map fst (ev_data s elem)) - {''focusin'', ''focusout''})"

section \<open>Objects\<close>

lemma map_of_obj_set [simp]: "map_of (obj_set k v ps) = (map_of ps)(k \<mapsto> v)"
  by (induction ps) auto

lemma keys_obj_set: "map fst (obj_set k v ps) = (if k \<in> set (map fst ps) then map fst ps else map fst ps @ [k])"
  by (induction ps) (auto simp: image_iff, force)

lemma set_obj_set [simp]: "fst ` set (obj_set k v ps) = insert k (fst ` set ps)"
  unfolding set_map [symmetric] keys_obj_set by (auto simp del: set_map)

lemma distinct_obj_set [simp]: "distinct (map fst ps) \<Longrightarrow> distinct (map fst (obj_set k v ps))"
  by (simp add: keys_obj_set)

lemma map_of_obj_delete [simp]: "map_of (obj_delete k ps) = (map_of ps)(k := None)"
  by (induction ps) (auto simp: obj_delete_def)

lemma keys_obj_delete: "map fst (obj_delete k ps) = filter (\<lambda>l. l \<noteq> k) (map fst ps)"
  by (induction ps) (auto simp: obj_delete_def)

lemma set_keys: "t \<in> set (map fst ps) \<longleftrightarrow> map_of ps t \<noteq> None"
  by (simp add: map_of_eq_None_iff)

section \<open>One list of handlers\<close>

lemma special_type_idem [simp]: "special_type selector (special_type selector t) = special_type selector t"
  by (auto simp: special_type_def delegateType_def bindType_def)

lemma bindType_event_type [simp]: "special_type None (event_type obj) = event_type obj"
  by (auto simp: event_type_def special_type_def delegateType_def bindType_def)

lemma handlers_of_add:
  assumes "event_type obj = t"
  shows "handlers_of (b @ [obj]) =
    (handlers_of b)(t \<mapsto> insert_obj obj (case handlers_of b t of None \<Rightarrow> no_handlers | Some hs \<Rightarrow> hs))"
  using assms
  by (auto simp: handlers_of_def insert_obj_def no_handlers_def Let_def delegated_def fun_eq_iff)

lemma remove_loop_objs:
  "j \<le> length (hl_objs hs) \<Longrightarrow>
     hl_objs (remove_loop m j hs) = filter (\<lambda>obj. \<not> m obj) (take j (hl_objs hs)) @ drop j (hl_objs hs)"
proof (induction j arbitrary: hs)
  case (Suc j)
  then show ?case
    by (simp add: take_Suc_conv_app_nth Cons_nth_drop_Suc [symmetric])
qed simp

lemma remove_loop_count:
  "j \<le> length (hl_objs hs) \<Longrightarrow>
     hl_delegateCount (remove_loop m j hs) =
       hl_delegateCount hs - length (filter (\<lambda>obj. m obj \<and> delegated obj) (take j (hl_objs hs)))"
proof (induction j arbitrary: hs)
  case (Suc j)
  then show ?case
    by (simp add: take_Suc_conv_app_nth delegated_def)
qed simp

lemma handlers_eqI: "hl_objs hs = hl_objs hs' \<Longrightarrow> hl_delegateCount hs = hl_delegateCount hs' \<Longrightarrow> hs = (hs' :: 'h handlers)"
  by (cases hs; cases hs') simp

lemma remove_loop_handlers:
  assumes "handlers_of b t = Some hs"
  shows "remove_loop m (length (hl_objs hs)) hs =
    \<lparr>hl_objs = filter (\<lambda>obj. event_type obj = t \<and> delegated obj \<and> \<not> m obj) b
              @ filter (\<lambda>obj. event_type obj = t \<and> \<not> delegated obj \<and> \<not> m obj) b,
     hl_delegateCount = length (filter (\<lambda>obj. event_type obj = t \<and> delegated obj \<and> \<not> m obj) b)\<rparr>"
proof -
  let ?ds = "filter (\<lambda>obj. event_type obj = t \<and> delegated obj) b"
  let ?ps = "filter (\<lambda>obj. event_type obj = t \<and> \<not> delegated obj) b"
  have hs: "hs = \<lparr>hl_objs = ?ds @ ?ps, hl_delegateCount = length ?ds\<rparr>"
    using assms by (auto simp: handlers_of_def Let_def split: if_splits)
  have "filter (\<lambda>obj. m obj \<and> delegated obj) ?ps = []" by (auto simp: filter_empty_conv)
  moreover have "filter (\<lambda>obj. m obj \<and> delegated obj) ?ds = filter m ?ds" by (auto intro: filter_cong)
  moreover have "length ?ds - length (filter m ?ds) = length (filter (\<lambda>obj. \<not> m obj) ?ds)"
    using sum_length_filter_compl [of m ?ds] by simp
  ultimately show ?thesis
    by (intro handlers_eqI) (simp_all add: hs remove_loop_objs remove_loop_count conj_ac)
qed

lemma handlers_of_filter:
  "handlers_of (filter (\<lambda>obj. \<not> (event_type obj = t \<and> m obj)) b) =
     (handlers_of b)(t :=
       (case handlers_of b t of
          None \<Rightarrow> None
        | Some hs \<Rightarrow> (let hs = remove_loop m (length (hl_objs hs)) hs in if hl_objs hs = [] then None else Some hs)))"
proof
  fix u
  let ?b = "filter (\<lambda>obj. \<not> (event_type obj = t \<and> m obj)) b"
  show "handlers_of ?b u = ((handlers_of b)(t :=
       (case handlers_of b t of
          None \<Rightarrow> None
        | Some hs \<Rightarrow> (let hs = remove_loop m (length (hl_objs hs)) hs in if hl_objs hs = [] then None else Some hs)))) u"
  proof (cases "u = t")
    case False
    then have "filter (\<lambda>obj. event_type obj = u \<and> P obj) ?b = filter (\<lambda>obj. event_type obj = u \<and> P obj) b" for P
      by (auto intro: filter_cong)
    then show ?thesis using False by (simp add: handlers_of_def)
  next
    case True
    have sub: "filter (\<lambda>obj. event_type obj = t \<and> P obj) ?b = filter (\<lambda>obj. event_type obj = t \<and> P obj \<and> \<not> m obj) b" for P
      by (auto intro: filter_cong)
    show ?thesis
    proof (cases "handlers_of b t")
      case None
      then have "filter (\<lambda>obj. event_type obj = t \<and> delegated obj) b = []"
        "filter (\<lambda>obj. event_type obj = t \<and> \<not> delegated obj) b = []"
        by (auto simp: handlers_of_def Let_def split: if_splits)
      then have "filter (\<lambda>obj. event_type obj = t \<and> delegated obj \<and> \<not> m obj) b = []"
        "filter (\<lambda>obj. event_type obj = t \<and> \<not> delegated obj \<and> \<not> m obj) b = []"
        by (simp_all add: filter_empty_conv)
      then have "handlers_of ?b t = None" unfolding handlers_of_def sub by simp
      then show ?thesis unfolding True fun_upd_same None option.case .
    next
      case (Some hs)
      show ?thesis
        unfolding True Some fun_upd_same option.case remove_loop_handlers [OF Some] Let_def
        by (simp only: handlers_of_def sub Let_def handlers.select_convs)
    qed
  qed
qed

section \<open>The operations\<close>

lemma implementsD:
  assumes "implements s b"
  shows "ev_guid s = bi_guid b" "distinct (map fst (ev_data s elem))" "map_of (ev_data s elem) = handlers_of (bi_list b elem)"
    "set (ev_native s elem) = set (map fst (ev_data s elem)) - {''focusin'', ''focusout''}"
  using assms unfolding implements_def by blast+

lemma setup_data [simp]: "ev_data (setup_type elem t s) = ev_data s" "ev_guid (setup_type elem t s) = ev_guid s"
  "ev_data (teardown_type elem t s) = ev_data s" "ev_guid (teardown_type elem t s) = ev_guid s"
  by (simp_all add: setup_type_def teardown_type_def)

lemma setup_native:
  "set (ev_native (setup_type elem t s) e) =
     set (ev_native s e) \<union> (if e = elem then {t} - {''focusin'', ''focusout''} else {})"
  "set (ev_native (teardown_type elem t s) e) =
     set (ev_native s e) - (if e = elem then {t} - {''focusin'', ''focusout''} else {})"
  by (auto simp: setup_type_def teardown_type_def)

lemma implementsI:
  assumes "ev_guid s = bi_guid b" "\<And>e. distinct (map fst (ev_data s e))"
    "\<And>e. map_of (ev_data s e) = handlers_of (bi_list b e)"
    "\<And>e. set (ev_native s e) = set (map fst (ev_data s e)) - {''focusin'', ''focusout''}"
  shows "implements s b"
  unfolding implements_def using assms by blast

lemma add_word_implements:
  assumes i: "implements s b"
  shows "implements (add_word elem handler guid selector word s) (bind_word elem handler guid selector word b)"
proof -
  obtain t ns where w: "split_type word = (t, ns)" by (cases "split_type word")
  show ?thesis
  proof (cases "t = ''''")
    case True
    with w i show ?thesis by (simp add: add_word_def bind_word_def)
  next
    case False
    define type where "type = special_type selector t"
    define obj where "obj = \<lparr>ho_origType = t, ho_handler = handler, ho_guid = guid, ho_selector = selector,
      ho_namespace = (case ns of None \<Rightarrow> [''''] | Some xs \<Rightarrow> xs)\<rparr>"
    have ty: "event_type obj = type" by (simp add: event_type_def obj_def type_def)
    define hs where "hs = (case handlers_of (bi_list b elem) type of None \<Rightarrow> no_handlers | Some hs \<Rightarrow> hs)"
    define s1 where "s1 = (if map_of (ev_data s elem) type = None then setup_type elem type s else s)"
    have s1: "ev_data s1 = ev_data s" "ev_guid s1 = ev_guid s" by (simp_all add: s1_def)
    have conc: "add_word elem handler guid selector word s =
        s1\<lparr>ev_data := (ev_data s1)(elem := obj_set type (insert_obj obj hs) (ev_data s1 elem))\<rparr>"
      using False implementsD(3) [OF i, of elem]
      by (simp add: add_word_def w Let_def type_def [symmetric] obj_def [symmetric] hs_def s1_def split: option.split)
    have spec: "bind_word elem handler guid selector word b = b\<lparr>bi_list := (bi_list b)(elem := bi_list b elem @ [obj])\<rparr>"
      using False by (simp add: bind_word_def w obj_def)
    have native: "set (ev_native s1 e) = set (ev_native s e) \<union> (if e = elem then {type} - {''focusin'', ''focusout''} else {})" for e
    proof (cases "map_of (ev_data s elem) type = None")
      case False
      then have "type \<in> set (map fst (ev_data s elem))" unfolding set_keys .
      then have "{type} - {''focusin'', ''focusout''} \<subseteq> set (ev_native s elem)"
        unfolding implementsD(4) [OF i, of elem] by blast
      moreover have "s1 = s" using False unfolding s1_def by (rule if_not_P)
      ultimately show ?thesis by (simp add: Un_absorb2)
    qed (simp add: s1_def setup_native)
    show ?thesis
      unfolding conc spec
    proof (rule implementsI)
      fix e
      show "set (ev_native (s1\<lparr>ev_data := (ev_data s1)(elem := obj_set type (insert_obj obj hs) (ev_data s1 elem))\<rparr>) e) =
        set (map fst (ev_data (s1\<lparr>ev_data := (ev_data s1)(elem := obj_set type (insert_obj obj hs) (ev_data s1 elem))\<rparr>) e))
        - {''focusin'', ''focusout''}"
        using native [of e] implementsD(4) [OF i, of e] by (auto simp: s1)
      show "map_of (ev_data (s1\<lparr>ev_data := (ev_data s1)(elem := obj_set type (insert_obj obj hs) (ev_data s1 elem))\<rparr>) e)
          = handlers_of (bi_list (b\<lparr>bi_list := (bi_list b)(elem := bi_list b elem @ [obj])\<rparr>) e)"
        using implementsD(3) [OF i, of e]
        by (cases "e = elem") (simp_all add: s1 handlers_of_add [OF ty] hs_def [symmetric])
      show "distinct (map fst (ev_data (s1\<lparr>ev_data := (ev_data s1)(elem := obj_set type (insert_obj obj hs) (ev_data s1 elem))\<rparr>) e))"
        using implementsD(2) [OF i, of e] by (cases "e = elem") (simp_all add: s1)
    qed (use implementsD(1) [OF i] in \<open>simp add: s1\<close>)
  qed
qed

definition unbind_where :: "'e \<Rightarrow> ('h handle_obj \<Rightarrow> bool) \<Rightarrow> ('e, 'h) bindings \<Rightarrow> ('e, 'h) bindings" where
  "unbind_where elem P b = b\<lparr>bi_list := (bi_list b)(elem := filter (\<lambda>obj. \<not> P obj) (bi_list b elem))\<rparr>"

lemma unbind_where_cong:
  "(\<And>obj. obj \<in> set (bi_list b elem) \<Longrightarrow> P obj \<longleftrightarrow> Q obj) \<Longrightarrow> unbind_where elem P b = unbind_where elem Q b"
  by (simp add: unbind_where_def cong: filter_cong)

lemma unbind_where_twice: "unbind_where elem P (unbind_where elem Q b) = unbind_where elem (\<lambda>obj. Q obj \<or> P obj) b"
  by (simp add: unbind_where_def conj_commute)

lemma remove_type_implements:
  assumes i: "implements s b"
  shows "implements (remove_type elem mapped t ns guid selector s)
    (unbind_where elem (\<lambda>obj. event_type obj = special_type selector t \<and> removed mapped t ns guid selector obj) b)"
proof -
  define type where "type = special_type selector t"
  define m :: "'b handle_obj \<Rightarrow> bool" where "m = removed mapped t ns guid selector"
  define b' where "b' = filter (\<lambda>obj. \<not> (event_type obj = type \<and> m obj)) (bi_list b elem)"
  have spec: "unbind_where elem (\<lambda>obj. event_type obj = special_type selector t \<and> removed mapped t ns guid selector obj) b
      = b\<lparr>bi_list := (bi_list b)(elem := b')\<rparr>"
    by (simp add: unbind_where_def b'_def m_def type_def)
  note look = implementsD(3) [OF i, of elem]
  show ?thesis
  proof (cases "handlers_of (bi_list b elem) type")
    case None
    have "handlers_of b' = handlers_of (bi_list b elem)"
      unfolding b'_def handlers_of_filter using None by (auto simp: fun_eq_iff)
    moreover have "remove_type elem mapped t ns guid selector s = s"
      using None look by (simp add: remove_type_def type_def [symmetric])
    ultimately show ?thesis
      unfolding spec by (intro implementsI) (use implementsD [OF i] in simp_all)
  next
    case (Some hs)
    define hs' where "hs' = remove_loop m (length (hl_objs hs)) hs"
    have b': "handlers_of b' = (handlers_of (bi_list b elem))(type := if hl_objs hs' = [] then None else Some hs')"
      unfolding b'_def handlers_of_filter Some option.case Let_def hs'_def ..
    have ne: "hl_objs hs \<noteq> []" using Some by (auto simp: handlers_of_def Let_def split: if_splits)
    have key: "type \<in> set (map fst (ev_data s elem))" unfolding set_keys look Some by simp
    have native: "set (ev_native s e) = set (map fst (ev_data s e)) - {''focusin'', ''focusout''}" for e
      by (rule implementsD(4) [OF i])
    show ?thesis
    proof (cases "hl_objs hs' = []")
      case True
      let ?s = "teardown_type elem type s"
      have "remove_type elem mapped t ns guid selector s
          = ?s\<lparr>ev_data := (ev_data s)(elem := obj_delete type (ev_data s elem))\<rparr>"
        using ne True look Some
        by (simp add: remove_type_def type_def [symmetric] m_def [symmetric] hs'_def [symmetric] Let_def)
      moreover have "set (ev_native ?s e)
          = set (map fst (((ev_data s)(elem := obj_delete type (ev_data s elem))) e)) - {''focusin'', ''focusout''}" for e
        using native [of e] by (auto simp: setup_native keys_obj_delete simp del: set_map)
      ultimately show ?thesis
        unfolding spec by (intro implementsI) (use implementsD [OF i] True in \<open>simp_all add: keys_obj_delete b'\<close>)
    next
      case False
      have "remove_type elem mapped t ns guid selector s = s\<lparr>ev_data := (ev_data s)(elem := obj_set type hs' (ev_data s elem))\<rparr>"
        using ne False look Some
        by (simp add: remove_type_def type_def [symmetric] m_def [symmetric] hs'_def [symmetric] Let_def)
      moreover have "set (ev_native s e)
          = set (map fst (((ev_data s)(elem := obj_set type hs' (ev_data s elem))) e)) - {''focusin'', ''focusout''}" for e
        using native [of e] key by (cases "e = elem") (simp_all add: keys_obj_set del: set_map)
      ultimately show ?thesis
        unfolding spec by (intro implementsI) (use implementsD [OF i] False in \<open>simp_all add: b'\<close>)
    qed
  qed
qed

lemma fold_remove_type_implements:
  "implements s b \<Longrightarrow>
     implements (fold (\<lambda>t. remove_type elem True t ns guid selector) ts s)
       (unbind_where elem (\<lambda>obj. event_type obj \<in> special_type selector ` set ts \<and> removed True '''' ns guid selector obj) b)"
proof (induction ts arbitrary: s b)
  case Nil
  then show ?case by (simp add: unbind_where_def)
next
  case (Cons t ts)
  let ?R = "removed True '''' ns guid selector"
  have r: "removed True t ns guid selector = ?R" by (simp add: removed_def fun_eq_iff)
  have eq: "unbind_where elem (\<lambda>obj. event_type obj \<in> S \<and> R obj) (unbind_where elem (\<lambda>obj. event_type obj = u \<and> R obj) b)
      = unbind_where elem (\<lambda>obj. event_type obj \<in> insert u S \<and> R obj) b" for R u S
    unfolding unbind_where_twice by (rule unbind_where_cong) blast
  have "implements (fold (\<lambda>t. remove_type elem True t ns guid selector) ts (remove_type elem True t ns guid selector s))
     (unbind_where elem (\<lambda>obj. event_type obj \<in> special_type selector ` set ts \<and> ?R obj)
       (unbind_where elem (\<lambda>obj. event_type obj = special_type selector t \<and> removed True t ns guid selector obj) b))"
    by (rule Cons.IH [OF remove_type_implements [OF Cons.prems]])
  then show ?case unfolding r eq by simp
qed

lemma remove_word_implements:
  assumes i: "implements s b"
  shows "implements (remove_word elem guid selector word s) (unbind_word elem guid selector word b)"
proof -
  obtain t ns where w: "split_type word = (t, ns)" by (cases "split_type word")
  show ?thesis
  proof (cases "t = ''''")
    case False
    have "unbind_word elem guid selector word b
        = unbind_where elem (\<lambda>obj. event_type obj = special_type selector t \<and> removed False t ns guid selector obj) b"
      using False by (simp add: unbind_word_def unbind_where_def hit_def w eq_commute)
    then show ?thesis using False remove_type_implements [OF i] by (simp add: remove_word_def w)
  next
    case True
    let ?ts = "map fst (ev_data s elem)"
    have keys: "event_type obj \<in> special_type selector ` set ?ts" if "obj \<in> set (bi_list b elem)" "removed True '''' ns guid selector obj" for obj
    proof
      have "handlers_of (bi_list b elem) (event_type obj) \<noteq> None"
        using that(1) by (auto simp: handlers_of_def Let_def filter_empty_conv)
      then show "event_type obj \<in> set ?ts" unfolding set_keys implementsD(3) [OF i] .
      show "event_type obj = special_type selector (event_type obj)"
      proof (cases selector)
        case (Some sel)
        then have "ho_selector obj \<noteq> None" using that(2) by (cases "ho_selector obj") (auto simp: removed_def)
        then have "special_type selector = special_type (ho_selector obj)" using Some by (auto simp: special_type_def fun_eq_iff)
        then show ?thesis by (simp add: event_type_def)
      qed simp
    qed
    have "unbind_word elem guid selector word b = unbind_where elem (removed True '''' ns guid selector) b"
      using True by (simp add: unbind_word_def unbind_where_def hit_def w)
    moreover have "unbind_where elem (\<lambda>obj. event_type obj \<in> special_type selector ` set ?ts \<and> removed True '''' ns guid selector obj) b
        = unbind_where elem (removed True '''' ns guid selector) b"
      by (rule unbind_where_cong) (use keys in blast)
    moreover have "remove_word elem guid selector word s = fold (\<lambda>t. remove_type elem True t ns guid selector) ?ts s"
      using True by (simp add: remove_word_def w)
    ultimately show ?thesis
      using fold_remove_type_implements [OF i, of elem ns guid selector ?ts] by simp
  qed
qed

lemma fold_implements:
  assumes "\<And>x s b. implements s b \<Longrightarrow> implements (f x s) (g x b)" "implements s b"
  shows "implements (fold f xs s) (fold g xs b)"
  using assms(2) by (induction xs arbitrary: s b) (simp_all add: assms(1))

lemma no_handlers_iff: "handlers_of b = Map.empty \<longleftrightarrow> b = []"
proof
  assume a: "handlers_of b = Map.empty"
  show "b = []"
  proof (cases b)
    case (Cons obj bs)
    then have "handlers_of b (event_type obj) \<noteq> None" by (auto simp: handlers_of_def Let_def)
    with a show ?thesis by simp
  qed simp
qed (simp add: handlers_of_def fun_eq_iff)

lemma unbind_nothing: "bi_list b elem = [] \<Longrightarrow> fold (unbind_word elem guid selector) ws b = b"
  by (induction ws) (simp_all add: unbind_word_def fun_upd_idem)

lemma clean_native:
  "set (ev_native (fold (teardown_type elem) ts s) e) =
     set (ev_native s e) - (if e = elem then set ts - {''focusin'', ''focusout''} else {})
   \<and> ev_data (fold (teardown_type elem) ts s) = ev_data s \<and> ev_guid (fold (teardown_type elem) ts s) = ev_guid s"
  by (induction ts arbitrary: s) (auto simp: setup_native)

lemma do_op_implements:
  assumes i: "implements s b"
  shows "implements (do_op op s) (spec_op op b)"
proof (cases op)
  case (On elem types handler guid selector)
  have "implements (fold (add_word elem handler g selector) ws s) (fold (bind_word elem handler g selector) ws b)"
    if "implements s b" for g ws and s :: "('a, 'b) events" and b
    by (rule fold_implements [OF add_word_implements that])
  moreover have "implements (s\<lparr>ev_guid := ev_guid s + 1\<rparr>) (b\<lparr>bi_guid := bi_guid b + 1\<rparr>)"
    by (intro implementsI) (use implementsD [OF i] in simp_all)
  ultimately show ?thesis
    using i implementsD(1) [OF i] by (cases guid) (simp_all add: On event_add_def)
next
  case (Off elem types guid selector)
  show ?thesis
  proof (cases "ev_data s elem = []")
    case True
    then have "handlers_of (bi_list b elem) = Map.empty" by (simp add: implementsD(3) [OF i, symmetric])
    then have "bi_list b elem = []" unfolding no_handlers_iff .
    with True i show ?thesis by (simp add: Off event_remove_def unbind_nothing)
  next
    case False
    then show ?thesis using fold_implements [OF remove_word_implements i] by (simp add: Off event_remove_def)
  qed
next
  case (Clean elem)
  have native: "set (ev_native (clean_element elem s) e) = set (map fst (ev_data (clean_element elem s) e)) - {''focusin'', ''focusout''}" for e
    using implementsD(4) [OF i, of e] clean_native [of elem "map fst (ev_data s elem)" s e]
    by (auto simp: clean_element_def Let_def)
  show ?thesis
    unfolding Clean do_op.simps spec_op.simps
    by (rule implementsI [OF _ _ _ native]) (simp_all add: fun_eq_iff clean_element_def Let_def handlers_of_def clean_native implementsD(1,2,3) [OF i])
qed

lemma implements_empty: "implements no_events no_bindings"
  by (simp add: implements_def no_events_def no_bindings_def handlers_of_def fun_eq_iff)

lemma ops_implement: "implements s b \<Longrightarrow> implements (fold do_op ops s) (fold spec_op ops b)"
  by (induction ops arbitrary: s b) (simp_all add: do_op_implements)


end
