(* ===== verification/Page_Events.thy ===== *)
theory Page_Events
  imports Jquery_Events
begin

text \<open>
  Which handlers the viewer attaches to the document, and when: \<open>delegateEvents\<close> and \<open>undelegateEvents\<close>
  of \<open>Backbone.View\<close> (\<open>htrace-webapp/src/main/web/lib/backbone-1.1.2.js\<close>), \<open>initialize\<close>,
  \<open>attachEvents\<close> and \<open>remove\<close> of \<open>search_results_view.js\<close>, the events of \<open>search_view.js\<close>, the switch
  between the pages in \<open>router.js\<close> and the dialogs of \<open>modal.js\<close> (under \<open>htrace-webapp/src/main/web/app\<close>).
  Of the document, the elements with handlers are kept: the window, the document, the element \<open>#app\<close>, in
  which the pages are shown, and the canvases, of which each rendering of the results makes a new one.
  The predicate views, whose handlers are on elements of their own, are left out.
\<close>

section \<open>Backbone views\<close>

text \<open>\<open>delegateEventSplitter\<close>: the event up to the first space, and the selector after it.\<close>

definition split_event :: "string \<Rightarrow> string \<times> string" where
  "split_event k =
     (takeWhile (\<lambda>c. \<not> is_space c) k, dropWhile is_space (dropWhile (\<lambda>c. \<not> is_space c) k))"

definition view_cid :: "nat \<Rightarrow> string" where
  "view_cid n = ''view'' @ nat_string n"

definition undelegateEvents :: "'e \<Rightarrow> nat \<Rightarrow> ('e, 'h) events \<Rightarrow> ('e, 'h) events" where
  "undelegateEvents elem cid s = event_remove elem (''.delegateEvents'' @ view_cid cid) None None s"

definition delegate_event :: "'e \<Rightarrow> nat \<Rightarrow> string \<times> 'h \<Rightarrow> ('e, 'h) events \<Rightarrow> ('e, 'h) events" where
  "delegate_event elem cid e s =
     (let (k, method) = e; (eventName, selector) = split_event k;
          eventName = eventName @ ''.delegateEvents'' @ view_cid cid
      in if selector = '''' then event_add elem eventName method None None s
         else event_add elem eventName method None (Some selector) s)"

definition delegateEvents :: "'e \<Rightarrow> nat \<Rightarrow> (string \<times> 'h) list \<Rightarrow> ('e, 'h) events \<Rightarrow> ('e, 'h) events" where
  "delegateEvents elem cid evs s = fold (delegate_event elem cid) evs (undelegateEvents elem cid s)"

section \<open>The pages\<close>

datatype page_elem = WindowE | DocumentE | AppE | CanvasE nat

text \<open>A handler belongs to the view with the given number, or dismisses a dialog.\<close>

datatype page_handler =
    Rerender nat | CanvasHandler nat string | PageMethod nat string | DismissModal

text \<open>The view that is shown: nothing, the about page, or a search page and its results view.\<close>

datatype shown = Nothing | ShowsAbout nat | ShowsSearch nat nat

record page_state =
  ps_events :: "(page_elem, page_handler) events"
  ps_canvas :: "nat option"
  ps_canvases :: nat                    \<comment> \<open>the number of canvases made so far\<close>
  ps_ids :: nat                         \<comment> \<open>the counter of \<open>_.uniqueId\<close>\<close>
  ps_shown :: shown

definition on_events ::
    "((page_elem, page_handler) events \<Rightarrow> (page_elem, page_handler) events) \<Rightarrow> page_state \<Rightarrow> page_state" where
  "on_events f s = s\<lparr>ps_events := f (ps_events s)\<rparr>"

definition search_events :: "(string \<times> string) list" where
  "search_events =
     [(''click #searchButton'', ''searchHandler''), (''click #clearButton'', ''clearHandler''),
      (''click .add-field'', ''dropdownHandler''), (''blur #begin'', ''blurBeginHandler''),
      (''blur #end'', ''blurEndHandler''), (''click #zoomButton'', ''zoomHandler'')]"

definition canvas_types :: "string list" where
  "canvas_types =
     [''mousedown'', ''mouseup'', ''mouseout'', ''mousemove'', ''dblclick'', ''keyup'', ''contextmenu'']"

definition initialize_results :: "nat \<Rightarrow> page_state \<Rightarrow> page_state" where
  "initialize_results cid = on_events (event_add WindowE ''resize'' (Rerender cid) None None)"

text \<open>The constructor of \<open>SearchView\<close> makes the results view.\<close>

definition new_search_view :: "page_state \<Rightarrow> nat \<times> nat \<times> page_state" where
  "new_search_view s =
     (let cid = ps_ids s + 1; rcid = ps_ids s + 2;
          s = initialize_results rcid (s\<lparr>ps_ids := rcid\<rparr>)
      in (cid, rcid,
          on_events (delegateEvents AppE cid (map (\<lambda>(k, m). (k, PageMethod cid m)) search_events)) s))"

text \<open>\<open>$(el).html(...)\<close> above the canvas: the old one goes with its handlers.\<close>

definition drop_canvas :: "page_state \<Rightarrow> page_state" where
  "drop_canvas s =
     (case ps_canvas s of
        None \<Rightarrow> s
      | Some k \<Rightarrow> (on_events (clean_element (CanvasE k)) s)\<lparr>ps_canvas := None\<rparr>)"

definition attachEvents :: "nat \<Rightarrow> page_state \<Rightarrow> page_state" where
  "attachEvents cid s =
     (case ps_canvas s of
        None \<Rightarrow> s
      | Some k \<Rightarrow>
          on_events (fold (\<lambda>t es. event_add (CanvasE k) t (CanvasHandler cid t) None None
                                 (event_remove (CanvasE k) t None None es)) canvas_types) s)"

definition render_results :: "nat \<Rightarrow> page_state \<Rightarrow> page_state" where
  "render_results cid s =
     (let s = drop_canvas s
      in attachEvents cid (s\<lparr>ps_canvas := Some (ps_canvases s), ps_canvases := ps_canvases s + 1\<rparr>))"

definition remove_results :: "page_state \<Rightarrow> page_state" where
  "remove_results s =
     (let s = on_events (event_remove WindowE ''resize'' None None) s
      in case ps_canvas s of
           None \<Rightarrow> s
         | Some k \<Rightarrow> on_events (fold (\<lambda>t. event_remove (CanvasE k) t None None) canvas_types) s)"

definition close_view :: "shown \<Rightarrow> page_state \<Rightarrow> page_state" where
  "close_view v s =
     (case v of
        Nothing \<Rightarrow> s
      | ShowsAbout cid \<Rightarrow> on_events (undelegateEvents AppE cid) s
      | ShowsSearch cid rcid \<Rightarrow> on_events (undelegateEvents AppE cid) (remove_results s))"

definition render_view :: "shown \<Rightarrow> page_state \<Rightarrow> page_state" where
  "render_view v s =
     (case v of
        ShowsSearch cid rcid \<Rightarrow> render_results rcid (drop_canvas s)
      | _ \<Rightarrow> drop_canvas s)"

text \<open>\<open>switchView\<close> closes the old view after the new one was constructed.\<close>

definition switch_page :: "shown \<Rightarrow> page_state \<Rightarrow> page_state" where
  "switch_page v s = render_view v ((close_view (ps_shown s) s)\<lparr>ps_shown := v\<rparr>)"

definition show_search :: "page_state \<Rightarrow> page_state" where
  "show_search s = (let (cid, rcid, s) = new_search_view s in switch_page (ShowsSearch cid rcid) s)"

definition show_about :: "page_state \<Rightarrow> page_state" where
  "show_about s = (let cid = ps_ids s + 1 in switch_page (ShowsAbout cid) (s\<lparr>ps_ids := cid\<rparr>))"

definition show_dialog_page :: "page_state \<Rightarrow> page_state" where
  "show_dialog_page = on_events (event_add DocumentE ''keypress'' DismissModal None None)"

definition dismiss_dialog :: "page_state \<Rightarrow> page_state" where
  "dismiss_dialog = on_events (event_remove DocumentE ''keypress'' None None)"

section \<open>What can happen\<close>

text \<open>
  The router shows a page, the results are rendered again, a dialog is shown or dismissed, and models
  or other views take numbers.
\<close>

datatype page_op = ShowSearch | ShowAbout | Render | OpenDialog | DismissDialog | TakeIds nat

fun page_action :: "page_op \<Rightarrow> page_state \<Rightarrow> page_state" where
  "page_action ShowSearch s = show_search s"
| "page_action ShowAbout s = show_about s"
| "page_action Render s = (case ps_shown s of ShowsSearch cid rcid \<Rightarrow> render_results rcid s | _ \<Rightarrow> s)"
| "page_action OpenDialog s = show_dialog_page s"
| "page_action DismissDialog s = dismiss_dialog s"
| "page_action (TakeIds n) s = s\<lparr>ps_ids := ps_ids s + n\<rparr>"

definition new_page :: page_state where
  "new_page = \<lparr>ps_events = no_events, ps_canvas = None, ps_canvases = 0, ps_ids = 0, ps_shown = Nothing\<rparr>"

definition handlers_at :: "page_state \<Rightarrow> page_elem \<Rightarrow> string \<Rightarrow> page_handler list" where
  "handlers_at s elem t =
     (case map_of (ev_data (ps_events s) elem) t of None \<Rightarrow> [] | Some hs \<Rightarrow> map ho_handler (hl_objs hs))"

end
