(* ===== verification/Page_Props.thy ===== *)
theory Page_Props
  imports Page_Events Event_Props
begin

text \<open>
  The handlers of the document belong to the view that is shown: those of a page that was left are gone,
  those of the page that is shown are there once. The exception is the handler for \<open>resize\<close>, which the
  old page takes away from the new one when both are search pages.
\<close>

section \<open>What a binding is, without its guid\<close>

type_synonym 'h binding = "string \<times> 'h \<times> string option \<times> string list"

definition binding_of :: "'h handle_obj \<Rightarrow> 'h binding" where
  "binding_of obj = (ho_origType obj, ho_handler obj, ho_selector obj, ho_namespace obj)"

definition binds :: "('e, 'h) events \<Rightarrow> ('e \<Rightarrow> 'h binding list) \<Rightarrow> bool" where
  "binds es bs \<longleftrightarrow> (\<exists>b. implements es b \<and> (\<forall>e. map binding_of (bi_list b e) = bs e))"

fun off_binding :: "string \<Rightarrow> 'h binding \<Rightarrow> bool" where
  "off_binding word (origType, h, selector, namespace) =
     (let (t, ns) = split_type word
      in (t = '''' \<or> t = origType \<and> bindType t = special_type selector t)
         \<and> (case ns of None \<Rightarrow> True | Some xs \<Rightarrow> subseq xs namespace))"

lemma off_binding_hit: "off_binding word (binding_of obj) = hit None None word obj"
  by (auto simp: binding_of_def hit_def removed_def in_namespace_def event_type_def special_type_def [of None]
      split: prod.split option.split)

lemma map_fold_unbind:
  "map binding_of (bi_list (unbind_word e None None word b) e') =
     (if e' = e then filter (\<lambda>x. \<not> off_binding word x) (map binding_of (bi_list b e)) else map binding_of (bi_list b e'))"
  by (simp add: unbind_word_def filter_map comp_def off_binding_hit)

lemma words_word: "w \<noteq> [] \<Longrightarrow> \<forall>c\<in>set w. \<not> is_space c \<Longrightarrow> words w = [w]"
proof -
  assume w: "w \<noteq> []" "\<forall>c\<in>set w. \<not> is_space c"
  then have 1: "dropWhile is_space w = w" by (cases w) auto
  have 2: "takeWhile (\<lambda>c. \<not> is_space c) w = w" "dropWhile (\<lambda>c. \<not> is_space c) w = []"
    using w(2) by (simp_all add: takeWhile_eq_all_conv dropWhile_eq_Nil_conv)
  have "words [] = []" by (subst words.simps) simp
  then show ?thesis using w(1) by (subst words.simps) (simp only: Let_def 1 2 if_False)
qed

lemma binds_add:
  assumes "binds es bs" "w \<noteq> []" "\<forall>c\<in>set w. \<not> is_space c" "split_type w = (t, ns)" "t \<noteq> ''''"
  shows "binds (event_add e w h None sel es)
    (bs(e := bs e @ [(t, h, sel, case ns of None \<Rightarrow> [''''] | Some xs \<Rightarrow> xs)]))"
proof -
  obtain b where b: "implements es b" "\<And>e. map binding_of (bi_list b e) = bs e" using assms(1) by (auto simp: binds_def)
  let ?op = "On e w h None sel"
  have "implements (do_op ?op es) (spec_op ?op b)" by (rule do_op_implements [OF b(1)])
  moreover have "map binding_of (bi_list (spec_op ?op b) e')
      = (bs(e := bs e @ [(t, h, sel, case ns of None \<Rightarrow> [''''] | Some xs \<Rightarrow> xs)])) e'" for e'
    using b(2) assms(4,5) by (simp add: type_words_def words_word [OF assms(2,3)] bind_word_def binding_of_def)
  ultimately show ?thesis unfolding binds_def do_op.simps by blast
qed

lemma binds_remove:
  assumes "binds es bs" "w \<noteq> []" "\<forall>c\<in>set w. \<not> is_space c"
  shows "binds (event_remove e w None None es) (bs(e := filter (\<lambda>x. \<not> off_binding w x) (bs e)))"
proof -
  obtain b where b: "implements es b" "\<And>e. map binding_of (bi_list b e) = bs e" using assms(1) by (auto simp: binds_def)
  let ?op = "Off e w None None :: ('a, 'b) event_op"
  have "implements (do_op ?op es) (spec_op ?op b)" by (rule do_op_implements [OF b(1)])
  moreover have "map binding_of (bi_list (spec_op ?op b) e') = (bs(e := filter (\<lambda>x. \<not> off_binding w x) (bs e))) e'" for e'
    using b(2) by (simp add: type_words_def words_word [OF assms(2,3)] map_fold_unbind)
  ultimately show ?thesis unfolding binds_def do_op.simps by blast
qed

lemma binds_clean: "binds es bs \<Longrightarrow> binds (clean_element e es) (bs(e := []))"
proof -
  assume "binds es bs"
  then obtain b where b: "implements es b" "\<And>e. map binding_of (bi_list b e) = bs e" by (auto simp: binds_def)
  let ?op = "Clean e :: ('a, 'b) event_op"
  have "implements (do_op ?op es) (spec_op ?op b)" by (rule do_op_implements [OF b(1)])
  moreover have "map binding_of (bi_list (spec_op ?op b) e') = (bs(e := [])) e'" for e' using b(2) by simp
  ultimately show ?thesis unfolding binds_def do_op.simps by blast
qed

text \<open>The handlers of one event type, from the bindings: the delegated ones come first.\<close>

fun for_type :: "string \<Rightarrow> bool \<Rightarrow> 'h binding \<Rightarrow> bool" where
  "for_type t d (origType, h, selector, namespace) \<longleftrightarrow> special_type selector origType = t \<and> (selector \<noteq> None) = d"

definition handlers_from :: "'h binding list \<Rightarrow> string \<Rightarrow> 'h list" where
  "handlers_from xs t =
     map (\<lambda>(origType, h, selector, namespace). h) (filter (for_type t True) xs @ filter (for_type t False) xs)"

lemma handlers_at_bindings:
  assumes "binds (ps_events s) bs"
  shows "handlers_at s e t = handlers_from (bs e) t"
proof -
  obtain b where b: "implements (ps_events s) b" "\<And>e. map binding_of (bi_list b e) = bs e" using assms by (auto simp: binds_def)
  have h: "for_type t True (binding_of obj) \<longleftrightarrow> event_type obj = t \<and> delegated obj"
    "for_type t False (binding_of obj) \<longleftrightarrow> event_type obj = t \<and> \<not> delegated obj" for obj :: "page_handler handle_obj"
    by (auto simp: binding_of_def event_type_def delegated_def)
  have m: "(\<lambda>(origType, h, selector, namespace). h) \<circ> binding_of = ho_handler"
    by (simp add: fun_eq_iff binding_of_def)
  show ?thesis
    unfolding handlers_at_def implementsD(3) [OF b(1)] handlers_from_def b(2) [symmetric] map_append filter_map map_map m
    by (simp add: handlers_of_def Let_def comp_def h)
qed

section \<open>Names\<close>

lemma digit_no_dot_space: "is_digit c \<Longrightarrow> c \<noteq> CHR ''.'' \<and> \<not> is_space c"
  using digit_not_space by (auto simp: is_digit_def code_def)

lemma view_cid_chars: "c \<in> set (view_cid n) \<Longrightarrow> c \<noteq> CHR ''.'' \<and> \<not> is_space c"
proof -
  assume "c \<in> set (view_cid n)"
  then have "c \<in> set ''view'' \<or> is_digit c"
    using all_digits_nat_string [of n] by (auto simp: view_cid_def all_digits_def list_all_iff)
  then show ?thesis using digit_no_dot_space by (auto simp: is_space_def code_def)
qed

lemma view_cid_inj: "view_cid m = view_cid n \<longleftrightarrow> m = n"
  by (metis append_same_eq digits_val_nat_string same_append_eq view_cid_def)

definition view_namespace :: "nat \<Rightarrow> string" where
  "view_namespace n = ''delegateEvents'' @ view_cid n"

lemma split_dots_word: "\<forall>c\<in>set w. c \<noteq> CHR ''.'' \<Longrightarrow> split_dots w = [w]"
  by (induction w) simp_all

lemma split_type_word:
  assumes "\<forall>c\<in>set t. c \<noteq> CHR ''.''"
  shows "split_type t = (t, None)"
proof -
  have 1: "takeWhile (\<lambda>c. c \<noteq> CHR ''.'') t = t" "dropWhile (\<lambda>c. c \<noteq> CHR ''.'') t = []"
    using assms by (simp_all add: takeWhile_eq_all_conv dropWhile_eq_Nil_conv)
  show ?thesis by (simp only: split_type_def 1 Let_def list.case)
qed

lemma split_type_namespace:
  assumes "\<forall>c\<in>set t. c \<noteq> CHR ''.''"
  shows "split_type (t @ ''.delegateEvents'' @ view_cid n) = (t, Some [view_namespace n])"
proof -
  have "dropWhile (\<lambda>c. c \<noteq> CHR ''.'') (t @ ''.delegateEvents'' @ view_cid n) = CHR ''.'' # view_namespace n"
    "takeWhile (\<lambda>c. c \<noteq> CHR ''.'') (t @ ''.delegateEvents'' @ view_cid n) = t"
    using assms by (simp_all add: dropWhile_append2 takeWhile_append2 view_namespace_def)
  moreover have "split_dots (view_namespace n) = [view_namespace n]"
    using view_cid_chars by (intro split_dots_word) (auto simp: view_namespace_def)
  moreover have "view_namespace n \<noteq> []" by (simp add: view_namespace_def)
  ultimately show ?thesis by (simp add: split_type_def Let_def)
qed

lemma namespace_no_space:
  "\<forall>c\<in>set t. \<not> is_space c \<Longrightarrow> \<forall>c\<in>set (t @ ''.delegateEvents'' @ view_cid n). \<not> is_space c"
  using view_cid_chars by (auto simp: is_space_def code_def)

section \<open>The bindings of the pages\<close>

definition app_binding :: "nat \<Rightarrow> string \<times> page_handler \<Rightarrow> page_handler binding" where
  "app_binding cid e = (fst (split_event (fst e)), snd e, Some (snd (split_event (fst e))), [view_namespace cid])"

definition app_bindings :: "nat \<Rightarrow> page_handler binding list" where
  "app_bindings cid = map (app_binding cid) (map (\<lambda>(k, m). (k, PageMethod cid m)) search_events)"

definition canvas_bindings :: "nat \<Rightarrow> page_handler binding list" where
  "canvas_bindings cid = map (\<lambda>t. (t, CanvasHandler cid t, None, [''''])) canvas_types"

lemma binds_undelegate:
  fixes es :: "('e, 'h) events"
  assumes "binds es bs"
  shows "binds (undelegateEvents e cid es) (bs(e := filter (\<lambda>(t, h, sel, ns). view_namespace cid \<notin> set ns) (bs e)))"
proof -
  define w where "w = ''.delegateEvents'' @ view_cid cid"
  have w: "w \<noteq> ''''" "\<forall>c\<in>set w. \<not> is_space c"
    using namespace_no_space [of "''''" cid] by (simp_all add: w_def)
  have "split_type w = ('''', Some [view_namespace cid])"
    using split_type_namespace [of "''''" cid] by (simp add: w_def)
  then have "off_binding w = (\<lambda>(t, h :: 'h, sel, ns). view_namespace cid \<in> set ns)"
    by (simp add: fun_eq_iff subseq_singleton_left)
  then show ?thesis
    using binds_remove [OF assms w, of e]
    unfolding undelegateEvents_def w_def [symmetric] by (simp add: case_prod_unfold)
qed

lemma binds_delegate_event:
  assumes "binds es bs" "split_event k = (t, sel)" "sel \<noteq> ''''" "t \<noteq> ''''" "\<forall>c\<in>set t. c \<noteq> CHR ''.'' \<and> \<not> is_space c"
  shows "binds (delegate_event e cid (k, m) es) (bs(e := bs e @ [app_binding cid (k, m)]))"
proof -
  have w: "split_type (t @ ''.delegateEvents'' @ view_cid cid) = (t, Some [view_namespace cid])"
    "\<forall>c\<in>set (t @ ''.delegateEvents'' @ view_cid cid). \<not> is_space c"
    using assms(5) by (blast intro: split_type_namespace, blast intro!: namespace_no_space)
  have "t @ ''.delegateEvents'' @ view_cid cid \<noteq> ''''" by simp
  from binds_add [OF assms(1) this w(2) w(1) assms(4), of e m "Some sel"] show ?thesis
    using assms(2,3) by (simp add: delegate_event_def app_binding_def)
qed

definition delegable :: "string \<Rightarrow> bool" where
  "delegable k \<longleftrightarrow>
     (let (t, sel) = split_event k in sel \<noteq> '''' \<and> t \<noteq> '''' \<and> (\<forall>c\<in>set t. c \<noteq> CHR ''.'' \<and> \<not> is_space c))"

lemma binds_delegate_events:
  "binds es bs \<Longrightarrow> \<forall>k\<in>set (map fst evs). delegable k \<Longrightarrow>
     binds (fold (delegate_event e cid) evs es) (bs(e := bs e @ map (app_binding cid) evs))"
proof (induction evs arbitrary: es bs)
  case (Cons ev evs)
  obtain k m where ev: "ev = (k, m)" by (cases ev)
  obtain t sel where k: "split_event k = (t, sel)" by (cases "split_event k")
  have "delegable k" using Cons.prems(2) by (simp add: ev)
  then have t: "sel \<noteq> ''''" "t \<noteq> ''''" "\<forall>c\<in>set t. c \<noteq> CHR ''.'' \<and> \<not> is_space c"
    unfolding delegable_def k by simp_all
  have "\<forall>k\<in>set (map fst evs). delegable k" using Cons.prems(2) by simp
  from Cons.IH [OF binds_delegate_event [OF Cons.prems(1) k t, of e cid m] this] show ?case
    unfolding fun_upd_upd fun_upd_same ev fold_simps by simp
qed simp

lemma search_events_delegable: "\<forall>k\<in>set (map fst search_events). delegable k"
  by code_simp

lemma canvas_types_plain:
  "t \<in> set canvas_types \<Longrightarrow> t \<noteq> '''' \<and> (\<forall>c\<in>set t. c \<noteq> CHR ''.'' \<and> \<not> is_space c) \<and> bindType t = t"
proof -
  have "list_all (\<lambda>t. t \<noteq> '''' \<and> (\<forall>c\<in>set t. c \<noteq> CHR ''.'' \<and> \<not> is_space c) \<and> bindType t = t) canvas_types"
    by code_simp
  moreover assume "t \<in> set canvas_types"
  ultimately show ?thesis unfolding list_all_iff by blast
qed

lemma off_plain:
  "\<forall>c\<in>set w. c \<noteq> CHR ''.'' \<Longrightarrow> w \<noteq> '''' \<Longrightarrow>
     off_binding w (t, h, sel, ns) \<longleftrightarrow> w = t \<and> bindType w = special_type sel w"
  by (simp add: split_type_word)

lemma binds_attach:
  assumes "binds es bs" "set ts \<subseteq> set canvas_types" "distinct ts" "\<forall>x\<in>set (bs e). fst x \<notin> set ts"
  shows "binds (fold (\<lambda>t es. event_add e t (CanvasHandler cid t) None None (event_remove e t None None es)) ts es)
    (bs(e := bs e @ map (\<lambda>t. (t, CanvasHandler cid t, None, [''''])) ts))"
  using assms
proof (induction ts arbitrary: es bs)
  case (Cons t ts)
  have t: "t \<noteq> ''''" "\<forall>c\<in>set t. c \<noteq> CHR ''.''" "\<forall>c\<in>set t. \<not> is_space c"
    using canvas_types_plain [of t] Cons.prems(2) by simp_all
  have "filter (\<lambda>x. \<not> off_binding t x) (bs e) = bs e"
    using Cons.prems(4) off_plain [OF t(2,1)] by (intro filter_True) fastforce
  then have "binds (event_remove e t None None es) bs"
    using binds_remove [OF Cons.prems(1) t(1,3), of e] by simp
  from binds_add [OF this t(1,3) split_type_word [OF t(2)] t(1), of e "CanvasHandler cid t" None]
  have "binds (event_add e t (CanvasHandler cid t) None None (event_remove e t None None es))
    (bs(e := bs e @ [(t, CanvasHandler cid t, None, [''''])]))"
    by simp
  from Cons.IH [OF this] show ?case
    unfolding fun_upd_upd using Cons.prems(2-4) by (simp del: fun_upd_apply add: fun_upd_same)
qed simp

lemma binds_detach:
  assumes "binds es bs" "set ts \<subseteq> set canvas_types"
  shows "\<exists>xs. binds (fold (\<lambda>t. event_remove e t None None) ts es) (bs(e := xs)) \<and> set xs \<subseteq> set (bs e)"
  using assms
proof (induction ts arbitrary: es bs)
  case Nil
  then show ?case by (intro exI [of _ "bs e"]) simp
next
  case (Cons t ts)
  have t: "t \<noteq> ''''" "\<forall>c\<in>set t. \<not> is_space c"
    using canvas_types_plain [of t] Cons.prems(2) by simp_all
  have "set ts \<subseteq> set canvas_types" using Cons.prems(2) by simp
  from Cons.IH [OF binds_remove [OF Cons.prems(1) t, of e] this]
  show ?case unfolding fun_upd_upd fun_upd_same fold_simps by auto
qed

section \<open>The invariant\<close>

definition resize_binding :: "nat \<Rightarrow> page_handler binding" where
  "resize_binding cid = (''resize'', Rerender cid, None, [''''])"

fun app_of :: "shown \<Rightarrow> page_handler binding list" where
  "app_of (ShowsSearch cid rcid) = app_bindings cid"
| "app_of v = []"

fun canvas_of :: "shown \<Rightarrow> page_handler binding list" where
  "canvas_of (ShowsSearch cid rcid) = canvas_bindings rcid"
| "canvas_of v = []"

fun resize_of :: "shown \<Rightarrow> page_handler binding list" where
  "resize_of (ShowsSearch cid rcid) = [resize_binding rcid]"
| "resize_of v = []"

fun shown_ids :: "shown \<Rightarrow> nat" where
  "shown_ids (ShowsSearch cid rcid) = max cid rcid"
| "shown_ids (ShowsAbout cid) = cid"
| "shown_ids Nothing = 0"

text \<open>The bindings of a page: those of \<open>#app\<close>, of the window, and of the canvas that is shown.\<close>

definition state_binds ::
    "page_state \<Rightarrow> page_handler binding list \<Rightarrow> page_handler binding list \<Rightarrow> page_handler binding list \<Rightarrow> bool" where
  "state_binds s app ws cv \<longleftrightarrow>
     (\<exists>bs. binds (ps_events s) bs \<and> bs AppE = app \<and> bs WindowE = ws
       \<and> (\<forall>k. bs (CanvasE k) = (if ps_canvas s = Some k then cv else [])))
     \<and> (\<forall>k. ps_canvas s = Some k \<longrightarrow> k < ps_canvases s)"

definition page_ok :: "page_state \<Rightarrow> bool" where
  "page_ok s \<longleftrightarrow>
     (\<exists>ws. state_binds s (app_of (ps_shown s)) ws (canvas_of (ps_shown s)) \<and> (ws = [] \<or> ws = resize_of (ps_shown s)))
     \<and> shown_ids (ps_shown s) \<le> ps_ids s
     \<and> (ps_canvas s \<noteq> None \<longleftrightarrow> (\<exists>cid rcid. ps_shown s = ShowsSearch cid rcid))"

lemma state_bindsE:
  assumes "state_binds s app ws cv"
  obtains bs where "binds (ps_events s) bs" "bs AppE = app" "bs WindowE = ws"
    "\<forall>k. bs (CanvasE k) = (if ps_canvas s = Some k then cv else [])" "\<forall>k. ps_canvas s = Some k \<longrightarrow> k < ps_canvases s"
  using assms unfolding state_binds_def by blast

lemma state_bindsI:
  assumes "binds (ps_events s) bs" "bs AppE = app" "bs WindowE = ws"
    "\<forall>k. bs (CanvasE k) = (if ps_canvas s = Some k then cv else [])" "\<forall>k. ps_canvas s = Some k \<longrightarrow> k < ps_canvases s"
  shows "state_binds s app ws cv"
  using assms unfolding state_binds_def by blast

lemma on_events_simps [simp]:
  "ps_events (on_events f s) = f (ps_events s)" "ps_canvas (on_events f s) = ps_canvas s"
  "ps_canvases (on_events f s) = ps_canvases s" "ps_ids (on_events f s) = ps_ids s" "ps_shown (on_events f s) = ps_shown s"
  by (simp_all add: on_events_def)


lemma state_binds_frame [simp]:
  "state_binds (s\<lparr>ps_ids := n\<rparr>) app ws cv = state_binds s app ws cv"
  "state_binds (s\<lparr>ps_shown := v\<rparr>) app ws cv = state_binds s app ws cv"
  by (simp_all add: state_binds_def)

lemma drop_canvas_ok:
  assumes "state_binds s app ws cv"
  shows "state_binds (drop_canvas s) app ws cv'"
proof (cases "ps_canvas s")
  case None
  then show ?thesis using assms by (auto simp: drop_canvas_def state_binds_def)
next
  case (Some k)
  obtain bs where bs: "binds (ps_events s) bs" "bs AppE = app" "bs WindowE = ws"
    "\<forall>k. bs (CanvasE k) = (if ps_canvas s = Some k then cv else [])" "\<forall>k. ps_canvas s = Some k \<longrightarrow> k < ps_canvases s"
    using assms by (rule state_bindsE)
  show ?thesis
    by (rule state_bindsI [OF _ _ _ _ , of _ "bs(CanvasE k := [])"])
      (use bs Some binds_clean [OF bs(1)] in \<open>auto simp: drop_canvas_def\<close>)
qed

lemma drop_canvas_simps [simp]:
  "ps_canvas (drop_canvas s) = None" "ps_canvases (drop_canvas s) = ps_canvases s" "ps_ids (drop_canvas s) = ps_ids s"
  "ps_shown (drop_canvas s) = ps_shown s"
  by (auto simp: drop_canvas_def split: option.split)

lemma render_results_ok:
  assumes "state_binds s app ws cv"
  shows "state_binds (render_results cid s) app ws (canvas_bindings cid)"
proof -
  define s1 where "s1 = drop_canvas s"
  define k where "k = ps_canvases s1"
  define s2 where "s2 = s1\<lparr>ps_canvas := Some k, ps_canvases := k + 1\<rparr>"
  have none: "ps_canvas s1 = None" by (simp add: s1_def)
  obtain bs where bs: "binds (ps_events s1) bs" "bs AppE = app" "bs WindowE = ws"
    "\<forall>k. bs (CanvasE k) = (if ps_canvas s1 = Some k then [] else [])" "\<forall>k. ps_canvas s1 = Some k \<longrightarrow> k < ps_canvases s1"
    using drop_canvas_ok [OF assms, of "[]"] unfolding s1_def [symmetric] by (rule state_bindsE)
  have "binds (fold (\<lambda>t es. event_add (CanvasE k) t (CanvasHandler cid t) None None
        (event_remove (CanvasE k) t None None es)) canvas_types (ps_events s1)) (bs(CanvasE k := canvas_bindings cid))"
    using binds_attach [OF bs(1), of canvas_types "CanvasE k" cid] bs(4)
    by (simp add: canvas_bindings_def canvas_types_def none)
  then have "state_binds (attachEvents cid s2) app ws (canvas_bindings cid)"
    by (intro state_bindsI [of _ "bs(CanvasE k := canvas_bindings cid)"])
      (use bs(2-4) none in \<open>auto simp: attachEvents_def s2_def\<close>)
  then show ?thesis by (simp add: render_results_def Let_def s1_def [symmetric] k_def [symmetric] s2_def)
qed

lemma render_results_simps [simp]:
  "ps_canvas (render_results cid s) = Some (ps_canvases s)" "ps_ids (render_results cid s) = ps_ids s"
  "ps_shown (render_results cid s) = ps_shown s"
  by (simp_all add: render_results_def attachEvents_def Let_def)

lemma resize_plain: "off_binding ''resize'' (t, h, sel, ns) \<longleftrightarrow> ''resize'' = t"
proof -
  have "off_binding ''resize'' (t, h, sel, ns) \<longleftrightarrow> ''resize'' = t \<and> bindType ''resize'' = special_type sel ''resize''"
    by (rule off_plain) simp_all
  then show ?thesis by (simp add: special_type_def bindType_def delegateType_def)
qed

lemma resize_word: "''resize'' \<noteq> ''''" "\<forall>c\<in>set ''resize''. \<not> is_space c" "split_type ''resize'' = (''resize'', None)"
  by (simp_all add: is_space_def code_def split_type_word)

lemma initialize_results_ok:
  assumes "state_binds s app ws cv"
  shows "state_binds (initialize_results cid s) app (ws @ [resize_binding cid]) cv"
proof -
  obtain bs where bs: "binds (ps_events s) bs" "bs AppE = app" "bs WindowE = ws"
    "\<forall>k. bs (CanvasE k) = (if ps_canvas s = Some k then cv else [])" "\<forall>k. ps_canvas s = Some k \<longrightarrow> k < ps_canvases s"
    using assms by (rule state_bindsE)
  from binds_add [OF bs(1) resize_word(1,2,3) resize_word(1), of WindowE "Rerender cid" None]
  show ?thesis unfolding initialize_results_def
    by (rule state_bindsI [where s = "on_events _ s", unfolded on_events_simps])
      (use bs in \<open>simp_all add: resize_binding_def\<close>)
qed

lemma remove_results_ok:
  assumes "state_binds s app ws cv"
  shows "\<exists>cv'. state_binds (remove_results s) app (filter (\<lambda>x. fst x \<noteq> ''resize'') ws) cv'"
proof -
  obtain bs where bs: "binds (ps_events s) bs" "bs AppE = app" "bs WindowE = ws"
    "\<forall>k. bs (CanvasE k) = (if ps_canvas s = Some k then cv else [])" "\<forall>k. ps_canvas s = Some k \<longrightarrow> k < ps_canvases s"
    using assms by (rule state_bindsE)
  let ?ws = "filter (\<lambda>x. fst x \<noteq> ''resize'') ws"
  have "filter (\<lambda>x. \<not> off_binding ''resize'' x) ws = ?ws"
    by (rule filter_cong) (auto simp: resize_plain simp del: off_binding.simps)
  then have b1: "binds (event_remove WindowE ''resize'' None None (ps_events s)) (bs(WindowE := ?ws))"
    using binds_remove [OF bs(1) resize_word(1,2), of WindowE] bs(3) by simp
  show ?thesis
  proof (cases "ps_canvas s")
    case None
    then show ?thesis
      by (intro exI [of _ "[]"] state_bindsI [OF _ , of _ "bs(WindowE := ?ws)"])
        (use bs b1 in \<open>auto simp: remove_results_def Let_def\<close>)
  next
    case (Some k)
    obtain xs where "binds (fold (\<lambda>t. event_remove (CanvasE k) t None None) canvas_types
        (event_remove WindowE ''resize'' None None (ps_events s))) (bs(WindowE := ?ws, CanvasE k := xs))"
      using binds_detach [OF b1 order_refl, of "CanvasE k"] by auto
    then show ?thesis
      by (intro exI [of _ xs] state_bindsI [OF _ , of _ "bs(WindowE := ?ws, CanvasE k := xs)"])
        (use bs Some in \<open>auto simp: remove_results_def Let_def\<close>)
  qed
qed

lemma undelegate_ok:
  assumes "state_binds s app ws cv"
  shows "state_binds (on_events (undelegateEvents AppE cid) s) (filter (\<lambda>(t, h, sel, ns). view_namespace cid \<notin> set ns) app) ws cv"
proof -
  obtain bs where bs: "binds (ps_events s) bs" "bs AppE = app" "bs WindowE = ws"
    "\<forall>k. bs (CanvasE k) = (if ps_canvas s = Some k then cv else [])" "\<forall>k. ps_canvas s = Some k \<longrightarrow> k < ps_canvases s"
    using assms by (rule state_bindsE)
  show ?thesis
    by (rule state_bindsI [of _ "bs(AppE := filter (\<lambda>(t, h, sel, ns). view_namespace cid \<notin> set ns) app)"])
      (use bs binds_undelegate [OF bs(1), of AppE cid] in auto)
qed

lemma filter_app_bindings:
  "filter (\<lambda>(t, h, sel, ns). view_namespace cid \<notin> set ns) (app_bindings cid') = (if cid = cid' then [] else app_bindings cid')"
proof -
  have "view_namespace cid = view_namespace cid' \<longleftrightarrow> cid = cid'" by (simp add: view_namespace_def view_cid_inj)
  then show ?thesis
    by (auto simp: app_bindings_def app_binding_def filter_empty_conv intro!: filter_True)
qed

text \<open>The constructor of a search view adds its handlers to those that are there.\<close>

lemma new_search_view_ok:
  assumes "state_binds s app ws cv" "new_search_view s = (cid, rcid, s')"
  shows "state_binds s' (filter (\<lambda>(t, h, sel, ns). view_namespace cid \<notin> set ns) app @ app_bindings cid) (ws @ [resize_binding rcid]) cv"
    and "cid = ps_ids s + 1" "rcid = ps_ids s + 2" "ps_ids s' = rcid" "ps_shown s' = ps_shown s" "ps_canvas s' = ps_canvas s"
proof -
  let ?app = "filter (\<lambda>(t, h, sel, ns). view_namespace cid \<notin> set ns) app"
  let ?evs = "map (\<lambda>(k, m). (k, PageMethod cid m)) search_events"
  define s1 where "s1 = initialize_results rcid (s\<lparr>ps_ids := rcid\<rparr>)"
  show ids: "cid = ps_ids s + 1" "rcid = ps_ids s + 2" "ps_ids s' = rcid" "ps_shown s' = ps_shown s" "ps_canvas s' = ps_canvas s"
    using assms(2) by (auto simp: new_search_view_def Let_def initialize_results_def)
  have s': "s' = on_events (delegateEvents AppE cid ?evs) s1"
    using assms(2) by (auto simp: new_search_view_def Let_def s1_def)
  have "state_binds (s\<lparr>ps_ids := rcid\<rparr>) app ws cv" using assms(1) by simp
  from undelegate_ok [OF initialize_results_ok [OF this], of cid rcid]
  have "state_binds (on_events (undelegateEvents AppE cid) s1) ?app (ws @ [resize_binding rcid]) cv" by (simp add: s1_def)
  then obtain bs where bs: "binds (undelegateEvents AppE cid (ps_events s1)) bs" "bs AppE = ?app" "bs WindowE = ws @ [resize_binding rcid]"
    "\<forall>k. bs (CanvasE k) = (if ps_canvas s1 = Some k then cv else [])" "\<forall>k. ps_canvas s1 = Some k \<longrightarrow> k < ps_canvases s1"
    unfolding state_binds_def on_events_simps by blast
  have "\<forall>k\<in>set (map fst ?evs). delegable k" using search_events_delegable by (auto simp: search_events_def)
  from binds_delegate_events [OF bs(1) this, of AppE cid]
  have "binds (ps_events s') (bs(AppE := ?app @ app_bindings cid))"
    unfolding s' on_events_simps delegateEvents_def app_bindings_def bs(2) .
  then show "state_binds s' (?app @ app_bindings cid) (ws @ [resize_binding rcid]) cv"
    by (rule state_bindsI) (use bs(3-5) in \<open>simp_all add: s'\<close>)
qed

text \<open>Closing a view takes its own handlers from \<open>#app\<close>, and those for \<open>resize\<close> of any view.\<close>

fun kept :: "shown \<Rightarrow> page_handler binding \<Rightarrow> bool" where
  "kept Nothing x = True"
| "kept (ShowsAbout cid) (t, h, sel, ns) = (view_namespace cid \<notin> set ns)"
| "kept (ShowsSearch cid rcid) (t, h, sel, ns) = (view_namespace cid \<notin> set ns)"

fun window_kept :: "shown \<Rightarrow> page_handler binding list \<Rightarrow> page_handler binding list" where
  "window_kept (ShowsSearch cid rcid) ws = filter (\<lambda>x. fst x \<noteq> ''resize'') ws"
| "window_kept v ws = ws"

lemma close_view_ok:
  assumes "state_binds s app ws cv"
  shows "\<exists>cv'. state_binds (close_view v s) (filter (kept v) app) (window_kept v ws) cv'"
proof (cases v)
  case Nothing
  then have "filter (kept v) app = app" by simp
  with assms Nothing show ?thesis by (auto simp: close_view_def)
next
  case (ShowsAbout cid)
  have "filter (kept v) app = filter (\<lambda>(t, h, sel, ns). view_namespace cid \<notin> set ns) app"
    by (rule filter_cong) (auto simp: ShowsAbout)
  then show ?thesis using undelegate_ok [OF assms, of cid] by (auto simp: close_view_def ShowsAbout)
next
  case (ShowsSearch cid rcid)
  have "filter (kept v) app = filter (\<lambda>(t, h, sel, ns). view_namespace cid \<notin> set ns) app"
    by (rule filter_cong) (auto simp: ShowsSearch)
  moreover obtain cv' where "state_binds (remove_results s) app (filter (\<lambda>x. fst x \<noteq> ''resize'') ws) cv'"
    using remove_results_ok [OF assms] by blast
  ultimately show ?thesis using undelegate_ok [of "remove_results s" app _ cv' cid] by (auto simp: close_view_def ShowsSearch)
qed

lemma close_view_simps [simp]: "ps_ids (close_view v s) = ps_ids s" "ps_shown (close_view v s) = ps_shown s"
  by (auto simp: close_view_def remove_results_def Let_def split: shown.split option.split)

lemma kept_app_of: "shown_ids v \<le> n \<Longrightarrow> filter (kept v) (app_of v @ app_bindings (n + 1)) = app_bindings (n + 1)"
  and kept_app_of_alone: "filter (kept v) (app_of v) = []"
proof -
  have k: "kept (ShowsSearch cid rcid) = (\<lambda>(t, h, sel, ns). view_namespace cid \<notin> set ns)"
    "kept (ShowsAbout cid) = (\<lambda>(t, h, sel, ns). view_namespace cid \<notin> set ns)" for cid rcid
    by (auto simp: fun_eq_iff)
  show "shown_ids v \<le> n \<Longrightarrow> filter (kept v) (app_of v @ app_bindings (n + 1)) = app_bindings (n + 1)"
    by (cases v) (simp_all add: k filter_app_bindings del: kept.simps, simp)
  show "filter (kept v) (app_of v) = []"
    by (cases v) (simp_all add: k filter_app_bindings del: kept.simps)
qed

lemma switch_page_simps [simp]: "ps_ids (switch_page v s) = ps_ids s" "ps_shown (switch_page v s) = v"
  by (simp_all add: switch_page_def render_view_def split: shown.split)

lemma switch_page_canvas: "ps_canvas (switch_page v s) \<noteq> None \<longleftrightarrow> (\<exists>cid rcid. ps_shown (switch_page v s) = ShowsSearch cid rcid)"
  by (simp add: switch_page_def render_view_def split: shown.split)

lemma switch_page_ok:
  assumes "state_binds s app ws cv"
  shows "state_binds (switch_page v s) (filter (kept (ps_shown s)) app) (window_kept (ps_shown s) ws) (canvas_of v)"
proof -
  define s1 where "s1 = (close_view (ps_shown s) s)\<lparr>ps_shown := v\<rparr>"
  obtain cv' where "state_binds (close_view (ps_shown s) s) (filter (kept (ps_shown s)) app) (window_kept (ps_shown s) ws) cv'"
    using close_view_ok [OF assms] by blast
  then have "state_binds s1 (filter (kept (ps_shown s)) app) (window_kept (ps_shown s) ws) cv'"
    by (simp add: s1_def)
  from drop_canvas_ok [OF this] show ?thesis
    unfolding switch_page_def s1_def [symmetric] render_view_def
    by (auto split: shown.split intro: render_results_ok)
qed

section \<open>Whatever happens\<close>

lemma page_okI:
  assumes "state_binds s (app_of (ps_shown s)) ws (canvas_of (ps_shown s))" "ws = [] \<or> ws = resize_of (ps_shown s)"
    "shown_ids (ps_shown s) \<le> ps_ids s" "ps_canvas s \<noteq> None \<longleftrightarrow> (\<exists>cid rcid. ps_shown s = ShowsSearch cid rcid)"
  shows "page_ok s"
  using assms unfolding page_ok_def by blast

lemma page_okE:
  assumes "page_ok s"
  obtains ws where "state_binds s (app_of (ps_shown s)) ws (canvas_of (ps_shown s))" "ws = [] \<or> ws = resize_of (ps_shown s)"
    "shown_ids (ps_shown s) \<le> ps_ids s" "ps_canvas s \<noteq> None \<longleftrightarrow> (\<exists>cid rcid. ps_shown s = ShowsSearch cid rcid)"
  using assms unfolding page_ok_def by blast

lemma window_kept_resize:
  "ws = [] \<or> ws = resize_of v \<Longrightarrow>
     window_kept v (ws @ [resize_binding r]) = (case v of ShowsSearch cid rcid \<Rightarrow> [] | _ \<Rightarrow> [resize_binding r])"
  by (cases v) (auto simp: resize_binding_def)

lemma show_search_ok:
  assumes "page_ok s"
  shows "page_ok (show_search s)"
    and "state_binds (show_search s) (app_of (ps_shown (show_search s)))
      (case ps_shown s of ShowsSearch cid rcid \<Rightarrow> [] | _ \<Rightarrow> [resize_binding (ps_ids s + 2)]) (canvas_of (ps_shown (show_search s)))"
proof -
  obtain ws where s: "state_binds s (app_of (ps_shown s)) ws (canvas_of (ps_shown s))" "ws = [] \<or> ws = resize_of (ps_shown s)"
    "shown_ids (ps_shown s) \<le> ps_ids s"
    using assms by (elim page_okE) blast
  obtain cid rcid s' where new: "new_search_view s = (cid, rcid, s')" by (cases "new_search_view s")
  note n = new_search_view_ok [OF s(1) new]
  let ?ws = "case ps_shown s of ShowsSearch cid rcid \<Rightarrow> [] | _ \<Rightarrow> [resize_binding (ps_ids s + 2)]"
  have "filter (\<lambda>(t, h, sel, ns). view_namespace cid \<notin> set ns) (app_of (ps_shown s)) = app_of (ps_shown s)"
    using s(3) n(2) by (cases "ps_shown s") (auto simp: filter_app_bindings)
  then have "state_binds s' (app_of (ps_shown s) @ app_bindings cid) (ws @ [resize_binding rcid]) (canvas_of (ps_shown s))"
    using n(1) by simp
  from switch_page_ok [OF this, of "ShowsSearch cid rcid"]
  have sw: "state_binds (switch_page (ShowsSearch cid rcid) s') (app_bindings cid) ?ws (canvas_bindings rcid)"
    using kept_app_of [OF s(3)] window_kept_resize [OF s(2), of "ps_ids s + 2"]
    by (simp only: n(2,3,5) canvas_of.simps)
  have ss: "show_search s = switch_page (ShowsSearch cid rcid) s'" by (simp add: show_search_def new)
  show "state_binds (show_search s) (app_of (ps_shown (show_search s))) ?ws (canvas_of (ps_shown (show_search s)))"
    using sw by (simp add: ss)
  then show "page_ok (show_search s)"
  proof (rule page_okI)
    show "ps_canvas (show_search s) \<noteq> None \<longleftrightarrow> (\<exists>cid rcid. ps_shown (show_search s) = ShowsSearch cid rcid)"
      unfolding ss by (rule switch_page_canvas)
  qed (auto simp: ss n(2-4) split: shown.split)
qed

lemma show_about_ok: "page_ok s \<Longrightarrow> page_ok (show_about s)"
proof (erule page_okE)
  fix ws
  assume s: "state_binds s (app_of (ps_shown s)) ws (canvas_of (ps_shown s))" "ws = [] \<or> ws = resize_of (ps_shown s)"
  define s1 where "s1 = s\<lparr>ps_ids := ps_ids s + 1\<rparr>"
  have "state_binds s1 (app_of (ps_shown s)) ws (canvas_of (ps_shown s))"
    using s(1) by (simp add: s1_def)
  from switch_page_ok [OF this, of "ShowsAbout (ps_ids s + 1)"]
  have "state_binds (show_about s) [] (window_kept (ps_shown s) ws) []"
    by (simp add: show_about_def s1_def [symmetric]) (simp add: s1_def kept_app_of_alone)
  moreover have "window_kept (ps_shown s) ws = []"
    using s(2) by (cases "ps_shown s") (auto simp: resize_binding_def)
  moreover have "ps_canvas (show_about s) \<noteq> None \<longleftrightarrow> (\<exists>cid rcid. ps_shown (show_about s) = ShowsSearch cid rcid)"
    unfolding show_about_def Let_def by (rule switch_page_canvas)
  moreover have "ps_shown (show_about s) = ShowsAbout (ps_ids s + 1)" "ps_ids (show_about s) = ps_ids s + 1"
    by (simp_all add: show_about_def)
  ultimately show "page_ok (show_about s)"
    by (intro page_okI [of _ "[]"]) simp_all
qed

lemma document_ok:
  assumes "page_ok s" "\<And>bs. binds (ps_events s) bs \<Longrightarrow> \<exists>xs. binds (f (ps_events s)) (bs(DocumentE := xs))"
  shows "page_ok (on_events f s)"
proof -
  obtain ws where s: "state_binds s (app_of (ps_shown s)) ws (canvas_of (ps_shown s))" "ws = [] \<or> ws = resize_of (ps_shown s)"
    "shown_ids (ps_shown s) \<le> ps_ids s" "ps_canvas s \<noteq> None \<longleftrightarrow> (\<exists>cid rcid. ps_shown s = ShowsSearch cid rcid)"
    using assms(1) by (rule page_okE)
  obtain bs where bs: "binds (ps_events s) bs" "bs AppE = app_of (ps_shown s)" "bs WindowE = ws"
    "\<forall>k. bs (CanvasE k) = (if ps_canvas s = Some k then canvas_of (ps_shown s) else [])" "\<forall>k. ps_canvas s = Some k \<longrightarrow> k < ps_canvases s"
    using s(1) by (rule state_bindsE)
  obtain xs where "binds (f (ps_events s)) (bs(DocumentE := xs))" using assms(2) [OF bs(1)] by blast
  then have "state_binds (on_events f s) (app_of (ps_shown s)) ws (canvas_of (ps_shown s))"
    by (intro state_bindsI [of _ "bs(DocumentE := xs)"]) (use bs in simp_all)
  then show ?thesis using s(2-4) by (intro page_okI [of _ ws]) simp_all
qed

lemma keypress_word: "''keypress'' \<noteq> ''''" "\<forall>c\<in>set ''keypress''. \<not> is_space c" "split_type ''keypress'' = (''keypress'', None)"
  by (simp_all add: is_space_def code_def split_type_word)

lemma page_action_ok:
  assumes "page_ok s"
  shows "page_ok (page_action a s)"
proof (cases a)
  case ShowSearch
  then show ?thesis using show_search_ok(1) [OF assms] by simp
next
  case ShowAbout
  then show ?thesis using show_about_ok [OF assms] by simp
next
  case Render
  obtain ws where s: "state_binds s (app_of (ps_shown s)) ws (canvas_of (ps_shown s))" "ws = [] \<or> ws = resize_of (ps_shown s)"
    "shown_ids (ps_shown s) \<le> ps_ids s"
    using assms by (elim page_okE) blast
  show ?thesis
  proof (cases "ps_shown s")
    case (ShowsSearch cid rcid)
    then have "page_ok (render_results rcid s)"
      using s render_results_ok [OF s(1), of rcid] by (intro page_okI [of _ ws]) simp_all
    then show ?thesis by (simp add: Render ShowsSearch)
  qed (use assms Render in simp_all)
next
  case OpenDialog
  have "page_ok (show_dialog_page s)"
    unfolding show_dialog_page_def
    by (rule document_ok [OF assms]) (blast intro: binds_add [OF _ keypress_word(1,2,3) keypress_word(1)])
  then show ?thesis by (simp add: OpenDialog)
next
  case DismissDialog
  have "page_ok (dismiss_dialog s)"
    unfolding dismiss_dialog_def
    by (rule document_ok [OF assms]) (blast intro: binds_remove [OF _ keypress_word(1,2)])
  then show ?thesis by (simp add: DismissDialog)
next
  case (TakeIds n)
  obtain ws where s: "state_binds s (app_of (ps_shown s)) ws (canvas_of (ps_shown s))" "ws = [] \<or> ws = resize_of (ps_shown s)"
    "shown_ids (ps_shown s) \<le> ps_ids s" "ps_canvas s \<noteq> None \<longleftrightarrow> (\<exists>cid rcid. ps_shown s = ShowsSearch cid rcid)"
    using assms by (rule page_okE)
  then show ?thesis
    unfolding TakeIds page_action.simps by (intro page_okI [of _ ws]) simp_all
qed

lemma new_page_ok: "page_ok new_page"
proof -
  have "binds no_events (\<lambda>_. [])" using implements_empty by (force simp: binds_def no_bindings_def)
  then show ?thesis
    by (intro page_okI [of _ "[]"] state_bindsI [of _ "\<lambda>_. []"]) (simp_all add: new_page_def)
qed

lemma pages_ok: "page_ok (fold page_action acts new_page)"
proof -
  have "page_ok s \<Longrightarrow> page_ok (fold page_action acts s)" for s
    by (induction acts arbitrary: s) (simp_all add: page_action_ok)
  then show ?thesis using new_page_ok by simp
qed

lemma handlers_from_app:
  "handlers_from (app_bindings cid) t =
     (if t = ''click'' then map (PageMethod cid) [''searchHandler'', ''clearHandler'', ''dropdownHandler'', ''zoomHandler'']
      else if t = ''focusout'' then map (PageMethod cid) [''blurBeginHandler'', ''blurEndHandler''] else [])"
proof -
  have "app_bindings cid =
    map (\<lambda>(t, sel, m). (t, PageMethod cid m, Some sel, [view_namespace cid]))
      [(''click'', ''#searchButton'', ''searchHandler''), (''click'', ''#clearButton'', ''clearHandler''),
       (''click'', ''.add-field'', ''dropdownHandler''), (''blur'', ''#begin'', ''blurBeginHandler''),
       (''blur'', ''#end'', ''blurEndHandler''), (''click'', ''#zoomButton'', ''zoomHandler'')]"
    by (simp add: app_bindings_def app_binding_def search_events_def split_event_def is_space_def code_def)
  then show ?thesis
    by (simp add: handlers_from_def special_type_def delegateType_def bindType_def)
qed

lemma handlers_from_canvas:
  "handlers_from (canvas_bindings cid) t = (if t \<in> set canvas_types then [CanvasHandler cid t] else [])"
  by (auto simp: handlers_from_def canvas_bindings_def canvas_types_def special_type_def bindType_def)

lemma page_ok_handlers:
  assumes "page_ok s"
  shows "handlers_at s AppE t =
      (case ps_shown s of
         ShowsSearch cid rcid \<Rightarrow>
           if t = ''click'' then map (PageMethod cid) [''searchHandler'', ''clearHandler'', ''dropdownHandler'', ''zoomHandler'']
           else if t = ''focusout'' then map (PageMethod cid) [''blurBeginHandler'', ''blurEndHandler''] else []
       | _ \<Rightarrow> [])
    \<and> handlers_at s (CanvasE k) t =
      (case ps_shown s of
         ShowsSearch cid rcid \<Rightarrow> if ps_canvas s = Some k \<and> t \<in> set canvas_types then [CanvasHandler rcid t] else []
       | _ \<Rightarrow> [])
    \<and> (handlers_at s WindowE t = []
       \<or> (\<exists>cid rcid. ps_shown s = ShowsSearch cid rcid \<and> t = ''resize'' \<and> handlers_at s WindowE t = [Rerender rcid]))"
proof -
  obtain ws where s: "state_binds s (app_of (ps_shown s)) ws (canvas_of (ps_shown s))" "ws = [] \<or> ws = resize_of (ps_shown s)"
    using assms by (elim page_okE) blast
  obtain bs where bs: "binds (ps_events s) bs" "bs AppE = app_of (ps_shown s)" "bs WindowE = ws"
    "\<forall>k. bs (CanvasE k) = (if ps_canvas s = Some k then canvas_of (ps_shown s) else [])" "\<forall>k. ps_canvas s = Some k \<longrightarrow> k < ps_canvases s"
    using s(1) by (rule state_bindsE)
  have nil: "handlers_from [] t = []" by (simp add: handlers_from_def)
  have "handlers_from [resize_binding rcid] t = (if t = ''resize'' then [Rerender rcid] else [])" for rcid
    by (simp add: handlers_from_def resize_binding_def special_type_def bindType_def)
  then have "handlers_from ws t = []
       \<or> (\<exists>cid rcid. ps_shown s = ShowsSearch cid rcid \<and> t = ''resize'' \<and> handlers_from ws t = [Rerender rcid])"
    using s(2) nil by (cases "ps_shown s") (auto split: if_splits)
  then show ?thesis
    unfolding handlers_at_bindings [OF bs(1)] bs(2,3) bs(4) [rule_format]
    by (cases "ps_shown s") (simp_all add: nil handlers_from_app handlers_from_canvas)
qed

lemma page_ok_resize:
  assumes "page_ok s"
  shows "handlers_at (show_search s) WindowE ''resize'' =
    (case ps_shown s of ShowsSearch cid rcid \<Rightarrow> [] | _ \<Rightarrow> [Rerender (ps_ids s + 2)])"
proof -
  obtain bs where bs: "binds (ps_events (show_search s)) bs"
    "bs WindowE = (case ps_shown s of ShowsSearch cid rcid \<Rightarrow> [] | _ \<Rightarrow> [resize_binding (ps_ids s + 2)])"
    using show_search_ok(2) [OF assms] by (elim state_bindsE) blast
  show ?thesis
    unfolding handlers_at_bindings [OF bs(1)] bs(2)
    by (simp add: handlers_from_def resize_binding_def special_type_def bindType_def split: shown.split)
qed


text \<open>A search page that is opened from nowhere or from the about page renders itself again when the
  window is resized; one that replaces a search page does not, since closing the old page removes the
  handlers of both.\<close>

theorem resize_handler_lost:
  "let s = fold page_action acts new_page
   in handlers_at (show_search s) WindowE ''resize'' =
    (case ps_shown s of ShowsSearch cid rcid \<Rightarrow> [] | _ \<Rightarrow> [Rerender (ps_ids s + 2)])"
  unfolding Let_def by (rule page_ok_resize [OF pages_ok])

end
