(* ===== verification/Template.thy ===== *)
theory Template
  imports Js_String Span_Details Modal_Dialog
begin

text \<open>
  \<open>_.escape\<close>, \<open>_.unescape\<close> and \<open>_.template\<close> of \<open>htrace-webapp/src/main/web/lib/underscore-1.7.0.js\<close>, and the
  HTML that the viewer makes with them: the dialogs of \<open>modal.js\<close> and the table of \<open>span_widget.js\<close>, from the
  templates of \<open>index.html\<close>. The code inside a template is an expression, whose value a parameter gives
  (for the templates of the viewer, the name of a field of the data), or a statement, which a parameter runs.
\<close>

section \<open>Escaping\<close>

definition escapeMap :: "(string \<times> string) list" where
  "escapeMap =
     [(''&'', ''&amp;''), (''<'', ''&lt;''), (''>'', ''&gt;''), ([CHR 0x22], ''&quot;''),
      ([CHR 0x27], ''&#x27;''), ([CHR 0x60], ''&#x60;'')]"

definition unescapeMap :: "(string \<times> string) list" where
  "unescapeMap = map (\<lambda>(k, v). (v, k)) escapeMap"

text \<open>
  \<open>createEscaper\<close>: the regular expression is the alternation of the keys; a match is replaced with what
  the key is mapped to, and the search goes on behind it.
\<close>

definition first_key :: "(string \<times> string) list \<Rightarrow> string \<Rightarrow> (string \<times> string) option" where
  "first_key m s = find (\<lambda>(k, v). starts_with k s) m"

fun createEscaper :: "(string \<times> string) list \<Rightarrow> string \<Rightarrow> string" where
  "createEscaper m [] = []"
| "createEscaper m (c # cs) =
     (case first_key m (c # cs) of
        Some (k, v) \<Rightarrow> v @ createEscaper m (drop (length k - 1) cs)
      | None \<Rightarrow> c # createEscaper m cs)"

definition escape_us :: "string option \<Rightarrow> string" where
  "escape_us s = (case s of None \<Rightarrow> '''' | Some s \<Rightarrow> createEscaper escapeMap s)"

definition unescape_us :: "string option \<Rightarrow> string" where
  "unescape_us s = (case s of None \<Rightarrow> '''' | Some s \<Rightarrow> createEscaper unescapeMap s)"

section \<open>Templates\<close>

datatype template_part = Literal string | Escape string | Interpolate string | Evaluate string

text \<open>\<open>([\s\S]+?)%>\<close>: at least one character, up to the first \<open>%>\<close>; with what follows.\<close>

fun code_end :: "string \<Rightarrow> (string \<times> string) option" where
  "code_end [] = None"
| "code_end (c # cs) =
     (if starts_with ''%>'' cs then Some ([c], drop 2 cs)
      else map_option (\<lambda>(js, rest). (c # js, rest)) (code_end cs))"

definition after_opening :: "string \<Rightarrow> string \<Rightarrow> (string \<times> string) option" where
  "after_opening opening s = (if starts_with opening s then code_end (drop (length opening) s) else None)"

text \<open>The alternatives of \<open>matcher\<close>, in order.\<close>

definition delimited :: "string \<Rightarrow> (template_part \<times> string) option" where
  "delimited s =
     (case after_opening ''<%-'' s of
        Some (js, rest) \<Rightarrow> Some (Escape js, rest)
      | None \<Rightarrow>
          (case after_opening ''<%='' s of
             Some (js, rest) \<Rightarrow> Some (Interpolate js, rest)
           | None \<Rightarrow> map_option (\<lambda>(js, rest). (Evaluate js, rest)) (after_opening ''<%'' s)))"

lemma code_end_shorter: "code_end s = Some (js, rest) \<Longrightarrow> length rest < length s"
  by (induction s arbitrary: js) (auto split: if_splits)

lemma delimited_shorter: "delimited s = Some (p, rest) \<Longrightarrow> length rest < length s"
  by (auto simp: delimited_def after_opening_def split: option.splits if_splits dest!: code_end_shorter)

function template_parts :: "string \<Rightarrow> string \<Rightarrow> template_part list" where
  "template_parts text [] = [Literal text]"
| "template_parts text (c # cs) =
     (case delimited (c # cs) of
        Some (p, rest) \<Rightarrow> Literal text # p # template_parts [] rest
      | None \<Rightarrow> template_parts (text @ [c]) cs)"
  by pat_completeness auto
termination
  by (relation "measure (length \<circ> snd)") (auto dest: delimited_shorter)

text \<open>The source of the function that a template is compiled to.\<close>

definition escapeChar :: "char \<Rightarrow> string" where
  "escapeChar c =
     (if c = CHR 0x27 then [CHR 0x5C, CHR 0x27] else if c = CHR 0x5C then [CHR 0x5C, CHR 0x5C]
      else if c = CHR 0x0D then [CHR 0x5C, CHR ''r''] else if c = CHR 0x0A then [CHR 0x5C, CHR ''n'']
      else [c])"

definition escape_literal :: "string \<Rightarrow> string" where
  "escape_literal s = concat (map escapeChar s)"

abbreviation (input) quot :: string where "quot \<equiv> [CHR 0x27]"
abbreviation (input) newline :: string where "newline \<equiv> [CHR 0x0A]"

fun part_source :: "template_part \<Rightarrow> string" where
  "part_source (Literal t) = escape_literal t"
| "part_source (Escape js) =
     quot @ ''+'' @ newline @ ''((__t=('' @ js @ ''))==null?'' @ quot @ quot @ '':_.escape(__t))+'' @ newline @ quot"
| "part_source (Interpolate js) =
     quot @ ''+'' @ newline @ ''((__t=('' @ js @ ''))==null?'' @ quot @ quot @ '':__t)+'' @ newline @ quot"
| "part_source (Evaluate js) = quot @ '';'' @ newline @ js @ newline @ ''__p+='' @ quot"

definition template_source :: "string option \<Rightarrow> string \<Rightarrow> string" where
  "template_source variable text =
     (let source = ''__p+='' @ quot @ concat (map part_source (template_parts [] text)) @ quot @ '';'' @ newline;
          source = (if variable = None then ''with(obj||{}){'' @ newline @ source @ ''}'' @ newline else source)
      in ''var __t,__p='' @ quot @ quot @ '',__j=Array.prototype.join,'' @
         ''print=function(){__p+=__j.call(arguments,'' @ quot @ quot @ '');};'' @ newline @
         source @ ''return __p;'' @ newline)"

text \<open>
  Running that function: the text of \<open>__p\<close> with the variables. An expression has a text, or is null or
  undefined; a statement may change the variables and print.
\<close>

fun run_part ::
    "(string \<Rightarrow> 'd \<Rightarrow> string option) \<Rightarrow> (string \<Rightarrow> 'd \<times> string \<Rightarrow> 'd \<times> string) \<Rightarrow> template_part \<Rightarrow> 'd \<times> string \<Rightarrow> 'd \<times> string"
where
  "run_part expr stmt (Literal t) (d, p) = (d, p @ t)"
| "run_part expr stmt (Escape js) (d, p) = (d, p @ (case expr js d of None \<Rightarrow> '''' | Some t \<Rightarrow> escape_us (Some t)))"
| "run_part expr stmt (Interpolate js) (d, p) = (d, p @ (case expr js d of None \<Rightarrow> '''' | Some t \<Rightarrow> t))"
| "run_part expr stmt (Evaluate js) (d, p) = stmt js (d, p)"

definition template ::
    "(string \<Rightarrow> 'd \<Rightarrow> string option) \<Rightarrow> (string \<Rightarrow> 'd \<times> string \<Rightarrow> 'd \<times> string) \<Rightarrow> string \<Rightarrow> 'd \<Rightarrow> string" where
  "template expr stmt text data = snd (fold (run_part expr stmt) (template_parts [] text) (data, ''''))"

text \<open>\<open>with(obj)\<close>: the expressions of the viewer are names of fields.\<close>

definition field_value :: "string \<Rightarrow> (string \<times> string) list \<Rightarrow> string option" where
  "field_value js data = map_of data (trim js)"

definition fill_template :: "string \<Rightarrow> (string \<times> string) list \<Rightarrow> string" where
  "fill_template = template field_value (\<lambda>js x. x)"

section \<open>The dialogs\<close>

abbreviation (input) dquot :: string where "dquot \<equiv> [CHR 0x22]"

definition modal_head :: "string \<Rightarrow> string" where
  "modal_head kind =
     newline @ ''      <div class='' @ dquot @ kind @ dquot @ ''>'' @ newline @
     ''        <div class='' @ dquot @ ''modal-content'' @ dquot @ ''>'' @ newline @
     ''          <div class='' @ dquot @ ''modal-header'' @ dquot @ ''>'' @ newline @
     ''            <button type='' @ dquot @ ''button'' @ dquot @ '' class='' @ dquot @ ''close'' @ dquot
       @ '' data-dismiss='' @ dquot @ ''modal'' @ dquot @ newline @
     ''                  aria-label='' @ dquot @ ''Close'' @ dquot @ ''>'' @ newline @
     ''              <span aria-hidden='' @ dquot @ ''true'' @ dquot @ ''>&times;</span>'' @ newline @
     ''            </button>'' @ newline @
     ''            <h4 class='' @ dquot @ ''modal-title'' @ dquot @ ''>''"

definition modal_middle :: string where
  "modal_middle =
     ''</h4>'' @ newline @ ''          </div>'' @ newline @
     ''          <div class='' @ dquot @ ''modal-body'' @ dquot @ ''>'' @ newline @ ''            ''"

definition modal_foot :: string where
  "modal_foot =
     ''<p/>'' @ newline @ ''          </div>'' @ newline @
     ''          <div class='' @ dquot @ ''modal-footer'' @ dquot @ ''>'' @ newline @
     ''            <button type='' @ dquot @ ''button'' @ dquot @ '' class='' @ dquot @ ''btn btn-primary'' @ dquot
       @ '' data-dismiss='' @ dquot @ ''modal'' @ dquot @ ''>Close</button>'' @ newline @
     ''          </div>'' @ newline @ ''        </div>'' @ newline @ ''      </div>'' @ newline @ ''    ''"

definition modal_template :: "string \<Rightarrow> string" where
  "modal_template kind =
     modal_head kind @ ''<%= title %>'' @ modal_middle @ ''<%= body %>'' @ modal_foot"

definition modal_warning_html :: "string \<Rightarrow> string \<Rightarrow> string" where
  "modal_warning_html title body = fill_template (modal_template ''modal-dialog'') [(''title'', title), (''body'', body)]"

definition modal_table_html :: "string \<Rightarrow> string \<Rightarrow> string" where
  "modal_table_html title body =
     fill_template (modal_template ''modal-dialog modal-lg'') [(''title'', title), (''body'', body)]"

definition table_row_template :: string where
  "table_row_template =
     newline @ ''      <tr bgcolor='' @ dquot @ ''<%= bgcolor %>'' @ dquot @ ''>'' @ newline @
     ''        <td style='' @ dquot @ ''width:30%;word-wrap:break-word'' @ dquot @ ''><%- key %></td>'' @ newline @
     ''        <td style='' @ dquot @ ''width:70%;word-wrap:break-word'' @ dquot @ ''><%- val %></td>'' @ newline @
     ''      </tr>'' @ newline @ ''    ''"

text \<open>The table of \<open>showSpanDetails\<close>; \<open>show\<close> is the text of a value of a row.\<close>

definition row_html :: "(detail \<Rightarrow> string) \<Rightarrow> row \<Rightarrow> string" where
  "row_html show r =
     fill_template table_row_template
       ([(''bgcolor'', row_bgcolor r), (''key'', row_key r)]
        @ (case row_val r of None \<Rightarrow> [] | Some v \<Rightarrow> [(''val'', show v)]))"

definition table_html :: "(detail \<Rightarrow> string) \<Rightarrow> row list \<Rightarrow> string" where
  "table_html show rows =
     ''<table style='' @ dquot @ ''table-layout:fixed;width:100%;word-wrap:break-word'' @ dquot @ ''>''
     @ concat (map (row_html show) rows) @ ''</table>''"

definition details_dialog :: "(detail \<Rightarrow> string) \<Rightarrow> int \<Rightarrow> span \<Rightarrow> modal \<Rightarrow> modal" where
  "details_dialog show now sp m = showModal (modal_table_html ''Span Details'' (table_html show (showSpanDetails now sp))) m"

definition warning_dialog :: "string \<Rightarrow> string \<Rightarrow> modal \<Rightarrow> modal" where
  "warning_dialog = showModalWarning modal_warning_html"

end
