(* ===== verification/Template_Props.thy ===== *)
theory Template_Props
  imports Template
begin

text \<open>
  What \<open>_.escape\<close> and \<open>_.template\<close> guarantee: unescaping undoes escaping, escaped text is no markup, the
  literals of a compiled template denote its text, and the table of the details dialog shows each field
  as it is, whatever the spans contain. The warnings, on the other hand, insert their text unescaped.
\<close>

section \<open>Escaping\<close>

definition escaped_char :: "char \<Rightarrow> string" where
  "escaped_char c = (case map_of escapeMap [c] of None \<Rightarrow> [c] | Some s \<Rightarrow> s)"

lemma first_key_escape: "first_key escapeMap (c # cs) = map_option (\<lambda>s. ([c], s)) (map_of escapeMap [c])"
  by (simp add: first_key_def escapeMap_def)

lemma escape_chars: "createEscaper escapeMap s = concat (map escaped_char s)"
  by (induction s) (simp_all add: first_key_escape escaped_char_def split: option.split)

lemma not_a_key: "c \<noteq> CHR ''&'' \<Longrightarrow> first_key unescapeMap (c # cs) = None"
  by (simp add: first_key_def unescapeMap_def escapeMap_def)

lemma unescape_char: "createEscaper unescapeMap (escaped_char c @ t) = c # createEscaper unescapeMap t"
proof (cases "map_of escapeMap [c]")
  case None
  then have "c \<noteq> CHR ''&''" by (auto simp: escapeMap_def)
  then show ?thesis using None by (simp add: escaped_char_def not_a_key)
next
  case (Some s)
  then show ?thesis
    by (auto simp: escapeMap_def escaped_char_def unescapeMap_def first_key_def split: if_splits)
qed

lemma unescape_text: "createEscaper unescapeMap (createEscaper escapeMap s) = s"
  unfolding escape_chars by (induction s) (simp_all add: unescape_char)

definition markup :: "char set" where
  "markup = {CHR ''<'', CHR ''>'', CHR 0x22, CHR 0x27, CHR 0x60}"

lemma escaped_char_plain: "set (escaped_char c) \<inter> markup = {}"
  by (auto simp: escaped_char_def escapeMap_def markup_def)

lemma escape_plain: "set (createEscaper escapeMap s) \<inter> markup = {}"
  unfolding escape_chars using escaped_char_plain by fastforce

lemma escape_roundtrip_text: "unescape_us (Some (escape_us (Some t))) = t"
  by (simp add: unescape_us_def escape_us_def unescape_text)

text \<open>Escaped text contains no angle bracket and no quotation mark, and unescaping gives it back.\<close>

theorem escape_roundtrip:
  "unescape_us (Some (escape_us s)) = (case s of None \<Rightarrow> '''' | Some t \<Rightarrow> t) \<and> set (escape_us s) \<inter> markup = {}"
  using escape_plain by (auto simp: unescape_us_def escape_us_def unescape_text split: option.split)

section \<open>The literals of a compiled template\<close>

text \<open>A string literal of the language in single quotes, after the opening quote: its value, and what follows.\<close>

fun read_literal :: "string \<Rightarrow> (string \<times> string) option" where
  "read_literal [] = None"
| "read_literal (c # cs) =
     (if c = CHR 0x27 then Some ([], cs)
      else if c = CHR 0x0A \<or> c = CHR 0x0D then None
      else if c = CHR 0x5C then
        (case cs of
           [] \<Rightarrow> None
         | d # ds \<Rightarrow>
             map_option (\<lambda>(s, rest). ((if d = CHR ''n'' then CHR 0x0A else if d = CHR ''r'' then CHR 0x0D else d) # s, rest))
               (read_literal ds))
      else map_option (\<lambda>(s, rest). (c # s, rest)) (read_literal cs))"

text \<open>Whatever the text of a template is, the literals of its compiled source denote that text and end
  where the compiler ends them.\<close>

theorem literal_roundtrip: "read_literal (escape_literal s @ quot @ rest) = Some (s, rest)"
  by (induction s) (simp_all add: escape_literal_def escapeChar_def)

section \<open>HTML\<close>

text \<open>Tags and the text between them.\<close>

datatype html = Tag string | Chars string

fun html_step :: "char \<Rightarrow> bool \<times> string \<times> html list \<Rightarrow> bool \<times> string \<times> html list" where
  "html_step c (True, acc, out) = (if c = CHR ''>'' then (False, [], out @ [Tag acc]) else (True, acc @ [c], out))"
| "html_step c (False, acc, out) =
     (if c = CHR ''<'' then (True, [], out @ (if acc = [] then [] else [Chars acc])) else (False, acc @ [c], out))"

definition html_tokens :: "string \<Rightarrow> html list" where
  "html_tokens s =
     (let (t, acc, out) = fold html_step s (False, [], [])
      in out @ (if t \<or> acc = [] then [] else [Chars acc]))"

text \<open>The texts of the cells of a table, and the tags.\<close>

fun cell_step :: "html \<Rightarrow> string option \<times> string list \<Rightarrow> string option \<times> string list" where
  "cell_step (Tag t) (cell, out) =
     (if starts_with ''td '' t then (Some [], out)
      else if t = ''/td'' then (None, out @ [unescape_us cell]) else (cell, out))"
| "cell_step (Chars s) (cell, out) = (map_option (\<lambda>t. t @ s) cell, out)"

definition cells :: "html list \<Rightarrow> string list" where
  "cells ts = snd (fold cell_step ts (None, []))"

fun tags :: "html list \<Rightarrow> string list" where
  "tags [] = []"
| "tags (Tag t # ts) = t # tags ts"
| "tags (Chars s # ts) = tags ts"

lemma tags_append [simp]: "tags (xs @ ys) = tags xs @ tags ys"
  by (induction xs rule: tags.induct) simp_all

lemma fold_text:
  "CHR ''<'' \<notin> set s \<Longrightarrow> fold html_step s (False, acc, out) = (False, acc @ s, out)"
  by (induction s arbitrary: acc) auto

lemma fold_tag:
  "CHR ''>'' \<notin> set s \<Longrightarrow> fold html_step s (True, acc, out) = (True, acc @ s, out)"
  by (induction s arbitrary: acc) auto

lemma fold_escaped: "fold html_step (escape_us s) (False, acc, out) = (False, acc @ escape_us s, out)"
proof -
  have "CHR ''<'' \<notin> set (escape_us s)" using escape_plain by (auto simp: escape_us_def markup_def split: option.split)
  then show ?thesis by (rule fold_text)
qed

section \<open>The templates of the dialogs\<close>

definition row1 :: string where
  "row1 = newline @ ''      <tr bgcolor='' @ dquot"
definition row2 :: string where
  "row2 = dquot @ ''>'' @ newline @ ''        <td style='' @ dquot @ ''width:30%;word-wrap:break-word'' @ dquot @ ''>''"
definition row3 :: string where
  "row3 = ''</td>'' @ newline @ ''        <td style='' @ dquot @ ''width:70%;word-wrap:break-word'' @ dquot @ ''>''"
definition row4 :: string where
  "row4 = ''</td>'' @ newline @ ''      </tr>'' @ newline @ ''    ''"

lemma row_parts:
  "template_parts [] table_row_template =
     [Literal row1, Interpolate '' bgcolor '', Literal row2, Escape '' key '', Literal row3, Escape '' val '', Literal row4]"
  by code_simp

lemma names: "trim '' bgcolor '' = ''bgcolor''" "trim '' key '' = ''key''" "trim '' val '' = ''val''"
  "trim '' title '' = ''title''" "trim '' body '' = ''body''"
  by code_simp+

definition val_text :: "(detail \<Rightarrow> string) \<Rightarrow> row \<Rightarrow> string" where
  "val_text show r = (case row_val r of None \<Rightarrow> '''' | Some v \<Rightarrow> show v)"

lemma row_html_eq:
  "row_html show r = row1 @ row_bgcolor r @ row2 @ escape_us (Some (row_key r)) @ row3 @ escape_us (Some (val_text show r)) @ row4"
  unfolding row_html_def fill_template_def template_def row_parts
  by (simp add: field_value_def names val_text_def escape_us_def split: option.split)

lemma modal_parts:
  "kind = ''modal-dialog'' \<or> kind = ''modal-dialog modal-lg'' \<Longrightarrow>
   template_parts [] (modal_template kind) =
     [Literal (modal_head kind), Interpolate '' title '', Literal modal_middle, Interpolate '' body '', Literal modal_foot]"
proof (elim disjE)
  show "kind = ''modal-dialog'' \<Longrightarrow> ?thesis" by hypsubst code_simp
  show "kind = ''modal-dialog modal-lg'' \<Longrightarrow> ?thesis" by hypsubst code_simp
qed

lemma modal_html_eq:
  "modal_warning_html title body = modal_head ''modal-dialog'' @ title @ modal_middle @ body @ modal_foot"
  "modal_table_html title body = modal_head ''modal-dialog modal-lg'' @ title @ modal_middle @ body @ modal_foot"
  unfolding modal_warning_html_def modal_table_html_def fill_template_def template_def
  by (simp_all add: modal_parts field_value_def names)

section \<open>The table of the details dialog\<close>

definition cell_tag :: "string \<Rightarrow> string" where
  "cell_tag width = ''td style='' @ dquot @ ''width:'' @ width @ '';word-wrap:break-word'' @ dquot"

definition row_tags :: "string \<Rightarrow> string list" where
  "row_tags color =
     [''tr bgcolor='' @ dquot @ color @ dquot, cell_tag ''30%'', ''/td'', cell_tag ''70%'', ''/td'', ''/tr'']"

definition row_colour :: "nat \<Rightarrow> string" where
  "row_colour i = (if i mod 2 = 1 then ''#f1f1f1'' else ''#ffffff'')"

definition chars_of :: "string \<Rightarrow> html list" where
  "chars_of s = (if s = [] then [] else [Chars s])"

definition row_tokens :: "string \<Rightarrow> string \<Rightarrow> string \<Rightarrow> html list" where
  "row_tokens color key val =
     [Tag (''tr bgcolor='' @ dquot @ color @ dquot), Chars (newline @ ''        ''), Tag (cell_tag ''30%'')]
     @ chars_of key @ [Tag ''/td'', Chars (newline @ ''        ''), Tag (cell_tag ''70%'')] @ chars_of val
     @ [Tag ''/td'', Chars (newline @ ''      ''), Tag ''/tr'']"

lemma fold_row:
  assumes "row_bgcolor r = row_colour i" "acc = [] \<or> acc = newline @ ''    ''"
  shows "fold html_step (row_html show r) (False, acc, out) =
    (False, newline @ ''    '',
     out @ [Chars (acc @ newline @ ''      '')]
     @ row_tokens (row_colour i) (escape_us (Some (row_key r))) (escape_us (Some (val_text show r))))"
proof -
  have r1: "fold html_step row1 (False, acc, out) =
      (True, ''tr bgcolor='' @ dquot, out @ [Chars (acc @ newline @ ''      '')])" for acc out
    by (simp add: row1_def)
  have colour: "fold html_step (row_colour i) (True, t, out) = (True, t @ row_colour i, out)" for t out
    by (rule fold_tag) (simp add: row_colour_def)
  have r2: "fold html_step row2 (True, t, out) =
      (False, [], out @ [Tag (t @ dquot), Chars (newline @ ''        ''), Tag (cell_tag ''30%'')])" for t out
    by (simp add: row2_def cell_tag_def)
  have r3: "fold html_step row3 (False, t, out) =
      (False, [], out @ chars_of t @ [Tag ''/td'', Chars (newline @ ''        ''), Tag (cell_tag ''70%'')])" for t out
    by (simp add: row3_def cell_tag_def chars_of_def)
  have r4: "fold html_step row4 (False, t, out) =
      (False, newline @ ''    '', out @ chars_of t @ [Tag ''/td'', Chars (newline @ ''      ''), Tag ''/tr''])" for t out
    by (simp add: row4_def chars_of_def)
  show ?thesis
    unfolding row_html_eq assms(1) fold_append comp_def r1 colour r2 fold_escaped r3 r4
    by (simp add: row_tokens_def)
qed

definition table_tag :: string where
  "table_tag = ''table style='' @ dquot @ ''table-layout:fixed;width:100%;word-wrap:break-word'' @ dquot"

definition table_open :: string where
  "table_open = ''<table style='' @ dquot @ ''table-layout:fixed;width:100%;word-wrap:break-word'' @ dquot @ ''>''"

definition coloured :: "row list \<Rightarrow> nat \<Rightarrow> bool" where
  "coloured rows n \<longleftrightarrow> map row_bgcolor rows = map row_colour [n ..< n + length rows]"

lemma coloured_Cons: "coloured (r # rows) n \<longleftrightarrow> row_bgcolor r = row_colour n \<and> coloured rows (Suc n)"
proof -
  have "[n ..< n + length (r # rows)] = n # [Suc n ..< Suc n + length rows]" by (simp add: upt_rec)
  then show ?thesis by (simp add: coloured_def)
qed

lemma fold_rows:
  assumes "coloured rows n" "acc = [] \<or> acc = newline @ ''    ''"
  obtains acc' ts where "fold html_step (concat (map (row_html show) rows)) (False, acc, out) = (False, acc', out @ ts)"
    "acc' = [] \<or> acc' = newline @ ''    ''"
    "tags ts = concat (map (row_tags \<circ> row_colour) [n ..< n + length rows])"
    "\<And>cs. fold cell_step ts (None, cs) = (None, cs @ concat (map (\<lambda>r. [row_key r, val_text show r]) rows))"
proof -
  have "\<exists>acc' ts. fold html_step (concat (map (row_html show) rows)) (False, acc, out) = (False, acc', out @ ts)
      \<and> (acc' = [] \<or> acc' = newline @ ''    '')
      \<and> tags ts = concat (map (row_tags \<circ> row_colour) [n ..< n + length rows])
      \<and> (\<forall>cs. fold cell_step ts (None, cs) = (None, cs @ concat (map (\<lambda>r. [row_key r, val_text show r]) rows)))"
    using assms
  proof (induction rows arbitrary: n acc out)
    case Nil
    then show ?case by (intro exI [of _ acc] exI [of _ "[]"]) simp
  next
    case (Cons r rows)
    define k where "k = escape_us (Some (row_key r))"
    define w where "w = escape_us (Some (val_text show r))"
    define us where "us = [Chars (acc @ newline @ ''      '')] @ row_tokens (row_colour n) k w"
    have c: "row_bgcolor r = row_colour n" "coloured rows (Suc n)" using Cons.prems(1) by (simp_all add: coloured_Cons)
    have head: "fold html_step (row_html show r) (False, acc, out) = (False, newline @ ''    '', out @ us)"
      unfolding us_def k_def w_def append_assoc using fold_row [OF c(1) Cons.prems(2)] by simp
    obtain acc' ts where rest: "fold html_step (concat (map (row_html show) rows)) (False, newline @ ''    '', out @ us) = (False, acc', (out @ us) @ ts)"
      "acc' = [] \<or> acc' = newline @ ''    ''"
      "tags ts = concat (map (row_tags \<circ> row_colour) [Suc n ..< Suc n + length rows])"
      "\<forall>cs. fold cell_step ts (None, cs) = (None, cs @ concat (map (\<lambda>r. [row_key r, val_text show r]) rows))"
      using Cons.IH [OF c(2)] by blast
    have upt: "[n ..< n + length (r # rows)] = n # [Suc n ..< Suc n + length rows]" by (simp add: upt_rec)
    have "tags us = row_tags (row_colour n)" by (simp add: us_def row_tokens_def row_tags_def chars_of_def)
    moreover have "fold cell_step us (None, cs) = (None, cs @ [row_key r, val_text show r])" for cs
    proof -
      have "unescape_us (Some k) = row_key r" "unescape_us (Some w) = val_text show r"
        using escape_roundtrip_text by (simp_all add: k_def w_def)
      moreover have "\<not> starts_with ''td '' (''tr bgcolor='' @ u)" for u by simp
      moreover have "starts_with ''td '' (cell_tag u)" for u by (simp add: cell_tag_def)
      moreover have "fold cell_step (chars_of t) (Some [], xs) = (Some t, xs)" for t xs by (simp add: chars_of_def)
      ultimately show ?thesis by (simp add: us_def row_tokens_def)
    qed
    ultimately show ?case
      using head rest unfolding upt by (intro exI [of _ acc'] exI [of _ "us @ ts"]) (simp add: comp_def del: upt_Suc)
  qed
  then show ?thesis using that by blast
qed

lemma showSpanDetails_coloured: "coloured (showSpanDetails now sp) 0"
  by (simp add: coloured_def showSpanDetails_def Let_def row_colour_def comp_def)

text \<open>C14: for every span, the browser reads the table of the details dialog as the cells with the keys and
  the values of the rows, whatever characters they contain; its tags do not depend on the span but for the
  number of rows.\<close>

theorem details_table_shown:
  "let rows = showSpanDetails now sp; ts = html_tokens (table_html show rows)
   in cells ts = concat (map (\<lambda>r. [row_key r, val_text show r]) rows)
    \<and> tags ts = [table_tag] @ concat (map (row_tags \<circ> row_colour) [0 ..< length rows]) @ [''/table'']"
proof -
  define rows where "rows = showSpanDetails now sp"
  obtain acc ts where rest: "fold html_step (concat (map (row_html show) rows)) (False, [], [Tag table_tag]) = (False, acc, [Tag table_tag] @ ts)"
    "acc = [] \<or> acc = newline @ ''    ''"
    "tags ts = concat (map (row_tags \<circ> row_colour) [0 ..< 0 + length rows])"
    "\<And>cs. fold cell_step ts (None, cs) = (None, cs @ concat (map (\<lambda>r. [row_key r, val_text show r]) rows))"
    using fold_rows [of rows 0 "[]" "show" "[Tag table_tag]"] showSpanDetails_coloured by (auto simp: rows_def)
  have open_table: "fold html_step table_open (False, [], []) =
      (False, [], [Tag table_tag])"
    by (simp add: table_tag_def table_open_def)
  have close_table: "fold html_step ''</table>'' (False, acc, out) = (False, [], out @ chars_of acc @ [Tag ''/table''])" for acc out
    by (simp add: chars_of_def)
  have tokens: "html_tokens (table_html show rows) = [Tag table_tag] @ ts @ chars_of acc @ [Tag ''/table'']"
  proof -
    have t: "table_html show rows = table_open
        @ concat (map (row_html show) rows) @ ''</table>''"
      by (simp only: table_html_def table_open_def append_assoc)
    show ?thesis
      unfolding html_tokens_def t fold_append comp_def open_table rest(1) close_table by simp
  qed
  have "\<not> starts_with ''td '' table_tag" by (simp add: table_tag_def)
  moreover have "cell_step (Tag ''/table'') (None, cs) = (None, cs)" for cs by simp
  moreover have "fold cell_step (chars_of acc) (None, cs) = (None, cs)" for cs by (simp add: chars_of_def)
  ultimately have "cells (html_tokens (table_html show rows)) = concat (map (\<lambda>r. [row_key r, val_text show r]) rows)"
    unfolding tokens cells_def by (simp add: rest(4) table_tag_def)
  moreover have "tags (html_tokens (table_html show rows)) =
      [table_tag] @ concat (map (row_tags \<circ> row_colour) [0 ..< length rows]) @ [''/table'']"
    unfolding tokens using rest(3) by (simp add: chars_of_def)
  ultimately show ?thesis by (simp add: rows_def)
qed

text \<open>A warning inserts its text as HTML: a tag in the text is a tag of the dialog.\<close>

theorem warning_not_escaped:
  "let html = md_html (warning_dialog title (''<'' @ t @ ''>'') m)
   in md_visible (warning_dialog title (''<'' @ t @ ''>'') m)
    \<and> html = modal_head ''modal-dialog'' @ title @ modal_middle @ ''<'' @ t @ ''>'' @ modal_foot"
  by (simp add: warning_dialog_def showModalWarning_def showModal_def modal_html_eq)

end
