(* ===== verification/Js_Value.thy ===== *)
theory Js_Value
  imports Js_String "HOL-Library.Finite_Map"
begin

text \<open>
  Values of the language as trees, and what \<open>htrace-webapp/src/main/web/lib/underscore-1.7.0.js\<close> asks of
  them: \<open>isEqual\<close>, \<open>isEmpty\<close>, \<open>has\<close>, \<open>isObject\<close> and the other tests of a type. An object is the list of
  its own properties in their order, an array the list of its elements; both are plain, and no object
  contains itself. A function is known by a number, and so is a date, since an invalid date equals only itself.
\<close>

section \<open>Values\<close>

datatype jsdouble = Finite rat | NegZero | Infinite bool | Not_a_number

datatype jsval =
    VUndefined
  | VNull
  | VBool bool
  | VNum jsdouble
  | VStr string
  | VDate nat jsdouble
  | VRegExp string
  | VFun nat
  | VArr "jsval list"
  | VObj "(string \<times> jsval) list"

text \<open>\<open>===\<close> on numbers.\<close>

definition same_num :: "jsdouble \<Rightarrow> jsdouble \<Rightarrow> bool" where
  "same_num x y \<longleftrightarrow>
     x \<noteq> Not_a_number \<and> y \<noteq> Not_a_number
     \<and> (x = y \<or> (x = NegZero \<and> y = Finite 0) \<or> (x = Finite 0 \<and> y = NegZero))"

text \<open>The sign of an infinite quotient.\<close>

definition reciprocal_sign :: "jsdouble \<Rightarrow> bool" where
  "reciprocal_sign x = (x = NegZero)"

section \<open>Comparing\<close>

definition eq_number :: "jsdouble \<Rightarrow> jsdouble \<Rightarrow> bool" where
  "eq_number a b =
     (if \<not> same_num a a then \<not> same_num b b
      else if same_num a (Finite 0) then same_num b (Finite 0) \<and> reciprocal_sign a = reciprocal_sign b
      else same_num a b)"

text \<open>\<open>eq\<close>; the stacks that find cycles are not needed for trees.\<close>

fun eq_us :: "jsval \<Rightarrow> jsval \<Rightarrow> bool"
and eq_elements :: "jsval list \<Rightarrow> jsval list \<Rightarrow> bool"
and eq_members :: "(string \<times> jsval) list \<Rightarrow> (string \<times> jsval) list \<Rightarrow> bool" where
  "eq_us VUndefined b = (b = VUndefined)"
| "eq_us VNull b = (b = VNull)"
| "eq_us (VBool x) b = (case b of VBool y \<Rightarrow> x = y | _ \<Rightarrow> False)"
| "eq_us (VNum x) b = (case b of VNum y \<Rightarrow> eq_number x y | _ \<Rightarrow> False)"
| "eq_us (VStr x) b = (case b of VStr y \<Rightarrow> x = y | _ \<Rightarrow> False)"
| "eq_us (VDate i x) b = (case b of VDate j y \<Rightarrow> (i = j \<and> x = y) \<or> same_num x y | _ \<Rightarrow> False)"
| "eq_us (VRegExp x) b = (case b of VRegExp y \<Rightarrow> x = y | _ \<Rightarrow> False)"
| "eq_us (VFun f) b = (case b of VFun g \<Rightarrow> f = g | _ \<Rightarrow> False)"
| "eq_us (VArr xs) b = (case b of VArr ys \<Rightarrow> length xs = length ys \<and> eq_elements xs ys | _ \<Rightarrow> False)"
| "eq_us (VObj ps) b = (case b of VObj qs \<Rightarrow> length qs = length ps \<and> eq_members ps qs | _ \<Rightarrow> False)"
| "eq_elements [] ys = True"
| "eq_elements (x # xs) [] = False"
| "eq_elements (x # xs) (y # ys) = (eq_elements xs ys \<and> eq_us x y)"
| "eq_members [] qs = True"
| "eq_members ((k, v) # ps) qs =
     (eq_members ps qs \<and> (case map_of qs k of None \<Rightarrow> False | Some w \<Rightarrow> eq_us v w))"

definition isEqual :: "jsval \<Rightarrow> jsval \<Rightarrow> bool" where
  "isEqual a b = eq_us a b"

section \<open>Tests\<close>

fun isEmpty :: "jsval \<Rightarrow> bool" where
  "isEmpty (VStr s) = (s = [])"
| "isEmpty (VArr xs) = (xs = [])"
| "isEmpty (VObj ps) = (ps = [])"
| "isEmpty v = True"

fun isArray :: "jsval \<Rightarrow> bool" where
  "isArray (VArr xs) = True"
| "isArray v = False"

fun isFunction :: "jsval \<Rightarrow> bool" where
  "isFunction (VFun f) = True"
| "isFunction v = False"

fun isObject :: "jsval \<Rightarrow> bool" where
  "isObject (VFun f) = True"
| "isObject (VDate i x) = True"
| "isObject (VRegExp x) = True"
| "isObject (VArr xs) = True"
| "isObject (VObj ps) = True"
| "isObject v = False"

definition isUndefined :: "jsval \<Rightarrow> bool" where
  "isUndefined v = (v = VUndefined)"

definition isNull :: "jsval \<Rightarrow> bool" where
  "isNull v = (v = VNull)"

fun isNaN_us :: "jsval \<Rightarrow> bool" where
  "isNaN_us (VNum x) = (\<not> same_num x x)"
| "isNaN_us v = False"

definition null_or_undefined :: "jsval \<Rightarrow> bool" where
  "null_or_undefined v = (v = VNull \<or> v = VUndefined)"

fun truthy :: "jsval \<Rightarrow> bool" where
  "truthy VUndefined = False"
| "truthy VNull = False"
| "truthy (VBool b) = b"
| "truthy (VNum x) = (\<not> (x = Not_a_number \<or> x = NegZero \<or> x = Finite 0))"
| "truthy (VStr s) = (s \<noteq> [])"
| "truthy v = True"

text \<open>Properties.\<close>

fun has :: "jsval \<Rightarrow> string \<Rightarrow> bool" where
  "has (VObj ps) k = (map_of ps k \<noteq> None)"
| "has v k = False"

definition get_property :: "(string \<times> jsval) list \<Rightarrow> string \<Rightarrow> jsval" where
  "get_property ps k = (case map_of ps k of None \<Rightarrow> VUndefined | Some v \<Rightarrow> v)"

fun set_property :: "string \<Rightarrow> jsval \<Rightarrow> (string \<times> jsval) list \<Rightarrow> (string \<times> jsval) list" where
  "set_property k v [] = [(k, v)]"
| "set_property k v ((l, w) # ps) = (if l = k then (k, v) # ps else (l, w) # set_property k v ps)"

definition delete_property :: "string \<Rightarrow> (string \<times> jsval) list \<Rightarrow> (string \<times> jsval) list" where
  "delete_property k ps = filter (\<lambda>(l, w). l \<noteq> k) ps"

lemma map_of_set_property [simp]: "map_of (set_property k v ps) = (map_of ps)(k \<mapsto> v)"
  by (induction ps) auto

lemma set_property_keys [simp]: "fst ` set (set_property k v ps) = insert k (fst ` set ps)"
  using map_of_set_property [of k v ps] by (metis dom_fun_upd dom_map_of_conv_image_fst option.distinct(1))

lemma distinct_set_property: "distinct (map fst ps) \<Longrightarrow> distinct (map fst (set_property k v ps))"
proof (induction ps)
  case (Cons p ps)
  obtain l w where "p = (l, w)" by (cases p)
  then show ?case using Cons by (auto simp: set_property_keys [unfolded image_set [symmetric]])
qed simp

lemma map_of_delete_property [simp]: "map_of (delete_property k ps) = (map_of ps)(k := None)"
  by (induction ps) (auto simp: delete_property_def)

lemma distinct_delete_property: "distinct (map fst ps) \<Longrightarrow> distinct (map fst (delete_property k ps))"
  by (simp add: delete_property_def distinct_map_filter)

lemma get_set_property [simp]:
  "get_property (set_property k v ps) l = (if l = k then v else get_property ps l)"
  "get_property (delete_property k ps) l = (if l = k then VUndefined else get_property ps l)"
  by (simp_all add: get_property_def)

section \<open>The meaning of \<open>isEqual\<close>\<close>

text \<open>A value without the order of the properties and the identity of valid dates.\<close>

datatype meaning =
    MUndefined | MNull | MBool bool | MNum jsdouble | MStr string | MDate rat | MTime bool | MBadDate nat | MRegExp string | MFun nat
  | MArr "meaning list" | MObj "(string, meaning) fmap"

fun date_meaning :: "nat \<Rightarrow> jsdouble \<Rightarrow> meaning" where
  "date_meaning i (Finite x) = MDate x"
| "date_meaning i NegZero = MDate 0"
| "date_meaning i (Infinite b) = MTime b"
| "date_meaning i Not_a_number = MBadDate i"

function meaning_of :: "jsval \<Rightarrow> meaning" where
  "meaning_of VUndefined = MUndefined"
| "meaning_of VNull = MNull"
| "meaning_of (VBool b) = MBool b"
| "meaning_of (VNum x) = MNum x"
| "meaning_of (VStr s) = MStr s"
| "meaning_of (VDate i x) = date_meaning i x"
| "meaning_of (VRegExp s) = MRegExp s"
| "meaning_of (VFun f) = MFun f"
| "meaning_of (VArr xs) = MArr (map meaning_of xs)"
| "meaning_of (VObj ps) = MObj (fmap_of_list (map (\<lambda>(k, v). (k, meaning_of v)) ps))"
  by pat_completeness auto
termination
proof (relation "measure size")
  fix ps :: "(string \<times> jsval) list" and p k v
  assume p: "p \<in> set ps" "(k, v) = p"
  then have "size_prod (\<lambda>_. 0) size (k, v) \<le> size_list (size_prod (\<lambda>_. 0) size) ps"
    by (intro size_list_estimation') auto
  then show "(v, VObj ps) \<in> measure size" by simp
qed (auto simp: less_Suc_eq_le intro: size_list_estimation')

text \<open>Objects with each key once.\<close>

fun plain :: "jsval \<Rightarrow> bool"
and plain_elements :: "jsval list \<Rightarrow> bool"
and plain_members :: "(string \<times> jsval) list \<Rightarrow> bool" where
  "plain (VArr xs) = plain_elements xs"
| "plain (VObj ps) = (distinct (map fst ps) \<and> plain_members ps)"
| "plain VUndefined = True" | "plain VNull = True" | "plain (VBool b) = True" | "plain (VNum x) = True"
| "plain (VStr s) = True" | "plain (VDate i x) = True" | "plain (VRegExp s) = True" | "plain (VFun f) = True"
| "plain_elements [] = True"
| "plain_elements (x # xs) = (plain x \<and> plain_elements xs)"
| "plain_members [] = True"
| "plain_members ((k, v) # ps) = (plain v \<and> plain_members ps)"

lemma plain_elements_iff: "plain_elements xs \<longleftrightarrow> (\<forall>x\<in>set xs. plain x)"
  by (induction xs) auto

lemma plain_members_iff: "plain_members ps \<longleftrightarrow> (\<forall>v\<in>snd ` set ps. plain v)"
  by (induction ps) auto

lemma eq_number_iff: "eq_number x y \<longleftrightarrow> x = y"
  by (cases x; cases y) (auto simp: eq_number_def same_num_def reciprocal_sign_def)

lemma date_meaning_iff: "date_meaning i x = date_meaning j y \<longleftrightarrow> (i = j \<and> x = y) \<or> same_num x y"
  by (cases x; cases y) (auto simp: same_num_def)

lemma date_meaning_other [simp]:
  "date_meaning i x \<noteq> MArr ys" "date_meaning i x \<noteq> MObj m" "date_meaning i x \<noteq> MNum y" "date_meaning i x \<noteq> MStr s"
  "date_meaning i x \<noteq> MUndefined" "date_meaning i x \<noteq> MNull" "date_meaning i x \<noteq> MBool b"
  "date_meaning i x \<noteq> MRegExp s" "date_meaning i x \<noteq> MFun f"
  "MArr ys \<noteq> date_meaning i x" "MObj m \<noteq> date_meaning i x" "MNum y \<noteq> date_meaning i x" "MStr s \<noteq> date_meaning i x"
  "MUndefined \<noteq> date_meaning i x" "MNull \<noteq> date_meaning i x" "MBool b \<noteq> date_meaning i x"
  "MRegExp s \<noteq> date_meaning i x" "MFun f \<noteq> date_meaning i x"
  by (cases x; simp)+

lemma eq_elements_iff: "length xs = length ys \<Longrightarrow> eq_elements xs ys \<longleftrightarrow> list_all2 eq_us xs ys"
  by (induction xs ys rule: list_induct2) auto

lemma eq_members_iff: "eq_members ps qs \<longleftrightarrow> (\<forall>(k, v)\<in>set ps. \<exists>w. map_of qs k = Some w \<and> eq_us v w)"
  by (induction ps) (auto split: option.splits)

lemma fmlookup_meanings: "fmlookup (fmap_of_list (map (\<lambda>(k, v). (k, meaning_of v)) ps)) k = map_option meaning_of (map_of ps k)"
  by (simp add: fmap_of_list.rep_eq map_of_map)

lemma same_keys:
  assumes "distinct (map fst ps)" "distinct (map fst qs)" "length ps = length qs" "fst ` set ps \<subseteq> fst ` set qs"
  shows "fst ` set ps = fst ` set qs"
  using assms by (metis card_subset_eq distinct_card finite_imageI finite_set image_set length_map)

lemma isEqual_iff_meaning: "plain a \<Longrightarrow> plain b \<Longrightarrow> isEqual a b \<longleftrightarrow> meaning_of a = meaning_of b"
  unfolding isEqual_def
proof (induction a arbitrary: b)
  case (VArr xs)
  show ?case
  proof (cases b)
    case b: (VArr ys)
    have "list_all2 eq_us xs ys \<longleftrightarrow> map meaning_of xs = map meaning_of ys" if "length xs = length ys"
      using that VArr unfolding b
    proof (induction xs ys rule: list_induct2)
      case (Cons x xs y ys)
      then show ?case by auto
    qed simp
    then show ?thesis
      using b map_eq_imp_length_eq [of meaning_of xs meaning_of ys] by (cases "length xs = length ys") (auto simp: eq_elements_iff)
  qed simp_all
next
  case (VObj ps)
  show ?case
  proof (cases b)
    case b: (VObj qs)
    have d: "distinct (map fst ps)" "distinct (map fst qs)" using VObj.prems b by simp_all
    have IH: "eq_us v w \<longleftrightarrow> meaning_of v = meaning_of w" if "map_of ps k = Some v" "map_of qs k = Some w" for k v w
    proof (rule VObj.IH)
      show "(k, v) \<in> set ps" using that(1) by (rule map_of_SomeD)
      show "v \<in> Basic_BNFs.snds (k, v)" by (simp add: prod_set_simps)
      show "plain v" using VObj.prems(1) map_of_SomeD [OF that(1)] by (force simp: plain_members_iff)
      show "plain w" using VObj.prems(2) map_of_SomeD [OF that(2)] unfolding b by (force simp: plain_members_iff)
    qed
    let ?m = "\<lambda>ps. fmap_of_list (map (\<lambda>(k, v). (k, meaning_of v)) ps)"
    have "length qs = length ps \<and> eq_members ps qs \<longleftrightarrow> ?m ps = ?m qs"
    proof
      assume l: "length qs = length ps \<and> eq_members ps qs"
      then have "fst ` set ps \<subseteq> fst ` set qs"
        by (force simp: eq_members_iff dom_map_of_conv_image_fst [symmetric])
      then have keys: "dom (map_of ps) = dom (map_of qs)"
        using same_keys [OF d] l by (simp add: dom_map_of_conv_image_fst)
      show "?m ps = ?m qs"
      proof (rule fmap_ext)
        fix k
        show "fmlookup (?m ps) k = fmlookup (?m qs) k"
        proof (cases "map_of ps k")
          case None
          then show ?thesis using keys unfolding fmlookup_meanings by (metis domIff option.map_disc_iff)
        next
          case (Some v)
          then obtain w where "map_of qs k = Some w" "eq_us v w"
            using l map_of_SomeD [OF Some] unfolding eq_members_iff by blast
          then show ?thesis using IH [OF Some] Some unfolding fmlookup_meanings by simp
        qed
      qed
    next
      assume m: "?m ps = ?m qs"
      then have look: "map_option meaning_of (map_of ps k) = map_option meaning_of (map_of qs k)" for k
        by (metis fmlookup_meanings)
      then have "dom (map_of ps) = dom (map_of qs)" by (auto simp: dom_def) (metis option.map_disc_iff not_None_eq)+
      then have "length qs = length ps"
        using d by (metis distinct_card dom_map_of_conv_image_fst image_set length_map)
      moreover have "eq_members ps qs"
        unfolding eq_members_iff
      proof clarify
        fix k v
        assume "(k, v) \<in> set ps"
        then have v: "map_of ps k = Some v" using d(1) by simp
        then obtain w where "map_of qs k = Some w" "meaning_of v = meaning_of w"
          using look [of k] by (cases "map_of qs k") auto
        then show "\<exists>w. map_of qs k = Some w \<and> eq_us v w" using IH [OF v] by simp
      qed
      ultimately show "length qs = length ps \<and> eq_members ps qs" by blast
    qed
    then show ?thesis using b by simp
  qed simp_all
next
  case (VDate i x)
  show ?case by (cases b) (simp_all add: date_meaning_iff)
next
  case (VNum x)
  show ?case by (cases b) (simp_all add: eq_number_iff)
next
  case VUndefined
  show ?case by (cases b) simp_all
next
  case VNull
  show ?case by (cases b) simp_all
next
  case (VBool x)
  show ?case by (cases b) simp_all
next
  case (VStr x)
  show ?case by (cases b) simp_all
next
  case (VRegExp x)
  show ?case by (cases b) simp_all
next
  case (VFun x)
  show ?case by (cases b) simp_all
qed



end
