(* ===== verification/Backbone_Events.thy ===== *)
theory Backbone_Events
  imports Js_Value
begin

text \<open>
  \<open>Backbone.Events\<close> and \<open>Backbone.Model\<close> of \<open>htrace-webapp/src/main/web/lib/backbone-1.1.2.js\<close>. Objects and
  functions are known by numbers. The lists of bindings are arrays that calls in progress share with the
  objects, so they live in a store, and an object holds their addresses. A callback may do anything to
  the objects while an event is being triggered or a model is being set: what it does is a parameter, the
  commands it performs in the state in which it is called; a command may be the rest of a callback, which
  then sees the state it runs in. The code is a machine whose frames are the calls that are under way.
  Left out: the validation of models and the options other than \<open>unset\<close> and \<open>silent\<close>.
\<close>

section \<open>Objects\<close>

text \<open>A function, or the wrapper that \<open>once\<close> makes of one for an event of an object.\<close>

datatype callback_fn = Fn nat | OnceFn nat nat string nat

fun inner_callback :: "callback_fn \<Rightarrow> callback_fn option" where
  "inner_callback (Fn f) = None"
| "inner_callback (OnceFn n obj name f) = Some (Fn f)"

record entry =
  bn_callback :: callback_fn
  bn_context :: "nat option"
  bn_ctx :: nat

type_synonym attrs = "(string \<times> jsval) list"

record set_options =
  so_unset :: bool
  so_silent :: bool

record model =
  md_attributes :: attrs
  md_changed :: attrs
  md_previous :: attrs
  md_changing :: bool
  md_pending :: "set_options option"

datatype arg = Obj nat | Val jsval | Options set_options | EventName string

text \<open>
  The trace has the calls of callbacks, with the number of frames below the loop that makes them, and the
  attributes of a model when it is made and whenever its event \<open>change\<close> is triggered.
\<close>

datatype trace = Called nat entry "arg list" | Announced nat attrs

record 'w objects =
  ob_events :: "nat \<Rightarrow> (string \<times> nat) list option"
  ob_arrays :: "entry list list"
  ob_listeningTo :: "nat \<Rightarrow> nat list option"
  ob_models :: "nat \<Rightarrow> model"
  ob_once :: nat
  ob_ran :: "nat list"                  \<comment> \<open>the wrappers of \<open>once\<close> that have run\<close>
  ob_trace :: "trace list"
  ob_world :: 'w

definition no_model :: model where
  "no_model = \<lparr>md_attributes = [], md_changed = [], md_previous = [], md_changing = False, md_pending = None\<rparr>"

definition no_objects :: "'w \<Rightarrow> 'w objects" where
  "no_objects w =
     \<lparr>ob_events = (\<lambda>_. None), ob_arrays = [], ob_listeningTo = (\<lambda>_. None), ob_models = (\<lambda>_. no_model), ob_once = 0,
      ob_ran = [], ob_trace = [], ob_world = w\<rparr>"

fun put_key :: "string \<Rightarrow> 'v \<Rightarrow> (string \<times> 'v) list \<Rightarrow> (string \<times> 'v) list" where
  "put_key k v [] = [(k, v)]"
| "put_key k v ((l, w) # ps) = (if l = k then (k, v) # ps else (l, w) # put_key k v ps)"

definition drop_key :: "string \<Rightarrow> (string \<times> 'v) list \<Rightarrow> (string \<times> 'v) list" where
  "drop_key k ps = filter (\<lambda>(l, w). l \<noteq> k) ps"

section \<open>Binding\<close>

text \<open>\<open>eventsApi\<close>: a name with white space is split at it.\<close>

function split_names :: "string \<Rightarrow> string list" where
  "split_names s =
     (let r = dropWhile (\<lambda>c. \<not> is_space c) s
      in takeWhile (\<lambda>c. \<not> is_space c) s # (if r = [] then [] else split_names (dropWhile is_space r)))"
  by pat_completeness auto
termination
proof (relation "measure length")
  fix s r :: string
  assume r: "r = dropWhile (\<lambda>c. \<not> is_space c) s" "r \<noteq> []"
  then have "is_space (hd r)" using hd_dropWhile by metis
  with r(2) have "length (dropWhile is_space r) < length r"
    by (cases r) (simp_all add: le_imp_less_Suc length_dropWhile_le)
  moreover have "length r \<le> length s" by (simp add: r(1) length_dropWhile_le)
  ultimately show "(dropWhile is_space r, s) \<in> measure length" by simp
qed simp

declare split_names.simps [simp del]

definition events_of :: "nat \<Rightarrow> 'w objects \<Rightarrow> (string \<times> nat) list" where
  "events_of obj s = (case ob_events s obj of None \<Rightarrow> [] | Some es \<Rightarrow> es)"

definition push_binding :: "nat \<Rightarrow> string \<Rightarrow> entry \<Rightarrow> 'w objects \<Rightarrow> 'w objects" where
  "push_binding obj name b s =
     (case map_of (events_of obj s) name of
        Some a \<Rightarrow>
          s\<lparr>ob_arrays := (ob_arrays s)[a := ob_arrays s ! a @ [b]],
            ob_events := (ob_events s)(obj \<mapsto> events_of obj s)\<rparr>
      | None \<Rightarrow>
          s\<lparr>ob_arrays := ob_arrays s @ [[b]],
            ob_events := (ob_events s)(obj \<mapsto> put_key name (length (ob_arrays s)) (events_of obj s))\<rparr>)"

definition on_name :: "nat \<Rightarrow> callback_fn option \<Rightarrow> nat option \<Rightarrow> string \<Rightarrow> 'w objects \<Rightarrow> 'w objects" where
  "on_name obj callback context name s =
     (case callback of
        None \<Rightarrow> s
      | Some f \<Rightarrow>
          push_binding obj name
            \<lparr>bn_callback = f, bn_context = context, bn_ctx = (case context of None \<Rightarrow> obj | Some c \<Rightarrow> c)\<rparr> s)"

definition on :: "nat \<Rightarrow> string \<Rightarrow> nat option \<Rightarrow> nat option \<Rightarrow> 'w objects \<Rightarrow> 'w objects" where
  "on obj name f context = fold (on_name obj (map_option Fn f) context) (split_names name)"

definition once_name :: "nat \<Rightarrow> nat option \<Rightarrow> nat option \<Rightarrow> string \<Rightarrow> 'w objects \<Rightarrow> 'w objects" where
  "once_name obj callback context name s =
     (case callback of
        None \<Rightarrow> s
      | Some f \<Rightarrow> on_name obj (Some (OnceFn (ob_once s) obj name f)) context name (s\<lparr>ob_once := ob_once s + 1\<rparr>))"

definition once :: "nat \<Rightarrow> string \<Rightarrow> nat option \<Rightarrow> nat option \<Rightarrow> 'w objects \<Rightarrow> 'w objects" where
  "once obj name f context = fold (once_name obj f context) (split_names name)"

text \<open>\<open>off\<close>: the bindings that are kept go to a new array.\<close>

definition retained :: "callback_fn option \<Rightarrow> nat option \<Rightarrow> entry \<Rightarrow> bool" where
  "retained callback context b \<longleftrightarrow>
     (case callback of None \<Rightarrow> False | Some f \<Rightarrow> f \<noteq> bn_callback b \<and> Some f \<noteq> inner_callback (bn_callback b))
     \<or> (case context of None \<Rightarrow> False | Some c \<Rightarrow> Some c \<noteq> bn_context b)"

definition off_array :: "nat \<Rightarrow> callback_fn option \<Rightarrow> nat option \<Rightarrow> string \<Rightarrow> 'w objects \<Rightarrow> 'w objects" where
  "off_array obj callback context name s =
     (case map_of (events_of obj s) name of
        None \<Rightarrow> s
      | Some a \<Rightarrow>
          (let retain = (if callback \<noteq> None \<or> context \<noteq> None then filter (retained callback context) (ob_arrays s ! a) else [])
           in s\<lparr>ob_arrays := ob_arrays s @ [retain],
                ob_events := (ob_events s)(obj \<mapsto>
                  (if retain = [] then drop_key name (events_of obj s)
                   else put_key name (length (ob_arrays s)) (events_of obj s)))\<rparr>))"

definition off_name :: "nat \<Rightarrow> callback_fn option \<Rightarrow> nat option \<Rightarrow> string \<Rightarrow> 'w objects \<Rightarrow> 'w objects" where
  "off_name obj callback context name s =
     (if ob_events s obj = None then s
      else if name = '''' \<and> callback = None \<and> context = None then s\<lparr>ob_events := (ob_events s)(obj := None)\<rparr>
      else fold (off_array obj callback context) (if name = '''' then map fst (events_of obj s) else [name]) s)"

definition off :: "nat \<Rightarrow> string \<Rightarrow> callback_fn option \<Rightarrow> nat option \<Rightarrow> 'w objects \<Rightarrow> 'w objects" where
  "off obj name callback context s =
     (if ob_events s obj = None then s else fold (off_name obj callback context) (split_names name) s)"

definition start_listening :: "nat \<Rightarrow> nat \<Rightarrow> 'w objects \<Rightarrow> 'w objects" where
  "start_listening this obj s =
     s\<lparr>ob_listeningTo := (ob_listeningTo s)(this \<mapsto>
         (case ob_listeningTo s this of None \<Rightarrow> [obj] | Some os \<Rightarrow> if obj \<in> set os then os else os @ [obj]))\<rparr>"

definition listenTo :: "nat \<Rightarrow> nat \<Rightarrow> string \<Rightarrow> nat option \<Rightarrow> 'w objects \<Rightarrow> 'w objects" where
  "listenTo this obj name f s = on obj name f (Some this) (start_listening this obj s)"

definition listenToOnce :: "nat \<Rightarrow> nat \<Rightarrow> string \<Rightarrow> nat option \<Rightarrow> 'w objects \<Rightarrow> 'w objects" where
  "listenToOnce this obj name f s = once obj name f (Some this) (start_listening this obj s)"

definition stop_one :: "nat \<Rightarrow> string \<Rightarrow> nat option \<Rightarrow> nat \<Rightarrow> 'w objects \<Rightarrow> 'w objects" where
  "stop_one this name f obj s =
     (let s = off obj name (map_option Fn f) (Some this) s
      in if (name = '''' \<and> f = None) \<or> events_of obj s = []
         then s\<lparr>ob_listeningTo := (ob_listeningTo s)(this := map_option (filter (\<lambda>x. x \<noteq> obj)) (ob_listeningTo s this))\<rparr>
         else s)"

definition stopListening :: "nat \<Rightarrow> nat option \<Rightarrow> string \<Rightarrow> nat option \<Rightarrow> 'w objects \<Rightarrow> 'w objects" where
  "stopListening this obj name f s =
     (case ob_listeningTo s this of
        None \<Rightarrow> s
      | Some listeningTo \<Rightarrow>
          fold (stop_one this name f) (case obj of None \<Rightarrow> listeningTo | Some x \<Rightarrow> [x]) s)"

section \<open>Models\<close>

text \<open>
  The first part of \<open>set\<close>: the attributes change, and \<open>changes\<close> are the names whose value did. The
  attributes to set are an object, so each name occurs once.
\<close>

definition set_attr :: "bool \<Rightarrow> string \<times> jsval \<Rightarrow> string list \<times> model \<Rightarrow> string list \<times> model" where
  "set_attr unset kv x =
     (let (attr, val) = kv; (changes, m) = x;
          current = md_attributes m;
          changes = (if isEqual (get_property current attr) val then changes else changes @ [attr]);
          changed = (if isEqual (get_property (md_previous m) attr) val then delete_property attr (md_changed m)
                     else set_property attr val (md_changed m));
          current = (if unset then delete_property attr current else set_property attr val current)
      in (changes, m\<lparr>md_changed := changed, md_attributes := current\<rparr>))"

definition begin_set :: "model \<Rightarrow> model" where
  "begin_set m =
     (if md_changing m then m
      else m\<lparr>md_changing := True, md_previous := md_attributes m, md_changed := []\<rparr>)"

definition set_attrs :: "attrs \<Rightarrow> set_options \<Rightarrow> model \<Rightarrow> string list \<times> model" where
  "set_attrs as opts m =
     (let (changes, m) = fold (set_attr (so_unset opts)) as ([], begin_set m)
      in (changes,
          if \<not> so_silent opts \<and> changes \<noteq> [] then m\<lparr>md_pending := Some opts\<rparr> else m))"

definition unset_attrs :: "string \<Rightarrow> attrs" where
  "unset_attrs attr = [(attr, VUndefined)]"

definition clear_attrs :: "model \<Rightarrow> attrs" where
  "clear_attrs m = map (\<lambda>(k, v). (k, VUndefined)) (md_attributes m)"

definition get_attr :: "model \<Rightarrow> string \<Rightarrow> jsval" where
  "get_attr m attr = get_property (md_attributes m) attr"

definition has_attr :: "model \<Rightarrow> string \<Rightarrow> bool" where
  "has_attr m attr = (\<not> null_or_undefined (get_attr m attr))"

definition hasChanged :: "model \<Rightarrow> string option \<Rightarrow> bool" where
  "hasChanged m attr = (case attr of None \<Rightarrow> md_changed m \<noteq> [] | Some a \<Rightarrow> map_of (md_changed m) a \<noteq> None)"

definition changedAttributes :: "model \<Rightarrow> attrs option \<Rightarrow> attrs option" where
  "changedAttributes m diff =
     (case diff of
        None \<Rightarrow> if hasChanged m None then Some (md_changed m) else None
      | Some d \<Rightarrow>
          (let old = (if md_changing m then md_previous m else md_attributes m);
               changed = filter (\<lambda>(attr, val). \<not> isEqual (get_property old attr) val) d
           in if changed = [] then None else Some changed))"

definition previous_attr :: "model \<Rightarrow> string \<Rightarrow> jsval" where
  "previous_attr m attr = get_property (md_previous m) attr"

section \<open>Triggering\<close>

datatype cmd =
    On nat string "nat option" "nat option"
  | Once nat string "nat option" "nat option"
  | Off nat string "callback_fn option" "nat option"
  | ListenTo nat nat string "nat option"
  | ListenToOnce nat nat string "nat option"
  | StopListening nat "nat option" string "nat option"
  | Trigger nat string "arg list"
  | SetAttrs nat attrs set_options
  | Unset nat string bool
  | Clear nat bool
  | NewModel nat attrs
  | Invoke nat nat "arg list"

text \<open>\<open>NewModel\<close> takes a number that is not used yet; \<open>Invoke\<close> is the rest of a callback.\<close>

text \<open>
  \<open>Loop a i l args\<close> is \<open>triggerEvents\<close> with \<open>l\<close> as the length of the array when it began; \<open>LoopAll\<close> has not
  begun. \<open>SetTriggers\<close> has the changes that are still to be told, \<open>SetEnd\<close> is what follows them.
\<close>

datatype call_frame =
    Run "cmd list"
  | Loop nat nat nat "arg list"
  | LoopAll nat "arg list"
  | SetTriggers nat "string list" set_options
  | SetEnd nat set_options bool

type_synonym 'w callbacks = "nat \<Rightarrow> nat \<Rightarrow> arg list \<Rightarrow> 'w objects \<Rightarrow> cmd list \<times> 'w"

definition trigger_name :: "nat \<Rightarrow> string \<Rightarrow> arg list \<Rightarrow> 'w objects \<Rightarrow> call_frame list" where
  "trigger_name obj name args s =
     (case map_of (events_of obj s) name of None \<Rightarrow> [] | Some a \<Rightarrow> [Loop a 0 (length (ob_arrays s ! a)) args])
     @ (case map_of (events_of obj s) ''all'' of None \<Rightarrow> [] | Some a \<Rightarrow> [LoopAll a (EventName name # args)])"

definition trigger :: "nat \<Rightarrow> string \<Rightarrow> arg list \<Rightarrow> 'w objects \<Rightarrow> call_frame list" where
  "trigger obj name args s =
     (if ob_events s obj = None then []
      else case split_names name of
             [n] \<Rightarrow> trigger_name obj n args s
           | names \<Rightarrow> [Run (map (\<lambda>n. Trigger obj n args) names)])"

definition on_model :: "nat \<Rightarrow> (model \<Rightarrow> model) \<Rightarrow> 'w objects \<Rightarrow> 'w objects" where
  "on_model obj f s = s\<lparr>ob_models := (ob_models s)(obj := f (ob_models s obj))\<rparr>"

definition log_trace :: "trace \<Rightarrow> 'w objects \<Rightarrow> 'w objects" where
  "log_trace e s = s\<lparr>ob_trace := ob_trace s @ [e]\<rparr>"

definition model_set :: "nat \<Rightarrow> attrs \<Rightarrow> set_options \<Rightarrow> 'w objects \<Rightarrow> call_frame list \<times> 'w objects" where
  "model_set obj as opts s =
     (let m = ob_models s obj; (changes, m') = set_attrs as opts m
      in ((if so_silent opts then [] else [SetTriggers obj changes opts]) @ [SetEnd obj opts (md_changing m)],
          on_model obj (\<lambda>_. m') s))"

definition new_model :: "attrs \<Rightarrow> model" where
  "new_model as =
     (let m = snd (set_attrs as \<lparr>so_unset = False, so_silent = True\<rparr> no_model)
      in m\<lparr>md_changing := False, md_pending := None, md_changed := []\<rparr>)"

definition invoke :: "'w callbacks \<Rightarrow> nat \<Rightarrow> nat \<Rightarrow> arg list \<Rightarrow> 'w objects \<Rightarrow> call_frame list \<times> 'w objects" where
  "invoke body f ctx args s = (let (cmds, w) = body f ctx args s in ([Run cmds], s\<lparr>ob_world := w\<rparr>))"

text \<open>A wrapper of \<open>once\<close> runs the first time only, and takes itself off before the callback.\<close>

fun call_fn :: "'w callbacks \<Rightarrow> callback_fn \<Rightarrow> nat \<Rightarrow> arg list \<Rightarrow> 'w objects \<Rightarrow> call_frame list \<times> 'w objects" where
  "call_fn body (Fn f) ctx args s = invoke body f ctx args s"
| "call_fn body (OnceFn n obj name f) ctx args s =
     (if n \<in> set (ob_ran s) then ([], s)
      else invoke body f ctx args (off obj name (Some (OnceFn n obj name f)) None (s\<lparr>ob_ran := n # ob_ran s\<rparr>)))"

fun command :: "'w callbacks \<Rightarrow> cmd \<Rightarrow> 'w objects \<Rightarrow> call_frame list \<times> 'w objects" where
  "command body (On obj name f ctx) s = ([], on obj name f ctx s)"
| "command body (Once obj name f ctx) s = ([], once obj name f ctx s)"
| "command body (Off obj name f ctx) s = ([], off obj name f ctx s)"
| "command body (ListenTo this obj name f) s = ([], listenTo this obj name f s)"
| "command body (ListenToOnce this obj name f) s = ([], listenToOnce this obj name f s)"
| "command body (StopListening this obj name f) s = ([], stopListening this obj name f s)"
| "command body (Trigger obj name args) s = (trigger obj name args s, s)"
| "command body (SetAttrs obj as opts) s = model_set obj as opts s"
| "command body (Unset obj attr silent) s = model_set obj (unset_attrs attr) \<lparr>so_unset = True, so_silent = silent\<rparr> s"
| "command body (Clear obj silent) s =
     model_set obj (clear_attrs (ob_models s obj)) \<lparr>so_unset = True, so_silent = silent\<rparr> s"
| "command body (NewModel obj as) s =
     (if ob_models s obj = no_model then ([], log_trace (Announced obj (md_attributes (new_model as))) (on_model obj (\<lambda>_. new_model as) s))
      else ([], s))"
| "command body (Invoke f ctx args) s = invoke body f ctx args s"

text \<open>One step of the topmost frame; \<open>depth\<close> is the number of frames below it.\<close>

fun step_frame :: "'w callbacks \<Rightarrow> nat \<Rightarrow> call_frame \<Rightarrow> 'w objects \<Rightarrow> call_frame list \<times> 'w objects" where
  "step_frame body depth (Run []) s = ([], s)"
| "step_frame body depth (Run (c # cs)) s = (let (new, s) = command body c s in (new @ [Run cs], s))"
| "step_frame body depth (Loop a i l args) s =
     (if i < l then
        (let b = ob_arrays s ! a ! i;
             (new, s) = call_fn body (bn_callback b) (bn_ctx b) args (log_trace (Called depth b args) s)
         in (new @ [Loop a (Suc i) l args], s))
      else ([], s))"
| "step_frame body depth (LoopAll a args) s = ([Loop a 0 (length (ob_arrays s ! a)) args], s)"
| "step_frame body depth (SetTriggers obj [] opts) s = ([], s)"
| "step_frame body depth (SetTriggers obj (c # cs) opts) s =
     (trigger obj (''change:'' @ c) [Obj obj, Val (get_attr (ob_models s obj) c), Options opts] s
      @ [SetTriggers obj cs opts], s)"
| "step_frame body depth (SetEnd obj opts nested) s =
     (if nested then ([], s)
      else case (if so_silent opts then None else md_pending (ob_models s obj)) of
             Some o' \<Rightarrow>
               (trigger obj ''change'' [Obj obj, Options o'] s @ [SetEnd obj opts False],
                log_trace (Announced obj (md_attributes (ob_models s obj)))
                  (on_model obj (\<lambda>m. m\<lparr>md_pending := None\<rparr>) s))
           | None \<Rightarrow> ([], on_model obj (\<lambda>m. m\<lparr>md_pending := None, md_changing := False\<rparr>) s))"

type_synonym 'w config = "call_frame list \<times> 'w objects"

fun machine_step :: "'w callbacks \<Rightarrow> 'w config \<Rightarrow> 'w config" where
  "machine_step body ([], s) = ([], s)"
| "machine_step body (fr # frs, s) = (let (new, s) = step_frame body (length frs) fr s in (new @ frs, s))"

text \<open>\<open>n\<close> steps, by which a program runs from a state in which no call is under way.\<close>

fun run :: "'w callbacks \<Rightarrow> nat \<Rightarrow> 'w config \<Rightarrow> 'w config" where
  "run body 0 c = c"
| "run body (Suc n) c = run body n (machine_step body c)"

end
