(* ===== verification/Backbone_Model_Props.thy ===== *)
theory Backbone_Model_Props
  imports Backbone_Props
begin

text \<open>
  What \<open>set\<close> of \<open>Backbone.Model\<close> promises, whatever the callbacks of its events do, which may set, unset and
  clear attributes of the same model: \<open>changed\<close> is the difference to the attributes before the outermost
  call, and when that call has returned the last event \<open>change\<close> has told the attributes as they are.
\<close>

section \<open>Attributes\<close>

definition plain_attrs :: "attrs \<Rightarrow> bool" where
  "plain_attrs as \<longleftrightarrow> distinct (map fst as) \<and> (\<forall>v\<in>snd ` set as. plain v)"

definition same_attrs :: "attrs \<Rightarrow> attrs \<Rightarrow> bool" where
  "same_attrs as bs \<longleftrightarrow> (\<forall>k. isEqual (get_property as k) (get_property bs k))"

lemma plain_get: "plain_attrs as \<Longrightarrow> plain (get_property as k)"
proof (cases "map_of as k")
  case (Some v)
  assume "plain_attrs as"
  then have "plain v" using map_of_SomeD [OF Some] by (force simp: plain_attrs_def)
  then show ?thesis using Some by (simp add: get_property_def)
qed (simp add: get_property_def)

lemma plain_set_property: "plain_attrs as \<Longrightarrow> plain v \<Longrightarrow> plain_attrs (set_property k v as)"
proof -
  assume "plain_attrs as" "plain v"
  moreover have "snd ` set (set_property k v as) \<subseteq> insert v (snd ` set as)"
    by (induction as) (force split: if_splits)+
  ultimately have "distinct (map fst (set_property k v as))" "\<forall>w\<in>snd ` set (set_property k v as). plain w"
    unfolding plain_attrs_def using distinct_set_property by blast+
  then show ?thesis by (simp only: plain_attrs_def simp_thms)
qed

lemma plain_delete_property: "plain_attrs as \<Longrightarrow> plain_attrs (delete_property k as)"
  unfolding plain_attrs_def using distinct_delete_property by (auto simp: delete_property_def)

lemma isEqual_get:
  "plain_attrs as \<Longrightarrow> plain_attrs bs \<Longrightarrow>
     isEqual (get_property as k) (get_property bs l) \<longleftrightarrow> meaning_of (get_property as k) = meaning_of (get_property bs l)"
  by (simp add: isEqual_iff_meaning plain_get)

lemma plain_Nil [simp]: "plain_attrs []"
  by (simp add: plain_attrs_def)

section \<open>One call of \<open>set\<close>\<close>

text \<open>\<open>changed\<close> is the difference between the attributes and those before.\<close>

definition changed_ok :: "model \<Rightarrow> bool" where
  "changed_ok m \<longleftrightarrow>
     (\<forall>k. map_of (md_changed m) k =
        (if isEqual (get_property (md_previous m) k) (get_property (md_attributes m) k) then None
         else Some (get_property (md_attributes m) k)))"

definition settable :: "bool \<Rightarrow> attrs \<Rightarrow> bool" where
  "settable unset as \<longleftrightarrow> plain_attrs as \<and> (unset \<longrightarrow> (\<forall>v\<in>snd ` set as. v = VUndefined))"

definition model_plain :: "model \<Rightarrow> bool" where
  "model_plain m \<longleftrightarrow> plain_attrs (md_attributes m) \<and> plain_attrs (md_previous m)"

lemma set_attr_step:
  assumes "model_plain m" "changed_ok m" "plain v" "unset \<longrightarrow> v = VUndefined" "set_attr unset (k, v) (cs, m) = (cs', m')"
  shows "model_plain m'" "changed_ok m'" "md_previous m' = md_previous m" "md_changing m' = md_changing m"
    "md_pending m' = md_pending m" "\<exists>ds. cs' = cs @ ds"
    "cs' = cs \<Longrightarrow> same_attrs (md_attributes m') (md_attributes m)"
proof -
  define current where "current = (if unset then delete_property k (md_attributes m) else set_property k v (md_attributes m))"
  have get: "get_property current l = (if l = k then v else get_property (md_attributes m) l)" for l
    using assms(4) by (simp add: current_def)
  have plain: "plain_attrs current"
    using assms(1,3) by (simp add: current_def model_plain_def plain_set_property plain_delete_property)
  have m': "m' = m\<lparr>md_changed := (if isEqual (get_property (md_previous m) k) v then delete_property k (md_changed m)
                     else set_property k v (md_changed m)), md_attributes := current\<rparr>"
    and cs': "cs' = (if isEqual (get_property (md_attributes m) k) v then cs else cs @ [k])"
    using assms(5) by (auto simp: set_attr_def Let_def current_def)
  show "model_plain m'" using plain assms(1) by (simp add: m' model_plain_def)
  show "changed_ok m'"
    using assms(2) by (auto simp: changed_ok_def m' get)
  show "md_previous m' = md_previous m" "md_changing m' = md_changing m" "md_pending m' = md_pending m" by (simp_all add: m')
  show "\<exists>ds. cs' = cs @ ds" by (simp add: cs')
  have refl: "isEqual (get_property (md_attributes m) l) (get_property (md_attributes m) l)" for l
    using assms(1) by (simp add: isEqual_get model_plain_def)
  show "cs' = cs \<Longrightarrow> same_attrs (md_attributes m') (md_attributes m)"
  proof -
    assume "cs' = cs"
    then have "isEqual (get_property (md_attributes m) k) v" by (auto simp: cs' split: if_splits)
    then have "isEqual v (get_property (md_attributes m) k)"
      using assms(1,3) by (simp add: isEqual_iff_meaning plain_get model_plain_def)
    then show ?thesis using refl by (simp add: same_attrs_def m' get)
  qed
qed

lemma same_attrs_trans:
  "plain_attrs as \<Longrightarrow> plain_attrs bs \<Longrightarrow> plain_attrs cs \<Longrightarrow> same_attrs as bs \<Longrightarrow> same_attrs bs cs \<Longrightarrow> same_attrs as cs"
  by (simp add: same_attrs_def isEqual_get)

lemma same_attrs_refl: "plain_attrs as \<Longrightarrow> same_attrs as as"
  by (simp add: same_attrs_def isEqual_get)

lemma fold_set_attr:
  assumes "model_plain m" "changed_ok m" "settable unset as" "fold (set_attr unset) as (cs, m) = (cs', m')"
  shows "model_plain m' \<and> changed_ok m' \<and> md_previous m' = md_previous m \<and> md_changing m' = md_changing m
    \<and> md_pending m' = md_pending m \<and> (\<exists>ds. cs' = cs @ ds) \<and> (cs' = cs \<longrightarrow> same_attrs (md_attributes m') (md_attributes m))"
  using assms
proof (induction as arbitrary: cs m)
  case Nil
  then show ?case by (auto simp: same_attrs_refl model_plain_def)
next
  case (Cons kv as)
  obtain k v where kv: "kv = (k, v)" by (cases kv)
  obtain cs1 m1 where one: "set_attr unset (k, v) (cs, m) = (cs1, m1)" by fastforce
  have ok: "plain v" "unset \<longrightarrow> v = VUndefined" "settable unset as"
    using Cons.prems(3) by (auto simp: settable_def plain_attrs_def kv)
  note s = set_attr_step [OF Cons.prems(1,2) ok(1,2) one]
  have "fold (set_attr unset) as (cs1, m1) = (cs', m')" using Cons.prems(4) by (simp add: kv one)
  from Cons.IH [OF s(1,2) ok(3) this] have rest: "model_plain m'" "changed_ok m'" "md_previous m' = md_previous m1" "md_changing m' = md_changing m1"
    "md_pending m' = md_pending m1" "\<exists>ds. cs' = cs1 @ ds" "cs' = cs1 \<Longrightarrow> same_attrs (md_attributes m') (md_attributes m1)" by auto
  have "same_attrs (md_attributes m') (md_attributes m)" if "cs' = cs"
  proof -
    have "cs1 = cs" "cs' = cs1" using that rest(6) s(6) by auto
    then show ?thesis
      using same_attrs_trans rest(1,7) s(1,7) Cons.prems(1) unfolding model_plain_def by blast
  qed
  then show ?case using rest(1-6) s(3-6) by auto
qed

lemma begin_set_ok:
  assumes "model_plain m" "md_changing m \<longrightarrow> changed_ok m"
  shows "model_plain (begin_set m)" "changed_ok (begin_set m)" "md_changing (begin_set m)" "md_pending (begin_set m) = md_pending m"
    "md_attributes (begin_set m) = md_attributes m"
  using assms by (auto simp: begin_set_def model_plain_def changed_ok_def isEqual_get)

lemma set_attrs_ok:
  assumes "model_plain m" "md_changing m \<longrightarrow> changed_ok m" "settable (so_unset opts) as" "\<not> so_silent opts"
    "set_attrs as opts m = (cs, m')"
  shows "model_plain m'" "changed_ok m'" "md_changing m'"
    "md_pending m' = None \<Longrightarrow> md_pending m = None \<and> same_attrs (md_attributes m') (md_attributes m)"
proof -
  obtain cs1 m1 where f: "fold (set_attr (so_unset opts)) as ([], begin_set m) = (cs1, m1)" by fastforce
  note b = begin_set_ok [OF assms(1,2)]
  note r = fold_set_attr [OF b(1,2) assms(3) f]
  have m': "m' = (if cs1 \<noteq> [] then m1\<lparr>md_pending := Some opts\<rparr> else m1)"
    using assms(4,5) by (auto simp: set_attrs_def f)
  show "model_plain m'" "changed_ok m'" "md_changing m'"
    using r b(3) by (auto simp: m' model_plain_def changed_ok_def)
  show "md_pending m' = None \<Longrightarrow> md_pending m = None \<and> same_attrs (md_attributes m') (md_attributes m)"
    using r b(4,5) by (auto simp: m' split: if_splits)
qed

section \<open>The machine\<close>

definition last_announced :: "nat \<Rightarrow> trace list \<Rightarrow> attrs" where
  "last_announced obj tr =
     fold (\<lambda>e as. case e of Announced o' as' \<Rightarrow> if o' = obj then as' else as | Called d b args \<Rightarrow> as) tr []"

lemma last_announced_simps [simp]:
  "last_announced obj [] = []"
  "last_announced obj (tr @ [Called d b args]) = last_announced obj tr"
  "last_announced obj (tr @ [Announced o' as]) = (if o' = obj then as else last_announced obj tr)"
  by (simp_all add: last_announced_def)

text \<open>Commands that set plain values, and not silently.\<close>

fun loud :: "cmd \<Rightarrow> bool" where
  "loud (SetAttrs obj as opts) = (plain_attrs as \<and> \<not> so_unset opts \<and> \<not> so_silent opts)"
| "loud (Unset obj attr silent) = (\<not> silent)"
| "loud (Clear obj silent) = (\<not> silent)"
| "loud (NewModel obj as) = plain_attrs as"
| "loud c = True"

fun loud_frame :: "call_frame \<Rightarrow> bool" where
  "loud_frame (Run cs) = list_all loud cs"
| "loud_frame (SetEnd obj opts nested) = (\<not> so_silent opts)"
| "loud_frame fr = True"

fun outermost :: "nat \<Rightarrow> call_frame \<Rightarrow> bool" where
  "outermost obj (SetEnd o' opts nested) = (o' = obj \<and> \<not> nested)"
| "outermost obj fr = False"

definition model_ok :: "model \<Rightarrow> attrs \<Rightarrow> bool" where
  "model_ok m known \<longleftrightarrow>
     model_plain m \<and> plain_attrs known
   \<and> (changed_ok m \<or> \<not> md_changing m \<and> md_changed m = [] \<and> md_previous m = [])
   \<and> (md_pending m = None \<longrightarrow> same_attrs (md_attributes m) known)
   \<and> (\<not> md_changing m \<longrightarrow> md_pending m = None)"

definition models_ok :: "'w objects \<Rightarrow> bool" where
  "models_ok s \<longleftrightarrow> (\<forall>obj. model_ok (ob_models s obj) (last_announced obj (ob_trace s)))"

definition being_set :: "call_frame list \<Rightarrow> 'w objects \<Rightarrow> bool" where
  "being_set frs s \<longleftrightarrow> (\<forall>obj. length (filter (outermost obj) frs) = (if md_changing (ob_models s obj) then 1 else 0))"

definition machine_ok :: "'w config \<Rightarrow> bool" where
  "machine_ok c \<longleftrightarrow> list_all loud_frame (fst c) \<and> models_ok (snd c) \<and> being_set (fst c) (snd c)"

text \<open>Most steps leave the models alone.\<close>

lemma models_push [simp]: "ob_models (push_binding obj name b s) = ob_models s"
  by (simp add: push_binding_def split: option.split)

lemma models_on_name [simp]: "ob_models (on_name obj f ctx name s) = ob_models s"
  by (simp add: on_name_def split: option.split)

lemma models_on [simp]: "ob_models (on obj name f ctx s) = ob_models s"
  by (simp add: on_def fold_keeps [of ob_models])

lemma models_once [simp]: "ob_models (once obj name f ctx s) = ob_models s"
  unfolding once_def by (rule fold_keeps) (simp add: once_name_def split: option.split)

lemma models_off_array [simp]: "ob_models (off_array obj f ctx name s) = ob_models s"
  by (simp add: off_array_def Let_def split: option.split)

lemma models_off_name [simp]: "ob_models (off_name obj f ctx name s) = ob_models s"
  by (simp add: off_name_def fold_keeps [of ob_models])

lemma models_off [simp]: "ob_models (off obj name f ctx s) = ob_models s"
  by (simp add: off_def fold_keeps [of ob_models])

lemma models_listen [simp]: "ob_models (start_listening this obj s) = ob_models s"
  by (simp add: start_listening_def)

lemma models_stop_one [simp]: "ob_models (stop_one this name f obj s) = ob_models s"
  by (simp add: stop_one_def Let_def)

lemma models_stop [simp]: "ob_models (stopListening this obj name f s) = ob_models s"
  by (simp add: stopListening_def fold_keeps [of ob_models] split: option.split)

lemma models_frame:
  assumes "ob_models s' = ob_models s" "ob_trace s' = ob_trace s \<or> ob_trace s' = ob_trace s @ [Called d b args]"
  shows "models_ok s' = models_ok s"
  using assms by (auto simp: models_ok_def)

lemma machine_frame:
  assumes "machine_ok (fr # frs, s)" "\<forall>obj. \<not> outermost obj fr" "list_all loud_frame new" "\<forall>obj. filter (outermost obj) new = []"
    "ob_models s' = ob_models s" "ob_trace s' = ob_trace s \<or> ob_trace s' = ob_trace s @ [Called d b args]"
  shows "machine_ok (new @ frs, s')"
  using assms models_frame [OF assms(5,6)] by (auto simp: machine_ok_def being_set_def)

lemma filter_trigger: "filter (outermost o') (trigger obj name args s) = []" "list_all loud_frame (trigger obj name args s)"
  by (auto simp: trigger_def trigger_name_def list_all_iff split: list.split option.split)

text \<open>A call of \<open>set\<close>.\<close>

lemma settable_unset: "settable True (unset_attrs attr)"
  by (simp add: settable_def plain_attrs_def unset_attrs_def)

lemma settable_clear: "plain_attrs (md_attributes m) \<Longrightarrow> settable True (clear_attrs m)"
proof -
  have "map fst (clear_attrs m) = map fst (md_attributes m)" by (simp add: clear_attrs_def case_prod_unfold)
  moreover assume "plain_attrs (md_attributes m)"
  ultimately have "distinct (map fst (clear_attrs m))" by (simp add: plain_attrs_def)
  moreover have "\<forall>v\<in>snd ` set (clear_attrs m). v = VUndefined" by (auto simp: clear_attrs_def)
  ultimately show ?thesis by (auto simp: settable_def plain_attrs_def)
qed

lemma model_set_ok:
  assumes "machine_ok (Run (c # cs) # frs, s)" "settable (so_unset opts) as" "\<not> so_silent opts" "model_set obj as opts s = (new, s')"
  shows "machine_ok (new @ Run cs # frs, s')"
proof -
  define m where "m = ob_models s obj"
  obtain changes m' where set: "set_attrs as opts m = (changes, m')" by fastforce
  have new: "new = [SetTriggers obj changes opts, SetEnd obj opts (md_changing m)]" and s': "s' = on_model obj (\<lambda>_. m') s"
    using assms(3,4) set by (auto simp: model_set_def m_def Let_def)
  have ok: "models_ok s" "being_set (Run (c # cs) # frs) s" "list_all loud_frame (Run (c # cs) # frs)"
    using assms(1) by (simp_all add: machine_ok_def)
  then have mk: "model_ok m (last_announced obj (ob_trace s))" by (simp add: models_ok_def m_def)
  then have pre: "model_plain m" "md_changing m \<longrightarrow> changed_ok m" by (auto simp: model_ok_def)
  note set_ok = set_attrs_ok [OF pre assms(2,3) set]
  have "model_ok m' (last_announced obj (ob_trace s))"
    using set_ok mk same_attrs_trans [of "md_attributes m'" "md_attributes m" "last_announced obj (ob_trace s)"]
    by (auto simp: model_ok_def model_plain_def)
  then have "models_ok s'" using ok(1) by (auto simp: models_ok_def s' on_model_def)
  moreover have "being_set (new @ Run cs # frs) s'"
    using ok(2) set_ok(3) unfolding being_set_def by (simp add: new s' on_model_def m_def) (metis length_0_conv)
  ultimately show ?thesis using ok(3) assms(3) by (simp add: machine_ok_def new)
qed

lemma new_model_ok: "plain_attrs as \<Longrightarrow> model_ok (new_model as) (md_attributes (new_model as))"
proof -
  assume as: "plain_attrs as"
  obtain cs m where set: "fold (set_attr False) as ([], begin_set no_model) = (cs, m)" by fastforce
  have "model_plain no_model" by (simp add: model_plain_def no_model_def)
  then have b: "model_plain (begin_set no_model)" "changed_ok (begin_set no_model)"
    using begin_set_ok [of no_model] by (simp_all add: no_model_def)
  have "settable False as" using as by (simp add: settable_def)
  note m = fold_set_attr [OF b this set]
  have "new_model as = m\<lparr>md_changing := False, md_pending := None, md_changed := []\<rparr>"
    by (simp add: new_model_def set_attrs_def set)
  moreover have "md_previous m = []" using m by (simp add: begin_set_def no_model_def)
  ultimately show ?thesis using m by (simp add: model_ok_def model_plain_def same_attrs_refl)
qed

lemma no_command_calls: "list_all loud_frame new \<Longrightarrow> \<forall>obj. filter (outermost obj) new = [] \<Longrightarrow>
    machine_ok (Run (c # cs) # frs, s) \<Longrightarrow> ob_models s' = ob_models s \<Longrightarrow> ob_trace s' = ob_trace s \<Longrightarrow>
    machine_ok (new @ Run cs # frs, s')"
  using machine_frame [of "Run (c # cs)" frs s "new @ [Run cs]" s'] by (simp add: machine_ok_def)

definition loud_body :: "'w callbacks \<Rightarrow> bool" where
  "loud_body body \<longleftrightarrow> (\<forall>f ctx args s. list_all loud (fst (body f ctx args s)))"

lemma invoke_frames:
  assumes "loud_body body"
  shows "list_all loud_frame (fst (invoke body f ctx args s))" "filter (outermost obj) (fst (invoke body f ctx args s)) = []"
  "ob_models (snd (invoke body f ctx args s)) = ob_models s" "ob_trace (snd (invoke body f ctx args s)) = ob_trace s"
  using assms by (simp_all add: loud_body_def invoke_def case_prod_unfold Let_def)

lemma call_frames:
  assumes "loud_body body"
  shows "list_all loud_frame (fst (call_fn body cb ctx args s))" "filter (outermost obj) (fst (call_fn body cb ctx args s)) = []"
  "ob_models (snd (call_fn body cb ctx args s)) = ob_models s" "ob_trace (snd (call_fn body cb ctx args s)) = ob_trace s"
  by (cases cb; simp add: invoke_frames [OF assms])+

lemma command_ok:
  assumes body: "loud_body body" and ok: "machine_ok (Run (c # cs) # frs, s)" and run: "command body c s = (new, s')"
  shows "machine_ok (new @ Run cs # frs, s')"
proof (cases c)
  case (SetAttrs obj as opts)
  then have "plain_attrs as" "\<not> so_unset opts" "\<not> so_silent opts" using ok by (simp_all add: machine_ok_def)
  then show ?thesis using model_set_ok [OF ok, of opts as obj new s'] run SetAttrs by (simp add: settable_def)
next
  case (Unset obj attr silent)
  then have "\<not> silent" using ok by (simp add: machine_ok_def)
  then show ?thesis using model_set_ok [OF ok, of "\<lparr>so_unset = True, so_silent = silent\<rparr>" "unset_attrs attr" obj new s'] run Unset by (simp add: settable_unset)
next
  case (Clear obj silent)
  then have "\<not> silent" using ok by (simp add: machine_ok_def)
  moreover have "plain_attrs (md_attributes (ob_models s obj))" using ok by (simp add: machine_ok_def models_ok_def model_ok_def model_plain_def)
  ultimately show ?thesis
    using model_set_ok [OF ok, of "\<lparr>so_unset = True, so_silent = silent\<rparr>" "clear_attrs (ob_models s obj)" obj new s'] run Clear by (simp add: settable_clear)
next
  case (NewModel obj as)
  show ?thesis
  proof (cases "ob_models s obj = no_model")
    case True
    define s1 where "s1 = log_trace (Announced obj (md_attributes (new_model as))) (on_model obj (\<lambda>_. new_model as) s)"
    have res: "new = []" "s' = s1" using run True by (simp_all add: NewModel s1_def)
    have as: "plain_attrs as" using ok by (simp add: NewModel machine_ok_def)
    have "models_ok s1"
      using ok new_model_ok [OF as] by (auto simp: machine_ok_def models_ok_def s1_def on_model_def log_trace_def)
    moreover have "\<not> md_changing (new_model as)" "\<not> md_changing (ob_models s obj)"
      by (simp_all add: True new_model_def Let_def) (simp add: no_model_def)
    then have "being_set (Run cs # frs) s1"
      using ok by (simp add: machine_ok_def being_set_def s1_def on_model_def log_trace_def)
    ultimately show ?thesis using ok by (simp add: machine_ok_def res)
  next
    case False
    then show ?thesis using no_command_calls [OF _ _ ok, of new s'] run by (auto simp: NewModel)
  qed
next
  case (Trigger obj name args)
  then show ?thesis using no_command_calls [OF _ _ ok, of new s'] run by (auto simp: filter_trigger)
next
  case (Invoke f ctx args)
  then show ?thesis using no_command_calls [OF _ _ ok, of new s'] run invoke_frames [OF body, where f = f and ctx = ctx and args = args and s = s] by (auto simp: prod_eq_iff)
qed (use no_command_calls [OF _ _ ok, of new s'] run in \<open>auto simp: listenTo_def listenToOnce_def\<close>)

lemma step_ok:
  assumes body: "loud_body body" and ok: "machine_ok c"
  shows "machine_ok (machine_step body c)"
proof -
  show ?thesis
  proof (cases "fst c")
    case Nil
    then show ?thesis using ok by (cases c) simp
  next
    case (Cons fr frs)
    then obtain s where c: "c = (fr # frs, s)" by (cases c) simp
    note frame = machine_frame [OF ok [unfolded c]]
    show ?thesis
    proof (cases fr)
      case (Run cs)
      show ?thesis
      proof (cases cs)
        case Nil
        then show ?thesis using frame [of "[]" s] by (simp add: c Run)
      next
        case (Cons cmd cs')
        obtain new s' where "command body cmd s = (new, s')" by fastforce
        then show ?thesis using command_ok [OF body] ok by (simp add: c Run Cons)
      qed
    next
      case (Loop a i l args)
      show ?thesis
      proof (cases "i < l")
        case True
        define b where "b = ob_arrays s ! a ! i"
        define s1 where "s1 = log_trace (Called (length frs) b args) s"
        obtain new s' where call: "call_fn body (bn_callback b) (bn_ctx b) args s1 = (new, s')" by fastforce
        have "ob_trace s' = ob_trace s @ [Called (length frs) b args]" "ob_models s' = ob_models s"
          using call_frames(3,4) [OF body, where cb = "bn_callback b" and ctx = "bn_ctx b" and args = args and s = s1] by (simp_all add: call) (simp_all add: s1_def log_trace_def)
        then have "machine_ok ((new @ [Loop a (Suc i) l args]) @ frs, s')"
          using call_frames(1,2) [OF body, where cb = "bn_callback b" and ctx = "bn_ctx b" and args = args and s = s1] by (intro frame) (simp_all add: Loop call)
        moreover have "machine_step body c = ((new @ [Loop a (Suc i) l args]) @ frs, s')"
          using True by (simp add: c Loop b_def [symmetric] s1_def [symmetric] call)
        ultimately show ?thesis by simp
      next
        case False
        then show ?thesis using frame [of "[]" s] by (simp add: c Loop)
      qed
    next
      case (LoopAll a args)
      then show ?thesis using frame [of "[Loop a 0 (length (ob_arrays s ! a)) args]" s] by (simp add: c)
    next
      case (SetTriggers obj cs opts)
      show ?thesis
      proof (cases cs)
        case Nil
        then show ?thesis using frame [of "[]" s] by (simp add: c SetTriggers)
      next
        case (Cons d ds)
        then show ?thesis
          using frame [of "trigger obj (''change:'' @ d) [Obj obj, Val (get_attr (ob_models s obj) d), Options opts] s @ [SetTriggers obj ds opts]" s]
          by (simp add: c SetTriggers filter_trigger)
      qed
    next
      case (SetEnd obj opts nested)
      have "\<not> so_silent opts" using ok by (simp add: c SetEnd machine_ok_def)
      define m where "m = ob_models s obj"
      have m: "model_ok m (last_announced obj (ob_trace s))" using ok by (simp add: c machine_ok_def models_ok_def m_def)
      show ?thesis
      proof (cases "nested \<or> md_pending m = None")
        case True
        define s1 where "s1 = (if nested then s else on_model obj (\<lambda>m. m\<lparr>md_pending := None, md_changing := False\<rparr>) s)"
        have st: "machine_step body c = (frs, s1)"
          using True \<open>\<not> so_silent opts\<close> by (auto simp: c SetEnd s1_def m_def split: option.split)
        have "models_ok s1"
        proof (cases nested)
          case False
          then have "model_ok (m\<lparr>md_pending := None, md_changing := False\<rparr>) (last_announced obj (ob_trace s))"
            using m True by (auto simp: model_ok_def model_plain_def changed_ok_def)
          then show ?thesis using ok False by (auto simp: c machine_ok_def models_ok_def s1_def on_model_def m_def)
        qed (use ok in \<open>simp add: c machine_ok_def s1_def\<close>)
        moreover have "being_set frs s1"
          using ok unfolding machine_ok_def being_set_def fst_conv snd_conv c SetEnd
          by (auto simp: s1_def on_model_def split: if_splits)
        ultimately show ?thesis using ok by (simp add: st machine_ok_def) (simp add: c)
      next
        case False
        then obtain o' where o': "md_pending m = Some o'" "\<not> nested" by auto
        define s1 where "s1 = log_trace (Announced obj (md_attributes m)) (on_model obj (\<lambda>m. m\<lparr>md_pending := None\<rparr>) s)"
        have st: "machine_step body c = (trigger obj ''change'' [Obj obj, Options o'] s @ SetEnd obj opts False # frs, s1)"
          using o' \<open>\<not> so_silent opts\<close> by (simp add: c SetEnd s1_def m_def)
        have "md_changing m" using m o' by (auto simp: model_ok_def)
        then have "model_ok (m\<lparr>md_pending := None\<rparr>) (md_attributes m)"
          using m by (auto simp: model_ok_def model_plain_def changed_ok_def same_attrs_refl)
        then have "models_ok s1"
          using ok by (auto simp: c machine_ok_def models_ok_def s1_def on_model_def log_trace_def m_def)
        moreover have "being_set (trigger obj ''change'' [Obj obj, Options o'] s @ SetEnd obj opts False # frs) s1"
          using ok o'(2) unfolding machine_ok_def being_set_def fst_conv snd_conv c SetEnd
          by (simp add: s1_def on_model_def log_trace_def filter_trigger)
        ultimately show ?thesis
          using ok \<open>\<not> so_silent opts\<close> by (simp add: st machine_ok_def filter_trigger) (simp add: c)
      qed
    qed
  qed
qed

lemma run_ok: "loud_body body \<Longrightarrow> machine_ok c \<Longrightarrow> machine_ok (run body n c)"
  by (induction n arbitrary: c) (simp_all add: step_ok)

lemma machine_ok_start: "list_all loud cs \<Longrightarrow> machine_ok ([Run cs], no_objects w)"
  by (simp add: machine_ok_def models_ok_def being_set_def no_objects_def no_model_def model_ok_def model_plain_def
      same_attrs_refl)


text \<open>A handler of \<open>change:a\<close> that sets another attribute.\<close>

definition example_callbacks :: "unit callbacks" where
  "example_callbacks f ctx args s =
     (if f = 0 then [SetAttrs ctx [(''b'', VBool True)] \<lparr>so_unset = False, so_silent = False\<rparr>] else [], ())"

definition example_program :: "cmd list" where
  "example_program =
     [NewModel 1 [(''a'', VNull)], On 1 ''change:a'' (Some 0) None,
      SetAttrs 1 [(''a'', VBool True)] \<lparr>so_unset = False, so_silent = False\<rparr>]"

lemma example_loud: "loud_body example_callbacks" "list_all loud example_program"
  by (simp_all add: loud_body_def example_callbacks_def example_program_def plain_attrs_def)

lemma example_ends:
  "let (frs, s) = run example_callbacks 20 ([Run example_program], no_objects ())
   in frs = [] \<and> md_attributes (ob_models s 1) = [(''a'', VBool True), (''b'', VBool True)]"
  by code_simp


end
