(* ===== verification/Jquery_Ajax.thy ===== *)
theory Jquery_Ajax
  imports Jquery_Events Js_Value
begin

text \<open>
  What jQuery sends with a request (\<open>htrace-webapp/src/main/web/lib/jquery-2.1.4.js\<close>): the serialisation of
  parameters by \<open>jQuery.param\<close>, and the part of \<open>jQuery.ajax\<close> that makes the address and the headers. Left
  out: the prefilters for \<open>jsonp\<close> and scripts, \<open>ifModified\<close>, and functions as values of parameters.
\<close>

section \<open>Parameters\<close>

text \<open>\<open>encodeURIComponent\<close>: UTF-8 in escapes, but for the letters, the digits and some marks.\<close>

definition upper_hex :: "nat \<Rightarrow> char" where
  "upper_hex n = (if n < 10 then char_of (48 + n) else char_of (55 + n))"

definition percent_byte :: "nat \<Rightarrow> string" where
  "percent_byte b = [CHR ''%'', upper_hex (b div 16), upper_hex (b mod 16)]"

definition unreserved :: "char \<Rightarrow> bool" where
  "unreserved c \<longleftrightarrow>
     is_digit c \<or> (65 \<le> code c \<and> code c \<le> 90) \<or> (97 \<le> code c \<and> code c \<le> 122)
     \<or> c \<in> set ''-_.!~*()'' \<or> c = CHR 0x27"

definition encode_char :: "char \<Rightarrow> string" where
  "encode_char c =
     (if unreserved c then [c]
      else if code c < 128 then percent_byte (code c)
      else percent_byte (192 + code c div 64) @ percent_byte (128 + code c mod 64))"

definition encodeURIComponent :: "string \<Rightarrow> string" where
  "encodeURIComponent s = concat (map encode_char s)"

text \<open>
  \<open>buildParams\<close>: the pairs that \<open>add\<close> is called with. The text of a scalar is a parameter; null and
  undefined are the empty text. The tests are those of \<open>jQuery.type\<close> and \<open>typeof\<close>.
\<close>

definition scalar_text :: "(jsval \<Rightarrow> string) \<Rightarrow> jsval \<Rightarrow> string" where
  "scalar_text show v = (if null_or_undefined v then '''' else show v)"

fun typeof_object :: "jsval \<Rightarrow> bool" where
  "typeof_object VNull = True"
| "typeof_object (VDate i x) = True"
| "typeof_object (VRegExp s) = True"
| "typeof_object (VArr xs) = True"
| "typeof_object (VObj ps) = True"
| "typeof_object v = False"

definition ends_bracket :: "string \<Rightarrow> bool" where
  "ends_bracket s = (drop (length s - 2) s = ''[]'')"

definition item_prefix :: "string \<Rightarrow> nat \<Rightarrow> jsval \<Rightarrow> string" where
  "item_prefix pre i v = pre @ ''['' @ (if typeof_object v then nat_string i else '''') @ '']''"

fun buildParams :: "bool \<Rightarrow> string \<Rightarrow> jsval \<Rightarrow> (string \<times> jsval) list"
and build_items :: "bool \<Rightarrow> string \<Rightarrow> nat \<Rightarrow> jsval list \<Rightarrow> (string \<times> jsval) list"
and build_members :: "bool \<Rightarrow> string \<Rightarrow> (string \<times> jsval) list \<Rightarrow> (string \<times> jsval) list" where
  "buildParams traditional pre (VArr xs) = build_items traditional pre 0 xs"
| "buildParams traditional pre (VObj ps) =
     (if traditional then [(pre, VObj ps)] else build_members traditional pre ps)"
| "buildParams traditional pre v = [(pre, v)]"
| "build_items traditional pre i [] = []"
| "build_items traditional pre i (v # vs) =
     (if traditional \<or> ends_bracket pre then [(pre, v)]
      else buildParams traditional (item_prefix pre i v) v)
     @ build_items traditional pre (Suc i) vs"
| "build_members traditional pre [] = []"
| "build_members traditional pre ((name, v) # ps) =
     buildParams traditional (pre @ ''['' @ name @ '']'') v @ build_members traditional pre ps"

text \<open>\<open>jQuery.param\<close> of an object; \<open>r20\<close> makes a plus of an escaped space.\<close>

fun plus_for_space :: "string \<Rightarrow> string" where
  "plus_for_space [] = []"
| "plus_for_space (c # cs) =
     (if starts_with ''%20'' (c # cs) then CHR ''+'' # plus_for_space (drop 2 cs) else c # plus_for_space cs)"

fun join_with :: "string \<Rightarrow> string list \<Rightarrow> string" where
  "join_with sep [] = []"
| "join_with sep [s] = s"
| "join_with sep (s # t # ts) = s @ sep @ join_with sep (t # ts)"

definition param :: "(jsval \<Rightarrow> string) \<Rightarrow> bool \<Rightarrow> (string \<times> jsval) list \<Rightarrow> string" where
  "param show traditional a =
     plus_for_space (join_with ''&''
       (map (\<lambda>(k, v). encodeURIComponent k @ ''='' @ encodeURIComponent (scalar_text show v))
          (concat (map (\<lambda>(pre, v). buildParams traditional pre v) a))))"

section \<open>The address\<close>

definition has_query :: "string \<Rightarrow> bool" where
  "has_query url = (CHR ''?'' \<in> set url)"

definition add_query :: "string \<Rightarrow> string \<Rightarrow> string" where
  "add_query url p = url @ (if has_query url then ''&'' else ''?'') @ p"

text \<open>\<open>rhash\<close> and \<open>rprotocol\<close>; \<open>loc\<close> is the protocol of the page.\<close>

definition request_url :: "string \<Rightarrow> string \<Rightarrow> string" where
  "request_url loc url =
     (let url = takeWhile (\<lambda>c. c \<noteq> CHR ''#'') url in if starts_with ''//'' url then loc @ url else url)"

text \<open>\<open>rts\<close>: the first parameter \<open>_\<close> gets a new value.\<close>

fun replace_nonce :: "string \<Rightarrow> string \<Rightarrow> string option" where
  "replace_nonce n [] = None"
| "replace_nonce n (c # cs) =
     (if (c = CHR ''?'' \<or> c = CHR ''&'') \<and> starts_with ''_='' cs
      then Some (c # ''_='' @ n @ dropWhile (\<lambda>d. d \<noteq> CHR ''&'') (drop 2 cs))
      else map_option ((#) c) (replace_nonce n cs))"

definition no_content :: "string \<Rightarrow> bool" where
  "no_content type = (type = ''GET'' \<or> type = ''HEAD'')"

text \<open>The address and the data of a request, and the counter \<open>nonce\<close>; \<open>None\<close> is no data.\<close>

definition prepare_url :: "string \<Rightarrow> bool \<Rightarrow> nat \<Rightarrow> string \<Rightarrow> string option \<Rightarrow> string \<times> string option \<times> nat" where
  "prepare_url type anti_cache nonce url dat =
     (if \<not> no_content type then (url, dat, nonce)
      else
        (let has_data = (case dat of None \<Rightarrow> False | Some d \<Rightarrow> d \<noteq> '''');
             cacheURL = (if has_data then add_query url (the dat) else url);
             dat = (if has_data then None else dat)
         in if anti_cache then
              (case replace_nonce (nat_string nonce) cacheURL of
                 Some u \<Rightarrow> (u, dat, nonce + 1)
               | None \<Rightarrow> (add_query cacheURL (''_='' @ nat_string nonce), dat, nonce + 1))
            else (cacheURL, dat, nonce)))"

section \<open>Headers\<close>

definition lower_char :: "char \<Rightarrow> char" where
  "lower_char c = (if 65 \<le> code c \<and> code c \<le> 90 then char_of (code c + 32) else c)"

definition lower :: "string \<Rightarrow> string" where
  "lower s = map lower_char s"

text \<open>\<open>requestHeadersNames\<close> keeps the spelling in which a header was first set.\<close>

record request_headers =
  rh_names :: "(string \<times> string) list"
  rh_headers :: "(string \<times> string) list"

fun put_header :: "string \<Rightarrow> string \<Rightarrow> (string \<times> string) list \<Rightarrow> (string \<times> string) list" where
  "put_header k v [] = [(k, v)]"
| "put_header k v ((l, w) # ps) = (if l = k then (k, v) # ps else (l, w) # put_header k v ps)"

definition setRequestHeader :: "string \<Rightarrow> string \<Rightarrow> request_headers \<Rightarrow> request_headers" where
  "setRequestHeader name value h =
     (let lname = lower name;
          name = (case map_of (rh_names h) lname of None \<Rightarrow> name | Some n \<Rightarrow> if n = '''' then name else n)
      in \<lparr>rh_names = put_header lname name (rh_names h), rh_headers = put_header name value (rh_headers h)\<rparr>)"

definition accepts :: "string \<Rightarrow> string option" where
  "accepts t =
     (if t = ''*'' then Some ''*/*'' else if t = ''text'' then Some ''text/plain'' else if t = ''html'' then Some ''text/html''
      else if t = ''xml'' then Some ''application/xml, text/xml''
      else if t = ''json'' then Some ''application/json, text/javascript''
      else if t = ''script'' then
        Some ''text/javascript, application/javascript, application/ecmascript, application/x-ecmascript''
      else None)"

definition accept_header :: "string list \<Rightarrow> string" where
  "accept_header dataTypes =
     (case dataTypes of
        [] \<Rightarrow> ''*/*''
      | t # ts \<Rightarrow>
          (case (if t = '''' then None else accepts t) of
             None \<Rightarrow> ''*/*''
           | Some a \<Rightarrow> a @ (if t \<noteq> ''*'' then '', '' @ ''*/*'' @ ''; q=0.01'' else '''')))"

text \<open>\<open>dataTypes\<close>.\<close>

definition data_types :: "string option \<Rightarrow> string list" where
  "data_types dataType =
     (case dataType of None \<Rightarrow> [''*''] | Some t \<Rightarrow> if t = '''' then [''*''] else type_words (lower (trim t)))"

definition request_header_list :: "bool \<Rightarrow> bool \<Rightarrow> string option \<Rightarrow> string list \<Rightarrow> (string \<times> string) list \<Rightarrow> (string \<times> string) list" where
  "request_header_list sends_data cross_domain contentType dataTypes headers =
     (let h = \<lparr>rh_names = [], rh_headers = []\<rparr>;
          h = (if sends_data \<or> (case contentType of None \<Rightarrow> False | Some t \<Rightarrow> t \<noteq> '''')
               then setRequestHeader ''Content-Type''
                      (case contentType of None \<Rightarrow> ''application/x-www-form-urlencoded; charset=UTF-8'' | Some t \<Rightarrow> t) h
               else h);
          h = setRequestHeader ''Accept'' (accept_header dataTypes) h;
          h = fold (\<lambda>(k, v). setRequestHeader k v) headers h
      in if \<not> cross_domain \<and> map_of (rh_headers h) ''X-Requested-With'' \<in> {None, Some ''''}
         then put_header ''X-Requested-With'' ''XMLHttpRequest'' (rh_headers h) else rh_headers h)"

end
