(* ===== verification/Jquery_Answer.thy ===== *)
theory Jquery_Answer
  imports Jquery_Ajax
begin

text \<open>
  What jQuery does with the answer to a request (\<open>htrace-webapp/src/main/web/lib/jquery-2.1.4.js\<close>): the
  conversions of \<open>ajaxHandleResponses\<close> and \<open>ajaxConvert\<close>, and the life of the requests of a page, from
  \<open>jQuery.ajax\<close> through the transport over \<open>XMLHttpRequest\<close> to \<open>done\<close>. Reading JSON, XML and scripts is a
  parameter; values are of any type. What is left to the browser and to the handlers (when an answer
  comes, when a request is aborted) is the order of the steps. Left out: the options \<open>throws\<close>,
  \<open>dataFilter\<close> and \<open>ifModified\<close>, and transports other than that over \<open>XMLHttpRequest\<close>.
\<close>

section \<open>The headers of the answer\<close>

fun header_lines :: "string \<Rightarrow> string list" where
  "header_lines [] = [[]]"
| "header_lines (c # cs) =
     (if c = CHR 0x0A \<or> c = CHR 0x0D then [] # header_lines cs
      else (case header_lines cs of [] \<Rightarrow> [[c]] | l # ls \<Rightarrow> (c # l) # ls))"

text \<open>\<open>rheaders\<close>: the name up to the first colon; spaces and tabs after it are dropped.\<close>

definition header_of :: "string \<Rightarrow> (string \<times> string) option" where
  "header_of l =
     (case dropWhile (\<lambda>c. c \<noteq> CHR '':'') l of
        [] \<Rightarrow> None
      | _ # v \<Rightarrow> Some (lower (takeWhile (\<lambda>c. c \<noteq> CHR '':'') l), dropWhile (\<lambda>c. c = CHR '' '' \<or> c = CHR 0x09) v))"

text \<open>The last header of a name counts.\<close>

definition response_header :: "string \<Rightarrow> string \<Rightarrow> string option" where
  "response_header headers key =
     map_of (rev (List.map_filter header_of (header_lines headers))) (lower key)"

section \<open>Conversions\<close>

datatype 'r converter = Same | Conv "'r \<Rightarrow> string + 'r"

text \<open>\<open>s.converters\<close>, by the two types that a key holds.\<close>

type_synonym 'r converters = "((string \<times> string) \<times> 'r converter) list"

definition default_converters ::
  "('r \<Rightarrow> 'r) \<Rightarrow> ('r \<Rightarrow> string + 'r) \<Rightarrow> ('r \<Rightarrow> string + 'r) \<Rightarrow> ('r \<Rightarrow> string + 'r) \<Rightarrow> 'r converters" where
  "default_converters to_string parseJSON parseXML globalEval =
     [((''*'', ''text''), Conv (\<lambda>r. Inr (to_string r))), ((''text'', ''html''), Same),
      ((''text'', ''json''), Conv parseJSON), ((''text'', ''xml''), Conv parseXML),
      ((''text'', ''script''), Conv globalEval)]"

text \<open>\<open>s.contents\<close>, in its order.\<close>

definition has_substring :: "string \<Rightarrow> string \<Rightarrow> bool" where
  "has_substring s t = list_ex (\<lambda>n. starts_with t (drop n s)) [0 ..< Suc (length s)]"

definition content_type :: "string \<Rightarrow> string option" where
  "content_type ct =
     (if has_substring ct ''xml'' then Some ''xml'' else if has_substring ct ''html'' then Some ''html''
      else if has_substring ct ''json'' then Some ''json''
      else if has_substring ct ''javascript'' \<or> has_substring ct ''ecmascript'' then Some ''script'' else None)"

text \<open>
  \<open>ajaxHandleResponses\<close>: the types left to go through, and the response to begin with. \<open>mime\<close> is the
  option or the header that says what the content is.
\<close>

definition head_type :: "string list \<Rightarrow> string" where
  "head_type ts = (case ts of [] \<Rightarrow> '''' | t # _ \<Rightarrow> t)"

definition final_type :: "'r converters \<Rightarrow> string list \<Rightarrow> (string \<times> 'r) list \<Rightarrow> string option" where
  "final_type converters ts responses =
     (if ts \<noteq> [] \<and> map_of responses (head_type ts) \<noteq> None then Some (head_type ts)
      else (case find (\<lambda>(t, r). head_type ts = '''' \<or> map_of converters (t, head_type ts) \<noteq> None) responses of
              Some (t, r) \<Rightarrow> Some t
            | None \<Rightarrow> (case responses of [] \<Rightarrow> None | (t, r) # _ \<Rightarrow> Some t)))"

definition ajaxHandleResponses ::
  "'r converters \<Rightarrow> string option \<Rightarrow> string list \<Rightarrow> (string \<times> 'r) list \<Rightarrow> string list \<times> 'r option" where
  "ajaxHandleResponses converters mime dataTypes responses =
     (let ct = (if head_type dataTypes = ''*'' then mime else None);
          ts = dropWhile (\<lambda>t. t = ''*'') dataTypes;
          ts = (case ct of
                  None \<Rightarrow> ts
                | Some c \<Rightarrow> (case content_type c of None \<Rightarrow> ts | Some t \<Rightarrow> t # ts))
      in case final_type converters ts responses of
           None \<Rightarrow> (ts, None)
         | Some t \<Rightarrow> (if ts \<noteq> [] \<and> t = head_type ts then ts else t # ts, map_of responses t))"

text \<open>The converter for one type to the next, directly or in two steps.\<close>

datatype 'r route = NoRoute | Direct "'r converter" | Via string "'r converter"

definition direct_converter :: "'r converters \<Rightarrow> string \<Rightarrow> string \<Rightarrow> 'r converter option" where
  "direct_converter converters a b =
     (case map_of converters (a, b) of Some c \<Rightarrow> Some c | None \<Rightarrow> map_of converters (''*'', b))"

fun seek_pair :: "'r converters \<Rightarrow> string \<Rightarrow> string \<Rightarrow> 'r converters \<Rightarrow> 'r route" where
  "seek_pair converters prev current [] = NoRoute"
| "seek_pair converters prev current (((a, b), c) # cs) =
     (case (if b = current then direct_converter converters prev a else None) of
        None \<Rightarrow> seek_pair converters prev current cs
      | Some Same \<Rightarrow> Direct c
      | Some (Conv f) \<Rightarrow> (case c of Same \<Rightarrow> Direct (Conv f) | Conv g \<Rightarrow> Via a (Conv f)))"

definition route_to :: "'r converters \<Rightarrow> string \<Rightarrow> string \<Rightarrow> 'r route" where
  "route_to converters prev current =
     (case direct_converter converters prev current of
        Some c \<Rightarrow> Direct c
      | None \<Rightarrow> seek_pair converters prev current converters)"

fun apply_converter :: "'r converter \<Rightarrow> 'r \<Rightarrow> string + 'r" where
  "apply_converter Same r = Inr r"
| "apply_converter (Conv f) r = f r"

text \<open>The fields \<open>responseXML\<close>, \<open>responseText\<close> and \<open>responseJSON\<close> of the \<open>jqXHR\<close>.\<close>

definition response_field :: "string \<Rightarrow> 'r \<Rightarrow> (string \<times> 'r) list \<Rightarrow> (string \<times> 'r) list" where
  "response_field t r fs =
     (if t = ''xml'' then obj_set ''responseXML'' r fs
      else if t = ''text'' then obj_set ''responseText'' r fs
      else if t = ''json'' then obj_set ''responseJSON'' r fs else fs)"

definition no_conversion :: "string \<Rightarrow> string \<Rightarrow> string" where
  "no_conversion prev current = ''No conversion from '' @ prev @ '' to '' @ current"

lemma seek_pair_Via:
  "seek_pair converters prev current cs = Via a c \<Longrightarrow>
   (\<exists>g. ((a, current), Conv g) \<in> set cs) \<and> (\<exists>f. c = Conv f)"
  by (induction cs) (auto split: if_splits option.splits converter.splits)

lemma direct_converter_member: "((a, b), c) \<in> set converters \<Longrightarrow> direct_converter converters a b \<noteq> None"
  by (auto simp: direct_converter_def map_of_eq_None_iff image_iff split: option.splits)

text \<open>The measure: a conversion in two steps leaves the types, and the next one is direct.\<close>

definition conversions_left :: "'r converters \<Rightarrow> string \<Rightarrow> string list \<Rightarrow> nat" where
  "conversions_left converters prev rest =
     2 * length rest + (case rest of [] \<Rightarrow> 0 | t # _ \<Rightarrow> if direct_converter converters prev t = None then 1 else 0)"

lemma conversions_left_Cons: "conversions_left converters a ts < conversions_left converters b (t # ts)"
  by (simp add: conversions_left_def split: list.split)

lemma conversions_left_Via:
  "route_to converters prev t = Via a c \<Longrightarrow>
   conversions_left converters a (t # ts) < conversions_left converters prev (t # ts)"
  by (auto simp: conversions_left_def route_to_def split: option.splits
      dest!: seek_pair_Via direct_converter_member)

text \<open>\<open>ajaxConvert\<close>: from the response of type \<open>current\<close> through the types that are left.\<close>

function ajaxConvert ::
  "'r converters \<Rightarrow> string \<Rightarrow> string list \<Rightarrow> 'r \<Rightarrow> (string \<times> 'r) list \<Rightarrow> (string + 'r) \<times> (string \<times> 'r) list" where
  "ajaxConvert converters prev rest r fs =
     (if prev = '''' then (Inr r, fs)
      else
        (let fs = response_field prev r fs
         in case rest of
              [] \<Rightarrow> (Inr r, fs)
            | current # ts \<Rightarrow>
                if current = '''' then (Inr r, fs)
                else if current = ''*'' then ajaxConvert converters prev ts r fs
                else if prev = ''*'' \<or> prev = current then ajaxConvert converters current ts r fs
                else (case route_to converters prev current of
                        NoRoute \<Rightarrow> (Inl (no_conversion prev current), fs)
                      | Direct c \<Rightarrow>
                          (case apply_converter c r of
                             Inl e \<Rightarrow> (Inl e, fs)
                           | Inr r' \<Rightarrow> ajaxConvert converters current ts r' fs)
                      | Via a c \<Rightarrow>
                          (case apply_converter c r of
                             Inl e \<Rightarrow> (Inl e, fs)
                           | Inr r' \<Rightarrow> ajaxConvert converters a (current # ts) r' fs))))"
  by pat_completeness auto
termination
  by (relation "measure (\<lambda>(converters, prev, rest, r, fs). conversions_left converters prev rest)")
     (simp_all add: conversions_left_Cons conversions_left_Via)

declare ajaxConvert.simps [simp del]

end
