(* ===== verification/Jquery_Request.thy ===== *)
theory Jquery_Request
  imports Jquery_Answer
begin

text \<open>
  The life of the requests of a page (\<open>jQuery.ajax\<close> in \<open>htrace-webapp/src/main/web/lib/jquery-2.1.4.js\<close>):
  what is done before the transport is chosen, \<open>send\<close> and \<open>abort\<close> of the transport over
  \<open>XMLHttpRequest\<close>, \<open>abort\<close> and \<open>statusCode\<close> of the \<open>jqXHR\<close>, the timeout, and \<open>done\<close>. A step is one of the
  events that the browser or a handler can bring about; the handlers that run inside \<open>done\<close> are steps
  between it and the step \<open>Finish\<close>, which is the end of \<open>done\<close>.
\<close>

section \<open>State\<close>

text \<open>The options of a request that the code below looks at; \<open>as_timeout\<close>: asynchronous, with a timeout.\<close>

record ajax_settings =
  as_type :: string
  as_dataTypes :: "string list"
  as_mimeType :: "string option"
  as_global :: bool
  as_timeout :: bool

datatype 'r ajax_outcome = ResolvedWith 'r string | RejectedWith string string

text \<open>
  The variables of a call of \<open>jQuery.ajax\<close>, its \<open>jqXHR\<close> and its deferred: \<open>rq_transport\<close> and
  \<open>rq_callback\<close> say whether \<open>transport\<close> and the \<open>callback\<close> of the transport are set, \<open>rq_sent\<close> that the
  call has come to \<open>transport.send\<close> or to its end, and \<open>rq_finishing\<close> counts the calls of \<open>done\<close> that have not
  ended. Callbacks for status codes are numbers.
\<close>

record 'r request =
  rq_settings :: ajax_settings
  rq_state :: nat
  rq_transport :: bool
  rq_callback :: bool
  rq_timer :: bool
  rq_sent :: bool
  rq_strAbort :: string
  rq_headersString :: string
  rq_readyState :: nat
  rq_status :: int
  rq_statusText :: string
  rq_responses :: "(string \<times> 'r) list"
  rq_statusCode :: "(int \<times> nat) list"
  rq_outcome :: "'r ajax_outcome option"
  rq_finishing :: nat

text \<open>What the page can observe.\<close>

datatype 'r ajax_effect =
    AjaxStart
  | AjaxStop
  | GlobalEvent string nat
  | Settled nat "'r ajax_outcome"
  | StatusCallbacks nat "nat list"
  | Completed nat string
  | XhrSend nat
  | XhrAbort nat

record 'r ajax_page =
  ap_active :: int
  ap_requests :: "'r request list"
  ap_log :: "'r ajax_effect list"

definition no_requests :: "'r ajax_page" where
  "no_requests = \<lparr>ap_active = 0, ap_requests = [], ap_log = []\<rparr>"

definition log_effects :: "'r ajax_effect list \<Rightarrow> 'r ajax_page \<Rightarrow> 'r ajax_page" where
  "log_effects es p = p\<lparr>ap_log := ap_log p @ es\<rparr>"

definition set_request :: "nat \<Rightarrow> 'r request \<Rightarrow> 'r ajax_page \<Rightarrow> 'r ajax_page" where
  "set_request i rq p = p\<lparr>ap_requests := (ap_requests p)[i := rq]\<rparr>"

section \<open>Settling\<close>

definition success_status :: "int \<Rightarrow> bool" where
  "success_status status \<longleftrightarrow> (200 \<le> status \<and> status < 300) \<or> status = 304"

text \<open>\<open>getResponseHeader\<close> of the \<open>jqXHR\<close>: nothing before the end.\<close>

definition getResponseHeader :: "'r request \<Rightarrow> string \<Rightarrow> string option" where
  "getResponseHeader rq key =
     (if rq_state rq = 2 then response_header (rq_headersString rq) key else None)"

definition mime_type :: "'r request \<Rightarrow> string option" where
  "mime_type rq =
     (case as_mimeType (rq_settings rq) of
        Some m \<Rightarrow> (if m = '''' then getResponseHeader rq ''Content-Type'' else Some m)
      | None \<Rightarrow> getResponseHeader rq ''Content-Type'')"

text \<open>The response as \<open>done\<close> reads and converts it; \<open>undef\<close> is undefined.\<close>

definition convert_response ::
  "'r converters \<Rightarrow> 'r \<Rightarrow> (string \<times> 'r) list option \<Rightarrow> 'r request \<Rightarrow> (string + 'r) \<times> (string \<times> 'r) list" where
  "convert_response converters undef responses rq =
     (let (ts, r) = (case responses of
                       None \<Rightarrow> (as_dataTypes (rq_settings rq), None)
                     | Some rs \<Rightarrow> ajaxHandleResponses converters (mime_type rq) (as_dataTypes (rq_settings rq)) rs)
      in ajaxConvert converters (head_type ts) (tl ts) (case r of None \<Rightarrow> undef | Some v \<Rightarrow> v) (rq_responses rq))"

definition outcome_of :: "'r \<Rightarrow> string \<Rightarrow> int \<Rightarrow> string \<Rightarrow> string + 'r \<Rightarrow> 'r ajax_outcome" where
  "outcome_of undef type status native converted =
     (if success_status status
      then (if status = 204 \<or> type = ''HEAD'' then ResolvedWith undef ''nocontent''
            else if status = 304 then ResolvedWith undef ''notmodified''
            else (case converted of
                    Inr v \<Rightarrow> ResolvedWith v ''success''
                  | Inl e \<Rightarrow> RejectedWith ''parsererror'' e))
      else RejectedWith (if status \<noteq> 0 \<or> native = '''' then ''error'' else native) native)"

fun outcome_text :: "'r ajax_outcome \<Rightarrow> string" where
  "outcome_text (ResolvedWith v t) = t"
| "outcome_text (RejectedWith t e) = t"

fun resolved :: "'r ajax_outcome \<Rightarrow> bool" where
  "resolved (ResolvedWith v t) = True"
| "resolved (RejectedWith t e) = False"

text \<open>The request when \<open>done\<close> has run its callbacks; the deferred keeps its first outcome.\<close>

definition done_request ::
  "'r converters \<Rightarrow> 'r \<Rightarrow> int \<Rightarrow> string \<Rightarrow> (string \<times> 'r) list option \<Rightarrow> string \<Rightarrow> 'r request \<Rightarrow> 'r ajax_outcome \<times> 'r request" where
  "done_request converters undef status native responses headers rq =
     (let rq = rq\<lparr>rq_state := 2, rq_timer := False, rq_transport := False, rq_headersString := headers,
                  rq_readyState := (if 0 < status then 4 else 0)\<rparr>;
          (converted, fs) = convert_response converters undef responses rq;
          out = outcome_of undef (as_type (rq_settings rq)) status native converted
      in (out,
          rq\<lparr>rq_responses := fs,
             rq_status := (if \<not> success_status status \<and> status < 0 then 0 else status),
             rq_statusText := (if native = '''' then outcome_text out else native),
             rq_outcome := (case rq_outcome rq of None \<Rightarrow> Some out | Some first \<Rightarrow> Some first),
             rq_statusCode := [],
             rq_finishing := rq_finishing rq + 1\<rparr>))"

definition status_callbacks :: "int \<Rightarrow> (int \<times> nat) list \<Rightarrow> nat list" where
  "status_callbacks status codes = map snd (filter (\<lambda>(c, h). c = status) codes)"

text \<open>What \<open>done\<close> does to the page, up to the counter of active requests.\<close>

definition done_effects :: "nat \<Rightarrow> 'r request \<Rightarrow> 'r ajax_outcome \<Rightarrow> int \<Rightarrow> 'r ajax_effect list" where
  "done_effects i rq out status =
     (if rq_outcome rq = None then [Settled i out] else [])
     @ (if rq_statusCode rq = [] then [] else [StatusCallbacks i (status_callbacks status (rq_statusCode rq))])
     @ (if as_global (rq_settings rq) then [GlobalEvent (if resolved out then ''ajaxSuccess'' else ''ajaxError'') i] else [])
     @ (if rq_outcome rq = None then [Completed i (outcome_text out)] else [])
     @ (if as_global (rq_settings rq) then [GlobalEvent ''ajaxComplete'' i] else [])"

definition ajax_done ::
  "'r converters \<Rightarrow> 'r \<Rightarrow> nat \<Rightarrow> int \<Rightarrow> string \<Rightarrow> (string \<times> 'r) list option \<Rightarrow> string \<Rightarrow> 'r ajax_page \<Rightarrow> 'r ajax_page" where
  "ajax_done converters undef i status native responses headers p =
     (let rq = ap_requests p ! i
      in if rq_state rq = 2 then p
         else
           (let (out, rq') = done_request converters undef status native responses headers rq
            in log_effects (done_effects i rq out (rq_status rq')) (set_request i rq' p)))"

section \<open>Steps\<close>

datatype ajax_event =
    Open ajax_settings "(int \<times> nat) list" bool bool   \<comment> \<open>a call of \<open>jQuery.ajax\<close>; does \<open>beforeSend\<close> let it go on, is there a transport\<close>
  | Send nat "(bool \<times> string) option"                  \<comment> \<open>does \<open>send\<close> raise an exception, after setting its callback\<close>
  | Loaded nat int string "string option" string        \<comment> \<open>status, its text, \<open>responseText\<close> and the headers\<close>
  | Failed nat int string
  | Abort nat string
  | TimedOut nat
  | AddStatusCode nat "(int \<times> nat) list"
  | Finish nat

definition new_request :: "ajax_settings \<Rightarrow> (int \<times> nat) list \<Rightarrow> 'r request" where
  "new_request s codes =
     \<lparr>rq_settings = s, rq_state = 0, rq_transport = False, rq_callback = False, rq_timer = False,
      rq_sent = False, rq_strAbort = ''canceled'', rq_headersString = '''', rq_readyState = 0, rq_status = 0,
      rq_statusText = '''', rq_responses = [], rq_statusCode = codes, rq_outcome = None, rq_finishing = 0\<rparr>"

definition open_request ::
  "'r converters \<Rightarrow> 'r \<Rightarrow> ajax_settings \<Rightarrow> (int \<times> nat) list \<Rightarrow> bool \<Rightarrow> bool \<Rightarrow> 'r ajax_page \<Rightarrow> 'r ajax_page" where
  "open_request converters undef s codes proceed available p =
     (let i = length (ap_requests p);
          started = (as_global s \<and> ap_active p = 0);
          p = p\<lparr>ap_active := ap_active p + (if as_global s then 1 else 0)\<rparr>;
          p = log_effects (if started then [AjaxStart] else []) p;
          rq = new_request s codes
      in if \<not> proceed
         then ajax_done converters undef i 0 (rq_strAbort rq) None ''''
                (p\<lparr>ap_requests := ap_requests p @ [rq\<lparr>rq_sent := True\<rparr>]\<rparr>)
         else
           (let rq = rq\<lparr>rq_strAbort := ''abort''\<rparr>
            in if \<not> available
               then ajax_done converters undef i (- 1) ''No Transport'' None ''''
                      (p\<lparr>ap_requests := ap_requests p @ [rq\<lparr>rq_sent := True\<rparr>]\<rparr>)
               else log_effects (if as_global s then [GlobalEvent ''ajaxSend'' i] else [])
                      (p\<lparr>ap_requests := ap_requests p @ [rq\<lparr>rq_transport := True, rq_readyState := 1\<rparr>]\<rparr>)))"

text \<open>
  \<open>state = 1; transport.send(...)\<close>: when \<open>transport\<close> is no longer set, this is a \<open>TypeError\<close>, and the \<open>catch\<close>
  ends the request.
\<close>

definition type_error :: string where
  "type_error = ''TypeError: Cannot read property 'send' of undefined''"

definition request_send ::
  "'r converters \<Rightarrow> 'r \<Rightarrow> nat \<Rightarrow> (bool \<times> string) option \<Rightarrow> 'r ajax_page \<Rightarrow> 'r ajax_page" where
  "request_send converters undef i raised p =
     (let rq = ap_requests p ! i;
          rq1 = rq\<lparr>rq_sent := True, rq_timer := as_timeout (rq_settings rq), rq_state := 1\<rparr>
      in if \<not> rq_transport rq
         then ajax_done converters undef i (- 1) type_error None '''' (set_request i rq1 p)
         else
           (case raised of
              None \<Rightarrow> log_effects [XhrSend i] (set_request i (rq1\<lparr>rq_callback := True\<rparr>) p)
            | Some (late, e) \<Rightarrow>
                ajax_done converters undef i (- 1) e None '''' (set_request i (rq1\<lparr>rq_callback := late\<rparr>) p)))"

text \<open>\<open>xhrSuccessStatus\<close>.\<close>

definition xhr_status :: "int \<Rightarrow> int" where
  "xhr_status status = (if status = 0 then 200 else if status = 1223 then 204 else status)"

text \<open>The callback of the transport: it runs once.\<close>

definition transport_callback :: "nat \<Rightarrow> ('r ajax_page \<Rightarrow> 'r ajax_page) \<Rightarrow> 'r ajax_page \<Rightarrow> 'r ajax_page" where
  "transport_callback i f p =
     (let rq = ap_requests p ! i
      in if rq_callback rq then f (set_request i (rq\<lparr>rq_callback := False\<rparr>) p) else p)"

definition abort_request ::
  "'r converters \<Rightarrow> 'r \<Rightarrow> nat \<Rightarrow> string \<Rightarrow> 'r ajax_page \<Rightarrow> 'r ajax_page" where
  "abort_request converters undef i text p =
     (let final = (if text = '''' then rq_strAbort (ap_requests p ! i) else text);
          p = (if rq_transport (ap_requests p ! i) then transport_callback i (log_effects [XhrAbort i]) p else p)
      in ajax_done converters undef i 0 final None '''' p)"

definition add_statusCode :: "nat \<Rightarrow> (int \<times> nat) list \<Rightarrow> 'r ajax_page \<Rightarrow> 'r ajax_page" where
  "add_statusCode i codes p =
     (let rq = ap_requests p ! i
      in if rq_state rq < 2 then set_request i (rq\<lparr>rq_statusCode := rq_statusCode rq @ codes\<rparr>) p
         else log_effects [StatusCallbacks i (status_callbacks (rq_status rq) codes)] p)"

text \<open>The end of \<open>done\<close>: the counter.\<close>

definition finish_request :: "nat \<Rightarrow> 'r ajax_page \<Rightarrow> 'r ajax_page" where
  "finish_request i p =
     (let rq = ap_requests p ! i; p = set_request i (rq\<lparr>rq_finishing := rq_finishing rq - 1\<rparr>) p
      in if \<not> as_global (rq_settings rq) then p
         else log_effects (if ap_active p - 1 = 0 then [AjaxStop] else []) (p\<lparr>ap_active := ap_active p - 1\<rparr>))"

text \<open>A step; an event that cannot happen changes nothing.\<close>

definition known :: "nat \<Rightarrow> 'r ajax_page \<Rightarrow> bool" where
  "known i p \<longleftrightarrow> i < length (ap_requests p)"

fun ajax_step ::
  "'r converters \<Rightarrow> 'r \<Rightarrow> (string \<Rightarrow> 'r) \<Rightarrow> ajax_event \<Rightarrow> 'r ajax_page \<Rightarrow> 'r ajax_page" where
  "ajax_step converters undef text (Open s codes proceed available) p =
     open_request converters undef s codes proceed available p"
| "ajax_step converters undef text (Send i raised) p =
     (if known i p \<and> \<not> rq_sent (ap_requests p ! i) then request_send converters undef i raised p else p)"
| "ajax_step converters undef text (Loaded i status statusText body headers) p =
     (if known i p
      then transport_callback i
             (ajax_done converters undef i (xhr_status status) statusText
                (map_option (\<lambda>b. [(''text'', text b)]) body) headers) p
      else p)"
| "ajax_step converters undef text (Failed i status statusText) p =
     (if known i p then transport_callback i (ajax_done converters undef i status statusText None '''') p else p)"
| "ajax_step converters undef text (Abort i t) p =
     (if known i p then abort_request converters undef i t p else p)"
| "ajax_step converters undef text (TimedOut i) p =
     (if known i p \<and> rq_timer (ap_requests p ! i) then abort_request converters undef i ''timeout'' p else p)"
| "ajax_step converters undef text (AddStatusCode i codes) p =
     (if known i p then add_statusCode i codes p else p)"
| "ajax_step converters undef text (Finish i) p =
     (if known i p \<and> 0 < rq_finishing (ap_requests p ! i) then finish_request i p else p)"

definition ajax_run ::
  "'r converters \<Rightarrow> 'r \<Rightarrow> (string \<Rightarrow> 'r) \<Rightarrow> ajax_event list \<Rightarrow> 'r ajax_page \<Rightarrow> 'r ajax_page" where
  "ajax_run converters undef text evs p = fold (ajax_step converters undef text) evs p"

end
