(* ===== verification/Ajax_Props.thy ===== *)
theory Ajax_Props
  imports Jquery_Request Span_Store
begin

text \<open>
  What holds of the requests of a page (\<open>Jquery_Request\<close>) in every run: a request is settled once and its
  outcome stays; the counter \<open>jQuery.active\<close> counts the requests that are under way, unless a handler of
  \<open>ajaxSend\<close> aborts one; and the requests of \<open>span.js\<close> end as \<open>ajax_success\<close> of \<open>Span_Store\<close> says.
\<close>

section \<open>A request is settled once\<close>

fun settled :: "nat \<Rightarrow> 'r ajax_effect list \<Rightarrow> 'r ajax_outcome list" where
  "settled i [] = []"
| "settled i (Settled j out # es) = (if j = i then out # settled i es else settled i es)"
| "settled i (e # es) = settled i es"

lemma settled_append [simp]: "settled i (es @ fs) = settled i es @ settled i fs"
  by (induction i es rule: settled.induct) simp_all

fun option_list :: "'a option \<Rightarrow> 'a list" where
  "option_list None = []"
| "option_list (Some x) = [x]"

text \<open>A request between two steps.\<close>

definition request_ok :: "'r request \<Rightarrow> bool" where
  "request_ok rq \<longleftrightarrow>
     (rq_state rq = 2 \<longleftrightarrow> rq_outcome rq \<noteq> None)
     \<and> (rq_state rq = 2 \<longrightarrow> \<not> rq_transport rq \<and> \<not> rq_timer rq)
     \<and> (rq_state rq \<noteq> 2 \<longrightarrow> rq_transport rq)
     \<and> (rq_sent rq \<and> rq_state rq \<noteq> 2 \<longrightarrow> rq_callback rq)
     \<and> (\<not> rq_sent rq \<longrightarrow> \<not> rq_timer rq)"

definition outcome_at :: "nat \<Rightarrow> 'r ajax_page \<Rightarrow> 'r ajax_outcome option" where
  "outcome_at i p = (if known i p then rq_outcome (ap_requests p ! i) else None)"

definition log_ok :: "'r ajax_page \<Rightarrow> bool" where
  "log_ok p \<longleftrightarrow> (\<forall>i. settled i (ap_log p) = option_list (outcome_at i p))"

definition requests_ok :: "'r ajax_page \<Rightarrow> bool" where
  "requests_ok p \<longleftrightarrow> list_all request_ok (ap_requests p)"

definition settling :: "'r ajax_page \<Rightarrow> bool" where
  "settling p \<longleftrightarrow> log_ok p \<and> requests_ok p"

lemma nth_updated: "j < length xs \<Longrightarrow> xs[i := x] ! j = (if i = j then x else xs ! j)"
  by (cases "i = j") simp_all

lemma page_fields [simp]:
  "ap_requests (log_effects es p) = ap_requests p" "ap_log (log_effects es p) = ap_log p @ es"
  "ap_active (log_effects es p) = ap_active p"
  "ap_requests (set_request i rq p) = (ap_requests p)[i := rq]" "ap_log (set_request i rq p) = ap_log p"
  "ap_active (set_request i rq p) = ap_active p"
  by (simp_all add: log_effects_def set_request_def)

lemma no_effects [simp]: "log_effects [] p = p"
  by (simp add: log_effects_def)

lemma known_fields [simp]:
  "known i (log_effects es p) = known i p" "known i (set_request j rq p) = known i p"
  by (simp_all add: known_def)

lemma nth_set_request [simp]: "known i p \<Longrightarrow> (ap_requests p)[i := rq] ! i = rq"
  by (simp add: known_def)

lemma outcome_at_log [simp]: "outcome_at i (log_effects es p) = outcome_at i p"
  by (simp add: outcome_at_def)

lemma outcome_at_set:
  "outcome_at i (set_request j rq p) = (if i = j \<and> known j p then rq_outcome rq else outcome_at i p)"
  by (auto simp: outcome_at_def known_def nth_list_update)

lemma done_request_fields:
  assumes "done_request converters undef status native responses headers rq = (out, rq')"
  shows "rq_state rq' = 2" "\<not> rq_transport rq'" "\<not> rq_timer rq'" "rq_sent rq' = rq_sent rq"
    "rq_settings rq' = rq_settings rq" "rq_finishing rq' = rq_finishing rq + 1" "rq_callback rq' = rq_callback rq"
    "rq_outcome rq' = (case rq_outcome rq of None \<Rightarrow> Some out | Some first \<Rightarrow> Some first)"
  using assms by (auto simp: done_request_def Let_def split: prod.splits option.splits)

lemma settled_done_effects: "settled j (done_effects i rq out status) = (if j = i \<and> rq_outcome rq = None then [out] else [])"
  by (simp add: done_effects_def)

lemma done_log_ok:
  assumes "log_ok p" "known i p"
  shows "log_ok (ajax_done converters undef i status native responses headers p)"
proof (cases "rq_state (ap_requests p ! i) = 2")
  case True
  then show ?thesis using assms by (simp add: ajax_done_def Let_def)
next
  case False
  obtain out rq' where r: "done_request converters undef status native responses headers (ap_requests p ! i) = (out, rq')"
    by fastforce
  have "option_list (rq_outcome rq') = option_list (rq_outcome (ap_requests p ! i))
      @ (if rq_outcome (ap_requests p ! i) = None then [out] else [])"
    unfolding done_request_fields(8) [OF r] by (simp split: option.split)
  then have "settled j (ap_log p @ done_effects i (ap_requests p ! i) out (rq_status rq')) =
      option_list (outcome_at j (set_request i rq' p))" for j
    using assms by (cases "j = i") (simp_all add: outcome_at_set settled_done_effects log_ok_def, simp add: outcome_at_def)
  then show ?thesis using False by (simp add: ajax_done_def Let_def r log_ok_def)
qed

lemma done_requests_ok:
  assumes "\<forall>j < length (ap_requests p). j \<noteq> i \<longrightarrow> request_ok (ap_requests p ! j)"
    and "rq_state (ap_requests p ! i) = 2 \<Longrightarrow> request_ok (ap_requests p ! i)"
  shows "requests_ok (ajax_done converters undef i status native responses headers p)"
proof (cases "rq_state (ap_requests p ! i) = 2")
  case True
  then have "\<forall>j < length (ap_requests p). request_ok (ap_requests p ! j)" using assms by blast
  with True show ?thesis by (simp add: ajax_done_def Let_def requests_ok_def list_all_length)
next
  case False
  obtain out rq' where r: "done_request converters undef status native responses headers (ap_requests p ! i) = (out, rq')"
    by fastforce
  have "request_ok rq'" using done_request_fields [OF r] by (simp add: request_ok_def split: option.splits)
  with False show ?thesis using assms(1)
    by (simp add: ajax_done_def Let_def r requests_ok_def list_all_length nth_updated)
qed

lemma done_settling:
  assumes "settling p" "known i p"
  shows "settling (ajax_done converters undef i status native responses headers p)"
  unfolding settling_def
proof
  show "log_ok (ajax_done converters undef i status native responses headers p)"
    using assms by (intro done_log_ok) (simp_all add: settling_def)
  show "requests_ok (ajax_done converters undef i status native responses headers p)"
    using assms by (intro done_requests_ok) (simp_all add: settling_def requests_ok_def list_all_length known_def)
qed

lemma set_request_settling:
  assumes "log_ok p" "rq_outcome rq = outcome_at i p"
  shows "log_ok (set_request i rq p)"
  using assms by (auto simp: log_ok_def outcome_at_set)

lemma requests_ok_set: "requests_ok p \<Longrightarrow> request_ok rq \<Longrightarrow> requests_ok (set_request i rq p)"
  by (simp add: requests_ok_def list_all_length nth_updated)

lemma requests_ok_log [simp]: "requests_ok (log_effects es p) = requests_ok p"
  by (simp add: requests_ok_def)

lemma requests_ok_nth: "requests_ok p \<Longrightarrow> known i p \<Longrightarrow> request_ok (ap_requests p ! i)"
  by (simp add: requests_ok_def list_all_length known_def)

text \<open>Each step.\<close>

lemma append_log_ok:
  assumes "log_ok p" "rq_outcome rq = None"
  shows "log_ok (p\<lparr>ap_requests := ap_requests p @ [rq]\<rparr>)"
  using assms by (auto simp: log_ok_def outcome_at_def known_def nth_append)

lemma log_effects_ok: "log_ok p \<Longrightarrow> (\<And>i. settled i es = []) \<Longrightarrow> log_ok (log_effects es p)"
  by (simp add: log_ok_def)

lemma active_log_ok [simp]: "log_ok (p\<lparr>ap_active := n\<rparr>) = log_ok p"
  by (simp add: log_ok_def outcome_at_def known_def)

lemma open_settling:
  assumes "settling p"
  shows "settling (open_request converters undef s codes proceed available p)"
proof -
  define p1 where "p1 = log_effects (if as_global s \<and> ap_active p = 0 then [AjaxStart] else [])
    (p\<lparr>ap_active := ap_active p + (if as_global s then 1 else 0)\<rparr>)"
  have l1: "log_ok p1" using assms unfolding p1_def settling_def by (auto intro!: log_effects_ok)
  have r1: "ap_requests p1 = ap_requests p" by (simp add: p1_def)
  let ?add = "\<lambda>rq. p1\<lparr>ap_requests := ap_requests p1 @ [rq]\<rparr>"
  have dn: "settling (ajax_done converters undef (length (ap_requests p)) status native None '''' (?add rq))"
    if "rq_outcome rq = None" "rq_state rq \<noteq> 2" for status native rq
    unfolding settling_def
  proof
    show "log_ok (ajax_done converters undef (length (ap_requests p)) status native None '''' (?add rq))"
      by (intro done_log_ok append_log_ok l1 that) (simp add: known_def r1)
    show "requests_ok (ajax_done converters undef (length (ap_requests p)) status native None '''' (?add rq))"
      using assms by (intro done_requests_ok) (auto simp: r1 nth_append that settling_def requests_ok_def list_all_length)
  qed
  have "settling (log_effects es (?add rq))" if "request_ok rq" "rq_outcome rq = None" "\<And>i. settled i es = []" for es rq
    unfolding settling_def
  proof
    show "log_ok (log_effects es (?add rq))" using that by (intro log_effects_ok append_log_ok l1)
    show "requests_ok (log_effects es (?add rq))" using that assms by (simp add: requests_ok_def r1 settling_def)
  qed
  then show ?thesis
    unfolding open_request_def Let_def p1_def [symmetric]
    by (auto simp: new_request_def request_ok_def intro!: dn)
qed

lemma send_settling:
  assumes p: "settling p" and i: "known i p" "\<not> rq_sent (ap_requests p ! i)"
  shows "settling (request_send converters undef i raised p)"
proof -
  let ?rq = "ap_requests p ! i"
  define rq1 where "rq1 = ?rq\<lparr>rq_sent := True, rq_timer := as_timeout (rq_settings ?rq), rq_state := 1\<rparr>"
  have rq: "request_ok ?rq" using p i requests_ok_nth by (auto simp: settling_def)
  have dn: "settling (ajax_done converters undef i status native None '''' (set_request i rq2 p))"
    if "rq_outcome rq2 = rq_outcome ?rq" "rq_state rq2 \<noteq> 2" for status native rq2
    unfolding settling_def
  proof
    show "log_ok (ajax_done converters undef i status native None '''' (set_request i rq2 p))"
      using p i that by (intro done_log_ok set_request_settling) (auto simp: settling_def outcome_at_def)
    show "requests_ok (ajax_done converters undef i status native None '''' (set_request i rq2 p))"
      using p i that by (intro done_requests_ok) (auto simp: settling_def requests_ok_def list_all_length known_def)
  qed
  have "settling (log_effects [XhrSend i] (set_request i (rq1\<lparr>rq_callback := True\<rparr>) p))" if "rq_transport ?rq"
  proof -
    have "log_ok (set_request i (rq1\<lparr>rq_callback := True\<rparr>) p)"
      using p i by (intro set_request_settling) (auto simp: settling_def rq1_def outcome_at_def)
    moreover have "request_ok (rq1\<lparr>rq_callback := True\<rparr>)"
      using rq that by (auto simp: rq1_def request_ok_def)
    ultimately show ?thesis using p by (simp add: settling_def requests_ok_set log_effects_ok)
  qed
  then show ?thesis
    unfolding request_send_def Let_def rq1_def [symmetric]
    by (auto intro!: dn split: option.split simp: rq1_def)
qed

lemma update_settling:
  assumes "settling p" "known i p" "rq_outcome rq = rq_outcome (ap_requests p ! i)" "request_ok rq"
  shows "settling (set_request i rq p)"
  using assms by (simp add: settling_def set_request_settling requests_ok_set outcome_at_def)

text \<open>
  The callback of the transport is taken away before the request is settled: between the two, the request
  is the only one that need not be in order.
\<close>

lemma done_after:
  assumes p: "settling p" "known i p" and rq: "rq_outcome rq = rq_outcome (ap_requests p ! i)"
    "rq_state rq = rq_state (ap_requests p ! i)" "rq_state rq = 2 \<Longrightarrow> request_ok rq"
    and es: "\<And>j. settled j es = []"
  shows "settling (ajax_done converters undef i status native responses headers (log_effects es (set_request i rq p)))"
  unfolding settling_def
proof
  have "log_ok (set_request i rq p)" using p rq(1) by (simp add: settling_def set_request_settling outcome_at_def)
  then show "log_ok (ajax_done converters undef i status native responses headers (log_effects es (set_request i rq p)))"
    using p(2) es by (intro done_log_ok log_effects_ok) simp_all
  show "requests_ok (ajax_done converters undef i status native responses headers (log_effects es (set_request i rq p)))"
    using p rq by (intro done_requests_ok) (simp_all add: settling_def requests_ok_def list_all_length known_def nth_updated)
qed

lemma callback_settling:
  assumes p: "settling p" "known i p"
  shows "settling (transport_callback i (ajax_done converters undef i status native responses headers) p)"
proof -
  let ?rq = "ap_requests p ! i"
  have "settling (ajax_done converters undef i status native responses headers
      (log_effects [] (set_request i (?rq\<lparr>rq_callback := False\<rparr>) p)))"
    using p requests_ok_nth [of p i] by (intro done_after) (auto simp: settling_def request_ok_def)
  then show ?thesis using p by (simp add: transport_callback_def Let_def)
qed

lemma abort_settling:
  assumes p: "settling p" "known i p"
  shows "settling (abort_request converters undef i t p)"
proof -
  let ?rq = "ap_requests p ! i"
  have "settling (ajax_done converters undef i 0 native None ''''
      (log_effects [XhrAbort i] (set_request i (?rq\<lparr>rq_callback := False\<rparr>) p)))" for native
    using p requests_ok_nth [of p i] by (intro done_after) (auto simp: settling_def request_ok_def)
  then show ?thesis using p
    by (simp add: abort_request_def transport_callback_def Let_def done_settling)
qed

lemma statusCode_settling:
  assumes p: "settling p" "known i p"
  shows "settling (add_statusCode i codes p)"
proof -
  let ?rq = "ap_requests p ! i"
  have "settling (set_request i (?rq\<lparr>rq_statusCode := rq_statusCode ?rq @ codes\<rparr>) p)"
    using p requests_ok_nth [of p i] by (intro update_settling) (auto simp: settling_def request_ok_def)
  then show ?thesis using p by (simp add: add_statusCode_def Let_def settling_def log_effects_ok)
qed

lemma finish_settling:
  assumes p: "settling p" "known i p"
  shows "settling (finish_request i p)"
proof -
  let ?p = "set_request i ((ap_requests p ! i)\<lparr>rq_finishing := rq_finishing (ap_requests p ! i) - 1\<rparr>) p"
  have s: "settling ?p"
    using p requests_ok_nth [of p i] by (intro update_settling) (auto simp: settling_def request_ok_def)
  then have "log_ok (log_effects es (?p\<lparr>ap_active := n\<rparr>))" if "\<And>j. settled j es = []" for es n
    using that by (intro log_effects_ok) (simp_all add: settling_def)
  with s show ?thesis by (simp add: finish_request_def Let_def settling_def requests_ok_def)
qed

lemma step_settling:
  assumes "settling p"
  shows "settling (ajax_step converters undef text e p)"
  using assms by (cases e) (simp_all add: open_settling send_settling callback_settling abort_settling statusCode_settling finish_settling)

interpretation requests: event_machine "ajax_step converters undef rd" settling "\<lambda>e p. True" for converters undef rd
  by unfold_locales (rule step_settling)

lemma settling_none: "settling no_requests"
  by (simp add: settling_def log_ok_def requests_ok_def no_requests_def outcome_at_def known_def)

lemma settling_run: "settling (ajax_run converters undef text evs no_requests)"
  unfolding ajax_run_def by (rule requests.inv_run [OF settling_none]) simp

section \<open>Outcomes stay\<close>

lemma done_log_grows: "prefix l (ap_log p) \<Longrightarrow> prefix l (ap_log (ajax_done converters undef i status native responses headers p))"
  by (auto simp: ajax_done_def Let_def split: prod.splits)

lemma step_log_grows: "prefix (ap_log p) (ap_log (ajax_step converters undef rd e p))"
  by (cases e)
     (auto simp: open_request_def request_send_def transport_callback_def abort_request_def add_statusCode_def
       finish_request_def Let_def split: option.split intro!: done_log_grows)

lemma run_log_grows: "prefix (ap_log p) (ap_log (ajax_run converters undef rd evs p))"
  unfolding ajax_run_def
  by (induction evs arbitrary: p) (auto intro: prefix_order.trans step_log_grows)

lemma run_append: "ajax_run converters undef rd (evs @ es) p = ajax_run converters undef rd es (ajax_run converters undef rd evs p)"
  by (simp add: ajax_run_def)

lemma settledD: "settling p \<Longrightarrow> settled i (ap_log p) = option_list (outcome_at i p)"
  by (simp add: settling_def log_ok_def)

lemma outcome_stays:
  assumes "settling p" "outcome_at i p = Some out"
  shows "outcome_at i (ajax_run converters undef rd evs p) = Some out"
proof -
  let ?q = "ajax_run converters undef rd evs p"
  have "settling ?q" unfolding ajax_run_def by (rule requests.inv_run [OF assms(1)]) simp
  moreover obtain es where "ap_log ?q = ap_log p @ es"
    using run_log_grows [of p converters undef rd evs] by (auto simp: prefix_def)
  ultimately have "option_list (outcome_at i ?q) = out # settled i es"
    using settledD [of ?q i] settledD [OF assms(1), of i] assms(2) by simp
  then show ?thesis by (cases "outcome_at i ?q") simp_all
qed

text \<open>The events that end a request that has been sent.\<close>

fun ends :: "nat \<Rightarrow> ajax_event \<Rightarrow> bool" where
  "ends i (Loaded j status statusText body headers) = (i = j)"
| "ends i (Failed j status statusText) = (i = j)"
| "ends i (Abort j t) = (i = j)"
| "ends i e = False"

lemma done_settles:
  assumes "known i p" "rq_state (ap_requests p ! i) = 2 \<Longrightarrow> outcome_at i p \<noteq> None"
  shows "outcome_at i (ajax_done converters undef i status native responses headers p) \<noteq> None"
  using assms
  by (auto simp: ajax_done_def Let_def outcome_at_set done_request_fields(8) split: prod.split option.splits)

lemma ended:
  assumes p: "settling p" "known i p" and s: "rq_sent (ap_requests p ! i)" "ends i e"
  shows "outcome_at i (ajax_step converters undef rd e p) \<noteq> None"
proof (cases "outcome_at i p")
  case (Some out)
  then show ?thesis using outcome_stays [OF p(1), of i out converters undef rd "[e]"] by (simp add: ajax_run_def)
next
  case None
  have "request_ok (ap_requests p ! i)" using p requests_ok_nth by (auto simp: settling_def)
  then have ok: "rq_state (ap_requests p ! i) \<noteq> 2" "rq_callback (ap_requests p ! i)" "rq_transport (ap_requests p ! i)"
    using None s p by (auto simp: request_ok_def outcome_at_def)
  have "outcome_at i (ajax_done converters undef i status native responses headers (log_effects es
      (set_request i ((ap_requests p ! i)\<lparr>rq_callback := False\<rparr>) p))) \<noteq> None" for status native responses headers es
    using p ok by (intro done_settles) simp_all
  from this [of _ _ _ _ "[]"] this [of _ _ _ _ "[XhrAbort i]"] show ?thesis
    using s ok p by (cases e) (simp_all add: transport_callback_def abort_request_def)
qed

section \<open>The counter of active requests\<close>

definition under_way :: "'r request \<Rightarrow> int" where
  "under_way rq = (if as_global (rq_settings rq) then (if rq_state rq = 2 then 0 else 1) + int (rq_finishing rq) else 0)"

definition requests_under_way :: "'r ajax_page \<Rightarrow> int" where
  "requests_under_way p = sum_list (map under_way (ap_requests p))"

fun balance :: "'r ajax_effect list \<Rightarrow> int" where
  "balance [] = 0"
| "balance (AjaxStart # es) = 1 + balance es"
| "balance (AjaxStop # es) = balance es - 1"
| "balance (e # es) = balance es"

lemma balance_append [simp]: "balance (es @ fs) = balance es + balance fs"
  by (induction es rule: balance.induct) simp_all

definition unsent_ok :: "'r request \<Rightarrow> bool" where
  "unsent_ok rq \<longleftrightarrow> rq_sent rq \<or> (rq_state rq \<noteq> 2 \<and> rq_transport rq \<and> \<not> rq_callback rq \<and> \<not> rq_timer rq)"

definition counted :: "'r ajax_page \<Rightarrow> bool" where
  "counted p \<longleftrightarrow>
     ap_active p = requests_under_way p \<and> balance (ap_log p) = (if 0 < ap_active p then 1 else 0)
     \<and> list_all unsent_ok (ap_requests p)"

text \<open>The event that a handler of \<open>ajaxSend\<close> aborts the request.\<close>

fun not_too_early :: "ajax_event \<Rightarrow> 'r ajax_page \<Rightarrow> bool" where
  "not_too_early (Abort i t) p = (known i p \<longrightarrow> rq_sent (ap_requests p ! i))"
| "not_too_early e p = True"

lemma sum_list_updated:
  fixes f :: "'a \<Rightarrow> int"
  shows "i < length xs \<Longrightarrow> sum_list (map f (xs[i := x])) = sum_list (map f xs) - f (xs ! i) + f x"
  by (induction xs arbitrary: i) (auto split: nat.split)

lemma under_way_nonneg: "0 \<le> under_way rq"
  by (simp add: under_way_def)

lemma requests_under_way_nonneg: "0 \<le> requests_under_way p"
  unfolding requests_under_way_def by (rule sum_list_nonneg) (auto simp: under_way_nonneg)

lemma counted_set:
  assumes "counted p" "known i p" "under_way rq = under_way (ap_requests p ! i)" "unsent_ok rq"
  shows "counted (set_request i rq p)"
  using assms
  by (simp add: counted_def requests_under_way_def sum_list_updated known_def list_all_length nth_updated)

lemma counted_log: "counted p \<Longrightarrow> balance es = 0 \<Longrightarrow> counted (log_effects es p)"
  by (simp add: counted_def requests_under_way_def)

lemma balance_done_effects [simp]: "balance (done_effects i rq out status) = 0"
  by (simp add: done_effects_def)

lemma counted_done:
  assumes "counted p" "known i p" "rq_sent (ap_requests p ! i)"
  shows "counted (ajax_done converters undef i status native responses headers p)"
proof (cases "rq_state (ap_requests p ! i) = 2")
  case True
  then show ?thesis using assms by (simp add: ajax_done_def Let_def)
next
  case False
  obtain out rq' where r: "done_request converters undef status native responses headers (ap_requests p ! i) = (out, rq')"
    by fastforce
  have "counted (set_request i rq' p)"
    using assms False done_request_fields [OF r] by (intro counted_set) (simp_all add: under_way_def unsent_ok_def)
  with False show ?thesis by (simp add: ajax_done_def Let_def r counted_log)
qed

lemma counted_nth: "counted p \<Longrightarrow> known i p \<Longrightarrow> unsent_ok (ap_requests p ! i)"
  by (simp add: counted_def list_all_length known_def)

lemma counted_after:
  assumes p: "counted p" "known i p" and rq: "rq_sent rq" "under_way rq = under_way (ap_requests p ! i)" and "balance es = 0"
  shows "counted (ajax_done converters undef i status native responses headers (log_effects es (set_request i rq p)))"
  using p rq assms(5) by (intro counted_done counted_log counted_set) (simp_all add: unsent_ok_def)

lemma counted_open:
  assumes "counted p"
  shows "counted (open_request converters undef s codes proceed available p)"
proof -
  define p1 where "p1 = log_effects (if as_global s \<and> ap_active p = 0 then [AjaxStart] else [])
    (p\<lparr>ap_active := ap_active p + (if as_global s then 1 else 0)\<rparr>)"
  let ?add = "\<lambda>rq. p1\<lparr>ap_requests := ap_requests p1 @ [rq]\<rparr>"
  have add: "counted (?add rq)" if "rq_settings rq = s" "rq_state rq \<noteq> 2" "rq_finishing rq = 0" "unsent_ok rq" for rq
    using assms that requests_under_way_nonneg [of p]
    by (auto simp: counted_def p1_def requests_under_way_def under_way_def)
  then have dn: "counted (ajax_done converters undef (length (ap_requests p)) status native None '''' (?add rq))"
    if "rq_settings rq = s" "rq_state rq \<noteq> 2" "rq_finishing rq = 0" "rq_sent rq" for rq status native
    using that by (intro counted_done add) (simp_all add: unsent_ok_def known_def p1_def)
  show ?thesis
    unfolding open_request_def Let_def p1_def [symmetric]
    by (auto simp: new_request_def unsent_ok_def intro!: dn add counted_log)
qed

lemma counted_send:
  assumes p: "counted p" "known i p" "\<not> rq_sent (ap_requests p ! i)"
  shows "counted (request_send converters undef i raised p)"
proof -
  let ?rq = "ap_requests p ! i"
  define rq1 where "rq1 = ?rq\<lparr>rq_sent := True, rq_timer := as_timeout (rq_settings ?rq), rq_state := 1\<rparr>"
  have tr: "rq_transport ?rq" "rq_state ?rq \<noteq> 2" using counted_nth [OF p(1,2)] p(3) by (simp_all add: unsent_ok_def)
  have "counted (ajax_done converters undef i status native None '''' (log_effects [] (set_request i (rq1\<lparr>rq_callback := b\<rparr>) p)))"
    for status native b
    using p tr by (intro counted_after) (simp_all add: rq1_def under_way_def)
  moreover have "counted (log_effects [XhrSend i] (set_request i (rq1\<lparr>rq_callback := True\<rparr>) p))"
    using p tr by (intro counted_log counted_set) (simp_all add: rq1_def under_way_def unsent_ok_def)
  ultimately show ?thesis
    using tr(1) unfolding request_send_def Let_def rq1_def [symmetric] by (auto split: option.split)
qed

lemma counted_callback:
  assumes p: "counted p" "known i p"
  shows "counted (transport_callback i (ajax_done converters undef i status native responses headers) p)"
proof (cases "rq_callback (ap_requests p ! i)")
  case True
  then have "rq_sent (ap_requests p ! i)" using counted_nth [OF p] by (auto simp: unsent_ok_def)
  then have "counted (ajax_done converters undef i status native responses headers
      (log_effects [] (set_request i ((ap_requests p ! i)\<lparr>rq_callback := False\<rparr>) p)))"
    using p by (intro counted_after) (simp_all add: under_way_def)
  with True show ?thesis by (simp add: transport_callback_def)
qed (simp add: transport_callback_def p)

lemma counted_abort:
  assumes p: "counted p" "known i p" "rq_sent (ap_requests p ! i)"
  shows "counted (abort_request converters undef i t p)"
proof -
  have "counted (ajax_done converters undef i 0 native None ''''
      (log_effects [XhrAbort i] (set_request i ((ap_requests p ! i)\<lparr>rq_callback := False\<rparr>) p)))" for native
    using p by (intro counted_after) (simp_all add: under_way_def)
  then show ?thesis using p by (simp add: abort_request_def transport_callback_def Let_def counted_done)
qed

lemma counted_finish:
  assumes p: "counted p" "known i p" "0 < rq_finishing (ap_requests p ! i)"
  shows "counted (finish_request i p)"
proof -
  let ?rq = "ap_requests p ! i"
  have "under_way ?rq \<le> requests_under_way p"
    unfolding requests_under_way_def using p(2)
    by (intro member_le_sum_list) (auto simp: known_def under_way_nonneg)
  then have "as_global (rq_settings ?rq) \<Longrightarrow> 0 < requests_under_way p"
    using p(3) by (auto simp: under_way_def split: if_splits)
  moreover have "under_way (?rq\<lparr>rq_finishing := rq_finishing ?rq - 1\<rparr>) = under_way ?rq - (if as_global (rq_settings ?rq) then 1 else 0)"
    using p(3) by (simp add: under_way_def of_nat_diff)
  ultimately show ?thesis using p counted_nth [OF p(1,2)]
    by (auto simp: finish_request_def Let_def counted_def requests_under_way_def sum_list_updated known_def
        list_all_length nth_updated unsent_ok_def)
qed

lemma counted_statusCode:
  assumes p: "counted p" "known i p"
  shows "counted (add_statusCode i codes p)"
  using p counted_nth [OF p]
  by (auto simp: add_statusCode_def Let_def under_way_def unsent_ok_def intro!: counted_log counted_set)

lemma step_counted:
  assumes "counted p" "not_too_early e p"
  shows "counted (ajax_step converters undef rd e p)"
proof (cases e)
  case (TimedOut i)
  then show ?thesis using assms counted_nth [OF assms(1), of i]
    by (auto simp: unsent_ok_def intro!: counted_abort)
qed (use assms in \<open>simp_all add: counted_open counted_send counted_callback counted_abort counted_finish counted_statusCode\<close>)

interpretation counter: event_machine "ajax_step converters undef rd" counted not_too_early for converters undef rd
  by unfold_locales (rule step_counted)

lemma counted_none: "counted no_requests"
  by (simp add: counted_def no_requests_def requests_under_way_def)

section \<open>The requests of \<open>span.js\<close>\<close>

text \<open>The answer to a request for JSON: text comes in, and is converted once.\<close>

lemma json_conversion:
  assumes "as_dataTypes (rq_settings rq) = [''json'']"
  shows "fst (convert_response (default_converters to_string parseJSON parseXML globalEval) undef (Some [(''text'', r)]) rq) =
    parseJSON r"
  using assms
  by (cases "parseJSON r")
     (simp_all add: convert_response_def ajaxHandleResponses_def head_type_def final_type_def default_converters_def
       ajaxConvert.simps route_to_def direct_converter_def)

text \<open>The call that \<open>Span_Store\<close> has for a request: what its status and its text are in the end.\<close>

definition call_of :: "('r \<Rightarrow> string + 'r) \<Rightarrow> 'r \<Rightarrow> int \<Rightarrow> string \<Rightarrow> string + wire \<Rightarrow> ajax" where
  "call_of parseJSON r status statusText response =
     \<lparr>aj_status = xhr_status status, aj_statusText = statusText,
      aj_converts = (case parseJSON r of Inl e \<Rightarrow> False | Inr v \<Rightarrow> True), aj_response = response\<rparr>"

lemma loaded_outcome:
  assumes "known i p" "rq_callback (ap_requests p ! i)" "rq_state (ap_requests p ! i) \<noteq> 2"
    "rq_outcome (ap_requests p ! i) = None" "as_dataTypes (rq_settings (ap_requests p ! i)) = [''json'']"
  shows "outcome_at i (ajax_step (default_converters to_string parseJSON parseXML globalEval) undef rd
      (Loaded i status statusText (Some body) headers) p) =
    Some (outcome_of undef (as_type (rq_settings (ap_requests p ! i))) (xhr_status status) statusText (parseJSON (rd body)))"
proof -
  let ?rq = "(ap_requests p ! i)\<lparr>rq_callback := False\<rparr>"
  obtain out rq' where r: "done_request (default_converters to_string parseJSON parseXML globalEval) undef (xhr_status status)
      statusText (Some [(''text'', rd body)]) headers ?rq = (out, rq')"
    by fastforce
  then have "out = outcome_of undef (as_type (rq_settings (ap_requests p ! i))) (xhr_status status) statusText (parseJSON (rd body))"
    using assms(5) by (auto simp: done_request_def Let_def json_conversion dest: arg_cong [of _ _ fst] split: prod.splits)
  then show ?thesis using assms
    by (simp add: transport_callback_def ajax_done_def Let_def r outcome_at_set done_request_fields(8) [OF r])
qed

text \<open>A page with one request, for which \<open>done\<close> has been entered \<open>k\<close> times.\<close>

definition alone :: "int \<Rightarrow> nat \<Rightarrow> 'r ajax_page \<Rightarrow> bool" where
  "alone n k p \<longleftrightarrow>
     ap_active p = n \<and> length (ap_requests p) = 1 \<and> rq_finishing (ap_requests p ! 0) = k
     \<and> as_global (rq_settings (ap_requests p ! 0)) \<and> ap_log p \<noteq> [] \<and> AjaxStart \<notin> set (tl (ap_log p))"

lemma alone_known: "alone n k p \<Longrightarrow> known 0 p"
  by (simp add: alone_def known_def)

lemma alone_set:
  assumes "alone n k p" "rq_settings rq = rq_settings (ap_requests p ! 0)" "rq_finishing rq = k'" "AjaxStart \<notin> set es"
  shows "alone n k' (log_effects es (set_request 0 rq p))"
  using assms by (auto simp: alone_def)

lemma alone_open:
  assumes p_def: "p = ajax_step converters undef rd (Open (s\<lparr>as_global := True\<rparr>) [] True True) no_requests"
  shows "alone 1 0 p" "rq_state (ap_requests p ! 0) \<noteq> 2" "\<not> rq_sent (ap_requests p ! 0)"
  unfolding p_def by (simp_all add: alone_def open_request_def no_requests_def new_request_def)

lemma alone_done:
  assumes a: "alone n k p" and "rq_state (ap_requests p ! 0) \<noteq> 2"
  assumes q_def: "q = ajax_done converters undef 0 status native responses headers p"
  shows "alone n (Suc k) q" "\<not> rq_transport (ap_requests q ! 0)"
    "rq_sent (ap_requests q ! 0) = rq_sent (ap_requests p ! 0)"
proof -
  obtain out rq' where r: "done_request converters undef status native responses headers (ap_requests p ! 0) = (out, rq')"
    by fastforce
  note fs = done_request_fields [OF r]
  have q: "q = log_effects (done_effects 0 (ap_requests p ! 0) out (rq_status rq')) (set_request 0 rq' p)"
    using assms(2) by (simp add: q_def ajax_done_def Let_def r)
  show "alone n (Suc k) q" unfolding q by (rule alone_set [OF a]) (use a fs in \<open>auto simp: alone_def done_effects_def\<close>)
  show "\<not> rq_transport (ap_requests q ! 0)" "rq_sent (ap_requests q ! 0) = rq_sent (ap_requests p ! 0)"
    using fs alone_known [OF a] by (simp_all add: q)
qed

lemma alone_abort:
  assumes a: "alone n k p" and "rq_state (ap_requests p ! 0) \<noteq> 2"
  assumes q_def: "q = ajax_step converters undef rd (Abort 0 t) p"
  shows "alone n (Suc k) q" "\<not> rq_transport (ap_requests q ! 0)"
    "rq_sent (ap_requests q ! 0) = rq_sent (ap_requests p ! 0)"
proof -
  define p' where "p' = (if rq_transport (ap_requests p ! 0) then transport_callback 0 (log_effects [XhrAbort 0]) p else p)"
  have "alone n k p'" "rq_state (ap_requests p' ! 0) \<noteq> 2" "rq_sent (ap_requests p' ! 0) = rq_sent (ap_requests p ! 0)"
    using a assms(2) alone_known [OF a] alone_set [OF a, of "(ap_requests p ! 0)\<lparr>rq_callback := False\<rparr>" k "[XhrAbort 0]"]
    by (auto simp: p'_def transport_callback_def Let_def alone_def)
  from alone_done [OF this(1,2) refl] this(3) show "alone n (Suc k) q" "\<not> rq_transport (ap_requests q ! 0)"
    "rq_sent (ap_requests q ! 0) = rq_sent (ap_requests p ! 0)"
    using alone_known [OF a] by (simp_all add: q_def abort_request_def p'_def)
qed

lemma alone_send:
  assumes a: "alone n 1 p" and "\<not> rq_transport (ap_requests p ! 0)" "\<not> rq_sent (ap_requests p ! 0)"
  shows "alone n 2 (ajax_step converters undef rd (Send 0 raised) p)"
proof -
  let ?rq = "ap_requests p ! 0"
  let ?rq1 = "?rq\<lparr>rq_sent := True, rq_timer := as_timeout (rq_settings ?rq), rq_state := 1\<rparr>"
  have "alone n 1 (log_effects [] (set_request 0 ?rq1 p))"
    by (rule alone_set [OF a]) (use a in \<open>simp_all add: alone_def\<close>)
  from alone_done(1) [OF this _ refl] show ?thesis
    using assms alone_known [OF a] by (simp add: request_send_def Let_def numeral_2_eq_2)
qed

lemma alone_finish:
  assumes a: "alone n (Suc k) p"
  shows "alone (n - 1) k (ajax_step converters undef rd (Finish 0) p)"
  using a by (auto simp: alone_def finish_request_def Let_def known_def log_effects_def set_request_def)

lemma alone_idle:
  assumes "alone n k p" "n \<noteq> 0"
  shows "AjaxStart \<notin> set (tl (ap_log (ajax_step converters undef rd (Open s [] True True) p)))"
  using assms by (cases "ap_log p") (auto simp: alone_def open_request_def Let_def)

section \<open>Properties\<close>

text \<open>C7: In every run, the callbacks of a request see one outcome at most, and it is the one that the
  request has from then on; a request that has been sent is settled by the event that its answer has
  come, that it has failed or that it is aborted.\<close>

theorem request_settles_once:
  assumes "p = ajax_run converters undef rd evs no_requests"
  shows "settled i (ap_log p) = option_list (outcome_at i p)
    \<and> (\<forall>out es. outcome_at i p = Some out \<longrightarrow> outcome_at i (ajax_run converters undef rd es p) = Some out)
    \<and> (\<forall>e. known i p \<and> rq_sent (ap_requests p ! i) \<and> ends i e \<longrightarrow> outcome_at i (ajax_step converters undef rd e p) \<noteq> None)"
proof -
  have p: "settling p" unfolding assms by (rule settling_run)
  then show ?thesis using settledD [OF p, of i] outcome_stays [OF p, of i] ended [OF p, of i] by simp
qed

text \<open>C9: As long as no handler of \<open>ajaxSend\<close> aborts its request, \<open>jQuery.active\<close> is the number of the
  requests with global events that are under way, counting those whose callbacks are running, and
  \<open>ajaxStart\<close> has been triggered once more than \<open>ajaxStop\<close> exactly when there are any.\<close>

theorem active_counts_requests:
  assumes "allowed_run not_too_early (ajax_step converters undef rd) evs no_requests"
    and "p = ajax_run converters undef rd evs no_requests"
  shows "ap_active p = sum_list (map under_way (ap_requests p))
    \<and> balance (ap_log p) = (if 0 < ap_active p then 1 else 0)"
  using counter.inv_run [OF counted_none assms(1)] assms(2)
  by (simp add: ajax_run_def counted_def requests_under_way_def)


text \<open>C8: A request of \<open>span.js\<close> (a GET for JSON) whose answer has come is resolved exactly when the model of
  the viewer counts it as a success; with status 200 its value is what the text says as JSON, and with a
  text that cannot be read it is rejected with \<open>parsererror\<close>.\<close>

theorem span_request_refines:
  assumes "p = ajax_run (default_converters to_string parseJSON parseXML globalEval) undef rd evs no_requests"
    and "known i p" "rq_sent (ap_requests p ! i)" "outcome_at i p = None"
    and "as_dataTypes (rq_settings (ap_requests p ! i)) = [''json'']" "as_type (rq_settings (ap_requests p ! i)) = ''GET''"
    and "a = call_of parseJSON (rd body) status statusText response"
  shows "\<exists>out. outcome_at i (ajax_step (default_converters to_string parseJSON parseXML globalEval) undef rd
        (Loaded i status statusText (Some body) headers) p) = Some out
      \<and> resolved out = ajax_success a
      \<and> (aj_status a = 200 \<longrightarrow> out = (case parseJSON (rd body) of Inr v \<Rightarrow> ResolvedWith v ''success'' | Inl e \<Rightarrow> RejectedWith ''parsererror'' e))"
proof -
  have "settling p" unfolding assms(1) by (rule settling_run)
  then have ok: "request_ok (ap_requests p ! i)" using assms(2) requests_ok_nth by (auto simp: settling_def)
  then have "rq_callback (ap_requests p ! i)" "rq_state (ap_requests p ! i) \<noteq> 2" "rq_outcome (ap_requests p ! i) = None"
    using assms(2-4) by (auto simp: request_ok_def outcome_at_def)
  note out = loaded_outcome [OF assms(2) this assms(5), of to_string parseJSON parseXML globalEval undef rd status statusText body headers]
  show ?thesis
    unfolding out assms(6,7)
    by (auto simp: outcome_of_def ajax_success_def call_of_def success_status_def split: sum.split)
qed

section \<open>Examples\<close>

definition example_parse :: "string \<Rightarrow> string + string" where
  "example_parse r = (if r = ''{}'' then Inr r else Inl ''SyntaxError'')"

definition example_converters :: "string converters" where
  "example_converters = default_converters id example_parse Inr Inr"

definition example_settings :: ajax_settings where
  "example_settings = \<lparr>as_type = ''GET'', as_dataTypes = [''json''], as_mimeType = None, as_global = True, as_timeout = False\<rparr>"

definition example_sent :: "ajax_event list" where
  "example_sent = [Open example_settings [] True True, Send 0 None]"

definition example_requests :: "ajax_event list \<Rightarrow> string ajax_page" where
  "example_requests evs = ajax_run example_converters '''' id evs no_requests"

definition example_loaded :: ajax_event where
  "example_loaded = Loaded 0 200 ''OK'' (Some ''{}'') ''Content-Type: application/json''"

lemma example_facts:
  "known 0 (example_requests example_sent)" "rq_sent (ap_requests (example_requests example_sent) ! 0)"
  "outcome_at 0 (example_requests example_sent) = None" "ends 0 example_loaded"
  "as_dataTypes (rq_settings (ap_requests (example_requests example_sent) ! 0)) = [''json'']"
  "as_type (rq_settings (ap_requests (example_requests example_sent) ! 0)) = ''GET''"
  "allowed_run not_too_early (ajax_step example_converters '''' id) example_sent no_requests"
  "sum_list (map under_way (ap_requests (example_requests example_sent))) = 1"
  by code_simp+

theorem request_settles_once_witness:
  "outcome_at 0 (ajax_step example_converters '''' id example_loaded (example_requests example_sent)) \<noteq> None"
  using request_settles_once [OF example_requests_def [of example_sent], of 0] example_facts(1,2,4) by blast

theorem active_counts_requests_witness:
  "ap_active (example_requests example_sent) = 1 \<and> balance (ap_log (example_requests example_sent)) = 1"
  using active_counts_requests [OF example_facts(7) example_requests_def [of example_sent]]
  unfolding example_facts(8) by simp

theorem span_request_refines_witness:
  "\<exists>out. outcome_at 0 (ajax_step (default_converters id example_parse Inr Inr) '''' id
      (Loaded 0 200 ''OK'' (Some ''{}'') '''') (example_requests example_sent)) = Some out \<and> resolved out"
proof -
  have s: "ajax_success (call_of example_parse (id ''{}'') 200 ''OK'' (Inl ''''))" by code_simp
  from span_request_refines [OF example_requests_def [of example_sent, unfolded example_converters_def] example_facts(1-3,5,6) refl,
      where body = "''{}''" and status = 200 and statusText = "''OK''" and headers = "''''" and response = "Inl ''''"]
  obtain out where "outcome_at 0 (ajax_step (default_converters id example_parse Inr Inr) '''' id
      (Loaded 0 200 ''OK'' (Some ''{}'') '''') (example_requests example_sent)) = Some out"
    "resolved out = ajax_success (call_of example_parse (id ''{}'') 200 ''OK'' (Inl ''''))" by blast
  with s show ?thesis by blast
qed

end
