(* ===== verification/Param_Props.thy ===== *)
theory Param_Props
  imports Jquery_Ajax Backbone_Router
begin

text \<open>
  What \<open>jQuery.param\<close> writes can be read back: the theory reads a query as a server does, with the
  \<open>decodeURIComponent\<close> of \<open>Backbone_Router\<close>.
\<close>

definition space_for_plus :: "string \<Rightarrow> string" where
  "space_for_plus s = map (\<lambda>c. if c = CHR ''+'' then CHR '' '' else c) s"

fun split_amp :: "string \<Rightarrow> string list" where
  "split_amp [] = [[]]"
| "split_amp (c # cs) =
     (if c = CHR ''&'' then [] # split_amp cs
      else (case split_amp cs of [] \<Rightarrow> [[c]] | w # ws \<Rightarrow> (c # w) # ws))"

definition read_pair :: "string \<Rightarrow> nat list option \<times> nat list option" where
  "read_pair p =
     (decodeURIComponent (space_for_plus (takeWhile (\<lambda>c. c \<noteq> CHR ''='') p)),
      decodeURIComponent (space_for_plus (drop 1 (dropWhile (\<lambda>c. c \<noteq> CHR ''='') p))))"

definition read_query :: "string \<Rightarrow> (nat list option \<times> nat list option) list" where
  "read_query s = map read_pair (split_amp s)"

section \<open>One character\<close>

lemma code_upper_hex: "n < 16 \<Longrightarrow> code (upper_hex n) = (if n < 10 then 48 + n else 55 + n)"
  by (simp add: upper_hex_def code_def)

lemma upper_hex [simp]:
  assumes "n < 16"
  shows "is_hex_digit (upper_hex n)" "hex_value (upper_hex n) = n" "upper_hex n \<noteq> CHR ''%''"
    "upper_hex n \<noteq> CHR ''&''" "upper_hex n \<noteq> CHR ''=''" "upper_hex n \<noteq> CHR ''+''"
proof -
  have ne: "upper_hex n \<noteq> c" if "code c < 48 \<or> code c = 61" for c
    using code_upper_hex [OF assms] that assms by (auto split: if_splits)
  show "upper_hex n \<noteq> CHR ''%''" "upper_hex n \<noteq> CHR ''&''" "upper_hex n \<noteq> CHR ''=''" "upper_hex n \<noteq> CHR ''+''"
    by (rule ne; simp add: code_def)+
qed (use assms in \<open>simp_all add: is_hex_digit_def is_digit_def hex_value_def code_upper_hex\<close>)

lemma two_byte_arith:
  fixes q r :: nat
  assumes "q < 4" "r < 64"
  shows "(192 + q) div 32 = 6" "(192 + q) mod 32 = q" "(128 + r) div 64 = 2" "(128 + r) mod 64 = r"
    "192 + q < 256" "128 + r < 256" "\<not> 192 + q < 128"
proof -
  show 1: "(192 + q) div 32 = 6" "(128 + r) div 64 = 2" using assms by (simp_all add: div_nat_eqI)
  show "(192 + q) mod 32 = q" "(128 + r) mod 64 = r" using 1 assms by (simp_all add: modulo_nat_def)
qed (use assms in simp_all)

lemma escape_percent_byte [simp]: "b < 256 \<Longrightarrow> escape_byte (percent_byte b @ t) = Some (b, t)"
  by (simp add: escape_byte_def percent_byte_def less_mult_imp_div_less)

lemma unreserved_plain:
  "unreserved c \<Longrightarrow> c \<noteq> CHR ''%'' \<and> c \<noteq> CHR ''&'' \<and> c \<noteq> CHR ''='' \<and> c \<noteq> CHR ''+'' \<and> c \<noteq> CHR '' ''"
  by (auto simp: unreserved_def is_digit_def code_def)

lemma escaped_percent:
  "code c < 128 \<Longrightarrow> escaped_point (percent_byte (code c) @ t) = Some (code c, t)"
  "\<not> code c < 128 \<Longrightarrow> escaped_point (percent_byte (192 + code c div 64) @ percent_byte (128 + code c mod 64) @ t) = Some (code c, t)"
proof -
  show "escaped_point (percent_byte (code c) @ t) = Some (code c, t)" if "code c < 128"
    using that by (simp add: escaped_point_def)
  assume c: "\<not> code c < 128"
  have l: "code c div 64 < 4" using code_less [of c] by (simp add: less_mult_imp_div_less)
  have r: "code c mod 64 < 64" by simp
  note ar = two_byte_arith [OF l r]
  have "64 * (code c div 64) + code c mod 64 = code c" by simp
  with ar show "escaped_point (percent_byte (192 + code c div 64) @ percent_byte (128 + code c mod 64) @ t) = Some (code c, t)"
    using c by (simp only: escaped_point_def escape_percent_byte One_nat_def continuation_bytes.simps option.case prod.case if_True if_False
        refl simp_thms) simp
qed

lemma decode_encode_char: "decodeURIComponent (encode_char c @ t) = map_option ((#) (code c)) (decodeURIComponent t)"
proof (cases "unreserved c")
  case True
  then show ?thesis using unreserved_plain [OF True] by (simp add: encode_char_def)
next
  case False
  have p: "percent_byte b @ u = CHR ''%'' # tl (percent_byte b @ u)" for b u by (simp add: percent_byte_def)
  have d: "decodeURIComponent s = map_option ((#) v) (decodeURIComponent t)"
    if "s = CHR ''%'' # tl s" "escaped_point s = Some (v, t)" for s v
    by (subst that(1), subst decodeURIComponent.simps(2)) (use that in simp)
  show ?thesis using False escaped_percent p by (auto simp: encode_char_def intro!: d)
qed

text \<open>What \<open>param\<close> makes of a character.\<close>

definition param_char :: "char \<Rightarrow> string" where
  "param_char c = (if c = CHR '' '' then ''+'' else encode_char c)"

lemma plus_skip [simp]: "c \<noteq> CHR ''%'' \<Longrightarrow> plus_for_space (c # t) = c # plus_for_space t"
  by (simp add: plus_for_space.simps(2))

declare plus_for_space.simps(2) [simp del]

lemma upper_hex_inject: "m < 16 \<Longrightarrow> n < 16 \<Longrightarrow> upper_hex m = upper_hex n \<longleftrightarrow> m = n"
  by (metis upper_hex(2))

lemma plus_percent:
  assumes "b < 256"
  shows "plus_for_space (percent_byte b @ t) = (if b = 32 then ''+'' else percent_byte b) @ plus_for_space t"
proof -
  have h: "b div 16 < 16" "b mod 16 < 16" using assms by (simp_all add: less_mult_imp_div_less)
  have d: "CHR ''2'' = upper_hex 2" "CHR ''0'' = upper_hex 0" by code_simp+
  have "upper_hex (b div 16) = CHR ''2'' \<and> upper_hex (b mod 16) = CHR ''0'' \<longleftrightarrow> b = 32"
    unfolding d using h div_mult_mod_eq [of b 16] by (auto simp: upper_hex_inject)
  moreover have "plus_for_space (percent_byte b @ t) =
      (if upper_hex (b div 16) = CHR ''2'' \<and> upper_hex (b mod 16) = CHR ''0'' then CHR ''+'' # plus_for_space t
       else CHR ''%'' # plus_for_space (upper_hex (b div 16) # upper_hex (b mod 16) # t))"
    by (auto simp: percent_byte_def plus_for_space.simps(2) [of "CHR ''%''"])
  ultimately show ?thesis using h by (simp add: percent_byte_def)
qed

lemma plus_encode_char: "plus_for_space (encode_char c @ t) = param_char c @ plus_for_space t"
proof (cases "unreserved c")
  case True
  then show ?thesis using unreserved_plain [OF True] by (simp add: encode_char_def param_char_def)
next
  case False
  have "code c div 64 < 4" using code_less [of c] by (simp add: less_mult_imp_div_less)
  moreover have "char_of (code c) = c" by (simp add: code_def)
  moreover have "char_of (32 :: nat) = CHR '' ''" "code (CHR '' '') = 32" by code_simp+
  ultimately have "code c div 64 < 4" "c = CHR '' '' \<longleftrightarrow> code c = 32" by (blast, metis)
  then show ?thesis using False by (auto simp: encode_char_def param_char_def plus_percent)
qed

definition param_chars :: "string \<Rightarrow> string" where
  "param_chars s = concat (map param_char s)"

lemma plus_encode: "plus_for_space (encodeURIComponent s @ t) = param_chars s @ plus_for_space t"
  by (induction s) (simp_all add: encodeURIComponent_def param_chars_def plus_encode_char)

lemma plus_encode_Nil [simp]: "plus_for_space (encodeURIComponent s) = param_chars s"
  using plus_encode [of s "[]"] by simp

lemma percent_byte_set: "b < 256 \<Longrightarrow> CHR ''&'' \<notin> set (percent_byte b) \<and> CHR ''='' \<notin> set (percent_byte b) \<and> CHR ''+'' \<notin> set (percent_byte b)"
  using upper_hex(4-6) [of "b div 16"] upper_hex(4-6) [of "b mod 16"]
  by (simp add: percent_byte_def less_mult_imp_div_less eq_commute)

lemma encode_char_set: "CHR ''&'' \<notin> set (encode_char c) \<and> CHR ''='' \<notin> set (encode_char c) \<and> CHR ''+'' \<notin> set (encode_char c)"
proof (cases "unreserved c")
  case True
  then show ?thesis using unreserved_plain [OF True] by (auto simp: encode_char_def)
next
  case False
  have "code c div 64 < 4" using code_less [of c] by (simp add: less_mult_imp_div_less)
  then show ?thesis using False percent_byte_set [of "code c"] percent_byte_set [of "192 + code c div 64"]
      percent_byte_set [of "128 + code c mod 64"]
    by (simp add: encode_char_def)
qed

lemma param_chars_set: "CHR ''&'' \<notin> set (param_chars s)" "CHR ''='' \<notin> set (param_chars s)"
  using encode_char_set by (auto simp: param_chars_def param_char_def)

lemma space_encode_char: "space_for_plus (param_char c) = (if c = CHR '' '' then '' '' else encode_char c)"
  using encode_char_set [of c] by (auto simp: space_for_plus_def param_char_def intro: map_idI)

lemma decode_param_chars: "decodeURIComponent (space_for_plus (param_chars s)) = Some (map code s)"
proof (induction s)
  case (Cons c s)
  have "space_for_plus (param_chars (c # s)) = space_for_plus (param_char c) @ space_for_plus (param_chars s)"
    by (simp add: param_chars_def space_for_plus_def)
  then show ?case using Cons by (simp add: space_encode_char decode_encode_char)
qed (simp add: param_chars_def space_for_plus_def)

section \<open>The query\<close>

definition pair_text :: "string \<times> string \<Rightarrow> string" where
  "pair_text kv = param_chars (fst kv) @ ''='' @ param_chars (snd kv)"

lemma plus_join:
  "plus_for_space (join_with ''&'' (map (\<lambda>(k, v). encodeURIComponent k @ ''='' @ encodeURIComponent v) ps)) =
   join_with ''&'' (map pair_text ps)"
  by (induction ps rule: induct_list012) (auto simp: pair_text_def plus_encode)

lemma split_amp_end: "CHR ''&'' \<notin> set w \<Longrightarrow> split_amp w = [w]"
  by (induction w) auto

lemma split_amp_amp: "CHR ''&'' \<notin> set w \<Longrightarrow> split_amp (w @ CHR ''&'' # t) = w # split_amp t"
  by (induction w) auto

lemma split_join:
  "ws \<noteq> [] \<Longrightarrow> \<forall>w\<in>set ws. CHR ''&'' \<notin> set w \<Longrightarrow> split_amp (join_with ''&'' ws) = ws"
  by (induction ws rule: induct_list012) (simp_all add: split_amp_end split_amp_amp)

lemma read_pair_text: "read_pair (pair_text kv) = (Some (map code (fst kv)), Some (map code (snd kv)))"
proof -
  have "takeWhile (\<lambda>c. c \<noteq> CHR ''='') (pair_text kv) = param_chars (fst kv)"
    "dropWhile (\<lambda>c. c \<noteq> CHR ''='') (pair_text kv) = CHR ''='' # param_chars (snd kv)"
    using param_chars_set(2) [of "fst kv"]
    by (auto simp: pair_text_def takeWhile_append dropWhile_append takeWhile_eq_all_conv)
  then show ?thesis by (simp add: read_pair_def decode_param_chars)
qed

lemma read_written:
  assumes "ps \<noteq> []"
  shows "read_query (plus_for_space (join_with ''&'' (map (\<lambda>(k, v). encodeURIComponent k @ ''='' @ encodeURIComponent v) ps))) =
    map (\<lambda>(k, v). (Some (map code k), Some (map code v))) ps"
proof -
  have "split_amp (join_with ''&'' (map pair_text ps)) = map pair_text ps"
    using assms by (intro split_join) (auto simp: pair_text_def param_chars_set)
  then show ?thesis unfolding plus_join read_query_def by (simp add: read_pair_text split_def comp_def)
qed

text \<open>The pairs that \<open>param\<close> adds, with their texts.\<close>

definition param_pairs :: "(jsval \<Rightarrow> string) \<Rightarrow> bool \<Rightarrow> (string \<times> jsval) list \<Rightarrow> (string \<times> string) list" where
  "param_pairs show traditional a =
     map (\<lambda>(k, v). (k, scalar_text show v)) (concat (map (\<lambda>(pre, v). buildParams traditional pre v) a))"

text \<open>C15: What \<open>jQuery.param\<close> writes, read as a query (split at the ampersands and at the first equals sign,
  a plus for a space, and decoded as Backbone does) gives back the names and the texts of all the parameters,
  in order and code unit by code unit.\<close>

theorem param_roundtrip:
  assumes "param_pairs show traditional a \<noteq> []"
  shows "read_query (param show traditional a) =
    map (\<lambda>(k, v). (Some (map code k), Some (map code v))) (param_pairs show traditional a)"
proof -
  have "param show traditional a = plus_for_space (join_with ''&''
      (map (\<lambda>(k, v). encodeURIComponent k @ ''='' @ encodeURIComponent v) (param_pairs show traditional a)))"
    by (simp add: param_def param_pairs_def split_def comp_def)
  then show ?thesis using read_written [OF assms] by simp
qed

text \<open>A query with a nested value: \<open>{a: [1, {b: "x y"}], c: "&="}\<close>.\<close>

definition example_params :: "(string \<times> jsval) list" where
  "example_params = [(''a'', VArr [VBool True, VObj [(''b'', VStr ''x y'')]]), (''c'', VStr ''&='')]"

fun example_text :: "jsval \<Rightarrow> string" where
  "example_text (VStr s) = s"
| "example_text v = ''true''"

lemma example_pairs: "param_pairs example_text False example_params = [(''a[]'', ''true''), (''a[1][b]'', ''x y''), (''c'', ''&='')]"
  by code_simp

theorem param_roundtrip_witness:
  "read_query (param example_text False example_params) =
   [(Some [97, 91, 93], Some [116, 114, 117, 101]), (Some [97, 91, 49, 93, 91, 98, 93], Some [120, 32, 121]), (Some [99], Some [38, 61])]"
proof -
  have "param_pairs example_text False example_params \<noteq> []" by (simp add: example_pairs)
  from param_roundtrip [OF this] show ?thesis by (simp add: example_pairs code_def)
qed

end
