(* ===== verification/Underscore_Functions.thy ===== *)
theory Underscore_Functions
  imports Js_String
begin

text \<open>
  The wrappers of functions of underscore.js (\<open>htrace-webapp/src/main/web/lib/underscore-1.7.0.js\<close>):
  \<open>partial\<close>, \<open>wrap\<close>, \<open>memoize\<close>, \<open>throttle\<close>, \<open>negate\<close>, \<open>compose\<close>, \<open>after\<close>, \<open>before\<close> and \<open>once\<close>. A function with
  effects takes its arguments and the state of the world and returns its result and the new state; the
  variables that a wrapper closes over are a state of their own. A function that is wrapped does not call
  its wrapper, but for \<open>memoize\<close>, where it is given the cache. Missing arguments are \<open>undef\<close>.
\<close>

type_synonym ('a, 'r, 'w) effectful = "'a list \<Rightarrow> 'w \<Rightarrow> 'r \<times> 'w"

section \<open>Arguments\<close>

text \<open>\<open>partial\<close>: \<open>None\<close> is the placeholder \<open>_\<close>.\<close>

fun fill_placeholders :: "'a \<Rightarrow> 'a option list \<Rightarrow> 'a list \<Rightarrow> 'a list \<times> 'a list" where
  "fill_placeholders undef [] rest = ([], rest)"
| "fill_placeholders undef (Some a # bound) rest =
     (let (args, rest) = fill_placeholders undef bound rest in (a # args, rest))"
| "fill_placeholders undef (None # bound) [] =
     (let (args, rest) = fill_placeholders undef bound [] in (undef # args, rest))"
| "fill_placeholders undef (None # bound) (x # xs) =
     (let (args, rest) = fill_placeholders undef bound xs in (x # args, rest))"

definition partial_args :: "'a \<Rightarrow> 'a option list \<Rightarrow> 'a list \<Rightarrow> 'a list" where
  "partial_args undef bound arguments = (let (args, rest) = fill_placeholders undef bound arguments in args @ rest)"

definition partial_fn :: "'a \<Rightarrow> ('a, 'r, 'w) effectful \<Rightarrow> 'a option list \<Rightarrow> ('a, 'r, 'w) effectful" where
  "partial_fn undef f bound args w = f (partial_args undef bound args) w"

definition wrap_fn :: "'a \<Rightarrow> 'a \<Rightarrow> ('a, 'r, 'w) effectful \<Rightarrow> ('a, 'r, 'w) effectful" where
  "wrap_fn undef f wrapper = partial_fn undef wrapper [Some f]"

definition negate_fn :: "('a, bool, 'w) effectful \<Rightarrow> ('a, bool, 'w) effectful" where
  "negate_fn f args w = (let (r, w) = f args w in (\<not> r, w))"

text \<open>\<open>compose\<close>: the loop from the last function to the first; with no function, the call is a TypeError.\<close>

fun compose_loop :: "('a, 'a, 'w) effectful list \<Rightarrow> nat \<Rightarrow> 'a \<Rightarrow> 'w \<Rightarrow> 'a \<times> 'w" where
  "compose_loop fs 0 result w = (result, w)"
| "compose_loop fs (Suc i) result w = (let (result, w) = (fs ! i) [result] w in compose_loop fs i result w)"

definition compose_fn :: "('a, 'a, 'w) effectful list \<Rightarrow> 'a list \<Rightarrow> 'w \<Rightarrow> ('a \<times> 'w) option" where
  "compose_fn fs args w =
     (if fs = [] then None
      else (let start = length fs - 1; (result, w) = (fs ! start) args w in Some (compose_loop fs start result w)))"

section \<open>Counting calls\<close>

text \<open>\<open>after\<close>: what is left of \<open>times\<close>; \<open>None\<close> is undefined.\<close>

definition after_fn_call :: "('a, 'r, 'w) effectful \<Rightarrow> 'a list \<Rightarrow> int \<times> 'w \<Rightarrow> 'r option \<times> int \<times> 'w" where
  "after_fn_call f args s =
     (let (left, w) = s; left = left - 1
      in if left < 1 then (let (r, w) = f args w in (Some r, left, w)) else (None, left, w))"

record 'r before_state =
  bf_times :: int
  bf_memo :: "'r option"
  bf_dropped :: bool          \<comment> \<open>\<open>func = null\<close>\<close>

definition new_before :: "int \<Rightarrow> 'r before_state" where
  "new_before left = \<lparr>bf_times = left, bf_memo = None, bf_dropped = False\<rparr>"

definition before_call :: "('a, 'r, 'w) effectful \<Rightarrow> 'a list \<Rightarrow> 'r before_state \<times> 'w \<Rightarrow> 'r option \<times> 'r before_state \<times> 'w" where
  "before_call f args sw =
     (let (s, w) = sw; s = s\<lparr>bf_times := bf_times s - 1\<rparr>
      in if 0 < bf_times s
         then (let (r, w) = f args w in (Some r, s\<lparr>bf_memo := Some r\<rparr>, w))
         else (bf_memo s, s\<lparr>bf_dropped := True\<rparr>, w))"

definition new_once :: "'r before_state" where
  "new_once = new_before 2"

section \<open>Memoize\<close>

text \<open>
  The cache is an object, and so are the results in it; the function gets the cache with the world, since
  it may call the memoized function.
\<close>

type_synonym 'r cache = "(string \<times> 'r) list"

fun cache_put :: "string \<Rightarrow> 'r \<Rightarrow> 'r cache \<Rightarrow> 'r cache" where
  "cache_put k r [] = [(k, r)]"
| "cache_put k r ((l, q) # c) = (if l = k then (k, r) # c else (l, q) # cache_put k r c)"

definition memoize_call :: "('a list \<Rightarrow> string) \<Rightarrow> ('a, 'r, 'r cache \<times> 'w) effectful \<Rightarrow> ('a, 'r, 'r cache \<times> 'w) effectful" where
  "memoize_call address f args cw =
     (case map_of (fst cw) (address args) of
        Some r \<Rightarrow> (r, cw)
      | None \<Rightarrow> (let (r, c, w) = f args cw in (r, cache_put (address args) r c, w)))"

section \<open>Throttle\<close>

text \<open>
  Times are milliseconds of \<open>_.now()\<close>; the pending timer is the time from which it may fire. The calls of
  the wrapped function are recorded with their time.
\<close>

record throttle_options =
  th_leading :: bool
  th_trailing :: bool

record 'a throttler =
  tr_timeout :: "int option"
  tr_previous :: int
  tr_args :: "'a option"
  tr_runs :: "(int \<times> 'a option) list"

definition new_throttled :: "'a throttler" where
  "new_throttled = \<lparr>tr_timeout = None, tr_previous = 0, tr_args = None, tr_runs = []\<rparr>"

definition throttle_run :: "int \<Rightarrow> 'a throttler \<Rightarrow> 'a throttler" where
  "throttle_run now s =
     (let s = s\<lparr>tr_runs := tr_runs s @ [(now, tr_args s)]\<rparr>
      in if tr_timeout s = None then s\<lparr>tr_args := None\<rparr> else s)"

definition throttle_later :: "throttle_options \<Rightarrow> int \<Rightarrow> 'a throttler \<Rightarrow> 'a throttler" where
  "throttle_later opts now s =
     throttle_run now (s\<lparr>tr_previous := (if \<not> th_leading opts then 0 else now), tr_timeout := None\<rparr>)"

definition throttle_call :: "int \<Rightarrow> throttle_options \<Rightarrow> int \<Rightarrow> 'a \<Rightarrow> 'a throttler \<Rightarrow> 'a throttler" where
  "throttle_call wait opts now args s =
     (let s = (if tr_previous s = 0 \<and> \<not> th_leading opts then s\<lparr>tr_previous := now\<rparr> else s);
          remaining = wait - (now - tr_previous s);
          s = s\<lparr>tr_args := Some args\<rparr>
      in if remaining \<le> 0 \<or> remaining > wait
         then throttle_run now (s\<lparr>tr_timeout := None, tr_previous := now\<rparr>)
         else if tr_timeout s = None \<and> th_trailing opts then s\<lparr>tr_timeout := Some (now + remaining)\<rparr>
         else s)"

text \<open>The clock does not go back, and a timer does not fire before its time.\<close>

inductive throttled :: "int \<Rightarrow> throttle_options \<Rightarrow> int \<Rightarrow> (int \<times> 'a) list \<Rightarrow> 'a throttler \<Rightarrow> bool" for wait opts where
  start: "0 < now \<Longrightarrow> throttled wait opts now [] new_throttled"
| call: "throttled wait opts now calls s \<Longrightarrow> now \<le> t \<Longrightarrow>
    throttled wait opts t (calls @ [(t, a)]) (throttle_call wait opts t a s)"
| fire: "throttled wait opts now calls s \<Longrightarrow> now \<le> t \<Longrightarrow> tr_timeout s = Some due \<Longrightarrow> due \<le> t \<Longrightarrow>
    throttled wait opts t calls (throttle_later opts t s)"

section \<open>What the wrappers do\<close>

lemma partial_args_append:
  "length bound \<le> length arguments \<Longrightarrow> set bound \<subseteq> {None} \<Longrightarrow> partial_args undef bound arguments = arguments"
  by (induction undef bound arguments rule: fill_placeholders.induct) (auto simp: partial_args_def split: prod.splits)

lemma partial_args_bound: "partial_args undef (map Some xs) arguments = xs @ arguments"
proof -
  have "fill_placeholders undef (map Some xs) arguments = (xs, arguments)" by (induction xs) simp_all
  then show ?thesis by (simp add: partial_args_def)
qed

lemma wrap_calls: "wrap_fn undef f wrapper args w = wrapper (f # args) w"
  using partial_args_bound [of undef "[f]" args] by (simp add: wrap_fn_def partial_fn_def)

lemma compose_loop_foldr:
  "compose_loop fs (length fs) x w = foldr (\<lambda>f (x, w). f [x] w) fs (x, w)"
proof (induction fs arbitrary: x w rule: rev_induct)
  case (snoc f fs)
  have "compose_loop (fs @ [f]) i y v = compose_loop fs i y v" if "i \<le> length fs" for i y v
    using that by (induction i arbitrary: y v) (simp_all add: nth_append split: prod.split)
  then show ?case using snoc by (simp add: nth_append split: prod.split)
qed simp

text \<open>A list of calls of a function with effects.\<close>

fun exec :: "('a, 'r, 'w) effectful \<Rightarrow> 'a list list \<Rightarrow> 'w \<Rightarrow> 'r list \<times> 'w" where
  "exec f [] w = ([], w)"
| "exec f (args # rest) w = (let (r, w) = f args w; (rs, w) = exec f rest w in (r # rs, w))"

definition memo_after :: "'r option \<Rightarrow> 'r list \<Rightarrow> 'r option" where
  "memo_after m rs = (if rs = [] then m else Some (last rs))"

lemma exec_length: "length (fst (exec f argss w)) = length argss"
  by (induction argss arbitrary: w) (simp_all add: Let_def split: prod.splits, metis fst_conv)

lemma before_calls:
  assumes "exec f (take (nat (bf_times s - 1)) argss) w = (rs, w')"
  shows "\<exists>s'. exec (before_call f) argss (s, w) =
    (map Some rs @ replicate (length argss - length rs) (memo_after (bf_memo s) rs), s', w')"
  using assms
proof (induction argss arbitrary: s w rs)
  case Nil
  then show ?case by simp
next
  case (Cons args rest)
  define s1 where "s1 = s\<lparr>bf_times := bf_times s - 1\<rparr>"
  show ?case
  proof (cases "0 < bf_times s1")
    case True
    obtain r w1 where r: "f args w = (r, w1)" by fastforce
    define s2 where "s2 = s1\<lparr>bf_memo := Some r\<rparr>"
    have n: "nat (bf_times s - 1) = Suc (nat (bf_times s2 - 1))" using True by (simp add: s1_def s2_def)
    obtain rs2 where rs2: "exec f (take (nat (bf_times s2 - 1)) rest) w1 = (rs2, w')" "rs = r # rs2"
      using Cons.prems unfolding n by (auto simp: r split: prod.splits)
    obtain s' where "exec (before_call f) rest (s2, w1) =
        (map Some rs2 @ replicate (length rest - length rs2) (memo_after (bf_memo s2) rs2), s', w')"
      using Cons.IH [OF rs2(1)] by blast
    moreover have "before_call f args (s, w) = (Some r, s2, w1)"
      using True by (simp add: before_call_def s1_def s2_def r Let_def)
    ultimately show ?thesis by (auto simp: rs2(2) s2_def memo_after_def)
  next
    case False
    define s2 where "s2 = s1\<lparr>bf_dropped := True\<rparr>"
    have rs: "rs = []" "w' = w" using Cons.prems False by (auto simp: s1_def)
    have "exec f (take (nat (bf_times s2 - 1)) rest) w = ([], w')" using False by (simp add: s2_def rs)
    from Cons.IH [OF this] obtain s' where "exec (before_call f) rest (s2, w) =
        (replicate (length rest) (memo_after (bf_memo s2) []), s', w')" by auto
    moreover have "before_call f args (s, w) = (bf_memo s, s2, w)"
      using False by (simp add: before_call_def s1_def s2_def Let_def)
    ultimately show ?thesis by (simp add: rs memo_after_def s2_def s1_def)
  qed
qed

lemma after_calls:
  assumes "exec f (drop (nat (n - 1)) argss) w = (rs, w')"
  shows "\<exists>n'. exec (after_fn_call f) argss (n, w) = (replicate (length argss - length rs) None @ map Some rs, n', w')"
  using assms
proof (induction argss arbitrary: n w rs)
  case Nil
  then show ?case by simp
next
  case (Cons args rest)
  show ?case
  proof (cases "n - 1 < 1")
    case True
    obtain r w1 where r: "f args w = (r, w1)" by fastforce
    have z: "nat (n - 1) = 0" "nat (n - 2) = 0" using True by simp_all
    obtain rs2 where rs2: "exec f rest w1 = (rs2, w')" "rs = r # rs2"
      using Cons.prems by (auto simp: z(1) r split: prod.splits)
    have len: "length rs2 = length rest" using exec_length [of f rest w1] rs2(1) by simp
    have "exec f (drop (nat (n - 1 - 1)) rest) w1 = (rs2, w')" using rs2(1) by (simp add: z(2))
    from Cons.IH [OF this] len obtain n' where "exec (after_fn_call f) rest (n - 1, w1) = (map Some rs2, n', w')" by auto
    moreover have "after_fn_call f args (n, w) = (Some r, n - 1, w1)" using True by (simp add: after_fn_call_def r)
    ultimately show ?thesis by (simp add: rs2(2) len)
  next
    case False
    then have "nat (n - 1) = Suc (nat (n - 1 - 1))" by simp
    with Cons.prems have ex: "exec f (drop (nat (n - 1 - 1)) rest) w = (rs, w')" by simp
    have len: "length rs \<le> length rest" using exec_length [of f "drop (nat (n - 1 - 1)) rest" w] ex by simp
    from Cons.IH [OF ex] obtain n' where
      "exec (after_fn_call f) rest (n - 1, w) = (replicate (length rest - length rs) None @ map Some rs, n', w')" by blast
    moreover have "after_fn_call f args (n, w) = (None, n - 1, w)" using False by (simp add: after_fn_call_def)
    ultimately show ?thesis using len by (simp add: Suc_diff_le)
  qed
qed

section \<open>Memoize\<close>

lemma map_of_cache_put [simp]: "map_of (cache_put k r c) = (map_of c)(k \<mapsto> r)"
  by (induction c) auto

text \<open>The calls whose address was not seen before.\<close>

fun fresh_calls :: "('a list \<Rightarrow> string) \<Rightarrow> string set \<Rightarrow> 'a list list \<Rightarrow> 'a list list" where
  "fresh_calls address seen [] = []"
| "fresh_calls address seen (args # rest) =
     (if address args \<in> seen then fresh_calls address seen rest
      else args # fresh_calls address (insert (address args) seen) rest)"

lemma memoize_calls:
  assumes f: "\<And>args c w. f args (c, w) = (g args, c, w @ [args])"
    and g: "\<And>a b. address a = address b \<Longrightarrow> g a = g b"
    and c: "\<And>args r. map_of c (address args) = Some r \<Longrightarrow> r = g args"
  shows "\<exists>c'. exec (memoize_call address f) argss (c, w) = (map g argss, c', w @ fresh_calls address (dom (map_of c)) argss)"
  using c
proof (induction argss arbitrary: c w)
  case Nil
  then show ?case by simp
next
  case (Cons args rest)
  show ?case
  proof (cases "map_of c (address args)")
    case None
    let ?c = "cache_put (address args) (g args) c"
    have "map_of ?c (address b) = Some r \<Longrightarrow> r = g b" for b r
      using Cons.prems [of b r] g [of args b] by (simp split: if_splits)
    from Cons.IH [of ?c "w @ [args]", OF this] obtain c' where
      "exec (memoize_call address f) rest (?c, w @ [args]) = (map g rest, c', (w @ [args]) @ fresh_calls address (dom (map_of ?c)) rest)"
      by blast
    moreover have "memoize_call address f args (c, w) = (g args, ?c, w @ [args])" by (simp add: memoize_call_def None f)
    ultimately show ?thesis using None by (simp add: domIff)
  next
    case (Some r)
    then have m: "memoize_call address f args (c, w) = (g args, c, w)"
      using Cons.prems [OF Some] by (simp add: memoize_call_def)
    obtain c' where "exec (memoize_call address f) rest (c, w) = (map g rest, c', w @ fresh_calls address (dom (map_of c)) rest)"
      using Cons.IH [OF Cons.prems] by blast
    then show ?thesis using m Some by (simp add: domI)
  qed
qed

section \<open>Throttle keeps its distance\<close>

definition th_inv :: "int \<Rightarrow> throttle_options \<Rightarrow> int \<Rightarrow> (int \<times> 'a) list \<Rightarrow> 'a throttler \<Rightarrow> bool" where
  "th_inv wait opts now calls s \<longleftrightarrow>
     0 < now \<and> 0 \<le> tr_previous s \<and> tr_previous s \<le> now
     \<and> (\<forall>(t, a)\<in>set (tr_runs s). t \<le> now \<and> a \<in> Some ` snd ` set calls)
     \<and> (\<forall>(c, a)\<in>set calls. c \<le> now)
     \<and> sorted_wrt (\<lambda>r q. fst r + wait \<le> fst q) (tr_runs s)
     \<and> (tr_previous s \<noteq> 0 \<longrightarrow> (\<forall>(t, a)\<in>set (tr_runs s). t \<le> tr_previous s))
     \<and> (tr_previous s = 0 \<longrightarrow> (if th_leading opts then tr_runs s = [] else tr_timeout s = None))
     \<and> (case tr_timeout s of
          Some due \<Rightarrow> calls \<noteq> [] \<and> due = tr_previous s + wait \<and> tr_previous s \<le> fst (last calls)
            \<and> tr_args s = Some (snd (last calls))
        | None \<Rightarrow> th_trailing opts \<and> calls \<noteq> [] \<longrightarrow> tr_runs s \<noteq> [] \<and> snd (last (tr_runs s)) = Some (snd (last calls)))"

lemma th_invD:
  assumes "th_inv wait opts now calls s"
  shows "0 < now" "0 \<le> tr_previous s" "tr_previous s \<le> now"
    "\<And>t a. (t, a) \<in> set (tr_runs s) \<Longrightarrow> t \<le> now \<and> a \<in> Some ` snd ` set calls"
    "\<And>c a. (c, a) \<in> set calls \<Longrightarrow> c \<le> now"
    "sorted_wrt (\<lambda>r q. fst r + wait \<le> fst q) (tr_runs s)"
    "\<And>t a. tr_previous s \<noteq> 0 \<Longrightarrow> (t, a) \<in> set (tr_runs s) \<Longrightarrow> t \<le> tr_previous s"
    "tr_previous s = 0 \<Longrightarrow> (if th_leading opts then tr_runs s = [] else tr_timeout s = None)"
    "\<And>due. tr_timeout s = Some due \<Longrightarrow> calls \<noteq> [] \<and> due = tr_previous s + wait \<and> tr_previous s \<le> fst (last calls)
      \<and> tr_args s = Some (snd (last calls))"
    "tr_timeout s = None \<Longrightarrow> th_trailing opts \<Longrightarrow> calls \<noteq> [] \<Longrightarrow> tr_runs s \<noteq> [] \<and> snd (last (tr_runs s)) = Some (snd (last calls))"
  using assms unfolding th_inv_def by (auto split: option.splits)

text \<open>A run at time \<open>t\<close>, when the last one was long enough ago.\<close>

lemma th_inv_run:
  assumes "th_inv wait opts now calls s" "now \<le> t" and far: "\<And>u b. (u, b) \<in> set (tr_runs s) \<Longrightarrow> u + wait \<le> t"
    and calls': "\<forall>(c, a)\<in>set calls'. c \<le> t" "snd ` set calls \<subseteq> snd ` set calls'" "calls' \<noteq> []"
    and prev: "prev = t \<or> prev = 0 \<and> \<not> th_leading opts" and args: "tr_args s' = Some (snd (last calls'))"
    and s': "tr_timeout s' = None" "tr_previous s' = prev" "tr_runs s' = tr_runs s"
  shows "th_inv wait opts t calls' (throttle_run t s')"
proof -
  note inv = th_invD [OF assms(1)]
  have runs: "tr_runs (throttle_run t s') = tr_runs s @ [(t, Some (snd (last calls')))]"
    "tr_previous (throttle_run t s') = prev" "tr_timeout (throttle_run t s') = None"
    using args s' by (simp_all add: throttle_run_def)
  have "\<forall>(u, b)\<in>set (tr_runs s). u \<le> t \<and> b \<in> Some ` snd ` set calls'"
    using inv(4) assms(2) calls'(2) by fastforce
  moreover have "Some (snd (last calls')) \<in> Some ` snd ` set calls'" using calls'(3) by simp
  moreover have "sorted_wrt (\<lambda>r q. fst r + wait \<le> fst q) (tr_runs s @ [(t, Some (snd (last calls')))])"
    using inv(6) far by (auto simp: sorted_wrt_append)
  ultimately show ?thesis using inv(1) assms(2) calls'(1) prev by (auto simp: th_inv_def runs)
qed

lemma th_inv_call:
  assumes inv: "th_inv wait opts now calls s" and t: "now \<le> t" and w: "0 < wait"
  shows "th_inv wait opts t (calls @ [(t, a)]) (throttle_call wait opts t a s)"
proof -
  note d = th_invD [OF inv]
  have calls': "\<forall>(c, b)\<in>set (calls @ [(t, a)]). c \<le> t" "snd ` set calls \<subseteq> snd ` set (calls @ [(t, a)])" "calls @ [(t, a)] \<noteq> []"
    using d(5) t by force+
  have runs': "\<forall>(u, b)\<in>set (tr_runs s). u \<le> t \<and> b \<in> Some ` snd ` set (calls @ [(t, a)])"
    using d(4) t calls'(2) by fastforce
  define prev where "prev = (if tr_previous s = 0 \<and> \<not> th_leading opts then t else tr_previous s)"
  have p: "prev \<le> t" "0 \<le> prev" "\<And>u b. prev \<noteq> 0 \<Longrightarrow> (u, b) \<in> set (tr_runs s) \<Longrightarrow> u \<le> prev" "prev = 0 \<Longrightarrow> tr_runs s = [] \<and> th_leading opts"
    using d t by (auto simp: prev_def split: if_splits) force+
  show ?thesis
  proof (cases "wait - (t - prev) \<le> 0")
    case True
    then have "u + wait \<le> t" if "(u, b) \<in> set (tr_runs s)" for u b
      using p(3) [of u b] p(4) that by force
    then have "th_inv wait opts t (calls @ [(t, a)]) (throttle_run t (s\<lparr>tr_args := Some a, tr_timeout := None, tr_previous := t\<rparr>))"
      using calls' by (intro th_inv_run [OF inv t, where prev = t]) simp_all
    moreover have "throttle_call wait opts t a s = throttle_run t (s\<lparr>tr_args := Some a, tr_timeout := None, tr_previous := t\<rparr>)"
      using True w by (auto simp: throttle_call_def Let_def prev_def)
    ultimately show ?thesis by simp
  next
    case False
    then have call: "throttle_call wait opts t a s =
        (if tr_timeout s = None \<and> th_trailing opts then s\<lparr>tr_previous := prev, tr_args := Some a, tr_timeout := Some (prev + wait)\<rparr>
         else s\<lparr>tr_previous := prev, tr_args := Some a\<rparr>)"
      using p(1) by (auto simp: throttle_call_def Let_def prev_def)
    have keep: "prev = tr_previous s" if "tr_timeout s = Some due" for due using d(8) that by (auto simp: prev_def)
    have pos: "prev \<noteq> 0 \<or> (tr_runs s = [] \<and> th_leading opts)" using p(4) by blast
    show ?thesis
      unfolding th_inv_def call
      using d(1,2,6,9) t w p(1,2,3) calls'(1) runs' keep pos
      by (auto split: option.splits if_splits)
  qed
qed

lemma th_inv_fire:
  assumes inv: "th_inv wait opts now calls s" and t: "now \<le> t" and due: "tr_timeout s = Some due" "due \<le> t" and w: "0 < wait"
  shows "th_inv wait opts t calls (throttle_later opts t s)"
proof -
  note d = th_invD [OF inv]
  have p: "calls \<noteq> []" "due = tr_previous s + wait" "tr_args s = Some (snd (last calls))"
    using d(9) [OF due(1)] by auto
  have "tr_runs s \<noteq> [] \<Longrightarrow> tr_previous s \<noteq> 0" using d(8) due(1) by (auto split: if_splits)
  then have "u + wait \<le> t" if "(u, b) \<in> set (tr_runs s)" for u b
    using d(7) [OF _ that] that p(2) due(2) by force
  moreover have "\<forall>(c, a)\<in>set calls. c \<le> t" using d(5) t by force
  ultimately show ?thesis
    unfolding throttle_later_def using p(1,3)
    by (intro th_inv_run [OF inv t, where prev = "if \<not> th_leading opts then 0 else t"]) auto
qed

lemma throttled_inv: "throttled wait opts now calls s \<Longrightarrow> 0 < wait \<Longrightarrow> th_inv wait opts now calls s"
proof (induction rule: throttled.induct)
  case (start now)
  then show ?case by (simp add: th_inv_def new_throttled_def)
qed (simp_all add: th_inv_call th_inv_fire)

text \<open>C20: A throttled function runs with the arguments of calls, and never twice within \<open>wait\<close>, whatever the
  options; and unless running on the trailing edge is switched off, after the last call either it has run
  for it or a timer is set that will, at most \<open>wait\<close> after the call.\<close>

theorem throttle_spaced:
  assumes "throttled wait opts now calls s" "0 < wait"
  shows "sorted_wrt (\<lambda>r q. fst r + wait \<le> fst q) (tr_runs s)
    \<and> (\<forall>(t, a)\<in>set (tr_runs s). a \<in> Some ` snd ` set calls)
    \<and> (th_trailing opts \<and> calls \<noteq> [] \<longrightarrow>
        (case tr_timeout s of
           Some due \<Rightarrow> tr_args s = Some (snd (last calls)) \<and> due \<le> fst (last calls) + wait
         | None \<Rightarrow> tr_runs s \<noteq> [] \<and> snd (last (tr_runs s)) = Some (snd (last calls))))"
proof -
  note inv = throttled_inv [OF assms]
  show ?thesis using th_invD(4,6,9,10) [OF inv] by (auto split: option.split)
qed

definition both_edges :: throttle_options where
  "both_edges = \<lparr>th_leading = True, th_trailing = True\<rparr>"

definition throttled_example :: "nat throttler" where
  "throttled_example =
     throttle_later both_edges 1100 (throttle_call 100 both_edges 1050 3 (throttle_call 100 both_edges 1020 2
       (throttle_call 100 both_edges 1000 1 new_throttled)))"

lemma throttled_example_reachable: "throttled 100 both_edges 1100 [(1000, 1), (1020, 2), (1050, 3)] throttled_example"
proof -
  have "throttled 100 both_edges 1100 ((([] @ [(1000, 1)]) @ [(1020, 2)]) @ [(1050, 3)]) throttled_example"
    unfolding throttled_example_def
    by (rule throttled.fire [where due = 1100 and now = 1050],
        (rule throttled.call [where now = 1020] throttled.call [where now = 1000] throttled.start | simp)+)
       (simp_all add: throttle_call_def throttle_run_def new_throttled_def both_edges_def Let_def)
  then show ?thesis by simp
qed

theorem throttle_spaced_witness:
  "tr_runs throttled_example = [(1000, Some 1), (1100, Some 3)]
   \<and> sorted_wrt (\<lambda>r q. fst r + 100 \<le> fst q) (tr_runs throttled_example)"
proof
  show "tr_runs throttled_example = [(1000, Some 1), (1100, Some 3)]"
    by (simp add: throttled_example_def throttle_later_def throttle_call_def throttle_run_def new_throttled_def both_edges_def Let_def)
  show "sorted_wrt (\<lambda>r q. fst r + 100 \<le> fst q) (tr_runs throttled_example)"
    using throttle_spaced [OF throttled_example_reachable] by simp
qed

text \<open>However a list of calls comes, a function wrapped by \<open>before\<close> runs for the first \<open>n - 1\<close> of them and
  its last result is given for all the others; \<open>once\<close> gives the first result for every call; and a
  function wrapped by \<open>after\<close> gives nothing for the first \<open>n - 1\<close> calls and runs for the others.\<close>

theorem counted_calls:
  "(\<exists>s. exec (before_call f) argss (new_before n, w) =
      (let (rs, w') = exec f (take (nat (n - 1)) argss) w
       in (map Some rs @ replicate (length argss - length rs) (memo_after None rs), s, w')))
   \<and> (\<exists>s. exec (before_call f) (args # argss) (new_once, w) =
      (let (r, w') = f args w in (replicate (length (args # argss)) (Some r), s, w')))
   \<and> (\<exists>m. exec (after_fn_call f) argss (n, w) =
      (let (rs, w') = exec f (drop (nat (n - 1)) argss) w
       in (replicate (length argss - length rs) None @ map Some rs, m, w')))"
proof (intro conjI)
  obtain rs w' where r: "exec f (take (nat (n - 1)) argss) w = (rs, w')" by fastforce
  then show "\<exists>s. exec (before_call f) argss (new_before n, w) =
      (let (rs, w') = exec f (take (nat (n - 1)) argss) w
       in (map Some rs @ replicate (length argss - length rs) (memo_after None rs), s, w'))"
    using before_calls [of f "new_before n" argss w rs w'] by (simp add: new_before_def)
  obtain q v where q: "f args w = (q, v)" by fastforce
  then have "exec f (take (nat (bf_times new_once - 1)) (args # argss)) w = ([q], v)"
    by (simp add: new_once_def new_before_def)
  from before_calls [OF this] show "\<exists>s. exec (before_call f) (args # argss) (new_once, w) =
      (let (r, w') = f args w in (replicate (length (args # argss)) (Some r), s, w'))"
    by (simp add: q memo_after_def)
  obtain ps u where p: "exec f (drop (nat (n - 1)) argss) w = (ps, u)" by fastforce
  then show "\<exists>m. exec (after_fn_call f) argss (n, w) =
      (let (rs, w') = exec f (drop (nat (n - 1)) argss) w
       in (replicate (length argss - length rs) None @ map Some rs, m, w'))"
    using after_calls [OF p] by simp
qed

end
