(* ===== verification/Backbone_Sync.thy ===== *)
theory Backbone_Sync
  imports Backbone_Events Jquery_Ajax
begin

text \<open>
  How a model of backbone.js (\<open>htrace-webapp/src/main/web/lib/backbone-1.1.2.js\<close>) is fetched, saved and
  destroyed: \<open>fetch\<close>, \<open>save\<close>, \<open>destroy\<close>, \<open>url\<close>, \<open>isNew\<close> and \<open>_validate\<close> of \<open>Model\<close>, and the request that
  \<open>Backbone.sync\<close> makes. The answers come at any later time and in any order. The methods \<open>validate\<close> and
  the address of the resource are parameters; \<open>parse\<close> is that of backbone, an answer is an object or \<open>null\<close>,
  and the callbacks of the events do not change the model themselves (what they could do is in
  \<open>Backbone_Events\<close>). The text of JSON is left out: the data of a request are the attributes.
\<close>

section \<open>Requests\<close>

datatype sync_method = Create | Update | Patch | Delete | Read

fun methodMap :: "sync_method \<Rightarrow> string" where
  "methodMap Create = ''POST''"
| "methodMap Update = ''PUT''"
| "methodMap Patch = ''PATCH''"
| "methodMap Delete = ''DELETE''"
| "methodMap Read = ''GET''"

text \<open>With \<open>emulateJSON\<close> the data is a form, with the fields \<open>model\<close> and \<open>_method\<close>.\<close>

datatype sync_data = NoData | Json attrs | Form "attrs option" "string option"

record sync_params =
  sp_type :: string
  sp_url :: string
  sp_contentType :: "string option"
  sp_data :: sync_data
  sp_processData :: bool
  sp_override :: "string option"          \<comment> \<open>the header \<open>X-HTTP-Method-Override\<close>\<close>

definition writes :: "sync_method \<Rightarrow> bool" where
  "writes method \<longleftrightarrow> method = Create \<or> method = Update \<or> method = Patch"

definition sync_params_of :: "bool \<Rightarrow> bool \<Rightarrow> sync_method \<Rightarrow> string \<Rightarrow> attrs \<Rightarrow> sync_params" where
  "sync_params_of emulateHTTP emulateJSON method url dat =
     (let type = methodMap method;
          json = (if writes method then Some dat else None);
          contentType = (if emulateJSON then Some ''application/x-www-form-urlencoded''
                         else if writes method then Some ''application/json'' else None);
          emulated = (emulateHTTP \<and> (type = ''PUT'' \<or> type = ''DELETE'' \<or> type = ''PATCH''));
          sent = (if emulated then ''POST'' else type)
      in \<lparr>sp_type = sent, sp_url = url, sp_contentType = contentType,
          sp_data = (if emulateJSON then Form json (if emulated then Some type else None)
                     else (case json of None \<Rightarrow> NoData | Some d \<Rightarrow> Json d)),
          sp_processData = (sent = ''GET'' \<or> emulateJSON),
          sp_override = (if emulated then Some type else None)\<rparr>)"

section \<open>The model\<close>

datatype pending_sync = PendingFetch | PendingSave "attrs option" bool nat | PendingDestroy bool

text \<open>
  \<open>sy_id\<close> is the property \<open>id\<close>, which \<open>set\<close> keeps beside the attributes; \<open>sy_collected\<close> says whether the model
  is in its collection, whose address it only knows as long as it is. \<open>save\<close> keeps the object of the
  attributes that it found, to put it back later: \<open>sy_objects\<close> are the objects that were the attributes at
  some time, and \<open>sy_current\<close> is the one that is now, whose contents are in \<open>sy_model\<close>.
\<close>

record synced =
  sy_model :: model
  sy_objects :: "attrs list"
  sy_current :: nat
  sy_id :: jsval
  sy_urlRoot :: "string option"
  sy_collectionUrl :: "string option"
  sy_collected :: bool
  sy_validationError :: "string option"
  sy_pending :: "pending_sync list"
  sy_sent :: "sync_params list"
  sy_events :: "string list"

definition tell :: "string list \<Rightarrow> synced \<Rightarrow> synced" where
  "tell es s = s\<lparr>sy_events := sy_events s @ es\<rparr>"

definition attributes :: "synced \<Rightarrow> attrs" where
  "attributes s = md_attributes (sy_model s)"

definition extend_attrs :: "attrs \<Rightarrow> attrs \<Rightarrow> attrs" where
  "extend_attrs as bs = fold (\<lambda>(k, v). set_property k v) bs as"

definition idAttribute :: string where
  "idAttribute = ''id''"

definition is_new :: "attrs \<Rightarrow> bool" where
  "is_new as = null_or_undefined (get_property as idAttribute)"

text \<open>\<open>_validate\<close>; \<open>validate\<close> gives \<open>None\<close> when all is well.\<close>

definition validate_attrs :: "(attrs \<Rightarrow> string option) \<Rightarrow> attrs option \<Rightarrow> synced \<Rightarrow> bool \<times> synced" where
  "validate_attrs validate as s =
     (let error = validate (extend_attrs (attributes s) (case as of None \<Rightarrow> [] | Some bs \<Rightarrow> bs));
          s = s\<lparr>sy_validationError := error\<rparr>
      in case error of None \<Rightarrow> (True, s) | Some e \<Rightarrow> (False, tell [''invalid''] s))"

text \<open>\<open>set\<close> when no \<open>set\<close> is under way, with its events; \<open>check\<close> is the option \<open>validate\<close>.\<close>

definition sync_set :: "(attrs \<Rightarrow> string option) \<Rightarrow> bool \<Rightarrow> attrs \<Rightarrow> synced \<Rightarrow> bool \<times> synced" where
  "sync_set validate check as s =
     (let (valid, s) = (if check then validate_attrs validate (Some as) s else (True, s))
      in if \<not> valid then (False, s)
         else
           (let s = (case map_of as idAttribute of None \<Rightarrow> s | Some v \<Rightarrow> s\<lparr>sy_id := v\<rparr>);
                (changes, m) = set_attrs as \<lparr>so_unset = False, so_silent = False\<rparr> (sy_model s)
            in (True, tell (map ((@) ''change:'') changes @ (if changes = [] then [] else [''change'']))
                        (s\<lparr>sy_model := m\<lparr>md_changing := False, md_pending := None\<rparr>\<rparr>))))"

section \<open>Addresses\<close>

definition url_error :: string where
  "url_error = ''A \"url\" property or function must be specified''"

fun first_url :: "string option list \<Rightarrow> string option" where
  "first_url [] = None"
| "first_url (None # us) = first_url us"
| "first_url (Some u # us) = (if u = [] then first_url us else Some u)"

definition url_base :: "synced \<Rightarrow> string option" where
  "url_base s = first_url [sy_urlRoot s, if sy_collected s then sy_collectionUrl s else None]"

definition with_slash :: "string \<Rightarrow> string" where
  "with_slash base = (if base \<noteq> [] \<and> last base \<noteq> CHR ''/'' then base @ ''/'' else base)"

text \<open>\<open>url\<close>: whether the model is new is read from the attributes, but its id from the property.\<close>

definition model_url :: "(jsval \<Rightarrow> string) \<Rightarrow> string option \<Rightarrow> attrs \<Rightarrow> jsval \<Rightarrow> string + string" where
  "model_url show base as ident =
     (case base of
        None \<Rightarrow> Inl url_error
      | Some b \<Rightarrow>
          if is_new as then Inr b
          else Inr (with_slash b @ encodeURIComponent (show ident)))"

section \<open>Operations\<close>

text \<open>\<open>sync\<close>; \<open>dat\<close> is what is sent.\<close>

definition sync_request ::
  "(jsval \<Rightarrow> string) \<Rightarrow> sync_method \<Rightarrow> attrs \<Rightarrow> pending_sync \<Rightarrow> synced \<Rightarrow> (string + unit) \<times> synced" where
  "sync_request show method dat pending s =
     (case model_url show (url_base s) (attributes s) (sy_id s) of
        Inl e \<Rightarrow> (Inl e, s)
      | Inr url \<Rightarrow>
          (Inr (), tell [''request'']
             (s\<lparr>sy_sent := sy_sent s @ [sync_params_of False False method url dat],
                sy_pending := sy_pending s @ [pending]\<rparr>)))"

definition fetch_model :: "(jsval \<Rightarrow> string) \<Rightarrow> synced \<Rightarrow> (string + unit) \<times> synced" where
  "fetch_model show s = sync_request show Read [] PendingFetch s"

definition save_method :: "bool \<Rightarrow> attrs \<Rightarrow> sync_method" where
  "save_method patch as = (if is_new as then Create else if patch then Patch else Update)"

text \<open>What the request sends, and the check before it.\<close>

definition save_data :: "sync_method \<Rightarrow> attrs option \<Rightarrow> attrs \<Rightarrow> attrs" where
  "save_data method as current = (case as of Some bs \<Rightarrow> if method = Patch then bs else current | None \<Rightarrow> current)"

definition before_save ::
  "(attrs \<Rightarrow> string option) \<Rightarrow> attrs option \<Rightarrow> bool \<Rightarrow> synced \<Rightarrow> bool \<times> synced" where
  "before_save validate as wait s =
     (case as of
        Some bs \<Rightarrow> if \<not> wait then sync_set validate True bs s else validate_attrs validate as s
      | None \<Rightarrow> validate_attrs validate as s)"

text \<open>\<open>this.attributes = ...\<close>: another object, which is there already or is new.\<close>

definition objects_now :: "synced \<Rightarrow> attrs list" where
  "objects_now s = (sy_objects s)[sy_current s := attributes s]"

definition use_attributes :: "nat \<Rightarrow> synced \<Rightarrow> synced" where
  "use_attributes i s =
     s\<lparr>sy_objects := objects_now s, sy_current := i, sy_model := (sy_model s)\<lparr>md_attributes := objects_now s ! i\<rparr>\<rparr>"

definition new_attributes :: "attrs \<Rightarrow> synced \<Rightarrow> synced" where
  "new_attributes as s = use_attributes (length (sy_objects s)) (s\<lparr>sy_objects := sy_objects s @ [as]\<rparr>)"

definition during_save :: "attrs option \<Rightarrow> bool \<Rightarrow> synced \<Rightarrow> synced" where
  "during_save as wait s =
     (case as of Some bs \<Rightarrow> if wait then new_attributes (extend_attrs (attributes s) bs) s else s | None \<Rightarrow> s)"

definition after_save :: "attrs option \<Rightarrow> bool \<Rightarrow> nat \<Rightarrow> synced \<Rightarrow> synced" where
  "after_save as wait i s = (if as \<noteq> None \<and> wait then use_attributes i s else s)"

text \<open>
  \<open>save\<close>: the result is an exception, or whether the model was valid. With \<open>wait\<close> the attributes are there
  only while the request is made, and stay when that raises an exception.
\<close>

definition save_model ::
  "(attrs \<Rightarrow> string option) \<Rightarrow> (jsval \<Rightarrow> string) \<Rightarrow> attrs option \<Rightarrow> bool \<Rightarrow> bool \<Rightarrow> synced \<Rightarrow> (string + bool) \<times> synced" where
  "save_model validate show as wait patch s =
     (let (valid, s) = before_save validate as wait s
      in if \<not> valid then (Inr False, s)
         else
           (let i = sy_current s; s = during_save as wait s; method = save_method patch (attributes s)
            in case sync_request show method (save_data method as (attributes s)) (PendingSave as wait i) s of
                 (Inl e, s) \<Rightarrow> (Inl e, s)
               | (Inr u, s) \<Rightarrow> (Inr True, after_save as wait i s)))"

definition leave_collection :: "synced \<Rightarrow> synced" where
  "leave_collection s = tell [''destroy''] (s\<lparr>sy_collected := False\<rparr>)"

definition destroy_model :: "(jsval \<Rightarrow> string) \<Rightarrow> bool \<Rightarrow> synced \<Rightarrow> (string + bool) \<times> synced" where
  "destroy_model show wait s =
     (if is_new (attributes s) then (Inr False, leave_collection s)
      else
        (case sync_request show Delete [] (PendingDestroy wait) s of
           (Inl e, s) \<Rightarrow> (Inl e, s)
         | (Inr u, s) \<Rightarrow> (Inr True, if \<not> wait then leave_collection s else s)))"

text \<open>An answer; \<open>None\<close> is \<open>null\<close>. What is pending is numbered in the order of the requests.\<close>

definition answer_success :: "(attrs \<Rightarrow> string option) \<Rightarrow> pending_sync \<Rightarrow> attrs option \<Rightarrow> synced \<Rightarrow> synced" where
  "answer_success validate pending resp s =
     (case pending of
        PendingFetch \<Rightarrow>
          tell [''sync''] (case resp of None \<Rightarrow> s | Some bs \<Rightarrow> snd (sync_set validate False bs s))
      | PendingSave as wait i \<Rightarrow>
          (let s = use_attributes i s;
               serverAttrs = (if wait then Some (extend_attrs (case as of None \<Rightarrow> [] | Some bs \<Rightarrow> bs)
                                                   (case resp of None \<Rightarrow> [] | Some bs \<Rightarrow> bs))
                              else resp)
           in case serverAttrs of
                None \<Rightarrow> tell [''sync''] s
              | Some bs \<Rightarrow>
                  (let (valid, s) = sync_set validate True bs s
                   in if valid then tell [''sync''] s else s))
      | PendingDestroy wait \<Rightarrow>
          (let s = (if wait \<or> is_new (attributes s) then leave_collection s else s)
           in if \<not> is_new (attributes s) then tell [''sync''] s else s))"

datatype sync_step =
    Fetch
  | Save "attrs option" bool bool
  | Destroy bool
  | Answer nat "attrs option"
  | Refuse nat
  | SetModel attrs bool

definition drop_pending :: "nat \<Rightarrow> synced \<Rightarrow> synced" where
  "drop_pending i s = s\<lparr>sy_pending := take i (sy_pending s) @ drop (Suc i) (sy_pending s)\<rparr>"

fun sync_step_of :: "(attrs \<Rightarrow> string option) \<Rightarrow> (jsval \<Rightarrow> string) \<Rightarrow> sync_step \<Rightarrow> synced \<Rightarrow> synced" where
  "sync_step_of validate show Fetch s = snd (fetch_model show s)"
| "sync_step_of validate show (Save as wait patch) s = snd (save_model validate show as wait patch s)"
| "sync_step_of validate show (Destroy wait) s = snd (destroy_model show wait s)"
| "sync_step_of validate show (Answer i resp) s =
     (if i < length (sy_pending s)
      then answer_success validate (sy_pending s ! i) resp (drop_pending i s) else s)"
| "sync_step_of validate show (Refuse i) s =
     (if i < length (sy_pending s) then tell [''error''] (drop_pending i s) else s)"
| "sync_step_of validate show (SetModel as check) s = snd (sync_set validate check as s)"

end
