(* ===== verification/Sync_Props.thy ===== *)
theory Sync_Props
  imports Backbone_Sync
begin

text \<open>
  What \<open>Backbone_Sync\<close> keeps: a model that is only changed by validated operations is valid at any time,
  and so is what is sent for it; what \<open>save\<close> with the option \<open>wait\<close> does; and the address that it sends to
  when it gives the model its id.
\<close>

lemma extend_attrs_Cons [simp]: "extend_attrs as ((k, v) # bs) = extend_attrs (set_property k v as) bs"
  by (simp add: extend_attrs_def)

lemma extend_attrs_Nil [simp]: "extend_attrs as [] = as"
  by (simp add: extend_attrs_def)

lemma fold_set_attr_attributes:
  "md_attributes (snd (fold (set_attr False) as (cs, m))) = extend_attrs (md_attributes m) as"
proof (induction as arbitrary: cs m)
  case (Cons kv as)
  then show ?case by (cases kv) (simp add: extend_def set_attr_def Let_def)
qed (simp add: extend_def)

lemma set_attrs_attributes:
  "md_attributes (snd (set_attrs as \<lparr>so_unset = False, so_silent = silent\<rparr> m)) = extend_attrs (md_attributes m) as"
proof -
  have "md_attributes (begin_set m) = md_attributes m" by (simp add: begin_set_def)
  then show ?thesis
    using fold_set_attr_attributes [of as "[]" "begin_set m"]
    by (auto simp: set_attrs_def Let_def split: prod.split)
qed

lemma tell_fields [simp]:
  "attributes (tell es s) = attributes s" "sy_sent (tell es s) = sy_sent s" "sy_pending (tell es s) = sy_pending s"
  "sy_id (tell es s) = sy_id s" "url_base (tell es s) = url_base s" "sy_model (tell es s) = sy_model s"
  "sy_objects (tell es s) = sy_objects s" "sy_current (tell es s) = sy_current s"
  by (simp_all add: tell_def attributes_def url_base_def)

lemma validate_fields [simp]:
  "attributes (snd (validate_attrs v as s)) = attributes s" "sy_sent (snd (validate_attrs v as s)) = sy_sent s"
  "sy_pending (snd (validate_attrs v as s)) = sy_pending s" "sy_id (snd (validate_attrs v as s)) = sy_id s"
  "url_base (snd (validate_attrs v as s)) = url_base s"
  "sy_objects (snd (validate_attrs v as s)) = sy_objects s" "sy_current (snd (validate_attrs v as s)) = sy_current s"
  by (simp_all add: validate_attrs_def Let_def attributes_def url_base_def tell_def split: option.split)

lemma validate_result:
  "fst (validate_attrs v as s) \<longleftrightarrow> v (extend_attrs (attributes s) (case as of None \<Rightarrow> [] | Some bs \<Rightarrow> bs)) = None"
  by (simp add: validate_attrs_def Let_def split: option.split)

lemma sync_set_fields [simp]:
  "sy_sent (snd (sync_set v check as s)) = sy_sent s" "sy_pending (snd (sync_set v check as s)) = sy_pending s"
  "url_base (snd (sync_set v check as s)) = url_base s"
  "sy_objects (snd (sync_set v check as s)) = sy_objects s" "sy_current (snd (sync_set v check as s)) = sy_current s"
  by (auto simp: sync_set_def Let_def url_base_def tell_def validate_attrs_def split: prod.split option.split)

lemma sync_set_result:
  "fst (sync_set v check as s) \<longleftrightarrow> check \<longrightarrow> v (extend_attrs (attributes s) as) = None"
  using validate_result [of v "Some as" s] by (auto simp: sync_set_def Let_def split: prod.split)

lemma sync_set_attributes:
  "attributes (snd (sync_set v check as s)) =
   (if check \<longrightarrow> v (extend_attrs (attributes s) as) = None then extend_attrs (attributes s) as else attributes s)"
proof -
  define s1 where "s1 = (if check then snd (validate_attrs v (Some as) s) else s)"
  have a: "attributes s1 = attributes s" by (simp add: s1_def)
  define s2 where "s2 = (case map_of as idAttribute of None \<Rightarrow> s1 | Some x \<Rightarrow> s1\<lparr>sy_id := x\<rparr>)"
  have m: "md_attributes (sy_model s2) = attributes s" using a by (simp add: s2_def attributes_def split: option.split)
  obtain cs m' where set: "set_attrs as \<lparr>so_unset = False, so_silent = False\<rparr> (sy_model s2) = (cs, m')" by fastforce
  have "md_attributes m' = extend_attrs (attributes s) as"
    using set_attrs_attributes [of as False "sy_model s2"] by (simp add: set m)
  then show ?thesis
    using validate_result [of v "Some as" s] a set
    by (auto simp: sync_set_def Let_def attributes_def s1_def s2_def tell_def split: prod.splits option.splits)
qed

lemma use_fields [simp]:
  "attributes (use_attributes i s) = objects_now s ! i" "sy_sent (use_attributes i s) = sy_sent s"
  "sy_pending (use_attributes i s) = sy_pending s" "url_base (use_attributes i s) = url_base s"
  "sy_id (use_attributes i s) = sy_id s" "sy_objects (use_attributes i s) = objects_now s" "sy_current (use_attributes i s) = i"
  by (simp_all add: use_attributes_def attributes_def url_base_def)

lemma new_fields [simp]:
  "sy_sent (new_attributes as s) = sy_sent s" "sy_pending (new_attributes as s) = sy_pending s"
  "url_base (new_attributes as s) = url_base s" "sy_id (new_attributes as s) = sy_id s"
  "sy_current (new_attributes as s) = length (sy_objects s)"
  by (simp_all add: new_attributes_def) (simp add: url_base_def)

lemma new_attributes_object:
  assumes "sy_current s < length (sy_objects s)"
  shows "attributes (new_attributes as s) = as" "sy_objects (new_attributes as s) = objects_now s @ [as]"
  using assms by (simp_all add: new_attributes_def) (simp_all add: objects_now_def attributes_def list_update_append nth_append)

lemma length_objects_now [simp]: "length (objects_now s) = length (sy_objects s)"
  by (simp add: objects_now_def)

lemma nth_objects_now:
  "i < length (sy_objects s) \<Longrightarrow> objects_now s ! i = (if i = sy_current s then attributes s else sy_objects s ! i)"
  by (simp add: objects_now_def nth_list_update)

lemma leave_fields [simp]:
  "attributes (leave_collection s) = attributes s" "sy_sent (leave_collection s) = sy_sent s"
  "sy_pending (leave_collection s) = sy_pending s"
  "sy_objects (leave_collection s) = sy_objects s" "sy_current (leave_collection s) = sy_current s"
  by (simp_all add: leave_collection_def attributes_def tell_def)

lemma drop_pending_fields [simp]:
  "attributes (drop_pending i s) = attributes s" "sy_sent (drop_pending i s) = sy_sent s"
  "sy_pending (drop_pending i s) = take i (sy_pending s) @ drop (Suc i) (sy_pending s)"
  "sy_objects (drop_pending i s) = sy_objects s" "sy_current (drop_pending i s) = sy_current s"
  by (simp_all add: drop_pending_def attributes_def)

lemma sync_request_cases:
  obtains (fails) e where "sync_request show kind dat p s = (Inl e, s)" "model_url show (url_base s) (attributes s) (sy_id s) = Inl e"
  | (sends) url s' where "sync_request show kind dat p s = (Inr (), s')" "attributes s' = attributes s"
      "sy_pending s' = sy_pending s @ [p]" "model_url show (url_base s) (attributes s) (sy_id s) = Inr url"
      "sy_sent s' = sy_sent s @ [sync_params_of False False kind url dat]"
      "sy_objects s' = sy_objects s" "sy_current s' = sy_current s"
  by (cases "model_url show (url_base s) (attributes s) (sy_id s)") (auto simp: sync_request_def tell_def attributes_def)

section \<open>Valid at any time\<close>

text \<open>What is sent to be stored: the data of a request that creates or updates.\<close>

fun stored :: "sync_params \<Rightarrow> attrs option" where
  "stored p = (case sp_data p of Json d \<Rightarrow> if sp_type p = ''PATCH'' then None else Some d | _ \<Rightarrow> None)"

text \<open>An outstanding answer that keeps the state, and the invariant.\<close>

fun keeps :: "nat \<Rightarrow> pending_sync \<Rightarrow> bool" where
  "keeps n PendingFetch = False"
| "keeps n (PendingSave as wait i) = (i < n)"
| "keeps n (PendingDestroy wait) = True"

lemma keeps_mono: "keeps n p \<Longrightarrow> n \<le> m \<Longrightarrow> keeps m p"
  by (cases p) auto

definition sound :: "(attrs \<Rightarrow> string option) \<Rightarrow> synced \<Rightarrow> bool" where
  "sound validate s \<longleftrightarrow>
     validate (attributes s) = None
     \<and> sy_current s < length (sy_objects s)
     \<and> (\<forall>i<length (sy_objects s). i \<noteq> sy_current s \<longrightarrow> validate (sy_objects s ! i) = None)
     \<and> (\<forall>p\<in>set (sy_sent s). case stored p of None \<Rightarrow> True | Some d \<Rightarrow> validate d = None)
     \<and> (\<forall>p\<in>set (sy_pending s). keeps (length (sy_objects s)) p)"

text \<open>The steps that do not pass by the validation: fetching, and setting without the option.\<close>

fun validating :: "sync_step \<Rightarrow> synced \<Rightarrow> bool" where
  "validating Fetch s = False"
| "validating (SetModel as check) s = check"
| "validating e s = True"

lemma sound_tell [simp]: "sound validate (tell es s) = sound validate s"
  by (simp add: sound_def)

lemma sound_leave [simp]: "sound validate (leave_collection s) = sound validate s"
  by (simp add: sound_def)

lemma sound_set: "sound validate s \<Longrightarrow> sound validate (snd (sync_set validate True as s))"
  by (simp add: sound_def sync_set_attributes)

lemma sound_validate: "sound validate s \<Longrightarrow> sound validate (snd (validate_attrs validate as s))"
  by (simp add: sound_def)

lemma sound_drop: "sound validate s \<Longrightarrow> sound validate (drop_pending i s)"
  by (auto simp: sound_def dest: in_set_takeD in_set_dropD)

lemma sound_use: "sound validate s \<Longrightarrow> i < length (sy_objects s) \<Longrightarrow> sound validate (use_attributes i s)"
  by (simp add: sound_def nth_objects_now)

lemma sound_new: "sound validate s \<Longrightarrow> validate as = None \<Longrightarrow> sound validate (new_attributes as s)"
  by (auto simp: sound_def new_attributes_object nth_append nth_objects_now intro: keeps_mono)

lemma stored_params: "stored (sync_params_of False False kind url dat) =
    (if kind = Create \<or> kind = Update then Some dat else None)"
  by (cases kind) (simp_all add: sync_params_of_def writes_def Let_def)

lemma sound_request:
  assumes "sound validate s" "keeps (length (sy_objects s)) p" "kind = Create \<or> kind = Update \<Longrightarrow> validate dat = None"
  shows "sound validate (snd (sync_request show kind dat p s))"
  using assms
  by (cases rule: sync_request_cases [of "show" kind dat p s])
    (auto simp: sound_def stored_params simp del: stored.simps)

lemma sound_during_save:
  assumes "before_save validate as wait s = (True, s1)" "sound validate s1"
  shows "sound validate (during_save as wait s1)"
proof (cases "as \<noteq> None \<and> wait")
  case True
  then obtain bs where bs: "as = Some bs" "wait" by auto
  then have r: "validate_attrs validate (Some bs) s = (True, s1)" using assms by (simp add: before_save_def)
  have "validate (extend_attrs (attributes s) bs) = None" using validate_result [of validate "Some bs" s] r by simp
  moreover have "attributes s1 = attributes s" using validate_fields(1) [of validate "Some bs" s] r by simp
  ultimately show ?thesis using assms(2) by (simp add: during_save_def bs sound_new)
qed (use assms(2) in \<open>auto simp: during_save_def split: option.split\<close>)

lemma during_save_objects:
  assumes "i < length (sy_objects s)" "sy_current s < length (sy_objects s)"
  shows "i < length (sy_objects (during_save as wait s))"
  using assms by (simp add: during_save_def new_attributes_object split: option.split)

lemma sound_before_save: "sound validate s \<Longrightarrow> sound validate (snd (before_save validate as wait s))"
  by (simp add: before_save_def sound_set sound_validate split: option.split)

lemma request_objects: "sy_objects (snd (sync_request show kind dat p s)) = sy_objects s"
  by (cases rule: sync_request_cases [of "show" kind dat p s]) simp_all

lemma sound_save:
  assumes "sound validate s"
  shows "sound validate (snd (save_model validate show as wait patch s))"
proof -
  obtain valid s1 where r: "before_save validate as wait s = (valid, s1)" by fastforce
  have s1: "sound validate s1"
    using sound_before_save [OF assms, of "as" wait] by (simp add: r)
  define s2 where "s2 = during_save as wait s1"
  define kind where "kind = save_method patch (attributes s2)"
  define q where "q = sync_request show kind (save_data kind as (attributes s2)) (PendingSave as wait (sy_current s1)) s2"
  show ?thesis
  proof (cases valid)
    case False
    then show ?thesis using s1 by (simp add: save_model_def r)
  next
    case True
    have s2: "sound validate s2" using sound_during_save [of validate "as" wait s s1] r True s1 by (simp add: s2_def)
    have i: "sy_current s1 < length (sy_objects s2)"
      using s1 unfolding s2_def by (intro during_save_objects) (simp_all add: sound_def)
    have "kind = Create \<or> kind = Update \<Longrightarrow> save_data kind as (attributes s2) = attributes s2"
      by (auto simp: save_data_def split: option.split)
    then have q: "sound validate (snd q)"
      unfolding q_def using s2 i by (intro sound_request) (auto simp: sound_def)
    have "sy_objects (snd q) = sy_objects s2" by (simp add: q_def request_objects)
    then have "sound validate (after_save as wait (sy_current s1) (snd q))" using q i by (simp add: after_save_def sound_use)
    moreover have "snd (save_model validate show as wait patch s)
        = (case q of (Inl e, s) \<Rightarrow> s | (Inr u, s) \<Rightarrow> after_save as wait (sy_current s1) s)"
      using True unfolding save_model_def r Let_def prod.case s2_def [symmetric] kind_def [symmetric] q_def [symmetric]
      by (simp split: prod.split sum.split)
    ultimately show ?thesis using q by (auto split: sum.split prod.split)
  qed
qed

lemma sound_destroy: "sound validate s \<Longrightarrow> sound validate (snd (destroy_model show wait s))"
  using sound_request [of validate s "PendingDestroy wait" Delete "[]" "show"]
  by (auto simp: destroy_model_def split: prod.split sum.split)

lemma sound_answer:
  assumes "sound validate s" "keeps (length (sy_objects s)) p"
  shows "sound validate (answer_success validate p resp s)"
proof (cases p)
  case PendingFetch
  then show ?thesis using assms(2) by simp
next
  case (PendingSave as wait i)
  define s1 where "s1 = use_attributes i s"
  have s1: "sound validate s1" unfolding s1_def using assms PendingSave by (intro sound_use) simp_all
  have "sound validate (case bs of None \<Rightarrow> tell [''sync''] s1
      | Some bs \<Rightarrow> (case sync_set validate True bs s1 of (valid, s) \<Rightarrow> if valid then tell [''sync''] s else s))" for bs
    using sound_set [OF s1] s1 by (auto simp: Let_def case_prod_beta split: option.split)
  then show ?thesis unfolding PendingSave answer_success_def pending_sync.case Let_def s1_def .
qed (use assms in \<open>simp_all add: answer_success_def Let_def\<close>)

lemma sound_step:
  assumes "sound validate s" "validating e s"
  shows "sound validate (sync_step_of validate show e s)"
proof (cases e)
  case (Answer i resp)
  have "keeps (length (sy_objects s)) (sy_pending s ! i)" if "i < length (sy_pending s)"
    using assms(1) that nth_mem [OF that] by (metis sound_def)
  then show ?thesis using assms Answer by (simp add: sound_answer sound_drop)
qed (use assms in \<open>simp_all add: sound_save sound_destroy sound_set sound_drop\<close>)

interpretation saving: event_machine "sync_step_of validate display" "sound validate" validating for validate display
  by unfold_locales (rule sound_step)

text \<open>C19: A model that is valid at the beginning, and is only changed by \<open>save\<close>, by \<open>set\<close> with validation and by
  \<open>destroy\<close>, is valid at any time, and whatever was sent to be created or updated is valid, in whatever
  order the answers of the server come and whatever they say.\<close>

theorem saved_models_valid:
  assumes "allowed_run validating (sync_step_of validate display) es s"
    and "validate (attributes s) = None" "sy_objects s = [as]" "sy_current s = 0" "sy_sent s = []" "sy_pending s = []"
    and t_def: "t = fold (sync_step_of validate display) es s"
  shows "validate (attributes t) = None \<and> (\<forall>p d. p \<in> set (sy_sent t) \<and> stored p = Some d \<longrightarrow> validate d = None)"
proof -
  have "sound validate s" using assms(2-6) by (simp add: sound_def)
  then have "sound validate t" unfolding t_def using assms(1) by (rule saving.inv_run)
  then show ?thesis by (auto simp: sound_def split: option.splits)
qed

section \<open>Saving with \<open>wait\<close>\<close>

lemma save_wait_sends:
  assumes "validate (extend_attrs (attributes s) as) = None" "url_base s = Some b" "sy_current s < length (sy_objects s)"
  shows "\<exists>s1. save_model validate show (Some as) True False s = (Inr True, s1)
    \<and> attributes s1 = attributes s \<and> sy_pending s1 = sy_pending s @ [PendingSave (Some as) True (sy_current s)]
    \<and> sy_current s1 = sy_current s \<and> sy_current s < length (sy_objects s1)
    \<and> sy_sent s1 = sy_sent s @ [sync_params_of False False
        (if is_new (extend_attrs (attributes s) as) then Create else Update)
        (if is_new (extend_attrs (attributes s) as) then b else with_slash b @ encodeURIComponent (show (sy_id s)))
        (extend_attrs (attributes s) as)]"
proof -
  obtain s0 where v: "validate_attrs validate (Some as) s = (True, s0)"
    using validate_result [of validate "Some as" s] assms(1) by (cases "validate_attrs validate (Some as) s") simp
  have s0: "attributes s0 = attributes s" "sy_sent s0 = sy_sent s" "sy_pending s0 = sy_pending s" "sy_id s0 = sy_id s" "url_base s0 = Some b"
    "sy_objects s0 = sy_objects s" "sy_current s0 = sy_current s"
    using validate_fields [of validate "Some as" s] v assms(2) by simp_all
  define s2 where "s2 = new_attributes (extend_attrs (attributes s) as) s0"
  have s2: "attributes s2 = extend_attrs (attributes s) as" "sy_objects s2 = objects_now s0 @ [extend_attrs (attributes s) as]"
    "sy_current s2 = length (sy_objects s)" "url_base s2 = Some b" "sy_id s2 = sy_id s"
    "sy_sent s2 = sy_sent s" "sy_pending s2 = sy_pending s"
    using new_attributes_object [of s0 "extend_attrs (attributes s) as"] assms(3) by (simp_all add: s2_def s0)
  define kind where "kind = save_method False (attributes s2)"
  show ?thesis
  proof (cases rule: sync_request_cases [of "show" kind "attributes s2" "PendingSave (Some as) True (sy_current s)" s2])
    case (fails e)
    then show ?thesis by (simp add: model_url_def s2 split: if_splits)
  next
    case (sends url s3)
    have "save_model validate show (Some as) True False s = (Inr True, use_attributes (sy_current s) s3)"
      using sends(1) by (simp add: save_model_def before_save_def v during_save_def Let_def s0 s2_def [symmetric]
          save_data_def kind_def save_method_def after_save_def split: if_splits)
    moreover have "objects_now s3 ! sy_current s = attributes s" "sy_current s < length (sy_objects s3)"
      using assms(3) sends(6,7) by (simp_all add: nth_objects_now s2 nth_append s0)
    ultimately show ?thesis
      using sends(3-5) by (auto simp: s2 model_url_def kind_def save_method_def)
  qed
qed

text \<open>C21: \<open>save\<close> with \<open>wait\<close>: a valid model keeps its attributes until the answer, the request has the attributes
  that it would get, a refusal changes nothing, and a success gives it those of the answer over those that were
  saved, if that is valid.\<close>

theorem save_waits:
  assumes "validate (extend_attrs (attributes s) as) = None" "url_base s = Some b" "sy_current s < length (sy_objects s)"
    and s1_def: "s1 = sync_step_of validate display (Save (Some as) True False) s" and n_def: "n = length (sy_pending s)"
  shows "attributes s1 = attributes s
    \<and> sp_data (last (sy_sent s1)) = Json (extend_attrs (attributes s) as)
    \<and> attributes (sync_step_of validate display (Refuse n) s1) = attributes s
    \<and> attributes (sync_step_of validate display (Answer n resp) s1) =
        (let bs = extend_attrs as (case resp of None \<Rightarrow> [] | Some r \<Rightarrow> r)
         in if validate (extend_attrs (attributes s) bs) = None then extend_attrs (attributes s) bs else attributes s)"
proof -
  obtain s2 where s2: "save_model validate display (Some as) True False s = (Inr True, s2)" "attributes s2 = attributes s"
    "sy_pending s2 = sy_pending s @ [PendingSave (Some as) True (sy_current s)]"
    "sy_current s2 = sy_current s" "sy_current s < length (sy_objects s2)"
    "sp_data (last (sy_sent s2)) = Json (extend_attrs (attributes s) as)"
    using save_wait_sends [of validate s "as" b display, OF assms(1-3)] by (auto simp: sync_params_of_def writes_def Let_def)
  then have s1: "s1 = s2" by (simp add: s1_def)
  show ?thesis
    unfolding s1 n_def
    by (simp add: s2 answer_success_def Let_def sync_set_attributes sync_set_result nth_objects_now case_prod_beta)
qed

text \<open>C33: A new model whose id is given to \<open>save\<close> with \<open>wait\<close> is sent to the address of an old one, with the id
  that it has so far, which is undefined.\<close>

theorem save_wait_address:
  assumes "validate (extend_attrs (attributes s) as) = None" "url_base s = Some b"
    and "sy_current s < length (sy_objects s)" "sy_id s = VUndefined" "map_of (rev as) idAttribute = Some v" "\<not> null_or_undefined v"
  shows "sp_type (last (sy_sent (sync_step_of validate display (Save (Some as) True False) s))) = ''PUT''
    \<and> sp_url (last (sy_sent (sync_step_of validate display (Save (Some as) True False) s))) =
        with_slash b @ encodeURIComponent (display VUndefined)"
proof -
  have "map_of (extend_attrs as' bs) k = (case map_of (rev bs) k of None \<Rightarrow> map_of as' k | Some x \<Rightarrow> Some x)" for as' bs k
    by (induction bs arbitrary: as') (auto simp: map_add_def split: option.split)
  then have "\<not> is_new (extend_attrs (attributes s) as)" using assms(5,6) by (simp add: is_new_def get_property_def)
  then show ?thesis
    using save_wait_sends [of validate s "as" b display, OF assms(1-3)] assms(4) by (auto simp: sync_params_of_def Let_def)
qed

section \<open>Examples\<close>

definition named :: "attrs \<Rightarrow> string option" where
  "named as = (if get_property as ''name'' = VUndefined then Some ''a name is needed'' else None)"

fun shown :: "jsval \<Rightarrow> string" where
  "shown (VStr s) = s"
| "shown v = ''undefined''"

definition example_synced :: synced where
  "example_synced =
     \<lparr>sy_model = new_model [(''name'', VStr ''a'')], sy_objects = [[]], sy_current = 0, sy_id = VUndefined, sy_urlRoot = Some ''/items'', sy_collectionUrl = None,
      sy_collected = False, sy_validationError = None, sy_pending = [], sy_sent = [], sy_events = []\<rparr>"

definition example_saves :: "sync_step list" where
  "example_saves = [Save (Some [(''name'', VUndefined)]) False False, Save (Some [(''name'', VStr ''b'')]) True False,
     Answer 0 (Some [(''id'', VStr ''7'')]), Save None False False]"

lemma example_sync:
  "allowed_run validating (sync_step_of named shown) example_saves example_synced"
  "named (attributes example_synced) = None" "sy_objects example_synced = [[]]" "sy_current example_synced = 0"
  "sy_sent example_synced = []" "sy_pending example_synced = []"
  "attributes (fold (sync_step_of named shown) example_saves example_synced) = [(''name'', VStr ''b''), (''id'', VStr ''7'')]"
  "length (sy_sent (fold (sync_step_of named shown) example_saves example_synced)) = 2"
  "url_base example_synced = Some ''/items''" "sy_id example_synced = VUndefined"
  "named (extend_attrs (attributes example_synced) [(''id'', VStr ''7'')]) = None"
  "sy_current example_synced < length (sy_objects example_synced)"
  by code_simp+

theorem saved_models_valid_witness:
  "named [(''name'', VStr ''b''), (''id'', VStr ''7'')] = None"
  using saved_models_valid [OF example_sync(1-6) refl] unfolding example_sync(7) by blast

theorem save_waits_witness:
  "attributes (sync_step_of named shown (Refuse 0) (sync_step_of named shown (Save (Some [(''id'', VStr ''7'')]) True False) example_synced))
   = attributes example_synced"
  using save_waits [of named example_synced "[(''id'', VStr ''7'')]" "''/items''" _ shown _ None, OF example_sync(11,9,12) refl refl]
  unfolding example_sync(6) by simp

theorem save_wait_address_witness:
  "sp_url (last (sy_sent (sync_step_of named shown (Save (Some [(''id'', VStr ''7'')]) True False) example_synced))) = ''/items/undefined''"
proof -
  have "map_of (rev [(''id'', VStr ''7'')]) idAttribute = Some (VStr ''7'')" "\<not> null_or_undefined (VStr ''7'')" by code_simp+
  from save_wait_address [of named example_synced "[(''id'', VStr ''7'')]" "''/items''" _ shown, OF example_sync(11,9,12,10) this]
  have "sp_url (last (sy_sent (sync_step_of named shown (Save (Some [(''id'', VStr ''7'')]) True False) example_synced))) =
    with_slash ''/items'' @ encodeURIComponent (shown VUndefined)" by blast
  moreover have "with_slash ''/items'' @ encodeURIComponent (shown VUndefined) = ''/items/undefined''" by code_simp
  ultimately show ?thesis by simp
qed

end
