(* ===== verification/Sizzle.thy ===== *)
theory Sizzle
  imports Jquery_Ajax
begin

text \<open>
  The selectors of jQuery (Sizzle, in \<open>htrace-webapp/src/main/web/lib/jquery-2.1.4.js\<close>), where the browser does
  not do the work: the tokens of a selector are compiled to a matcher, which goes from an element to those
  that it is related to and remembers in the elements what it found; \<open>select\<close> looks for a set of elements to
  start with. The document is a list of nodes in document order, the first one being the document itself.
  Left out: the text of selectors (they are given as tokens, with names in which nothing is escaped), XML, and
  the positional pseudo classes; the other pseudo classes and the attributes are tests that are a parameter.
  A selector is compiled each time; the cache of compiled selectors gives the same matchers again.
\<close>

section \<open>The document\<close>

record dnode =
  dn_type :: nat
  dn_nodeName :: string
  dn_idAttr :: "string option"
  dn_className :: string
  dn_parent :: "nat option"
  dn_previous :: "nat option"

datatype axis = ParentNode | PreviousSibling

definition node_link :: "axis \<Rightarrow> dnode \<Rightarrow> nat option" where
  "node_link d n = (case d of ParentNode \<Rightarrow> dn_parent n | PreviousSibling \<Rightarrow> dn_previous n)"

text \<open>The nodes that \<open>elem = elem[dir]\<close> goes through; parents and previous siblings come earlier.\<close>

function node_path :: "dnode list \<Rightarrow> axis \<Rightarrow> nat \<Rightarrow> nat list" where
  "node_path doc d n =
     (case (if n < length doc then node_link d (doc ! n) else None) of
        None \<Rightarrow> []
      | Some m \<Rightarrow> if m < n then m # node_path doc d m else [])"
  by pat_completeness auto
termination
  by (relation "measure (\<lambda>(doc, d, n). n)") (auto split: if_splits)

declare node_path.simps [simp del]

definition is_element :: "dnode list \<Rightarrow> nat \<Rightarrow> bool" where
  "is_element doc n \<longleftrightarrow> n < length doc \<and> dn_type (doc ! n) = 1"

section \<open>Tokens\<close>

datatype relative = Child | Descendant | Adjacent | Sibling

fun rel_dir :: "relative \<Rightarrow> axis" where
  "rel_dir Child = ParentNode"
| "rel_dir Descendant = ParentNode"
| "rel_dir Adjacent = PreviousSibling"
| "rel_dir Sibling = PreviousSibling"

fun rel_first :: "relative \<Rightarrow> bool" where
  "rel_first Child = True"
| "rel_first Descendant = False"
| "rel_first Adjacent = True"
| "rel_first Sibling = False"

text \<open>\<open>Other k b\<close> is the test \<open>k\<close>; \<open>b\<close> says whether its text has a plus or a tilde in it.\<close>

datatype token = Rel relative | Tag string | Class string | Id string | Other nat bool

fun css_words :: "string \<Rightarrow> string list" where
  "css_words [] = [[]]"
| "css_words (c # cs) =
     (if c = CHR '' '' \<or> c = CHR 0x09 \<or> c = CHR 0x0A \<or> c = CHR 0x0C \<or> c = CHR 0x0D then [] # css_words cs
      else (case css_words cs of [] \<Rightarrow> [[c]] | w # ws \<Rightarrow> (c # w) # ws))"

definition tag_filter :: "dnode list \<Rightarrow> string \<Rightarrow> nat \<Rightarrow> bool" where
  "tag_filter doc tag n \<longleftrightarrow> tag = ''*'' \<or> lower (dn_nodeName (doc ! n)) = lower tag"

definition class_filter :: "dnode list \<Rightarrow> string \<Rightarrow> nat \<Rightarrow> bool" where
  "class_filter doc cls n \<longleftrightarrow> cls \<in> set (css_words (dn_className (doc ! n)))"

definition id_filter :: "dnode list \<Rightarrow> string \<Rightarrow> nat \<Rightarrow> bool" where
  "id_filter doc ident n \<longleftrightarrow> dn_idAttr (doc ! n) = Some ident"

fun token_filter :: "dnode list \<Rightarrow> (nat \<Rightarrow> nat \<Rightarrow> bool) \<Rightarrow> token \<Rightarrow> nat \<Rightarrow> bool" where
  "token_filter doc other (Rel r) n = True"
| "token_filter doc other (Tag t) n = tag_filter doc t n"
| "token_filter doc other (Class c) n = class_filter doc c n"
| "token_filter doc other (Id i) n = id_filter doc i n"
| "token_filter doc other (Other k b) n = other k n"

section \<open>Matchers\<close>

text \<open>
  The state: \<open>dirruns\<close>, \<open>done\<close>, the arrays \<open>[dirruns, doneName, result]\<close> that were made, and which of them
  each element refers to for each direction (\<open>elem[expando][dir]\<close>). An array is shared by all elements that
  one walk has visited. \<open>None\<close> is a result that is not there yet.
\<close>

record sizzle =
  sz_dirruns :: nat
  sz_done :: nat
  sz_caches :: "(nat \<times> nat \<times> bool option) list"
  sz_outer :: "nat \<Rightarrow> axis \<Rightarrow> nat option"

text \<open>The context and \<open>outermostContext\<close> (\<open>None\<close> when it is false).\<close>

type_synonym env = "nat \<times> nat option"

type_synonym matcher = "env \<Rightarrow> nat \<Rightarrow> sizzle \<Rightarrow> bool \<times> sizzle"

definition new_sizzle :: sizzle where
  "new_sizzle = \<lparr>sz_dirruns = 0, sz_done = 0, sz_caches = [], sz_outer = (\<lambda>e d. None)\<rparr>"

definition new_cache :: "nat \<Rightarrow> sizzle \<Rightarrow> nat \<times> sizzle" where
  "new_cache doneName s =
     (length (sz_caches s), s\<lparr>sz_caches := sz_caches s @ [(sz_dirruns s, doneName, None)]\<rparr>)"

definition set_result :: "nat \<Rightarrow> bool option \<Rightarrow> sizzle \<Rightarrow> sizzle" where
  "set_result c res s =
     s\<lparr>sz_caches := (sz_caches s)[c := (case sz_caches s ! c of (r, n, old) \<Rightarrow> (r, n, res))]\<rparr>"

definition set_outer :: "nat \<Rightarrow> axis \<Rightarrow> nat \<Rightarrow> sizzle \<Rightarrow> sizzle" where
  "set_outer e d c s = s\<lparr>sz_outer := (sz_outer s)(e := (sz_outer s e)(d := Some c))\<rparr>"

text \<open>The result that a walk with the name finds at an element.\<close>

definition old_result :: "nat \<Rightarrow> axis \<Rightarrow> nat \<Rightarrow> sizzle \<Rightarrow> bool option option" where
  "old_result e d doneName s =
     (case sz_outer s e d of
        None \<Rightarrow> None
      | Some c \<Rightarrow>
          (case sz_caches s ! c of
             (r, n, res) \<Rightarrow> if r = sz_dirruns s \<and> n = doneName then Some res else None))"

fun walk_first :: "(nat \<Rightarrow> bool) \<Rightarrow> matcher \<Rightarrow> env \<Rightarrow> nat list \<Rightarrow> sizzle \<Rightarrow> bool \<times> sizzle" where
  "walk_first visits matcher env [] s = (False, s)"
| "walk_first visits matcher env (e # es) s =
     (if visits e then matcher env e s else walk_first visits matcher env es s)"

fun walk_all :: "(nat \<Rightarrow> bool) \<Rightarrow> axis \<Rightarrow> nat \<Rightarrow> nat \<Rightarrow> matcher \<Rightarrow> env \<Rightarrow> nat list \<Rightarrow> sizzle \<Rightarrow> bool \<times> sizzle" where
  "walk_all visits d doneName cell matcher env [] s = (False, s)"
| "walk_all visits d doneName cell matcher env (e # es) s =
     (if \<not> visits e then walk_all visits d doneName cell matcher env es s
      else (case old_result e d doneName s of
              Some res \<Rightarrow> (res = Some True, set_result cell res s)
            | None \<Rightarrow>
                (let (b, s) = matcher env e (set_outer e d cell s);
                     s = set_result cell (Some b) s
                 in if b then (True, s) else walk_all visits d doneName cell matcher env es s)))"

definition visits :: "dnode list \<Rightarrow> relative \<Rightarrow> bool \<Rightarrow> nat \<Rightarrow> bool" where
  "visits doc r base n \<longleftrightarrow> is_element doc n \<or> (base \<and> rel_dir r = ParentNode)"

definition addCombinator :: "dnode list \<Rightarrow> matcher \<Rightarrow> relative \<Rightarrow> bool \<Rightarrow> nat \<Rightarrow> matcher" where
  "addCombinator doc matcher r base doneName env e s =
     (if rel_first r then walk_first (visits doc r base) matcher env (node_path doc (rel_dir r) e) s
      else
        (let (cell, s) = new_cache doneName s
         in walk_all (visits doc r base) (rel_dir r) doneName cell matcher env (node_path doc (rel_dir r) e) s))"

fun all_match :: "matcher list \<Rightarrow> matcher" where
  "all_match [] env e s = (True, s)"
| "all_match (m # ms) env e s = (let (b, s) = m env e s in if b then all_match ms env e s else (False, s))"

definition elementMatcher :: "matcher list \<Rightarrow> matcher" where
  "elementMatcher matchers = all_match (rev matchers)"

definition filter_matcher :: "(nat \<Rightarrow> bool) \<Rightarrow> matcher" where
  "filter_matcher f env e s = (f e, s)"

text \<open>The first matcher: the element can be reached from the context.\<close>

definition is_context :: matcher where
  "is_context env e s = (e = fst env, s)"

definition context_matcher :: "dnode list \<Rightarrow> relative option \<Rightarrow> nat \<Rightarrow> matcher" where
  "context_matcher doc leading doneName env e s =
     (if leading = None \<and> Some (fst env) \<noteq> snd env then (True, s)
      else addCombinator doc is_context (case leading of None \<Rightarrow> Descendant | Some r \<Rightarrow> r) True doneName env e s)"

fun leadingRelative :: "token list \<Rightarrow> relative option" where
  "leadingRelative (Rel r # ts) = Some r"
| "leadingRelative ts = None"

definition add_token ::
  "dnode list \<Rightarrow> (nat \<Rightarrow> nat \<Rightarrow> bool) \<Rightarrow> token \<Rightarrow> matcher list \<times> nat \<Rightarrow> matcher list \<times> nat" where
  "add_token doc other t x =
     (let (matchers, done_count) = x
      in case t of
           Rel r \<Rightarrow> ([addCombinator doc (elementMatcher matchers) r False done_count], done_count + 1)
         | _ \<Rightarrow> (matchers @ [filter_matcher (token_filter doc other t)], done_count))"

text \<open>Two names are taken for \<open>matchContext\<close> and \<open>matchAnyContext\<close>, which is for an array of contexts.\<close>

definition matcherFromTokens ::
  "dnode list \<Rightarrow> (nat \<Rightarrow> nat \<Rightarrow> bool) \<Rightarrow> token list \<Rightarrow> nat \<Rightarrow> matcher \<times> nat" where
  "matcherFromTokens doc other tokens done_count =
     (let leading = leadingRelative tokens;
          (matchers, done_count) = fold (add_token doc other) (if leading = None then tokens else tl tokens)
            ([context_matcher doc leading done_count], done_count + 2)
      in (elementMatcher matchers, done_count))"

section \<open>Running a matcher\<close>

fun some_match :: "matcher list \<Rightarrow> matcher" where
  "some_match [] env e s = (False, s)"
| "some_match (m # ms) env e s = (let (b, s) = m env e s in if b then (True, s) else some_match ms env e s)"

fun match_elements :: "matcher list \<Rightarrow> env \<Rightarrow> nat list \<Rightarrow> sizzle \<Rightarrow> nat list \<times> sizzle" where
  "match_elements matchers env [] s = ([], s)"
| "match_elements matchers env (e # es) s =
     (let (b, s) = some_match matchers env e s; (results, s) = match_elements matchers env es s
      in (if b then e # results else results, s))"

definition superMatcher :: "matcher list \<Rightarrow> env \<Rightarrow> nat list \<Rightarrow> sizzle \<Rightarrow> nat list \<times> sizzle" where
  "superMatcher matchers env elems s = match_elements matchers env elems (s\<lparr>sz_dirruns := sz_dirruns s + 1\<rparr>)"

text \<open>\<open>compile\<close>: the groups of a selector, from the last to the first.\<close>

definition compile_group ::
  "dnode list \<Rightarrow> (nat \<Rightarrow> nat \<Rightarrow> bool) \<Rightarrow> token list \<Rightarrow> matcher list \<times> nat \<Rightarrow> matcher list \<times> nat" where
  "compile_group doc other tokens x =
     (let (matchers, done_count) = x; (m, done_count) = matcherFromTokens doc other tokens done_count
      in (matchers @ [m], done_count))"

definition compile :: "dnode list \<Rightarrow> (nat \<Rightarrow> nat \<Rightarrow> bool) \<Rightarrow> token list list \<Rightarrow> sizzle \<Rightarrow> matcher list \<times> sizzle" where
  "compile doc other groups s =
     (let (matchers, done_count) = fold (compile_group doc other) (rev groups) ([], sz_done s)
      in (matchers, s\<lparr>sz_done := done_count\<rparr>))"

section \<open>Select\<close>

definition all_nodes :: "dnode list \<Rightarrow> nat list" where
  "all_nodes doc = [0 ..< length doc]"

definition descendants_of :: "dnode list \<Rightarrow> nat \<Rightarrow> nat list" where
  "descendants_of doc c = filter (\<lambda>n. is_element doc n \<and> c \<in> set (node_path doc ParentNode n)) (all_nodes doc)"

text \<open>\<open>getElementById\<close>, \<open>getElementsByTagName\<close> and \<open>getElementsByClassName\<close> of the browser, as \<open>Expr.find\<close> uses them.\<close>

definition find_id :: "dnode list \<Rightarrow> string \<Rightarrow> nat list" where
  "find_id doc ident = take 1 (filter (id_filter doc ident) (descendants_of doc 0))"

definition find_token :: "dnode list \<Rightarrow> nat \<Rightarrow> token \<Rightarrow> nat list option" where
  "find_token doc c t =
     (case t of
        Id i \<Rightarrow> if dn_type (doc ! c) = 9 then Some (find_id doc i) else None
      | Tag n \<Rightarrow> Some (filter (tag_filter doc n) (descendants_of doc c))
      | Class n \<Rightarrow> Some (filter (class_filter doc n) (descendants_of doc c))
      | _ \<Rightarrow> None)"

text \<open>The last token before a combinator, from the end, that elements can be found for.\<close>

fun find_seed :: "dnode list \<Rightarrow> nat \<Rightarrow> token list \<Rightarrow> nat \<Rightarrow> (nat \<times> nat list) option" where
  "find_seed doc c tokens 0 = None"
| "find_seed doc c tokens (Suc i) =
     (case tokens ! i of
        Rel r \<Rightarrow> None
      | t \<Rightarrow> (case find_token doc c t of Some es \<Rightarrow> Some (i, es) | None \<Rightarrow> find_seed doc c tokens i))"

fun has_sibling_sign :: "token \<Rightarrow> bool" where
  "has_sibling_sign (Rel r) = (r = Adjacent \<or> r = Sibling)"
| "has_sibling_sign (Other k b) = b"
| "has_sibling_sign t = False"

definition needsContext :: "token list \<Rightarrow> bool" where
  "needsContext tokens = (case leadingRelative tokens of None \<Rightarrow> False | Some r \<Rightarrow> r \<noteq> Descendant)"

text \<open>A selector that begins with an ID and a combinator is looked for in the element with that ID.\<close>

definition id_shortcut :: "dnode list \<Rightarrow> nat \<Rightarrow> token list \<Rightarrow> (nat \<times> token list) option" where
  "id_shortcut doc c tokens =
     (case tokens of
        Id i # Rel r # t # ts \<Rightarrow>
          if dn_type (doc ! c) = 9 then
            (case find_id doc i of [] \<Rightarrow> None | z # zs \<Rightarrow> Some (z, Rel r # t # ts))
          else Some (c, tokens)
      | _ \<Rightarrow> Some (c, tokens))"

definition outermost_of :: "dnode list \<Rightarrow> nat \<Rightarrow> token list \<Rightarrow> nat" where
  "outermost_of doc c tokens =
     (if list_ex has_sibling_sign tokens then (case dn_parent (doc ! c) of Some p \<Rightarrow> p | None \<Rightarrow> c) else c)"

definition run_groups ::
  "dnode list \<Rightarrow> (nat \<Rightarrow> nat \<Rightarrow> bool) \<Rightarrow> nat \<Rightarrow> token list list \<Rightarrow> nat list \<Rightarrow> sizzle \<Rightarrow> nat list \<times> sizzle" where
  "run_groups doc other c groups elems s =
     (let (matchers, s) = compile doc other groups s
      in superMatcher matchers (c, if c = 0 then None else Some c) elems s)"

definition select_group :: "dnode list \<Rightarrow> (nat \<Rightarrow> nat \<Rightarrow> bool) \<Rightarrow> nat \<Rightarrow> token list \<Rightarrow> sizzle \<Rightarrow> nat list \<times> sizzle" where
  "select_group doc other c tokens s =
     (case find_seed doc c tokens (if needsContext tokens then 0 else length tokens) of
        Some (i, seed) \<Rightarrow>
          (let rest = take i tokens @ drop (Suc i) tokens
           in if seed = [] \<or> rest = [] then (seed, s) else run_groups doc other c [rest] seed s)
      | None \<Rightarrow> run_groups doc other c [tokens] (descendants_of doc (outermost_of doc c tokens)) s)"

definition select :: "dnode list \<Rightarrow> (nat \<Rightarrow> nat \<Rightarrow> bool) \<Rightarrow> token list list \<Rightarrow> nat \<Rightarrow> sizzle \<Rightarrow> nat list \<times> sizzle" where
  "select doc other groups c s =
     (if length groups = 1
      then (case id_shortcut doc c (hd groups) of None \<Rightarrow> ([], s) | Some (c, tokens) \<Rightarrow> select_group doc other c tokens s)
      else run_groups doc other c groups (descendants_of doc (outermost_of doc c (concat groups))) s)"

end
