(* ===== verification/Sizzle_Props.thy ===== *)
theory Sizzle_Props
  imports Sizzle
begin

text \<open>
  The matchers of \<open>Sizzle\<close> mean what selectors mean: however many elements are tried, and whatever the walks
  before have left in the elements, a compiled selector matches an element exactly when the selector does,
  read from right to left over the document.
\<close>

section \<open>What a selector means\<close>

definition related :: "dnode list \<Rightarrow> relative \<Rightarrow> bool \<Rightarrow> nat \<Rightarrow> nat list" where
  "related doc r base e =
     (let xs = filter (visits doc r base) (node_path doc (rel_dir r) e) in if rel_first r then take 1 xs else xs)"

text \<open>The tokens are in reverse; \<open>ok\<close> is what is asked of the leftmost element.\<close>

fun means :: "dnode list \<Rightarrow> (nat \<Rightarrow> nat \<Rightarrow> bool) \<Rightarrow> (nat \<Rightarrow> bool) \<Rightarrow> token list \<Rightarrow> nat \<Rightarrow> bool" where
  "means doc other ok [] e = ok e"
| "means doc other ok (Rel r # ts) e = (\<exists>x\<in>set (related doc r False e). means doc other ok ts x)"
| "means doc other ok (t # ts) e = (token_filter doc other t e \<and> means doc other ok ts e)"

section \<open>Caches\<close>

definition cell_run :: "sizzle \<Rightarrow> nat \<Rightarrow> nat" where
  "cell_run s c = fst (sz_caches s ! c)"

definition cell_name :: "sizzle \<Rightarrow> nat \<Rightarrow> nat" where
  "cell_name s c = fst (snd (sz_caches s ! c))"

definition cell_result :: "sizzle \<Rightarrow> nat \<Rightarrow> bool option" where
  "cell_result s c = snd (snd (sz_caches s ! c))"

text \<open>For each name the direction in which it walks, and the result that it must have left at an element.\<close>

type_synonym name_table = "nat \<rightharpoonup> axis \<times> (nat \<Rightarrow> bool)"

definition cell_ok :: "name_table \<Rightarrow> sizzle \<Rightarrow> nat \<Rightarrow> axis \<Rightarrow> nat \<Rightarrow> bool" where
  "cell_ok T s x d c \<longleftrightarrow>
     c < length (sz_caches s) \<and> cell_run s c \<le> sz_dirruns s
     \<and> (cell_run s c = sz_dirruns s \<longrightarrow>
          (\<forall>d' R. T (cell_name s c) = Some (d', R) \<longrightarrow> d = d' \<and> cell_result s c = Some (R x)))"

definition cache_ok :: "name_table \<Rightarrow> sizzle \<Rightarrow> bool" where
  "cache_ok T s \<longleftrightarrow> (\<forall>x d c. sz_outer s x d = Some c \<longrightarrow> cell_ok T s x d c)"

definition naming :: "name_table \<Rightarrow> nat \<Rightarrow> axis \<Rightarrow> (nat \<Rightarrow> bool) \<Rightarrow> name_table" where
  "naming T n d R = T(n \<mapsto> (d, R))"

lemma naming_at [simp]: "naming T n d R n = Some (d, R)"
  by (simp add: naming_def)

lemma dom_naming [simp]: "dom (naming T n d R) = insert n (dom T)"
  by (simp add: naming_def)

lemma naming_more: "n \<notin> dom T \<Longrightarrow> T \<subseteq>\<^sub>m naming T n d R"
  by (auto simp: naming_def map_le_def)

text \<open>What a matcher may do to the state: old arrays stay, and elements only get new ones of its own names.\<close>

definition framed :: "nat set \<Rightarrow> nat \<Rightarrow> sizzle \<Rightarrow> sizzle \<Rightarrow> bool" where
  "framed N l s s' \<longleftrightarrow>
     sz_dirruns s' = sz_dirruns s \<and> sz_done s' = sz_done s
     \<and> length (sz_caches s) \<le> length (sz_caches s')
     \<and> (\<forall>c < length (sz_caches s). cell_run s' c = cell_run s c \<and> cell_name s' c = cell_name s c)
     \<and> (\<forall>c < length (sz_caches s). c < l \<longrightarrow> cell_result s' c = cell_result s c)
     \<and> (\<forall>x d. sz_outer s' x d = sz_outer s x d
          \<or> (\<exists>c. sz_outer s' x d = Some c \<and> l \<le> c \<and> c < length (sz_caches s') \<and> cell_name s' c \<in> N))"

lemma frame_refl [simp]: "framed N l s s"
  by (simp add: framed_def)

lemma frameD:
  assumes "framed N l s s'"
  shows "sz_dirruns s' = sz_dirruns s" "length (sz_caches s) \<le> length (sz_caches s')"
    "\<And>c. c < length (sz_caches s) \<Longrightarrow> cell_run s' c = cell_run s c \<and> cell_name s' c = cell_name s c"
    "\<And>c. c < length (sz_caches s) \<Longrightarrow> c < l \<Longrightarrow> cell_result s' c = cell_result s c"
    "\<And>x d c. sz_outer s' x d = Some c \<Longrightarrow> sz_outer s x d \<noteq> Some c \<Longrightarrow> l \<le> c \<and> c < length (sz_caches s') \<and> cell_name s' c \<in> N"
    "\<And>x d. sz_outer s' x d \<noteq> sz_outer s x d \<Longrightarrow>
      \<exists>c. sz_outer s' x d = Some c \<and> l \<le> c \<and> c < length (sz_caches s') \<and> cell_name s' c \<in> N"
  using assms unfolding framed_def by (blast | metis option.inject)+

lemma frame_trans:
  assumes "framed N l s s'" "framed N l s' s''"
  shows "framed N l s s''"
proof -
  note d = frameD [OF assms(1)] and d' = frameD [OF assms(2)]
  have "sz_outer s'' x ax = sz_outer s x ax
      \<or> (\<exists>c. sz_outer s'' x ax = Some c \<and> l \<le> c \<and> c < length (sz_caches s'') \<and> cell_name s'' c \<in> N)" for x ax
  proof (cases "sz_outer s'' x ax = sz_outer s' x ax")
    case same: True
    show ?thesis
    proof (cases "sz_outer s' x ax = sz_outer s x ax")
      case False
      then obtain c where "sz_outer s' x ax = Some c" "l \<le> c" "c < length (sz_caches s')" "cell_name s' c \<in> N"
        using d(6) by blast
      then show ?thesis using same d'(2,3) by (metis order_less_le_trans)
    qed (simp add: same)
  qed (use d'(6) in blast)
  moreover have "c < length (sz_caches s) \<Longrightarrow> cell_run s'' c = cell_run s c \<and> cell_name s'' c = cell_name s c" for c
    using d(2,3) d'(3) by (metis order_less_le_trans)
  moreover have "c < length (sz_caches s) \<Longrightarrow> c < l \<Longrightarrow> cell_result s'' c = cell_result s c" for c
    using d(2,4) d'(4) by (metis order_less_le_trans)
  moreover have "sz_dirruns s'' = sz_dirruns s" "sz_done s'' = sz_done s" "length (sz_caches s) \<le> length (sz_caches s'')"
    using assms by (auto simp: framed_def)
  ultimately show ?thesis unfolding framed_def by blast
qed

lemma frame_weaken:
  assumes "framed N l s s'" "N \<subseteq> M" "k \<le> l"
  shows "framed M k s s'"
  using assms unfolding framed_def by (meson order_less_le_trans order_trans subsetD)

definition realizes :: "name_table \<Rightarrow> matcher \<Rightarrow> env \<Rightarrow> (nat \<Rightarrow> bool) \<Rightarrow> bool" where
  "realizes T m env P \<longleftrightarrow>
     (\<forall>e s. cache_ok T s \<longrightarrow>
        fst (m env e s) = P e \<and> cache_ok T (snd (m env e s))
        \<and> framed (dom T) (length (sz_caches s)) s (snd (m env e s)))"

lemma realizesD:
  assumes "realizes T m env P" "cache_ok T s" "m env e s = (b, s')"
  shows "b = P e" "cache_ok T s'" "framed (dom T) (length (sz_caches s)) s s'"
  using assms unfolding realizes_def by (metis fst_conv snd_conv)+

lemma cache_ok_less: "cache_ok T' s \<Longrightarrow> T \<subseteq>\<^sub>m T' \<Longrightarrow> cache_ok T s"
  unfolding cache_ok_def cell_ok_def map_le_def by (metis domI)

lemma realizes_more:
  assumes m: "realizes T m env P" and T: "T \<subseteq>\<^sub>m T'"
  shows "realizes T' m env P"
  unfolding realizes_def
proof (intro allI impI)
  fix e s
  assume ok: "cache_ok T' s"
  obtain b s' where r: "m env e s = (b, s')" by fastforce
  note d = realizesD [OF m cache_ok_less [OF ok T] r]
  have dom: "dom T \<subseteq> dom T'" using T by (rule map_le_implies_dom_le)
  have "cell_ok T' s' x ax c" if c: "sz_outer s' x ax = Some c" for x ax c
  proof (cases "sz_outer s' x ax = sz_outer s x ax")
    case True
    then have old: "cell_ok T' s x ax c" using ok c by (simp add: cache_ok_def)
    then have "c < length (sz_caches s)" by (simp add: cell_ok_def)
    then show ?thesis using old d(3) by (simp add: cell_ok_def framed_def)
  next
    case False
    then have "cell_name s' c \<in> dom T" using frameD(5) [OF d(3) c] c by simp
    then have "T' (cell_name s' c) = T (cell_name s' c)" using T by (simp add: map_le_def)
    moreover have "cell_ok T s' x ax c" using d(2) c by (simp add: cache_ok_def)
    ultimately show ?thesis by (simp add: cell_ok_def)
  qed
  then show "fst (m env e s) = P e \<and> cache_ok T' (snd (m env e s)) \<and> framed (dom T') (length (sz_caches s)) s (snd (m env e s))"
    using d(1,3) dom by (auto simp: r cache_ok_def intro: frame_weaken)
qed

lemma realizes_filter: "realizes T (filter_matcher f) env f"
  by (simp add: realizes_def filter_matcher_def)

lemma realizes_context: "realizes T is_context env (\<lambda>e. e = fst env)"
  by (simp add: realizes_def is_context_def)

lemma realizes_Cons:
  assumes "realizes T m env P" "realizes T (all_match ms) env Q"
  shows "realizes T (all_match (m # ms)) env (\<lambda>e. P e \<and> Q e)"
  unfolding realizes_def
proof (intro allI impI)
  fix e s
  assume ok: "cache_ok T s"
  obtain b s1 where r: "m env e s = (b, s1)" by fastforce
  note d = realizesD [OF assms(1) ok r]
  obtain b' s2 where r': "all_match ms env e s1 = (b', s2)" by fastforce
  note d' = realizesD [OF assms(2) d(2) r']
  have "framed (dom T) (length (sz_caches s)) s1 s2"
    using frame_weaken [OF d'(3)] frameD(2) [OF d(3)] by simp
  then show "fst (all_match (m # ms) env e s) = (P e \<and> Q e) \<and> cache_ok T (snd (all_match (m # ms) env e s))
      \<and> framed (dom T) (length (sz_caches s)) s (snd (all_match (m # ms) env e s))"
    using d d' by (auto simp: r r' intro: frame_trans)
qed

lemma realizes_all: "realizes T (all_match []) env (\<lambda>e. True)"
  by (simp add: realizes_def)

section \<open>Walks\<close>

lemma set_result_fields [simp]:
  "sz_outer (set_result c res s) = sz_outer s" "sz_dirruns (set_result c res s) = sz_dirruns s"
  "sz_done (set_result c res s) = sz_done s" "length (sz_caches (set_result c res s)) = length (sz_caches s)"
  by (simp_all add: set_result_def)

lemma set_result_cells [simp]:
  assumes "c' < length (sz_caches s)"
  shows "cell_run (set_result c res s) c' = cell_run s c'" "cell_name (set_result c res s) c' = cell_name s c'"
    "cell_result (set_result c res s) c' = (if c' = c then res else cell_result s c')"
  using assms
  by (cases "c = c'", auto simp: set_result_def cell_run_def cell_name_def cell_result_def split: prod.split)+

lemma set_outer_fields [simp]:
  "sz_dirruns (set_outer e d c s) = sz_dirruns s" "sz_done (set_outer e d c s) = sz_done s"
  "sz_caches (set_outer e d c s) = sz_caches s"
  "sz_outer (set_outer e d c s) x ax = (if x = e \<and> ax = d then Some c else sz_outer s x ax)"
  by (simp_all add: set_outer_def)

lemma set_outer_cells [simp]:
  "cell_run (set_outer e d c s) = cell_run s" "cell_name (set_outer e d c s) = cell_name s"
  "cell_result (set_outer e d c s) = cell_result s"
  by (simp_all add: fun_eq_iff cell_run_def cell_name_def cell_result_def)

text \<open>All arrays but the one that a walk is filling.\<close>

definition others_ok :: "name_table \<Rightarrow> nat \<Rightarrow> sizzle \<Rightarrow> bool" where
  "others_ok T c0 s \<longleftrightarrow> (\<forall>x ax c. sz_outer s x ax = Some c \<longrightarrow> c \<noteq> c0 \<longrightarrow> cell_ok T s x ax c)"

lemma others_set_result: "others_ok T c0 s \<Longrightarrow> others_ok T c0 (set_result c0 res s)"
  by (auto simp: others_ok_def cell_ok_def)

lemma others_set_outer: "others_ok T c0 s \<Longrightarrow> others_ok T c0 (set_outer e d c0 s)"
  by (auto simp: others_ok_def cell_ok_def split: if_splits)

lemma others_frame:
  assumes o: "others_ok T' c0 s" and ok: "cache_ok T s'" and f: "framed (dom T) (length (sz_caches s)) s s'"
    and T: "T \<subseteq>\<^sub>m T'"
  shows "others_ok T' c0 s'"
  unfolding others_ok_def
proof (intro allI impI)
  fix x ax c
  assume c: "sz_outer s' x ax = Some c" "c \<noteq> c0"
  note d = frameD [OF f]
  show "cell_ok T' s' x ax c"
  proof (cases "sz_outer s x ax = Some c")
    case True
    then have "cell_ok T' s x ax c" using o c by (simp add: others_ok_def)
    moreover from this have "c < length (sz_caches s)" by (simp add: cell_ok_def)
    ultimately show ?thesis using d(1,2,3,4) by (simp add: cell_ok_def)
  next
    case False
    then have "cell_name s' c \<in> dom T" using d(5) c by blast
    then have "T' (cell_name s' c) = T (cell_name s' c)" using T by (simp add: map_le_def)
    moreover have "cell_ok T s' x ax c" using ok c by (simp add: cache_ok_def)
    ultimately show ?thesis by (simp add: cell_ok_def)
  qed
qed

lemma others_finish:
  assumes "others_ok T c0 s" "c0 < length (sz_caches s)" "T (cell_name s c0) = Some (d, R)" "cell_run s c0 \<le> sz_dirruns s"
    and "\<And>x ax. sz_outer s x ax = Some c0 \<Longrightarrow> ax = d \<and> cell_result s c0 = Some (R x)"
  shows "cache_ok T s"
  unfolding cache_ok_def
proof (intro allI impI)
  fix x ax c
  assume c: "sz_outer s x ax = Some c"
  show "cell_ok T s x ax c"
  proof (cases "c = c0")
    case True
    then show ?thesis using assms(2-4) assms(5) [of x ax] c by (simp add: cell_ok_def)
  qed (use assms(1) c in \<open>simp add: others_ok_def\<close>)
qed

lemma cache_ok_set_result: "cache_ok T s \<Longrightarrow> T (cell_name s c0) = None \<Longrightarrow> cache_ok T (set_result c0 res s)"
  by (auto simp: cache_ok_def cell_ok_def)

lemma old_resultD:
  assumes "old_result e d n s = Some res"
  shows "\<exists>c. sz_outer s e d = Some c \<and> cell_run s c = sz_dirruns s \<and> cell_name s c = n \<and> cell_result s c = res"
  using assms by (auto simp: old_result_def cell_run_def cell_name_def cell_result_def split: option.splits prod.splits if_splits)

text \<open>
  In the middle of a walk: \<open>V\<close> are the elements that were visited, for which it is still open whether
  there is a match further on.
\<close>

definition walking :: "name_table \<Rightarrow> nat \<Rightarrow> axis \<Rightarrow> (nat \<Rightarrow> bool) \<Rightarrow> nat \<Rightarrow> nat set \<Rightarrow> bool \<Rightarrow> sizzle \<Rightarrow> bool" where
  "walking T n0 d R c0 V found s \<longleftrightarrow>
     cache_ok T s \<and> others_ok (naming T n0 d R) c0 s
     \<and> c0 < length (sz_caches s) \<and> cell_name s c0 = n0 \<and> cell_run s c0 \<le> sz_dirruns s
     \<and> (\<forall>x ax. sz_outer s x ax = Some c0 \<longrightarrow> ax = d \<and> x \<in> V \<and> cell_result s c0 = Some False)
     \<and> (\<forall>x\<in>V. R x = found)"

lemma walk_step:
  assumes w: "walking T n0 d R c0 V found s" and n0: "n0 \<notin> dom T" and m: "realizes T m env P"
    and r: "m env e (set_outer e d c0 s) = (b, s2)"
  defines "s3 \<equiv> set_result c0 (Some b) s2"
  shows "b = P e" "cache_ok T s3" "others_ok (naming T n0 d R) c0 s3" "c0 < length (sz_caches s3)"
    "cell_name s3 c0 = n0" "cell_run s3 c0 \<le> sz_dirruns s3" "cell_result s3 c0 = Some b"
    "\<And>x ax. sz_outer s3 x ax = Some c0 \<Longrightarrow> ax = d \<and> x \<in> insert e V"
    "\<And>l. l \<le> c0 \<Longrightarrow> framed (insert n0 (dom T)) l s s3"
proof -
  let ?s1 = "set_outer e d c0 s" and ?T = "naming T n0 d R"
  have ok: "cache_ok T s" "others_ok ?T c0 s" "c0 < length (sz_caches s)" "cell_name s c0 = n0" "cell_run s c0 \<le> sz_dirruns s"
    "\<And>x ax. sz_outer s x ax = Some c0 \<Longrightarrow> ax = d \<and> x \<in> V"
    using w unfolding walking_def by blast+
  have "cell_ok T ?s1 e d c0" using ok(3-5) n0 by (auto simp: cell_ok_def domIff)
  then have ok1: "cache_ok T ?s1" using ok(1) by (auto simp: cache_ok_def cell_ok_def)
  note i = realizesD [OF m ok1 r]
  note f = frameD [OF i(3)]
  show "b = P e" by (rule i(1))
  have len: "c0 < length (sz_caches s2)" using f(2) ok(3) by simp
  have name: "cell_name s2 c0 = n0" "cell_run s2 c0 \<le> sz_dirruns s2" using f(1) f(3) [of c0] ok(3-5) by simp_all
  show "cache_ok T s3" unfolding s3_def using i(2) name n0 by (cases "T n0") (auto intro: cache_ok_set_result)
  show "others_ok ?T c0 s3"
    unfolding s3_def using i(3)
    by (intro others_set_result others_frame [OF others_set_outer [OF ok(2)] i(2) _ naming_more [OF n0]]) simp
  show "c0 < length (sz_caches s3)" "cell_name s3 c0 = n0" "cell_run s3 c0 \<le> sz_dirruns s3" "cell_result s3 c0 = Some b"
    using len name by (simp_all add: s3_def)
  show "ax = d \<and> x \<in> insert e V" if "sz_outer s3 x ax = Some c0" for x ax
  proof (cases "sz_outer ?s1 x ax = Some c0")
    case True
    then show ?thesis using ok(6) [of x ax] by (auto split: if_splits)
  next
    case False
    then show ?thesis using f(5) [of x ax c0] that ok(3) by (simp add: s3_def)
  qed
  fix l
  assume l: "l \<le> c0"
  have "framed (insert n0 (dom T)) l s ?s1"
    using l ok(3,4) by (auto simp: framed_def)
  moreover have "framed (insert n0 (dom T)) l ?s1 s2" using i(3) l ok(3) by (intro frame_weaken [OF i(3)]) auto
  moreover have "framed (insert n0 (dom T)) l s2 s3" using l len by (auto simp: framed_def s3_def)
  ultimately show "framed (insert n0 (dom T)) l s s3" by (blast intro: frame_trans)
qed

lemma walk_all_meaning:
  assumes m: "realizes T m env P" and n0: "n0 \<notin> dom T" and l: "l \<le> c0"
    and "walking T n0 d R c0 V (\<exists>y\<in>set es. v y \<and> P y) s"
    and "distinct es" "V \<inter> set es = {}"
    and "\<And>pre e post. es = pre @ e # post \<Longrightarrow> v e \<Longrightarrow> R e = (\<exists>y\<in>set (e # post). v y \<and> P y)"
  shows "fst (walk_all v d n0 c0 m env es s) = (\<exists>y\<in>set es. v y \<and> P y)
    \<and> cache_ok (naming T n0 d R) (snd (walk_all v d n0 c0 m env es s))
    \<and> framed (insert n0 (dom T)) l s (snd (walk_all v d n0 c0 m env es s))"
  using assms(4-7)
proof (induction es arbitrary: V s)
  case Nil
  have "cache_ok (naming T n0 d R) s"
    using Nil.prems(1) by (intro others_finish [of "naming T n0 d R" c0 s d R]) (simp_all add: walking_def)
  then show ?case by simp
next
  case (Cons e es)
  let ?T = "naming T n0 d R"
  have R: "R f = (\<exists>y\<in>set (f # post). v y \<and> P y)" if "es = pre @ f # post" "v f" for pre f post
    using Cons.prems(4) [of "e # pre" f post] that by simp
  have Re: "v e \<Longrightarrow> R e = (\<exists>y\<in>set (e # es). v y \<and> P y)" using Cons.prems(4) [of "[]" e es] by simp
  have dis: "distinct es" "e \<notin> set es" "e \<notin> V" "V \<inter> set es = {}" using Cons.prems(2,3) by auto
  show ?case
  proof (cases "v e")
    case False
    then show ?thesis using Cons.IH [of V s] Cons.prems(1) dis R by simp
  next
    case v: True
    show ?thesis
    proof (cases "old_result e d n0 s")
      case (Some res)
      then obtain c where c: "sz_outer s e d = Some c" "cell_run s c = sz_dirruns s" "cell_name s c = n0" "cell_result s c = res"
        using old_resultD by blast
      then have "c \<noteq> c0" using Cons.prems(1) dis(3) by (auto simp: walking_def)
      then have "cell_ok ?T s e d c" using Cons.prems(1) c(1) by (simp add: walking_def others_ok_def)
      then have res: "res = Some (R e)" using c by (simp add: cell_ok_def)
      have "cache_ok ?T (set_result c0 res s)"
        using Cons.prems(1) Re [OF v] unfolding res
        by (intro others_finish [of _ c0 _ d R] others_set_result) (auto simp: walking_def)
      moreover have "framed (insert n0 (dom T)) l s (set_result c0 res s)"
        using l by (auto simp: framed_def)
      ultimately show ?thesis using v Some Re [OF v] by (simp add: res)
    next
      case None
      obtain b s2 where r: "m env e (set_outer e d c0 s) = (b, s2)" by fastforce
      note st = walk_step [OF Cons.prems(1) n0 m r]
      define s3 where "s3 = set_result c0 (Some b) s2"
      note st = st [folded s3_def]
      show ?thesis
      proof (cases b)
        case True
        then have found: "R e" "\<forall>x\<in>V. R x" using Re [OF v] st(1) v Cons.prems(1) by (auto simp: walking_def)
        have "cache_ok ?T s3"
          using st found True by (intro others_finish [of _ c0 _ d R]) auto
        then show ?thesis using v None r True st(1) st(9) [OF l] by (simp add: s3_def)
      next
        case False
        have w3: "walking T n0 d R c0 (insert e V) (\<exists>y\<in>set es. v y \<and> P y) s3"
          unfolding walking_def
        proof (intro conjI allI impI ballI)
          show "cache_ok T s3" "others_ok ?T c0 s3" "c0 < length (sz_caches s3)" "cell_name s3 c0 = n0"
            "cell_run s3 c0 \<le> sz_dirruns s3" by (fact st)+
          fix x ax
          assume c: "sz_outer s3 x ax = Some c0"
          then show "ax = d" "x \<in> insert e V" using st(8) by blast+
          show "cell_result s3 c0 = Some False" using st(7) False by simp
        next
          fix x
          assume "x \<in> insert e V"
          moreover have "R e = (\<exists>y\<in>set es. v y \<and> P y)" using Re [OF v] st(1) False by simp
          moreover have "\<forall>x\<in>V. R x = (\<exists>y\<in>set es. v y \<and> P y)"
            using Cons.prems(1) st(1) False by (simp add: walking_def)
          ultimately show "R x = (\<exists>y\<in>set es. v y \<and> P y)" by blast
        qed
        have dj: "insert e V \<inter> set es = {}" using dis(2,4) by blast
        have "fst (walk_all v d n0 c0 m env es s3) = (\<exists>y\<in>set es. v y \<and> P y)
          \<and> cache_ok ?T (snd (walk_all v d n0 c0 m env es s3))
          \<and> framed (insert n0 (dom T)) l s3 (snd (walk_all v d n0 c0 m env es s3))"
          by (rule Cons.IH [OF w3 dis(1) dj R])
        then show ?thesis using v None r False st(1) frame_trans [OF st(9) [OF l]] by (simp add: s3_def)
      qed
    qed
  qed
qed

section \<open>Combinators\<close>

lemma node_path_Cons:
  assumes "node_path doc d n = m # xs"
  shows "(if n < length doc then node_link d (doc ! n) else None) = Some m" "m < n" "xs = node_path doc d m"
  using assms by (subst (asm) node_path.simps, simp split: option.splits if_splits, blast?)+

lemma node_path_less: "y \<in> set (node_path doc d n) \<Longrightarrow> y < n"
proof (induction doc d n rule: node_path.induct)
  case (1 doc d n)
  show ?case
  proof (cases "node_path doc d n")
    case (Cons m xs)
    note p = node_path_Cons [OF Cons]
    then show ?thesis using "1.IH" [OF p(1,2)] "1.prems" Cons by auto
  qed (use "1.prems" in simp)
qed

lemma node_path_parts: "node_path doc d n = pre @ e # post \<Longrightarrow> post = node_path doc d e"
proof (induction doc d n arbitrary: pre rule: node_path.induct)
  case (1 doc d n)
  show ?case
  proof (cases pre)
    case Nil
    then show ?thesis using node_path_Cons(3) "1.prems" by simp
  next
    case (Cons x xs)
    note p = node_path_Cons [of doc d n x "xs @ e # post"]
    then show ?thesis using "1.IH" [of x xs] "1.prems" Cons by simp
  qed
qed

lemma node_path_distinct: "distinct (node_path doc d n)"
proof (induction doc d n rule: node_path.induct)
  case (1 doc d n)
  show ?case
    by (subst node_path.simps) (auto split: option.split dest: node_path_less intro: 1)
qed

lemma walk_first_realizes:
  assumes m: "realizes T m env P" and ok: "cache_ok T s"
  shows "fst (walk_first v m env es s) = (\<exists>y\<in>set (take 1 (filter v es)). P y)
    \<and> cache_ok T (snd (walk_first v m env es s))
    \<and> framed (dom T) (length (sz_caches s)) s (snd (walk_first v m env es s))"
proof (induction es)
  case (Cons e es)
  show ?case
  proof (cases "v e")
    case True
    obtain b s' where "m env e s = (b, s')" by fastforce
    with realizesD [OF m ok this] True show ?thesis by simp
  qed (use Cons in simp)
qed (simp add: ok)

lemma new_cache_fields:
  assumes "new_cache n s = (c0, s0)"
  shows "c0 = length (sz_caches s)" "length (sz_caches s0) = Suc (length (sz_caches s))"
    "sz_outer s0 = sz_outer s" "sz_dirruns s0 = sz_dirruns s" "sz_done s0 = sz_done s" "cell_name s0 c0 = n" "cell_run s0 c0 = sz_dirruns s0"
    "c < length (sz_caches s) \<Longrightarrow> cell_run s0 c = cell_run s c"
    "c < length (sz_caches s) \<Longrightarrow> cell_name s0 c = cell_name s c"
    "c < length (sz_caches s) \<Longrightarrow> cell_result s0 c = cell_result s c"
  using assms by (auto simp: new_cache_def cell_run_def cell_name_def cell_result_def nth_append)

lemma new_cache_frame:
  assumes "new_cache n s = (c0, s0)"
  shows "framed N (length (sz_caches s)) s s0"
  using new_cache_fields [OF assms] by (simp add: framed_def)

lemma new_cache_ok:
  assumes "new_cache n s = (c0, s0)" "cache_ok T s"
  shows "cache_ok T s0" "sz_outer s0 x ax \<noteq> Some c0"
proof -
  note f = new_cache_fields [OF assms(1)]
  have less: "c < length (sz_caches s)" if "sz_outer s y ax = Some c" for y ax c
    using assms(2) that by (auto simp: cache_ok_def cell_ok_def)
  show "cache_ok T s0"
    using assms(2) less f by (fastforce simp: cache_ok_def cell_ok_def)
  show "sz_outer s0 x ax \<noteq> Some c0"
    using less [of x ax c0] f(1,3) by auto
qed

definition further :: "dnode list \<Rightarrow> relative \<Rightarrow> bool \<Rightarrow> (nat \<Rightarrow> bool) \<Rightarrow> nat \<Rightarrow> bool" where
  "further doc r base P x \<longleftrightarrow> (\<exists>y\<in>set (x # node_path doc (rel_dir r) x). visits doc r base y \<and> P y)"

lemma realizes_combinator:
  assumes m: "realizes T m env P" and n0: "n0 \<notin> dom T"
  shows "realizes (naming T n0 (rel_dir r) (further doc r base P)) (addCombinator doc m r base n0) env
    (\<lambda>e. \<exists>y\<in>set (related doc r base e). P y)"
proof (cases "rel_first r")
  case True
  have "realizes T (addCombinator doc m r base n0) env (\<lambda>e. \<exists>y\<in>set (related doc r base e). P y)"
    unfolding realizes_def addCombinator_def related_def Let_def
    using True walk_first_realizes [OF m] by simp
  then show ?thesis by (rule realizes_more) (rule naming_more [OF n0])
next
  case False
  let ?T = "naming T n0 (rel_dir r) (further doc r base P)" and ?v = "visits doc r base"
  show ?thesis
    unfolding realizes_def
  proof (intro allI impI)
    fix e s
    assume ok: "cache_ok ?T s"
    obtain c0 s0 where c: "new_cache n0 s = (c0, s0)" by fastforce
    note f = new_cache_fields [OF c]
    let ?es = "node_path doc (rel_dir r) e"
    have "cache_ok ?T s0" by (rule new_cache_ok(1) [OF c ok])
    moreover from this have "cache_ok T s0" by (rule cache_ok_less) (rule naming_more [OF n0])
    ultimately have w: "walking T n0 (rel_dir r) (further doc r base P) c0 {} (\<exists>y\<in>set ?es. ?v y \<and> P y) s0"
      using f(1,2,6,7) new_cache_ok(2) [OF c ok] unfolding walking_def
      by (auto simp: others_ok_def cache_ok_def)
    have R: "further doc r base P x = (\<exists>y\<in>set (x # post). ?v y \<and> P y)" if "?es = pre @ x # post" for pre x post
      using node_path_parts [OF that] by (simp add: further_def)
    have l: "length (sz_caches s) \<le> c0" using f(1) by simp
    have "fst (walk_all ?v (rel_dir r) n0 c0 m env ?es s0) = (\<exists>y\<in>set ?es. ?v y \<and> P y)
      \<and> cache_ok ?T (snd (walk_all ?v (rel_dir r) n0 c0 m env ?es s0))
      \<and> framed (insert n0 (dom T)) (length (sz_caches s)) s0 (snd (walk_all ?v (rel_dir r) n0 c0 m env ?es s0))"
      by (rule walk_all_meaning [OF m n0 l w node_path_distinct]) (simp_all add: R)
    then show "fst (addCombinator doc m r base n0 env e s) = (\<exists>y\<in>set (related doc r base e). P y)
        \<and> cache_ok ?T (snd (addCombinator doc m r base n0 env e s))
        \<and> framed (dom ?T) (length (sz_caches s)) s (snd (addCombinator doc m r base n0 env e s))"
      using False frame_trans [OF new_cache_frame [OF c]]
      by (auto simp: addCombinator_def c related_def)
  qed
qed

section \<open>Selectors\<close>

text \<open>What is asked of the leftmost element, and what a whole selector means for an element.\<close>

definition in_context :: "dnode list \<Rightarrow> relative option \<Rightarrow> nat \<Rightarrow> nat \<Rightarrow> bool" where
  "in_context doc leading c e \<longleftrightarrow>
     (case leading of None \<Rightarrow> c = 0 \<or> c \<in> set (related doc Descendant True e) | Some r \<Rightarrow> c \<in> set (related doc r True e))"

definition selected :: "dnode list \<Rightarrow> (nat \<Rightarrow> nat \<Rightarrow> bool) \<Rightarrow> nat \<Rightarrow> token list \<Rightarrow> nat \<Rightarrow> bool" where
  "selected doc other c tokens =
     means doc other (in_context doc (leadingRelative tokens) c)
       (rev (if leadingRelative tokens = None then tokens else tl tokens))"

definition env_of :: "nat \<Rightarrow> env" where
  "env_of c = (c, if c = 0 then None else Some c)"

lemma naming_dom: "dom T \<subseteq> {..<n} \<Longrightarrow> n < m \<Longrightarrow> T \<subseteq>\<^sub>m naming T n d R \<and> dom (naming T n d R) \<subseteq> {..<m}"
proof -
  assume a: "dom T \<subseteq> {..<n}" "n < m"
  then have "n \<notin> dom T" by blast
  moreover have "insert n (dom T) \<subseteq> {..<m}" using a by force
  ultimately show ?thesis by (simp add: naming_more)
qed

lemma means_Nil [simp]: "means doc other ok [] = ok"
  by (simp add: fun_eq_iff)

lemma means_Rel: "means doc other ok (Rel r # ts) = (\<lambda>e. \<exists>x\<in>set (related doc r False e). means doc other ok ts x)"
  by (simp add: fun_eq_iff)

lemma realizes_context_matcher:
  assumes "dom T \<subseteq> {..<n}" "n < m"
  shows "\<exists>T'. realizes T' (context_matcher doc leading n) (env_of c) (in_context doc leading c) \<and> T \<subseteq>\<^sub>m T' \<and> dom T' \<subseteq> {..<m}"
proof (cases "leading = None \<and> c = 0")
  case True
  then have "realizes T (context_matcher doc leading n) (env_of c) (in_context doc leading c)"
    by (simp add: realizes_def context_matcher_def in_context_def env_of_def)
  then show ?thesis using assms by (metis lessThan_subset_iff less_imp_le map_le_refl order_trans)
next
  case False
  define r where "r = (case leading of None \<Rightarrow> Descendant | Some r \<Rightarrow> r)"
  have m: "context_matcher doc leading n (env_of c) = addCombinator doc is_context r True n (env_of c)"
    using False by (auto simp: fun_eq_iff context_matcher_def env_of_def r_def)
  have i: "in_context doc leading c = (\<lambda>e. \<exists>y\<in>set (related doc r True e). y = fst (env_of c))"
    using False by (auto simp: fun_eq_iff in_context_def env_of_def r_def split: option.split)
  have "n \<notin> dom T" using assms(1) by blast
  from realizes_combinator [OF realizes_context [of T "env_of c"] this, of r doc True]
  show ?thesis using naming_dom [OF assms] unfolding i realizes_def m by blast
qed

lemma realizes_tokens:
  assumes "realizes T (elementMatcher ms) env (means doc other ok acc)" "dom T \<subseteq> {..<n}"
    and "fold (add_token doc other) tokens (ms, n) = (ms', n')"
  shows "\<exists>T'. realizes T' (elementMatcher ms') env (means doc other ok (rev tokens @ acc)) \<and> T \<subseteq>\<^sub>m T' \<and> dom T' \<subseteq> {..<n'}"
  using assms
proof (induction tokens arbitrary: T ms n acc)
  case Nil
  then show ?case by auto
next
  case (Cons t ts)
  show ?case
  proof (cases "\<exists>r. t = Rel r")
    case True
    then obtain r where t: "t = Rel r" by blast
    define T1 where "T1 = naming T n (rel_dir r) (further doc r False (means doc other ok acc))"
    have T1: "T \<subseteq>\<^sub>m T1" "dom T1 \<subseteq> {..<n + 1}" using naming_dom [OF Cons.prems(2), of "n + 1"] by (simp_all add: T1_def)
    have "n \<notin> dom T" using Cons.prems(2) by blast
    note c = realizes_combinator [OF Cons.prems(1) this, of r doc False, folded T1_def]
    have "realizes T1 (elementMatcher [addCombinator doc (elementMatcher ms) r False n]) env (means doc other ok (t # acc))"
      using realizes_Cons [OF c realizes_all] by (simp add: elementMatcher_def t means_Rel)
    from Cons.IH [OF this T1(2)] Cons.prems(3)
    obtain T' where "realizes T' (elementMatcher ms') env (means doc other ok (rev ts @ t # acc))" "T1 \<subseteq>\<^sub>m T'" "dom T' \<subseteq> {..<n'}"
      by (auto simp: add_token_def t)
    then show ?thesis using map_le_trans [OF T1(1)] by auto
  next
    case False
    have "means doc other ok (t # acc) = (\<lambda>e. token_filter doc other t e \<and> means doc other ok acc e)"
      using False by (cases t) (auto simp: fun_eq_iff)
    then have "realizes T (elementMatcher (ms @ [filter_matcher (token_filter doc other t)])) env (means doc other ok (t # acc))"
      using realizes_Cons [OF realizes_filter Cons.prems(1) [unfolded elementMatcher_def]] by (simp add: elementMatcher_def)
    from Cons.IH [OF this Cons.prems(2)] show ?thesis
      using Cons.prems(3) False by (cases t) (auto simp: add_token_def)
  qed
qed

lemma realizes_matcherFromTokens:
  assumes "matcherFromTokens doc other tokens n = (m, n')" "dom T \<subseteq> {..<n}"
  shows "\<exists>T'. realizes T' m (env_of c) (selected doc other c tokens) \<and> T \<subseteq>\<^sub>m T' \<and> dom T' \<subseteq> {..<n'}"
proof -
  let ?leading = "leadingRelative tokens"
  obtain ms where f: "fold (add_token doc other) (if ?leading = None then tokens else tl tokens)
      ([context_matcher doc ?leading n], n + 2) = (ms, n')" "m = elementMatcher ms"
    using assms(1) by (auto simp: matcherFromTokens_def Let_def split: prod.splits)
  obtain T1 where T1: "realizes T1 (context_matcher doc ?leading n) (env_of c) (in_context doc ?leading c)"
      "T \<subseteq>\<^sub>m T1" "dom T1 \<subseteq> {..<n + 2}"
    using realizes_context_matcher [OF assms(2), of "n + 2"] by fastforce
  have "realizes T1 (elementMatcher [context_matcher doc ?leading n]) (env_of c) (means doc other (in_context doc ?leading c) [])"
    using realizes_Cons [OF T1(1) realizes_all] by (simp add: elementMatcher_def)
  from realizes_tokens [OF this T1(3) f(1)] show ?thesis
    using map_le_trans [OF T1(2)] unfolding f(2) selected_def by auto
qed

section \<open>Trying the elements\<close>

definition sizzle_ok :: "sizzle \<Rightarrow> bool" where
  "sizzle_ok s \<longleftrightarrow> cache_ok Map.empty s"

lemma cache_ok_sizzle: "cache_ok T s \<Longrightarrow> sizzle_ok s"
  unfolding sizzle_ok_def by (erule cache_ok_less) simp

lemma next_run_ok: "sizzle_ok s \<Longrightarrow> cache_ok T (s\<lparr>sz_dirruns := sz_dirruns s + 1\<rparr>)"
  by (fastforce simp: sizzle_ok_def cache_ok_def cell_ok_def cell_run_def cell_name_def cell_result_def)

lemma sizzle_ok_done [simp]: "sizzle_ok (s\<lparr>sz_done := n\<rparr>) = sizzle_ok s"
  by (simp add: sizzle_ok_def cache_ok_def cell_ok_def cell_run_def cell_name_def cell_result_def)

lemma some_match_means:
  assumes "list_all2 (\<lambda>m P. realizes T m env P) ms Ps" "cache_ok T s"
  shows "fst (some_match ms env e s) = (\<exists>P\<in>set Ps. P e) \<and> cache_ok T (snd (some_match ms env e s))"
  using assms
proof (induction ms Ps arbitrary: s rule: list_all2_induct)
  case (Cons m ms P Ps)
  obtain b s' where r: "m env e s = (b, s')" by fastforce
  note d = realizesD [OF Cons(1) Cons.prems r]
  show ?case using Cons.IH [OF d(2)] d by (auto simp: r)
qed simp

lemma match_elements_filter:
  assumes "list_all2 (\<lambda>m P. realizes T m env P) ms Ps" "cache_ok T s"
  shows "fst (match_elements ms env es s) = filter (\<lambda>e. \<exists>P\<in>set Ps. P e) es \<and> cache_ok T (snd (match_elements ms env es s))"
  using assms(2)
proof (induction es arbitrary: s)
  case (Cons e es)
  obtain b s' where r: "some_match ms env e s = (b, s')" by fastforce
  then have d: "b = (\<exists>P\<in>set Ps. P e)" "cache_ok T s'" using some_match_means [OF assms(1) Cons.prems, of e] by simp_all
  obtain xs s'' where r': "match_elements ms env es s' = (xs, s'')" by fastforce
  show ?case using Cons.IH [OF d(2)] unfolding r' by (simp add: r r' d(1))
qed simp

lemma realizes_groups:
  assumes "list_all2 (\<lambda>m P. realizes T m (env_of c) P) ms Ps" "dom T \<subseteq> {..<n}"
    and "fold (compile_group doc other) groups (ms, n) = (ms', n')"
  shows "\<exists>T'. list_all2 (\<lambda>m P. realizes T' m (env_of c) P) ms' (Ps @ map (selected doc other c) groups)"
  using assms
proof (induction groups arbitrary: T ms n Ps)
  case (Cons g gs)
  obtain m n1 where m: "matcherFromTokens doc other g n = (m, n1)" by fastforce
  obtain T1 where T1: "realizes T1 m (env_of c) (selected doc other c g)" "T \<subseteq>\<^sub>m T1" "dom T1 \<subseteq> {..<n1}"
    using realizes_matcherFromTokens [OF m Cons.prems(2)] by blast
  have "list_all2 (\<lambda>m P. realizes T1 m (env_of c) P) (ms @ [m]) (Ps @ [selected doc other c g])"
    using list_all2_mono [OF Cons.prems(1) realizes_more [OF _ T1(2)]] T1(1) by (simp add: list_all2_appendI)
  from Cons.IH [OF this T1(3)] Cons.prems(3) show ?case by (simp add: compile_group_def m)
qed auto

lemma run_groups_filter:
  assumes "sizzle_ok s"
  shows "fst (run_groups doc other c groups es s) = filter (\<lambda>e. \<exists>g\<in>set groups. selected doc other c g e) es"
    "sizzle_ok (snd (run_groups doc other c groups es s))"
proof -
  obtain ms n where f: "fold (compile_group doc other) (rev groups) ([], sz_done s) = (ms, n)" by fastforce
  obtain T where T: "list_all2 (\<lambda>m P. realizes T m (env_of c) P) ms (map (selected doc other c) (rev groups))"
    using realizes_groups [of Map.empty c "[]" "[]", OF _ _ f] by auto
  define s1 where "s1 = s\<lparr>sz_done := n\<rparr>"
  have "cache_ok T (s1\<lparr>sz_dirruns := sz_dirruns s1 + 1\<rparr>)" using assms by (intro next_run_ok) (simp add: s1_def)
  note e = match_elements_filter [OF T this, of es]
  have r: "run_groups doc other c groups es s = match_elements ms (env_of c) es (s1\<lparr>sz_dirruns := sz_dirruns s1 + 1\<rparr>)"
    by (simp add: run_groups_def compile_def f superMatcher_def env_of_def s1_def)
  show "fst (run_groups doc other c groups es s) = filter (\<lambda>e. \<exists>g\<in>set groups. selected doc other c g e) es"
    using e unfolding r by auto
  show "sizzle_ok (snd (run_groups doc other c groups es s))" using e unfolding r by (blast intro: cache_ok_sizzle)
qed

section \<open>Documents\<close>

definition wf_node :: "dnode list \<Rightarrow> nat \<Rightarrow> bool" where
  "wf_node doc n \<longleftrightarrow>
     dn_type (doc ! n) \<noteq> 9
     \<and> (case dn_parent (doc ! n) of None \<Rightarrow> False | Some p \<Rightarrow> p < n \<and> (p = 0 \<or> dn_type (doc ! p) = 1))
     \<and> (case dn_previous (doc ! n) of None \<Rightarrow> True | Some m \<Rightarrow> m < n \<and> dn_parent (doc ! m) = dn_parent (doc ! n))"

definition wf_doc :: "dnode list \<Rightarrow> bool" where
  "wf_doc doc \<longleftrightarrow>
     doc \<noteq> [] \<and> dn_type (doc ! 0) = 9 \<and> dn_parent (doc ! 0) = None \<and> dn_previous (doc ! 0) = None
     \<and> list_all (wf_node doc) [1 ..< length doc]"

definition unique_ids :: "dnode list \<Rightarrow> bool" where
  "unique_ids doc \<longleftrightarrow>
     (\<forall>m\<in>set (all_nodes doc). \<forall>n\<in>set (all_nodes doc).
        is_element doc m \<and> is_element doc n \<and> dn_idAttr (doc ! m) \<noteq> None \<and> dn_idAttr (doc ! m) = dn_idAttr (doc ! n) \<longrightarrow> m = n)"

lemma wf_docD:
  assumes "wf_doc doc" "n < length doc" "n \<noteq> 0"
  obtains p where "dn_type (doc ! n) \<noteq> 9" "dn_parent (doc ! n) = Some p" "p < n" "p = 0 \<or> is_element doc p"
    "\<And>m. dn_previous (doc ! n) = Some m \<Longrightarrow> m < n \<and> dn_parent (doc ! m) = dn_parent (doc ! n)"
proof -
  have w: "wf_node doc n" using assms by (auto simp: wf_doc_def list_all_iff)
  then obtain p where p: "dn_parent (doc ! n) = Some p" "p < n" "p = 0 \<or> dn_type (doc ! p) = 1"
    unfolding wf_node_def by (auto split: option.splits)
  then have "p = 0 \<or> is_element doc p" using assms(2) by (auto simp: is_element_def)
  moreover have "m < n \<and> dn_parent (doc ! m) = dn_parent (doc ! n)" if "dn_previous (doc ! n) = Some m" for m
    using w that by (simp add: wf_node_def)
  ultimately show ?thesis using w p that by (simp add: wf_node_def)
qed

lemma path_root [simp]: "wf_doc doc \<Longrightarrow> node_path doc d 0 = []"
  by (subst node_path.simps) (cases d, auto simp: wf_doc_def node_link_def)

lemma parent_path:
  assumes "wf_doc doc" "n < length doc" "n \<noteq> 0"
  obtains p where "dn_parent (doc ! n) = Some p" "p < n" "p = 0 \<or> is_element doc p"
    "node_path doc ParentNode n = p # node_path doc ParentNode p"
proof -
  obtain p where p: "dn_parent (doc ! n) = Some p" "p < n" "p = 0 \<or> is_element doc p"
    using wf_docD [OF assms] by metis
  moreover have "node_path doc ParentNode n = p # node_path doc ParentNode p"
    using p(1,2) assms(2) by (subst node_path.simps) (simp add: node_link_def)
  ultimately show ?thesis by (rule that)
qed

lemma path_member:
  assumes "y \<in> set (node_path doc d n)"
  shows "set (node_path doc d y) \<subseteq> set (node_path doc d n)"
proof -
  obtain pre post where "node_path doc d n = pre @ y # post" using split_list [OF assms] by blast
  with node_path_parts [OF this] show ?thesis by auto
qed

lemma ancestor_is_element: "wf_doc doc \<Longrightarrow> n < length doc \<Longrightarrow> y \<in> set (node_path doc ParentNode n) \<Longrightarrow> y = 0 \<or> is_element doc y"
proof (induction n arbitrary: y rule: less_induct)
  case (less n)
  show ?case
  proof (cases "n = 0")
    case False
    obtain p where "p < n" "p = 0 \<or> is_element doc p" "node_path doc ParentNode n = p # node_path doc ParentNode p"
      using parent_path [OF less.prems(1,2) False] by metis
    then show ?thesis using less by auto
  qed (use less.prems in simp)
qed

lemma root_is_ancestor: "wf_doc doc \<Longrightarrow> n < length doc \<Longrightarrow> n \<noteq> 0 \<Longrightarrow> 0 \<in> set (node_path doc ParentNode n)"
proof (induction n rule: less_induct)
  case (less n)
  obtain p where "p < n" "node_path doc ParentNode n = p # node_path doc ParentNode p"
    using parent_path [OF less.prems] by metis
  then show ?case using less by (cases "p = 0") auto
qed

lemma sibling_path:
  assumes "wf_doc doc"
  shows "n < length doc \<Longrightarrow> y \<in> set (node_path doc PreviousSibling n) \<Longrightarrow>
    y \<noteq> 0 \<and> node_path doc ParentNode y = node_path doc ParentNode n"
proof (induction n rule: less_induct)
  case (less n)
  have n: "n \<noteq> 0" using less.prems(2) assms by (metis path_root empty_iff list.set(1))
  obtain m where m: "node_path doc PreviousSibling n = m # node_path doc PreviousSibling m" "dn_previous (doc ! n) = Some m" "m < n"
  proof (cases "node_path doc PreviousSibling n")
    case (Cons m xs)
    then show ?thesis using that node_path_Cons [OF Cons] less.prems(1) by (simp add: node_link_def)
  qed (use less.prems(2) in simp)
  obtain p where p: "dn_parent (doc ! n) = Some p" "node_path doc ParentNode n = p # node_path doc ParentNode p"
    using parent_path [OF assms less.prems(1) n] by metis
  have same: "dn_parent (doc ! m) = Some p"
    using wf_docD [OF assms less.prems(1) n] m(2) p(1) by metis
  then have m0: "m \<noteq> 0" using assms by (metis wf_doc_def option.distinct(1))
  have len: "m < length doc" using m(3) less.prems(1) by simp
  have "node_path doc ParentNode m = node_path doc ParentNode n"
    using parent_path [OF assms len m0] same p(2) by (metis option.inject)
  then show ?case using less.IH [OF m(3) len] less.prems(2) m0 unfolding m(1) by auto
qed

lemma relatedD: "y \<in> set (related doc r base e) \<Longrightarrow> y \<in> set (node_path doc (rel_dir r) e) \<and> visits doc r base y"
  by (auto simp: related_def Let_def split: if_splits dest: in_set_takeD)

lemma related_less: "y \<in> set (related doc r base e) \<Longrightarrow> y < e"
  by (blast dest: relatedD node_path_less)

text \<open>The elements that are related to an element have its ancestors, or fewer.\<close>

lemma related_path:
  assumes "wf_doc doc" "e < length doc" "y \<in> set (related doc r base e)"
  shows "set (node_path doc ParentNode y) \<subseteq> set (node_path doc ParentNode e)"
proof (cases "rel_dir r")
  case ParentNode
  then show ?thesis using path_member relatedD [OF assms(3)] by simp
next
  case PreviousSibling
  then show ?thesis using sibling_path [OF assms(1,2), of y] relatedD [OF assms(3)] by simp
qed

lemma means_scope:
  assumes "wf_doc doc" "\<And>x. x < length doc \<Longrightarrow> ok x \<Longrightarrow> q \<in> set (node_path doc ParentNode x)"
  shows "e < length doc \<Longrightarrow> means doc other ok ts e \<Longrightarrow> q \<in> set (node_path doc ParentNode e)"
proof (induction ts arbitrary: e)
  case (Cons t ts)
  show ?case
  proof (cases t)
    case (Rel r)
    then obtain x where x: "x \<in> set (related doc r False e)" "means doc other ok ts x" using Cons.prems(2) by auto
    then have "q \<in> set (node_path doc ParentNode x)" using Cons.IH [of x] related_less [OF x(1)] Cons.prems(1) by simp
    then show ?thesis using related_path [OF assms(1) Cons.prems(1) x(1)] by blast
  qed (use Cons in simp_all)
qed (use assms(2) in simp)

lemma means_cong:
  assumes "\<And>x. x < length doc \<Longrightarrow> ok x = ok' x"
  shows "e < length doc \<Longrightarrow> means doc other ok ts e = means doc other ok' ts e"
proof (induction ts arbitrary: e)
  case (Cons t ts)
  have "means doc other ok ts x = means doc other ok' ts x" if "x \<in> set (related doc r False e)" for x r
    using Cons.IH [of x] related_less [OF that] Cons.prems by simp
  then show ?case using Cons by (cases t) auto
qed (use assms in simp)

lemma means_append: "means doc other ok (us @ vs) = means doc other (means doc other ok vs) us"
proof (induction us)
  case (Cons u us)
  then show ?case by (cases u) (simp_all add: fun_eq_iff)
qed simp

lemma means_filters: "\<forall>t\<in>set ts. \<forall>r. t \<noteq> Rel r \<Longrightarrow>
    means doc other ok ts e = ((\<forall>t\<in>set ts. token_filter doc other t e) \<and> ok e)"
proof (induction ts)
  case (Cons t ts)
  then show ?case by (cases t) auto
qed simp

lemma means_remove:
  assumes "\<forall>v\<in>set (t # vs). \<forall>r. v \<noteq> Rel r"
  shows "means doc other ok (rev (ws @ t # vs)) e = (token_filter doc other t e \<and> means doc other ok (rev (ws @ vs)) e)"
proof -
  have f: "means doc other ok' (rev (t # vs)) e = ((\<forall>v\<in>set (t # vs). token_filter doc other v e) \<and> ok' e)"
    "means doc other ok' (rev vs) e = ((\<forall>v\<in>set vs. token_filter doc other v e) \<and> ok' e)" for ok'
    using means_filters [of "rev (t # vs)" doc other ok' e] means_filters [of "rev vs" doc other ok' e] assms by auto
  show ?thesis
    unfolding rev_append means_append f by auto
qed

section \<open>The selection\<close>

lemma element_not_root: "wf_doc doc \<Longrightarrow> is_element doc n \<Longrightarrow> n \<noteq> 0"
  by (cases "n = 0") (simp_all add: is_element_def wf_doc_def)

lemma descendants_root: "wf_doc doc \<Longrightarrow> descendants_of doc 0 = filter (is_element doc) (all_nodes doc)"
  unfolding descendants_of_def
proof (rule filter_cong [OF refl])
  fix n
  assume "wf_doc doc"
  then show "(is_element doc n \<and> 0 \<in> set (node_path doc ParentNode n)) = is_element doc n"
    using root_is_ancestor [of doc n] element_not_root [of doc n] is_element_def [of doc n] by blast
qed

lemma descendants_filter: "wf_doc doc \<Longrightarrow>
    descendants_of doc c = filter (\<lambda>n. c \<in> set (node_path doc ParentNode n)) (descendants_of doc 0)"
  unfolding descendants_root by (simp add: descendants_of_def conj_commute)

lemma descendantsD: "e \<in> set (descendants_of doc c) \<Longrightarrow> is_element doc e \<and> e < length doc \<and> c \<in> set (node_path doc ParentNode e)"
  by (simp add: descendants_of_def is_element_def all_nodes_def)

lemma in_context_ancestor:
  assumes "in_context doc leading c x" "c \<noteq> 0" "\<forall>r. leading = Some r \<longrightarrow> rel_dir r = ParentNode"
  shows "c \<in> set (node_path doc ParentNode x)"
  using assms relatedD by (fastforce simp: in_context_def split: option.splits)

lemma selected_in_context:
  assumes "wf_doc doc" "e < length doc" "selected doc other c tokens e" "c \<noteq> 0"
    "\<forall>r. leadingRelative tokens = Some r \<longrightarrow> rel_dir r = ParentNode"
  shows "c \<in> set (node_path doc ParentNode e)"
  using means_scope [OF assms(1) in_context_ancestor [OF _ assms(4,5)] assms(2)] assms(3) unfolding selected_def by blast

lemma leading_sibling_sign:
  assumes "leadingRelative tokens = Some r" "rel_dir r = PreviousSibling"
  shows "\<exists>t\<in>set tokens. has_sibling_sign t"
  using assms by (cases tokens; cases "hd tokens"; cases r) auto

lemma selected_in_outermost:
  assumes wf: "wf_doc doc" and c: "c < length doc" and e: "e < length doc" "selected doc other c tokens e" "e \<noteq> 0"
    and signs: "set tokens \<subseteq> set tokens'"
  shows "outermost_of doc c tokens' \<in> set (node_path doc ParentNode e)"
proof (cases "c = 0")
  case True
  then have "outermost_of doc c tokens' = 0" using wf by (simp add: outermost_of_def wf_doc_def)
  then show ?thesis using root_is_ancestor [OF wf e(1,3)] by simp
next
  case c0: False
  obtain p where p: "dn_parent (doc ! c) = Some p" "p \<in> set (node_path doc ParentNode c)"
    using parent_path [OF wf c c0] by (metis list.set_intros(1))
  show ?thesis
  proof (cases "\<forall>r. leadingRelative tokens = Some r \<longrightarrow> rel_dir r = ParentNode")
    case True
    then have "c \<in> set (node_path doc ParentNode e)" using selected_in_context [OF wf e(1,2) c0] by simp
    then show ?thesis using p path_member [of c doc ParentNode e] by (auto simp: outermost_of_def)
  next
    case False
    then obtain r where r: "leadingRelative tokens = Some r" "rel_dir r = PreviousSibling" by (metis axis.exhaust)
    have "p \<in> set (node_path doc ParentNode x)" if "x < length doc" "in_context doc (Some r) c x" for x
      using that relatedD [of c doc r True x] sibling_path [OF wf that(1), of c] p(2) r(2) by (simp add: in_context_def)
    then have "p \<in> set (node_path doc ParentNode e)"
      using means_scope [OF wf _ e(1)] e(2) unfolding selected_def r(1) by blast
    moreover have "outermost_of doc c tokens' = p"
      using leading_sibling_sign [OF r] signs p(1) by (auto simp: outermost_of_def list_ex_iff)
    ultimately show ?thesis by simp
  qed
qed

lemma distinct_equal_length:
  assumes "distinct xs" "\<And>x y. x \<in> set xs \<Longrightarrow> y \<in> set xs \<Longrightarrow> x = y"
  shows "length xs \<le> 1"
proof (cases xs)
  case (Cons a ys)
  then show ?thesis using assms(1) assms(2) [of a] by (cases ys) auto
qed simp

lemma find_id_unique:
  assumes "wf_doc doc" "unique_ids doc"
  shows "find_id doc i = filter (id_filter doc i) (descendants_of doc 0)"
proof -
  let ?xs = "filter (id_filter doc i) (descendants_of doc 0)"
  have d: "distinct ?xs" by (simp add: descendants_of_def all_nodes_def)
  have "x = y" if "x \<in> set ?xs" "y \<in> set ?xs" for x y
  proof -
    have "x \<in> set (all_nodes doc)" "y \<in> set (all_nodes doc)" "is_element doc x" "is_element doc y"
      "dn_idAttr (doc ! x) = Some i" "dn_idAttr (doc ! y) = Some i"
      using that by (simp_all add: id_filter_def descendants_of_def)
    then show ?thesis using assms(2) unfolding unique_ids_def by (metis option.distinct(1))
  qed
  then have "length ?xs \<le> 1" by (rule distinct_equal_length [OF d])
  then show ?thesis by (simp add: find_id_def)
qed

lemma find_token_filter:
  assumes "wf_doc doc" "unique_ids doc" "c < length doc" "find_token doc c t = Some es"
  shows "es = filter (token_filter doc other t) (descendants_of doc c)"
proof (cases t)
  case (Id i)
  then have "dn_type (doc ! c) = 9" using assms(4) by (simp add: find_token_def split: if_splits)
  then have "c = 0" using wf_docD [OF assms(1,3)] by metis
  moreover have "token_filter doc other t = id_filter doc i" by (simp add: fun_eq_iff Id)
  ultimately show ?thesis using Id assms(4) find_id_unique [OF assms(1,2)] by (auto simp: find_token_def split: if_splits)
next
  case (Tag n)
  then have "token_filter doc other t = tag_filter doc n" by (simp add: fun_eq_iff)
  then show ?thesis using Tag assms(4) by (simp add: find_token_def)
next
  case (Class n)
  then have "token_filter doc other t = class_filter doc n" by (simp add: fun_eq_iff)
  then show ?thesis using Class assms(4) by (simp add: find_token_def)
qed (use assms(4) in \<open>simp_all add: find_token_def\<close>)

lemma find_seed_Some: "find_seed doc c tokens n = Some (i, es) \<Longrightarrow>
    i < n \<and> find_token doc c (tokens ! i) = Some es \<and> (\<forall>j r. i \<le> j \<and> j < n \<longrightarrow> tokens ! j \<noteq> Rel r)"
proof (induction n)
  case (Suc n)
  show ?case
  proof (cases "tokens ! n")
    case (Rel r)
    then show ?thesis using Suc.prems by simp
  qed (use Suc in \<open>auto split: option.splits simp: less_Suc_eq\<close>)
qed simp

lemma selected_remove:
  assumes "\<forall>v\<in>set (t # vs). \<forall>r. v \<noteq> Rel r"
  shows "selected doc other c (us @ t # vs) e =
    (token_filter doc other t e \<and> (if us @ vs = [] then in_context doc None c e else selected doc other c (us @ vs) e))"
proof (cases us)
  case Nil
  have "leadingRelative (t # vs) = None" "leadingRelative vs = None"
    using assms by (cases t; cases vs; cases "hd vs"; auto)+
  then show ?thesis using means_remove [OF assms, of doc other "in_context doc None c" "[]" e]
    by (cases "vs = []") (simp_all add: selected_def Nil)
next
  case (Cons u us')
  show ?thesis
  proof (cases "\<exists>r. u = Rel r")
    case True
    then obtain r where "u = Rel r" by blast
    then show ?thesis using means_remove [OF assms, of doc other "in_context doc (Some r) c" us' e]
      by (simp add: selected_def Cons)
  next
    case False
    then have "leadingRelative (u # xs) = None" for xs by (cases u) auto
    then show ?thesis using means_remove [OF assms, of doc other "in_context doc None c" us e]
      by (simp add: selected_def Cons)
  qed
qed

lemma filter_selected:
  assumes "wf_doc doc" "\<And>e. is_element doc e \<Longrightarrow> P e \<Longrightarrow> c \<in> set (node_path doc ParentNode e)"
  shows "filter P (descendants_of doc c) = filter P (descendants_of doc 0)"
  unfolding descendants_filter [OF assms(1), of c] filter_filter
  by (rule filter_cong [OF refl]) (use assms(2) descendantsD in blast)

lemma needsContext_dir: "\<not> needsContext tokens \<Longrightarrow> \<forall>r. leadingRelative tokens = Some r \<longrightarrow> rel_dir r = ParentNode"
  by (auto simp: needsContext_def)

lemma select_group_filter:
  assumes wf: "wf_doc doc" and ids: "unique_ids doc" and c: "c < length doc" and ok: "sizzle_ok s"
  shows "fst (select_group doc other c tokens s) = filter (selected doc other c tokens) (descendants_of doc 0)"
proof (cases "find_seed doc c tokens (if needsContext tokens then 0 else length tokens)")
  case None
  have "filter (selected doc other c tokens) (descendants_of doc (outermost_of doc c tokens))
      = filter (selected doc other c tokens) (descendants_of doc 0)"
  proof (rule filter_selected [OF wf])
    fix e
    assume e: "is_element doc e" "selected doc other c tokens e"
    show "outermost_of doc c tokens \<in> set (node_path doc ParentNode e)"
      using e(1) by (intro selected_in_outermost [OF wf c _ e(2) element_not_root [OF wf e(1)] subset_refl]) (simp add: is_element_def)
  qed
  then show ?thesis using run_groups_filter(1) [OF ok] by (simp add: select_group_def None)
next
  case (Some x)
  obtain i seed where x: "x = (i, seed)" by fastforce
  have n: "\<not> needsContext tokens" using Some by (auto split: if_splits)
  then have f: "i < length tokens" "find_token doc c (tokens ! i) = Some seed"
    "\<And>j r. i \<le> j \<Longrightarrow> j < length tokens \<Longrightarrow> tokens ! j \<noteq> Rel r"
    using find_seed_Some [of doc c tokens _ i seed] Some by (auto simp: x)
  define us t vs where d: "us = take i tokens" "t = tokens ! i" "vs = drop (Suc i) tokens"
  have tokens: "tokens = us @ t # vs" using f(1) by (simp add: d id_take_nth_drop)
  have "t # vs = drop i tokens" using f(1) by (simp add: d Cons_nth_drop_Suc)
  then have no_rel: "\<forall>v\<in>set (t # vs). \<forall>r. v \<noteq> Rel r" using f(3) by (auto simp: in_set_conv_nth)
  have seed: "seed = filter (token_filter doc other t) (descendants_of doc c)"
    using find_token_filter [OF wf ids c f(2)] by (simp add: d)
  have ctx: "in_context doc None c e" if "e \<in> set (descendants_of doc c)" for e
    using descendantsD [OF that] by (simp add: in_context_def related_def visits_def)
  have parts: "filter (selected doc other c tokens) (descendants_of doc c)
      = filter (\<lambda>e. us @ vs = [] \<or> selected doc other c (us @ vs) e) seed"
    unfolding seed filter_filter tokens
    by (rule filter_cong [OF refl]) (auto simp: selected_remove [OF no_rel] ctx split: if_splits)
  have "filter (selected doc other c tokens) (descendants_of doc c) = filter (selected doc other c tokens) (descendants_of doc 0)"
  proof (cases "c = 0")
    case False
    show ?thesis
      by (rule filter_selected [OF wf selected_in_context [OF wf _ _ False needsContext_dir [OF n]]]) (auto simp: is_element_def)
  qed simp
  then have result: "filter (selected doc other c tokens) (descendants_of doc 0)
      = filter (\<lambda>e. us @ vs = [] \<or> selected doc other c (us @ vs) e) seed" using parts by simp
  show ?thesis
    using run_groups_filter(1) [OF ok] n Some unfolding result
    by (auto simp: select_group_def x Let_def d)
qed

lemma find_id_element:
  assumes "wf_doc doc" "unique_ids doc"
  shows "find_id doc i = [] \<Longrightarrow> is_element doc x \<Longrightarrow> \<not> id_filter doc i x"
    "find_id doc i = z # zs \<Longrightarrow> is_element doc x \<Longrightarrow> id_filter doc i x = (x = z)"
    "find_id doc i = z # zs \<Longrightarrow> is_element doc z"
proof -
  have f: "find_id doc i = filter (\<lambda>n. is_element doc n \<and> id_filter doc i n) (all_nodes doc)"
    unfolding find_id_unique [OF assms] descendants_root [OF assms(1)] filter_filter by simp
  have all: "is_element doc n \<Longrightarrow> n \<in> set (all_nodes doc)" for n by (simp add: is_element_def all_nodes_def)
  show "find_id doc i = [] \<Longrightarrow> is_element doc x \<Longrightarrow> \<not> id_filter doc i x"
    using all unfolding f filter_empty_conv by blast
  assume z: "find_id doc i = z # zs"
  then have "z \<in> set (find_id doc i)" by simp
  then have e: "is_element doc z" "id_filter doc i z" unfolding f by simp_all
  show "is_element doc z" by (rule e(1))
  show "id_filter doc i x = (x = z)" if "is_element doc x"
    using assms(2) that e all unfolding unique_ids_def id_filter_def by (metis option.distinct(1))
qed

lemma related_element:
  assumes wf: "wf_doc doc" and e: "e < length doc" and z: "is_element doc z"
  shows "z \<in> set (related doc r True e) \<longleftrightarrow> z \<in> set (related doc r False e)"
proof (cases r)
  case Child
  show ?thesis
  proof (cases "node_path doc ParentNode e")
    case (Cons p ps)
    note n = node_path_Cons [OF Cons]
    have p: "is_element doc p \<or> p = 0" using ancestor_is_element [OF wf e, of p] Cons by auto
    have "p = 0 \<Longrightarrow> ps = []" using n(3) path_root [OF wf] by simp
    then show ?thesis
      using p element_not_root [OF wf z] by (auto simp: related_def Child Cons visits_def)
  qed (simp add: related_def Child)
next
  case Adjacent
  then have "visits doc r True = visits doc r False" by (simp add: visits_def fun_eq_iff)
  then show ?thesis by (simp add: related_def)
qed (use z in \<open>auto simp: related_def visits_def\<close>)

lemma id_shortcut_selected:
  assumes wf: "wf_doc doc" and ids: "unique_ids doc" and c: "c < length doc"
  shows "id_shortcut doc c tokens = None \<Longrightarrow> e < length doc \<Longrightarrow> \<not> selected doc other c tokens e"
    "id_shortcut doc c tokens = Some (c', tokens') \<Longrightarrow> e < length doc \<Longrightarrow>
      c' < length doc \<and> selected doc other c' tokens' e = selected doc other c tokens e"
proof -
  have sel: "selected doc other 0 (Id i # Rel r # ts) e =
      means doc other (\<lambda>e. \<exists>x\<in>set (related doc r False e). id_filter doc i x) (rev ts) e" for i r ts e
    by (simp add: selected_def means_append in_context_def means_Rel)
  have root: "c = 0" if "dn_type (doc ! c) = 9" using wf_docD [OF wf c] that by metis
  have elem: "is_element doc x" if "x \<in> set (related doc r False e)" for x r e
    using relatedD [OF that] by (simp add: visits_def)
  show "\<not> selected doc other c tokens e" if s: "id_shortcut doc c tokens = None" "e < length doc"
  proof -
    obtain i r t ts where t: "tokens = Id i # Rel r # t # ts" "c = 0" "find_id doc i = []"
      using s(1) root by (auto simp: id_shortcut_def split: list.splits token.splits if_splits)
    have none: "(\<lambda>e. \<exists>x\<in>set (related doc r False e). id_filter doc i x) = (\<lambda>e. False)"
      using find_id_element(1) [OF wf ids t(3)] elem by (simp add: fun_eq_iff)
    have "\<not> means doc other (\<lambda>e. False) us e" for us
    proof (induction us arbitrary: e)
      case (Cons u us)
      then show ?case by (cases u) auto
    qed simp
    then show ?thesis unfolding t(1,2) sel none .
  qed
  show "c' < length doc \<and> selected doc other c' tokens' e = selected doc other c tokens e"
    if s: "id_shortcut doc c tokens = Some (c', tokens')" and e: "e < length doc"
  proof (cases "c' = c \<and> tokens' = tokens")
    case False
    obtain i r t ts zs where t: "tokens = Id i # Rel r # t # ts" "c = 0" "find_id doc i = c' # zs" "tokens' = Rel r # t # ts"
      using s False root by (auto simp: id_shortcut_def split: list.splits token.splits if_splits)
    note z = find_id_element(2,3) [OF wf ids t(3)]
    have ctx: "in_context doc (Some r) c' x = (\<exists>y\<in>set (related doc r False x). id_filter doc i y)" if "x < length doc" for x
      using related_element [OF wf that z(2), of r] z(1) elem by (auto simp: in_context_def)
    have "means doc other (in_context doc (Some r) c') (rev (t # ts)) e
        = means doc other (\<lambda>e. \<exists>x\<in>set (related doc r False e). id_filter doc i x) (rev (t # ts)) e"
      by (rule means_cong [OF _ e]) (rule ctx)
    then have "selected doc other c' tokens' e = selected doc other c tokens e"
      unfolding t(1,2,4) sel by (simp add: selected_def)
    then show ?thesis using z(2) by (simp add: is_element_def)
  qed (use c in simp)
qed

lemma select_group_ok: "sizzle_ok s \<Longrightarrow> sizzle_ok (snd (select_group doc other c tokens s))"
  by (auto simp: select_group_def Let_def run_groups_filter(2) split: option.split)

lemma select_ok: "sizzle_ok s \<Longrightarrow> sizzle_ok (snd (select doc other groups c s))"
  by (auto simp: select_def run_groups_filter(2) select_group_ok split: option.split)

lemma new_sizzle_ok: "sizzle_ok new_sizzle"
  by (simp add: new_sizzle_def sizzle_ok_def cache_ok_def)

lemma select_filter:
  assumes wf: "wf_doc doc" and ids: "unique_ids doc" and c: "c = 0 \<or> is_element doc c" and ok: "sizzle_ok s"
  shows "fst (select doc other groups c s) = filter (\<lambda>e. \<exists>g\<in>set groups. selected doc other c g e) (descendants_of doc 0)"
proof -
  have len: "c < length doc" using c wf by (auto simp: is_element_def wf_doc_def)
  show ?thesis
  proof (cases "length groups = 1")
    case True
    then obtain tokens where g: "groups = [tokens]" by (cases groups) auto
    note short = id_shortcut_selected [OF wf ids len]
    show ?thesis
    proof (cases "id_shortcut doc c tokens")
      case None
      then show ?thesis using short(1) descendantsD by (auto simp: select_def g filter_empty_conv)
    next
      case (Some x)
      obtain c' tokens' where x: "x = (c', tokens')" by fastforce
      note sel = short(2) [OF Some [unfolded x]]
      have "0 < length doc" using len by linarith
      then have "c' < length doc" using sel by blast
      from select_group_filter [OF wf ids this ok, of other tokens']
      have "fst (select doc other groups c s) = filter (selected doc other c' tokens') (descendants_of doc 0)"
        by (simp add: select_def g Some x)
      also have "\<dots> = filter (selected doc other c tokens) (descendants_of doc 0)"
        using sel descendantsD by (intro filter_cong [OF refl]) blast
      finally show ?thesis by (simp add: g)
    qed
  next
    case False
    let ?P = "\<lambda>e. \<exists>g\<in>set groups. selected doc other c g e"
    have "filter ?P (descendants_of doc (outermost_of doc c (concat groups))) = filter ?P (descendants_of doc 0)"
    proof (rule filter_selected [OF wf])
      fix e
      assume e: "is_element doc e" "?P e"
      then obtain g where g: "g \<in> set groups" "selected doc other c g e" by blast
      then have "set g \<subseteq> set (concat groups)" by auto
      then show "outermost_of doc c (concat groups) \<in> set (node_path doc ParentNode e)"
        using e(1) by (intro selected_in_outermost [OF wf len _ g(2) element_not_root [OF wf e(1)]]) (simp_all add: is_element_def)
    qed
    then show ?thesis using False run_groups_filter(1) [OF ok] by (simp add: select_def)
  qed
qed

text \<open>The selections of a page, one after the other, each with its context.\<close>

definition select_event :: "dnode list \<Rightarrow> (nat \<Rightarrow> nat \<Rightarrow> bool) \<Rightarrow> token list list \<times> nat \<Rightarrow> sizzle \<Rightarrow> sizzle" where
  "select_event doc other x s = snd (select doc other (fst x) (snd x) s)"

interpretation selecting: event_machine "select_event doc other" sizzle_ok "\<lambda>x s. True" for doc other
  by unfold_locales (simp add: select_event_def select_ok)

text \<open>C17: Whatever was selected before and was left in the elements, \<open>select\<close> gives the elements of the document
  that one of the groups of the selector matches, in the order of the document, if no two elements have the same ID.\<close>

theorem select_correct:
  assumes "wf_doc doc" "unique_ids doc" "c = 0 \<or> is_element doc c"
  shows "fst (select doc other groups c (fold (select_event doc other) history new_sizzle)) =
    filter (\<lambda>e. \<exists>g\<in>set groups. selected doc other c g e) (descendants_of doc 0)"
  using selecting.inv_run [OF new_sizzle_ok, of doc other history] by (intro select_filter assms) simp

definition example_document :: "dnode list" where
  "example_document =
     map (\<lambda>(t, n, i, cls, p, q). \<lparr>dn_type = t, dn_nodeName = n, dn_idAttr = i, dn_className = cls, dn_parent = p, dn_previous = q\<rparr>)
       [(9, ''#document'', None, [], None, None), (1, ''HTML'', None, [], Some 0, None), (1, ''BODY'', None, [], Some 1, None),
        (1, ''DIV'', Some ''app'', ''container main'', Some 2, None), (1, ''P'', None, [], Some 3, None),
        (3, ''#text'', None, [], Some 3, Some 4), (1, ''P'', None, ''main'', Some 3, Some 5),
        (1, ''DIV'', None, [], Some 2, Some 3), (1, ''P'', None, [], Some 7, None)]"

lemma example_document_facts:
  "wf_doc example_document" "unique_ids example_document"
  "filter (\<lambda>e. \<exists>g\<in>set [[Tag ''div'', Rel Descendant, Tag ''p'', Rel Adjacent, Tag ''p''], [Id ''app'', Rel Sibling, Tag ''div'', Rel Child, Tag ''p'']].
     selected example_document (\<lambda>k n. False) 0 g e) (descendants_of example_document 0) = [6, 8]"
  by code_simp+

theorem select_correct_witness:
  "fst (select example_document (\<lambda>k n. False)
     [[Tag ''div'', Rel Descendant, Tag ''p'', Rel Adjacent, Tag ''p''], [Id ''app'', Rel Sibling, Tag ''div'', Rel Child, Tag ''p'']] 0
     (fold (select_event example_document (\<lambda>k n. False)) [([[Tag ''div'', Rel Descendant, Tag ''p'']], 0)] new_sizzle)) = [6, 8]"
  unfolding select_correct [OF example_document_facts(1,2) disjI1 [OF refl]] by (rule example_document_facts(3))

end
