(* ===== verification/Bootstrap_Modal.thy ===== *)
theory Bootstrap_Modal
  imports Htrace_Prelude
begin

text \<open>
  The dialogs of bootstrap (\<open>modal.js\<close> and \<open>transition.js\<close> in
  \<open>htrace-webapp/src/main/web/lib/bootstrap-3.3.1/js/bootstrap.js\<close>), as the viewer uses them in \<open>modal.js\<close>.
  Showing and hiding fade the backdrop and the dialog one after the other: what comes next is a handler that runs
  once, when the transition ends or a timer says that it should have ended. The steps of user, browser and
  timers come in any order. The sizes of the page are parameters, as is what handlers of the events
  \<open>show\<close> and \<open>hide\<close> prevent; the option \<open>remote\<close> and the triggers in the page (\<open>data-toggle\<close>) are left out.
\<close>

section \<open>State\<close>

datatype backdrop_option = NoBackdrop | Closes | Static

text \<open>\<open>mo_fade\<close>: the element has the class \<open>fade\<close>; \<open>mo_transition\<close>: \<open>$.support.transition\<close>.\<close>

record modal_config =
  mo_backdrop :: backdrop_option
  mo_keyboard :: bool
  mo_fade :: bool
  mo_transition :: bool
  mo_prevents :: "string \<Rightarrow> bool"
  mo_bodyOverflows :: bool
  mo_elementOverflows :: bool
  mo_scrollbar :: int
  mo_bodyPadding :: int

text \<open>The elements whose transitions matter; backdrops and dialogs are numbered as they are made.\<close>

datatype fading_part = Element | Dialog nat | Backdrop nat

datatype modal_callback = ShowElement | AfterHide

datatype ending = Called nat | FocusShown | HideModal | Run modal_callback | RemoveThen modal_callback

text \<open>
  \<open>bm_backdrop\<close> is \<open>this.$backdrop\<close>, \<open>bm_children\<close> are the backdrops in the element, \<open>bm_dialog\<close> is the
  \<open>.modal-dialog\<close> in it. Of the handlers there are numbers. \<open>bm_ends\<close> are the handlers of \<open>bsTransitionEnd\<close>,
  and a timer has its part and the variable \<open>called\<close>.
\<close>

record bs_modal =
  bm_isShown :: bool
  bm_backdrop :: "nat option"
  bm_bodyIsOverflowing :: bool
  bm_scrollbarWidth :: int
  bm_dialog :: "nat option"
  bm_children :: "nat list"
  bm_displayed :: bool
  bm_in :: bool
  bm_ariaHidden :: bool
  bm_padding :: "int option \<times> int option"
  bm_modalOpen :: bool
  bm_bodyRight :: "int option"
  bm_dismiss :: nat
  bm_keydown :: nat
  bm_resize :: nat
  bm_focusin :: nat
  bm_ends :: "fading_part \<Rightarrow> ending list"
  bm_timers :: "(nat \<times> fading_part \<times> bool) list"
  bm_next :: nat
  bm_thrown :: bool
  bm_events :: "string list"

definition new_modal :: bs_modal where
  "new_modal =
     \<lparr>bm_isShown = False, bm_backdrop = None, bm_bodyIsOverflowing = False, bm_scrollbarWidth = 0, bm_dialog = None, bm_children = [],
      bm_displayed = False, bm_in = False, bm_ariaHidden = False, bm_padding = (None, None), bm_modalOpen = False,
      bm_bodyRight = None, bm_dismiss = 0, bm_keydown = 0, bm_resize = 0, bm_focusin = 0, bm_ends = (\<lambda>p. []), bm_timers = [],
      bm_next = 0, bm_thrown = False, bm_events = []\<rparr>"

definition trigger_event :: "string \<Rightarrow> bs_modal \<Rightarrow> bs_modal" where
  "trigger_event e s = s\<lparr>bm_events := bm_events s @ [e]\<rparr>"

definition set_ends :: "fading_part \<Rightarrow> ending list \<Rightarrow> bs_modal \<Rightarrow> bs_modal" where
  "set_ends p hs s = s\<lparr>bm_ends := (bm_ends s)(p := hs)\<rparr>"

text \<open>\<open>one('bsTransitionEnd', h).emulateTransitionEnd(...)\<close>\<close>

definition when_ended :: "fading_part \<Rightarrow> ending \<Rightarrow> bs_modal \<Rightarrow> bs_modal" where
  "when_ended p h s =
     (set_ends p (bm_ends s p @ [h, Called (bm_next s)]) s)
       \<lparr>bm_timers := bm_timers s @ [(bm_next s, p, False)], bm_next := bm_next s + 1\<rparr>"

text \<open>\<open>remove\<close> and \<open>html\<close> of jQuery take the handlers of the removed elements away.\<close>

definition remove_child :: "nat \<Rightarrow> bs_modal \<Rightarrow> bs_modal" where
  "remove_child b s = set_ends (Backdrop b) [] (s\<lparr>bm_children := removeAll b (bm_children s)\<rparr>)"

definition set_html :: "bool \<Rightarrow> bs_modal \<Rightarrow> bs_modal" where
  "set_html has_dialog s =
     (let gone = map Backdrop (bm_children s) @ (case bm_dialog s of None \<Rightarrow> [] | Some d \<Rightarrow> [Dialog d]);
          s = fold (\<lambda>p. set_ends p []) gone s
      in s\<lparr>bm_children := [], bm_dialog := (if has_dialog then Some (bm_next s) else None), bm_next := bm_next s + 1\<rparr>)"

section \<open>Methods\<close>

definition animated :: "modal_config \<Rightarrow> bool" where
  "animated cfg \<longleftrightarrow> mo_transition cfg \<and> mo_fade cfg"

definition checkScrollbar :: "modal_config \<Rightarrow> bs_modal \<Rightarrow> bs_modal" where
  "checkScrollbar cfg s = s\<lparr>bm_bodyIsOverflowing := mo_bodyOverflows cfg, bm_scrollbarWidth := mo_scrollbar cfg\<rparr>"

definition setScrollbar :: "modal_config \<Rightarrow> bs_modal \<Rightarrow> bs_modal" where
  "setScrollbar cfg s =
     (let bodyPad = (case bm_bodyRight s of None \<Rightarrow> mo_bodyPadding cfg | Some p \<Rightarrow> p)
      in if bm_bodyIsOverflowing s then s\<lparr>bm_bodyRight := Some (bodyPad + bm_scrollbarWidth s)\<rparr> else s)"

definition resetScrollbar :: "bs_modal \<Rightarrow> bs_modal" where
  "resetScrollbar s = s\<lparr>bm_bodyRight := None\<rparr>"

definition resetAdjustments :: "bs_modal \<Rightarrow> bs_modal" where
  "resetAdjustments s = s\<lparr>bm_padding := (None, None)\<rparr>"

definition adjustDialog :: "modal_config \<Rightarrow> bs_modal \<Rightarrow> bs_modal" where
  "adjustDialog cfg s =
     s\<lparr>bm_padding :=
         (if \<not> bm_bodyIsOverflowing s \<and> mo_elementOverflows cfg then Some (bm_scrollbarWidth s) else None,
          if bm_bodyIsOverflowing s \<and> \<not> mo_elementOverflows cfg then Some (bm_scrollbarWidth s) else None)\<rparr>"

definition escape_keys :: "modal_config \<Rightarrow> bs_modal \<Rightarrow> bs_modal" where
  "escape_keys cfg s =
     (if bm_isShown s \<and> mo_keyboard cfg then s\<lparr>bm_keydown := bm_keydown s + 1\<rparr>
      else if \<not> bm_isShown s then s\<lparr>bm_keydown := 0\<rparr> else s)"

definition resize_modal :: "bs_modal \<Rightarrow> bs_modal" where
  "resize_modal s = (if bm_isShown s then s\<lparr>bm_resize := bm_resize s + 1\<rparr> else s\<lparr>bm_resize := 0\<rparr>)"

definition enforceFocus :: "bs_modal \<Rightarrow> bs_modal" where
  "enforceFocus s = s\<lparr>bm_focusin := 1\<rparr>"

text \<open>\<open>adjustBackdrop\<close> only sets a height; but it throws when there is no backdrop any more.\<close>

definition lacks_backdrop :: "modal_config \<Rightarrow> bs_modal \<Rightarrow> bool" where
  "lacks_backdrop cfg s \<longleftrightarrow> mo_backdrop cfg \<noteq> NoBackdrop \<and> bm_backdrop s = None"

definition handleUpdate :: "modal_config \<Rightarrow> bs_modal \<Rightarrow> bs_modal" where
  "handleUpdate cfg s = (if lacks_backdrop cfg s then s\<lparr>bm_thrown := True\<rparr> else adjustDialog cfg s)"

text \<open>The callback of \<open>show\<close>: the element appears. The callback of \<open>hideModal\<close>.\<close>

definition show_element :: "modal_config \<Rightarrow> bs_modal \<Rightarrow> bs_modal" where
  "show_element cfg s =
     (let s = s\<lparr>bm_displayed := True\<rparr>
      in if lacks_backdrop cfg s then s\<lparr>bm_thrown := True\<rparr>
         else
           (let s = enforceFocus ((adjustDialog cfg s)\<lparr>bm_in := True, bm_ariaHidden := False\<rparr>)
            in if animated cfg
               then (case bm_dialog s of None \<Rightarrow> s | Some d \<Rightarrow> when_ended (Dialog d) FocusShown s)
               else trigger_event ''shown'' (trigger_event ''focus'' s)))"

definition after_hide :: "bs_modal \<Rightarrow> bs_modal" where
  "after_hide s = trigger_event ''hidden'' (resetScrollbar (resetAdjustments (s\<lparr>bm_modalOpen := False\<rparr>)))"

fun run_modal_callback :: "modal_config \<Rightarrow> modal_callback \<Rightarrow> bs_modal \<Rightarrow> bs_modal" where
  "run_modal_callback cfg ShowElement s = show_element cfg s"
| "run_modal_callback cfg AfterHide s = after_hide s"

definition removeBackdrop :: "bs_modal \<Rightarrow> bs_modal" where
  "removeBackdrop s = (case bm_backdrop s of None \<Rightarrow> s | Some b \<Rightarrow> remove_child b s)\<lparr>bm_backdrop := None\<rparr>"

definition backdrop :: "modal_config \<Rightarrow> modal_callback \<Rightarrow> bs_modal \<Rightarrow> bs_modal" where
  "backdrop cfg callback s =
     (if bm_isShown s \<and> mo_backdrop cfg \<noteq> NoBackdrop then
        (let b = bm_next s;
             s = s\<lparr>bm_backdrop := Some b, bm_children := b # bm_children s, bm_next := b + 1\<rparr>
         in if animated cfg then when_ended (Backdrop b) (Run callback) s else run_modal_callback cfg callback s)
      else if \<not> bm_isShown s \<and> bm_backdrop s \<noteq> None then
        (if animated cfg then when_ended (Backdrop (the (bm_backdrop s))) (RemoveThen callback) s
         else run_modal_callback cfg callback (removeBackdrop s))
      else run_modal_callback cfg callback s)"

definition show_modal :: "modal_config \<Rightarrow> bs_modal \<Rightarrow> bs_modal" where
  "show_modal cfg s =
     (let s = trigger_event ''show'' s
      in if bm_isShown s \<or> mo_prevents cfg ''show'' then s
         else
           (let s = setScrollbar cfg (checkScrollbar cfg (s\<lparr>bm_isShown := True\<rparr>));
                s = resize_modal (escape_keys cfg (s\<lparr>bm_modalOpen := True\<rparr>))
            in backdrop cfg ShowElement (s\<lparr>bm_dismiss := bm_dismiss s + 1\<rparr>)))"

definition hideModal :: "modal_config \<Rightarrow> bs_modal \<Rightarrow> bs_modal" where
  "hideModal cfg s = backdrop cfg AfterHide (s\<lparr>bm_displayed := False\<rparr>)"

definition hide_modal :: "modal_config \<Rightarrow> bs_modal \<Rightarrow> bs_modal" where
  "hide_modal cfg s =
     (let s = trigger_event ''hide'' s
      in if \<not> bm_isShown s \<or> mo_prevents cfg ''hide'' then s
         else
           (let s = resize_modal (escape_keys cfg (s\<lparr>bm_isShown := False\<rparr>));
                s = s\<lparr>bm_focusin := 0, bm_in := False, bm_ariaHidden := True, bm_dismiss := 0\<rparr>
            in if animated cfg then when_ended Element HideModal s else hideModal cfg s))"

definition toggle_modal :: "modal_config \<Rightarrow> bs_modal \<Rightarrow> bs_modal" where
  "toggle_modal cfg s = (if bm_isShown s then hide_modal cfg s else show_modal cfg s)"

section \<open>What happens\<close>

fun run_ending :: "modal_config \<Rightarrow> ending \<Rightarrow> bs_modal \<Rightarrow> bs_modal" where
  "run_ending cfg (Called k) s = s\<lparr>bm_timers := map (\<lambda>(j, p, c). (j, p, c \<or> j = k)) (bm_timers s)\<rparr>"
| "run_ending cfg FocusShown s = trigger_event ''shown'' (trigger_event ''focus'' s)"
| "run_ending cfg HideModal s = hideModal cfg s"
| "run_ending cfg (Run callback) s = run_modal_callback cfg callback s"
| "run_ending cfg (RemoveThen callback) s = run_modal_callback cfg callback (removeBackdrop s)"

text \<open>The end of a transition: each handler is taken away before it runs; an exception leaves the others.\<close>

fun run_endings :: "modal_config \<Rightarrow> fading_part \<Rightarrow> ending list \<Rightarrow> bs_modal \<Rightarrow> bs_modal" where
  "run_endings cfg p [] s = s"
| "run_endings cfg p (h # hs) s =
     (let s = run_ending cfg h (set_ends p (remove1 h (bm_ends s p)) s)
      in if bm_thrown s then s else run_endings cfg p hs s)"

definition transition_end :: "modal_config \<Rightarrow> fading_part \<Rightarrow> bs_modal \<Rightarrow> bs_modal" where
  "transition_end cfg p s = run_endings cfg p (bm_ends s p) s"

definition timer_fires :: "modal_config \<Rightarrow> nat \<Rightarrow> bs_modal \<Rightarrow> bs_modal" where
  "timer_fires cfg i s =
     (let (k, p, called) = bm_timers s ! i;
          s = s\<lparr>bm_timers := take i (bm_timers s) @ drop (Suc i) (bm_timers s)\<rparr>
      in if called then s else transition_end cfg p s)"

text \<open>
  \<open>ShowDialog\<close> is \<open>showModal\<close> of the viewer, \<open>Dismiss\<close> a click on a button with \<open>data-dismiss\<close> (also by
  the key enter), \<open>ClickBackdrop\<close> a click on a backdrop, \<open>KeyDown\<close> a key in the element.
\<close>

datatype modal_event =
    ShowDialog
  | ToggleDialog
  | Dismiss
  | ClickBackdrop nat
  | KeyDown nat
  | Resized
  | FocusIn bool
  | TransitionEnd fading_part
  | Timeout nat

text \<open>As many handlers run as there are, unless one throws.\<close>

fun run_handlers :: "nat \<Rightarrow> (bs_modal \<Rightarrow> bs_modal) \<Rightarrow> bs_modal \<Rightarrow> bs_modal" where
  "run_handlers 0 f s = s"
| "run_handlers (Suc n) f s = (let s = f s in if bm_thrown s then s else run_handlers n f s)"

definition click_backdrop :: "modal_config \<Rightarrow> nat \<Rightarrow> bs_modal \<Rightarrow> bs_modal" where
  "click_backdrop cfg b s =
     (if b \<notin> set (bm_children s) then s
      else if mo_backdrop cfg = Static then trigger_event ''focus'' s
      else hide_modal cfg s)"

fun handle_event :: "modal_config \<Rightarrow> modal_event \<Rightarrow> bs_modal \<Rightarrow> bs_modal" where
  "handle_event cfg ShowDialog s = show_modal cfg (set_html True s)"
| "handle_event cfg ToggleDialog s = toggle_modal cfg s"
| "handle_event cfg Dismiss s = run_handlers (bm_dismiss s) (hide_modal cfg) s"
| "handle_event cfg (ClickBackdrop b) s = click_backdrop cfg b s"
| "handle_event cfg (KeyDown which) s = run_handlers (if which = 27 then bm_keydown s else 0) (hide_modal cfg) s"
| "handle_event cfg Resized s = run_handlers (bm_resize s) (handleUpdate cfg) s"
| "handle_event cfg (FocusIn inside) s = run_handlers (if inside then 0 else bm_focusin s) (trigger_event ''focus'') s"
| "handle_event cfg (TransitionEnd p) s = transition_end cfg p s"
| "handle_event cfg (Timeout i) s = (if i < length (bm_timers s) then timer_fires cfg i s else s)"

definition modal_step :: "modal_config \<Rightarrow> modal_event \<Rightarrow> bs_modal \<Rightarrow> bs_modal" where
  "modal_step cfg e s = handle_event cfg e (s\<lparr>bm_thrown := False\<rparr>)"

end
