(* ===== verification/Dialog_Props.thy ===== *)
theory Dialog_Props
  imports Bootstrap_Modal
begin

text \<open>
  What \<open>Bootstrap_Modal\<close> keeps: if dialogs are only opened and dismissed while nothing fades, the element, the
  backdrop and the page agree at any time, and what fades comes to its end. And what happens when they are opened
  at other times: the dialog is lost.
\<close>

section \<open>Phases\<close>

datatype phase = Hidden | Opening nat | Open nat | Closing nat | ClosingBackdrop nat

text \<open>The handlers on the element, the document and the window.\<close>

definition modal_handlers :: "bs_modal \<Rightarrow> nat \<times> nat \<times> nat \<times> nat" where
  "modal_handlers s = (bm_dismiss s, bm_keydown s, bm_resize s, bm_focusin s)"

fun shape :: "phase \<Rightarrow> bs_modal \<Rightarrow> bool" where
  "shape Hidden s \<longleftrightarrow>
     \<not> bm_isShown s \<and> \<not> bm_displayed s \<and> \<not> bm_in s \<and> \<not> bm_modalOpen s \<and> bm_backdrop s = None \<and> bm_children s = []
     \<and> bm_bodyRight s = None \<and> modal_handlers s = (0, 0, 0, 0)"
| "shape (Opening b) s \<longleftrightarrow>
     bm_isShown s \<and> \<not> bm_displayed s \<and> \<not> bm_in s \<and> bm_modalOpen s \<and> bm_backdrop s = Some b \<and> bm_children s = [b]
     \<and> modal_handlers s = (1, 1, 1, 0)"
| "shape (Open b) s \<longleftrightarrow>
     bm_isShown s \<and> bm_displayed s \<and> bm_in s \<and> bm_modalOpen s \<and> bm_backdrop s = Some b \<and> bm_children s \<in> {[], [b]}
     \<and> modal_handlers s = (1, 1, 1, 1)"
| "shape (Closing b) s \<longleftrightarrow>
     \<not> bm_isShown s \<and> bm_displayed s \<and> \<not> bm_in s \<and> bm_modalOpen s \<and> bm_backdrop s = Some b \<and> bm_children s \<in> {[], [b]}
     \<and> modal_handlers s = (0, 0, 0, 0)"
| "shape (ClosingBackdrop b) s \<longleftrightarrow>
     \<not> bm_isShown s \<and> \<not> bm_displayed s \<and> \<not> bm_in s \<and> bm_modalOpen s \<and> bm_backdrop s = Some b \<and> bm_children s \<in> {[], [b]}
     \<and> modal_handlers s = (0, 0, 0, 0)"

fun awaited :: "phase \<Rightarrow> (fading_part \<times> ending) option" where
  "awaited (Opening b) = Some (Backdrop b, Run ShowElement)"
| "awaited (Closing b) = Some (Element, HideModal)"
| "awaited (ClosingBackdrop b) = Some (Backdrop b, RemoveThen AfterHide)"
| "awaited ph = None"

definition idle_end :: "ending \<Rightarrow> bool" where
  "idle_end h \<longleftrightarrow> h = FocusShown \<or> (\<exists>k. h = Called k)"

text \<open>The handlers of one part: nothing of importance, or the step that is awaited with its timer.\<close>

fun idle :: "fading_part \<Rightarrow> ending list \<Rightarrow> bool" where
  "idle (Dialog d) hs \<longleftrightarrow> (\<forall>h\<in>set hs. idle_end h)"
| "idle Element hs \<longleftrightarrow> hs = []"
| "idle (Backdrop b) hs \<longleftrightarrow> hs = []"

definition parts_ok :: "phase \<Rightarrow> bs_modal \<Rightarrow> bool" where
  "parts_ok ph s \<longleftrightarrow>
     (\<forall>p. case awaited ph of
            Some (q, h) \<Rightarrow> if p = q then (\<exists>k. bm_ends s p = [h, Called k]) else idle p (bm_ends s p)
          | None \<Rightarrow> idle p (bm_ends s p))"

definition armed :: "phase \<Rightarrow> bs_modal \<Rightarrow> bool" where
  "armed ph s \<longleftrightarrow>
     (case awaited ph of
        Some (q, h) \<Rightarrow> \<exists>k. Called k \<in> set (bm_ends s q) \<and> (k, q, False) \<in> set (bm_timers s)
      | None \<Rightarrow> True)"

text \<open>The variable \<open>called\<close> of a timer belongs to its part.\<close>

definition timers_ok :: "bs_modal \<Rightarrow> bool" where
  "timers_ok s \<longleftrightarrow>
     (\<forall>(k, p, c)\<in>set (bm_timers s). k < bm_next s)
     \<and> (\<forall>p k. Called k \<in> set (bm_ends s p) \<longrightarrow> k < bm_next s \<and> (\<forall>(j, q, c)\<in>set (bm_timers s). j = k \<longrightarrow> q = p))"

definition base_ok :: "phase \<Rightarrow> bs_modal \<Rightarrow> bool" where
  "base_ok ph s \<longleftrightarrow> shape ph s \<and> parts_ok ph s \<and> timers_ok s
     \<and> (\<forall>b. bm_backdrop s = Some b \<longrightarrow> b < bm_next s) \<and> (\<forall>b. bm_next s \<le> b \<longrightarrow> bm_ends s (Backdrop b) = [])"

definition modal_ok :: "phase \<Rightarrow> bs_modal \<Rightarrow> bool" where
  "modal_ok ph s \<longleftrightarrow> base_ok ph s \<and> armed ph s"

text \<open>The configuration of the viewer, whatever the sizes of the page.\<close>

definition viewer_config :: "modal_config \<Rightarrow> bool" where
  "viewer_config cfg \<longleftrightarrow>
     animated cfg \<and> mo_backdrop cfg = Closes \<and> mo_keyboard cfg \<and> (\<forall>e. \<not> mo_prevents cfg e)"

text \<open>Nothing fades.\<close>

definition nothing_fades :: "bs_modal \<Rightarrow> bool" where
  "nothing_fades s \<longleftrightarrow> bm_ends s Element = [] \<and> (case bm_backdrop s of None \<Rightarrow> True | Some b \<Rightarrow> bm_ends s (Backdrop b) = [])"

fun in_time :: "modal_event \<Rightarrow> bs_modal \<Rightarrow> bool" where
  "in_time ShowDialog s = nothing_fades s"
| "in_time ToggleDialog s = nothing_fades s"
| "in_time Dismiss s = (nothing_fades s \<or> \<not> bm_isShown s)"
| "in_time (ClickBackdrop b) s = (nothing_fades s \<or> \<not> bm_isShown s)"
| "in_time (KeyDown which) s = (nothing_fades s \<or> \<not> bm_isShown s)"
| "in_time e s = True"

section \<open>Small steps\<close>

lemma parts_idle: "parts_ok ph s \<Longrightarrow> awaited ph = None \<Longrightarrow> idle p (bm_ends s p)"
  by (simp add: parts_ok_def)

lemma parts_awaited:
  "parts_ok ph s \<Longrightarrow> awaited ph = Some (q, h) \<Longrightarrow> \<exists>k. bm_ends s q = [h, Called k]"
  "parts_ok ph s \<Longrightarrow> awaited ph = Some (q, h) \<Longrightarrow> p \<noteq> q \<Longrightarrow> idle p (bm_ends s p)"
  unfolding parts_ok_def by (force, fastforce)

lemma parts_okI:
  assumes "\<And>q h. awaited ph = Some (q, h) \<Longrightarrow> \<exists>k. bm_ends s q = [h, Called k]"
    and "\<And>p. (\<And>h. awaited ph \<noteq> Some (p, h)) \<Longrightarrow> idle p (bm_ends s p)"
  shows "parts_ok ph s"
  using assms unfolding parts_ok_def by (auto split: option.split prod.split)

lemma idle_Nil [simp]: "idle p []"
  by (cases p) simp_all

lemma settled_phase:
  assumes "modal_ok ph s"
  shows "nothing_fades s \<longleftrightarrow> awaited ph = None"
proof (cases "awaited ph")
  case None
  have i: "idle p (bm_ends s p)" for p using assms None parts_idle by (metis modal_ok_def base_ok_def)
  show ?thesis using i [of Element] i [of "Backdrop b" for b] by (simp add: nothing_fades_def None split: option.split)
next
  case (Some x)
  obtain q h where x: "x = (q, h)" by fastforce
  have "parts_ok ph s" using assms by (simp add: modal_ok_def base_ok_def)
  then have "\<exists>k. bm_ends s q = [h, Called k]" using Some unfolding x by (rule parts_awaited(1))
  then have "bm_ends s q \<noteq> []" by auto
  moreover have "shape ph s" using assms by (simp add: modal_ok_def base_ok_def)
  ultimately show ?thesis using Some x by (cases ph) (auto simp: nothing_fades_def)
qed

subsection \<open>Timers\<close>

lemma timers_okI:
  assumes "\<And>k p c. (k, p, c) \<in> set (bm_timers s) \<Longrightarrow> k < bm_next s"
    and "\<And>p k. Called k \<in> set (bm_ends s p) \<Longrightarrow> k < bm_next s"
    and "\<And>p k q c. Called k \<in> set (bm_ends s p) \<Longrightarrow> (k, q, c) \<in> set (bm_timers s) \<Longrightarrow> q = p"
  shows "timers_ok s"
  using assms unfolding timers_ok_def by fastforce

lemma timers_okD:
  assumes "timers_ok s"
  shows "(k, p, c) \<in> set (bm_timers s) \<Longrightarrow> k < bm_next s"
    "Called k \<in> set (bm_ends s p) \<Longrightarrow> k < bm_next s"
    "Called k \<in> set (bm_ends s p) \<Longrightarrow> (k, q, c) \<in> set (bm_timers s) \<Longrightarrow> q = p"
  using assms unfolding timers_ok_def by fastforce+

lemma timers_ok_mono:
  assumes "timers_ok s" "\<And>x. x \<in> set (bm_timers t) \<Longrightarrow> x \<in> set (bm_timers s)"
    and "\<And>p h. h \<in> set (bm_ends t p) \<Longrightarrow> h \<in> set (bm_ends s p)" "bm_next s \<le> bm_next t"
  shows "timers_ok t"
proof (rule timers_okI)
  show "(k, p, c) \<in> set (bm_timers t) \<Longrightarrow> k < bm_next t" for k p c
    using timers_okD(1) [OF assms(1)] assms(2,4) by fastforce
  show "Called k \<in> set (bm_ends t p) \<Longrightarrow> k < bm_next t" for k p
    using timers_okD(2) [OF assms(1)] assms(3,4) by fastforce
  show "Called k \<in> set (bm_ends t p) \<Longrightarrow> (k, q, c) \<in> set (bm_timers t) \<Longrightarrow> q = p" for k p q c
    using timers_okD(3) [OF assms(1)] assms(2,3) by blast
qed

lemma timers_ok_when_ended:
  assumes "timers_ok s" "\<And>k. h \<noteq> Called k"
  shows "timers_ok (when_ended p h s)"
proof (rule timers_okI)
  note d = timers_okD [OF assms(1)]
  show "(k, q, c) \<in> set (bm_timers (when_ended p h s)) \<Longrightarrow> k < bm_next (when_ended p h s)" for k q c
    using d(1) [of k q c] by (auto simp: when_ended_def set_ends_def)
  show "Called k \<in> set (bm_ends (when_ended p h s) q) \<Longrightarrow> k < bm_next (when_ended p h s)" for k q
    using d(2) [of k q] assms(2) [of k] by (auto simp: when_ended_def set_ends_def split: if_splits)
  show "Called k \<in> set (bm_ends (when_ended p h s) q) \<Longrightarrow> (k, r, c) \<in> set (bm_timers (when_ended p h s)) \<Longrightarrow> r = q" for k q r c
    using d(1) [of k r c] d(2) [of k q] d(3) [of k q r c] assms(2) [of k] by (auto simp: when_ended_def set_ends_def split: if_splits)
qed

lemma called_fields [simp]:
  "bm_isShown (run_ending cfg (Called k) s) = bm_isShown s" "bm_displayed (run_ending cfg (Called k) s) = bm_displayed s"
  "bm_in (run_ending cfg (Called k) s) = bm_in s" "bm_modalOpen (run_ending cfg (Called k) s) = bm_modalOpen s"
  "bm_backdrop (run_ending cfg (Called k) s) = bm_backdrop s" "bm_children (run_ending cfg (Called k) s) = bm_children s"
  "bm_bodyRight (run_ending cfg (Called k) s) = bm_bodyRight s" "modal_handlers (run_ending cfg (Called k) s) = modal_handlers s"
  "bm_thrown (run_ending cfg (Called k) s) = bm_thrown s" "bm_next (run_ending cfg (Called k) s) = bm_next s"
  "bm_ends (run_ending cfg (Called k) s) = bm_ends s"
  "length (bm_timers (run_ending cfg (Called k) s)) = length (bm_timers s)"
  by (simp_all add: modal_handlers_def)

lemma called_timers:
  "(j, p, c) \<in> set (bm_timers (run_ending cfg (Called k) s)) \<longleftrightarrow> (\<exists>c'. (j, p, c') \<in> set (bm_timers s) \<and> c = (c' \<or> j = k))"
  by (auto simp: image_iff split: prod.splits)

declare run_ending.simps(1) [simp del]

lemma timers_ok_called:
  assumes "timers_ok s"
  shows "timers_ok (run_ending cfg (Called k) s)"
  using timers_okD [OF assms] by (intro timers_okI) (auto simp: called_timers)

lemma when_ended_fields [simp]:
  "bm_isShown (when_ended p h s) = bm_isShown s" "bm_displayed (when_ended p h s) = bm_displayed s"
  "bm_in (when_ended p h s) = bm_in s" "bm_modalOpen (when_ended p h s) = bm_modalOpen s"
  "bm_backdrop (when_ended p h s) = bm_backdrop s" "bm_children (when_ended p h s) = bm_children s"
  "bm_bodyRight (when_ended p h s) = bm_bodyRight s" "modal_handlers (when_ended p h s) = modal_handlers s"
  "bm_thrown (when_ended p h s) = bm_thrown s" "bm_next (when_ended p h s) = Suc (bm_next s)"
  "bm_ends (when_ended p h s) = (bm_ends s)(p := bm_ends s p @ [h, Called (bm_next s)])"
  "bm_timers (when_ended p h s) = bm_timers s @ [(bm_next s, p, False)]"
  by (simp_all add: when_ended_def set_ends_def modal_handlers_def)

lemma set_ends_fields [simp]:
  "bm_dismiss (set_ends p hs s) = bm_dismiss s" "bm_keydown (set_ends p hs s) = bm_keydown s"
  "bm_resize (set_ends p hs s) = bm_resize s" "bm_focusin (set_ends p hs s) = bm_focusin s"
  "bm_isShown (set_ends p hs s) = bm_isShown s" "bm_displayed (set_ends p hs s) = bm_displayed s"
  "bm_in (set_ends p hs s) = bm_in s" "bm_modalOpen (set_ends p hs s) = bm_modalOpen s"
  "bm_backdrop (set_ends p hs s) = bm_backdrop s" "bm_children (set_ends p hs s) = bm_children s"
  "bm_bodyRight (set_ends p hs s) = bm_bodyRight s" "modal_handlers (set_ends p hs s) = modal_handlers s"
  "bm_thrown (set_ends p hs s) = bm_thrown s" "bm_next (set_ends p hs s) = bm_next s" "bm_dialog (set_ends p hs s) = bm_dialog s"
  "bm_ends (set_ends p hs s) = (bm_ends s)(p := hs)" "bm_timers (set_ends p hs s) = bm_timers s"
  by (simp_all add: set_ends_def modal_handlers_def)

lemma trigger_fields [simp]:
  "bm_dismiss (trigger_event e s) = bm_dismiss s" "bm_keydown (trigger_event e s) = bm_keydown s"
  "bm_resize (trigger_event e s) = bm_resize s" "bm_focusin (trigger_event e s) = bm_focusin s"
  "bm_isShown (trigger_event e s) = bm_isShown s" "bm_displayed (trigger_event e s) = bm_displayed s"
  "bm_in (trigger_event e s) = bm_in s" "bm_modalOpen (trigger_event e s) = bm_modalOpen s"
  "bm_backdrop (trigger_event e s) = bm_backdrop s" "bm_children (trigger_event e s) = bm_children s"
  "bm_bodyRight (trigger_event e s) = bm_bodyRight s" "modal_handlers (trigger_event e s) = modal_handlers s"
  "bm_thrown (trigger_event e s) = bm_thrown s" "bm_next (trigger_event e s) = bm_next s" "bm_dialog (trigger_event e s) = bm_dialog s"
  "bm_ends (trigger_event e s) = bm_ends s" "bm_timers (trigger_event e s) = bm_timers s"
  by (simp_all add: trigger_event_def modal_handlers_def)

lemma adjust_fields [simp]:
  "bm_dismiss (adjustDialog cfg s) = bm_dismiss s" "bm_keydown (adjustDialog cfg s) = bm_keydown s"
  "bm_resize (adjustDialog cfg s) = bm_resize s" "bm_focusin (adjustDialog cfg s) = bm_focusin s"
  "bm_isShown (adjustDialog cfg s) = bm_isShown s" "bm_displayed (adjustDialog cfg s) = bm_displayed s"
  "bm_in (adjustDialog cfg s) = bm_in s" "bm_modalOpen (adjustDialog cfg s) = bm_modalOpen s"
  "bm_backdrop (adjustDialog cfg s) = bm_backdrop s" "bm_children (adjustDialog cfg s) = bm_children s"
  "bm_bodyRight (adjustDialog cfg s) = bm_bodyRight s" "modal_handlers (adjustDialog cfg s) = modal_handlers s"
  "bm_thrown (adjustDialog cfg s) = bm_thrown s" "bm_next (adjustDialog cfg s) = bm_next s" "bm_dialog (adjustDialog cfg s) = bm_dialog s"
  "bm_ends (adjustDialog cfg s) = bm_ends s" "bm_timers (adjustDialog cfg s) = bm_timers s"
  by (simp_all add: adjustDialog_def modal_handlers_def)

lemma parts_cong: "bm_ends t = bm_ends s \<Longrightarrow> parts_ok ph t = parts_ok ph s"
  unfolding parts_ok_def by (erule ssubst) (rule refl)

text \<open>Two states that only differ in the log, in the padding and the like.\<close>

lemma same_ok:
  assumes "modal_ok ph s"
    and "bm_isShown t = bm_isShown s" "bm_displayed t = bm_displayed s" "bm_in t = bm_in s" "bm_modalOpen t = bm_modalOpen s"
    and "bm_backdrop t = bm_backdrop s" "bm_children t = bm_children s" "bm_bodyRight t = bm_bodyRight s" "modal_handlers t = modal_handlers s"
    and "bm_next t = bm_next s" "bm_ends t = bm_ends s" "bm_timers t = bm_timers s"
  shows "modal_ok ph t"
proof -
  have "shape ph t" using assms(1-9) by (cases ph) (simp_all add: modal_ok_def base_ok_def)
  moreover have "parts_ok ph t = parts_ok ph s" by (rule parts_cong) (rule assms(11))
  moreover have "timers_ok t = timers_ok s" "armed ph t = armed ph s"
    unfolding timers_ok_def armed_def assms(10-12) by (rule refl)+
  ultimately show ?thesis using assms(1,6,10,11) by (simp add: modal_ok_def base_ok_def)
qed

lemma trigger_ok [simp]: "modal_ok ph s \<Longrightarrow> modal_ok ph (trigger_event e s)"
  by (erule same_ok) simp_all

lemma thrown_ok [simp]: "modal_ok ph s \<Longrightarrow> modal_ok ph (s\<lparr>bm_thrown := b\<rparr>)"
  by (erule same_ok) (simp_all add: modal_handlers_def)

lemma adjust_ok [simp]: "modal_ok ph s \<Longrightarrow> modal_ok ph (adjustDialog cfg s)"
  by (erule same_ok) simp_all

section \<open>Transitions\<close>

lemma base_okD:
  assumes "base_ok ph s"
  shows "shape ph s" "parts_ok ph s" "timers_ok s" "bm_backdrop s = Some b \<Longrightarrow> b < bm_next s"
    "bm_next s \<le> b \<Longrightarrow> bm_ends s (Backdrop b) = []"
  using assms by (simp_all add: base_ok_def)

lemma base_ok_fields:
  assumes "base_ok ph s"
    and "bm_isShown t = bm_isShown s" "bm_displayed t = bm_displayed s" "bm_in t = bm_in s" "bm_modalOpen t = bm_modalOpen s"
    and "bm_backdrop t = bm_backdrop s" "bm_children t = bm_children s" "bm_bodyRight t = bm_bodyRight s" "modal_handlers t = modal_handlers s"
    and "bm_next t = bm_next s" "parts_ok ph t" "timers_ok t" "\<And>b. bm_next s \<le> b \<Longrightarrow> bm_ends t (Backdrop b) = []"
  shows "base_ok ph t"
proof -
  have "shape ph t" using base_okD(1) [OF assms(1)] assms(2-9) by (cases ph) simp_all
  then show ?thesis using assms base_okD(4) [OF assms(1)] by (simp add: base_ok_def)
qed

text \<open>Running \<open>Called k\<close>, whose part is \<open>p\<close>.\<close>

lemma called_armed:
  assumes "armed ph s" "\<And>q c. (k, q, c) \<in> set (bm_timers s) \<Longrightarrow> q = p" "\<And>h. awaited ph \<noteq> Some (p, h)"
  shows "armed ph (run_ending cfg (Called k) s)"
proof (cases "awaited ph")
  case (Some x)
  obtain q h where x: "x = (q, h)" by fastforce
  then obtain j where j: "Called j \<in> set (bm_ends s q)" "(j, q, False) \<in> set (bm_timers s)"
    using assms(1) Some by (auto simp: armed_def)
  have "j \<noteq> k" using assms(2,3) j(2) Some x by metis
  then have "(j, q, False) \<in> set (bm_timers (run_ending cfg (Called k) s))" using j(2) by (auto simp: called_timers)
  then show ?thesis using j(1) by (auto simp: armed_def Some x)
qed (simp add: armed_def)

lemma idle_endings:
  assumes "modal_ok ph s" "\<not> bm_thrown s" "\<And>h. h \<in> set hs \<Longrightarrow> idle_end h"
    and "\<And>k q c. Called k \<in> set hs \<Longrightarrow> (k, q, c) \<in> set (bm_timers s) \<Longrightarrow> q = Dialog d"
  shows "modal_ok ph (run_endings cfg (Dialog d) hs s) \<and> bm_isShown (run_endings cfg (Dialog d) hs s) = bm_isShown s
    \<and> bm_displayed (run_endings cfg (Dialog d) hs s) = bm_displayed s
    \<and> length (bm_timers (run_endings cfg (Dialog d) hs s)) = length (bm_timers s)"
  using assms
proof (induction hs arbitrary: s)
  case (Cons h hs)
  define s1 where "s1 = set_ends (Dialog d) (remove1 h (bm_ends s (Dialog d))) s"
  have b: "base_ok ph s" and a: "armed ph s" using Cons.prems(1) by (simp_all add: modal_ok_def)
  have nd: "awaited ph \<noteq> Some (Dialog d, g)" for g by (cases ph) simp_all
  have p1: "parts_ok ph s1"
  proof (rule parts_okI)
    show "\<exists>k. bm_ends s1 q = [g, Called k]" if "awaited ph = Some (q, g)" for q g
      using parts_awaited(1) [OF base_okD(2) [OF b] that] that nd by (auto simp: s1_def)
    show "idle p (bm_ends s1 p)" if "\<And>g. awaited ph \<noteq> Some (p, g)" for p
    proof -
      have "idle p (bm_ends s p)"
        using base_okD(2) [OF b] that by (cases "awaited ph") (auto simp: parts_idle intro: parts_awaited(2))
      then show ?thesis by (cases p) (auto simp: s1_def dest: notin_set_remove1 set_remove1_subset [THEN subsetD])
    qed
  qed
  have b1: "base_ok ph s1"
    using base_okD(5) [OF b]
    by (intro base_ok_fields [OF b _ _ _ _ _ _ _ _ _ p1] timers_ok_mono [OF base_okD(3) [OF b]])
      (auto simp: s1_def dest: set_remove1_subset [THEN subsetD] split: if_splits)
  have a1: "armed ph s1" using a nd by (auto simp: armed_def s1_def split: option.split)
  define s2 where "s2 = run_ending cfg h s1"
  have s2: "modal_ok ph s2 \<and> \<not> bm_thrown s2 \<and> bm_isShown s2 = bm_isShown s \<and> bm_displayed s2 = bm_displayed s
      \<and> length (bm_timers s2) = length (bm_timers s) \<and> (\<forall>k q c. (k, q, c) \<in> set (bm_timers s2) \<longrightarrow> (\<exists>c. (k, q, c) \<in> set (bm_timers s)))"
  proof (cases "h = FocusShown")
    case True
    then have "s2 = trigger_event ''shown'' (trigger_event ''focus'' s1)" by (simp add: s2_def)
    moreover have "modal_ok ph s1" using a1 b1 by (simp add: modal_ok_def)
    ultimately show ?thesis using Cons.prems(2) by (auto simp: s1_def)
  next
    case False
    then obtain k where h: "h = Called k" using Cons.prems(3) [of h] by (auto simp: idle_end_def)
    have "armed ph s2" unfolding s2_def h
      using Cons.prems(4) [of k] nd by (intro called_armed [OF a1, where p = "Dialog d"]) (simp_all add: h s1_def)
    moreover have pc: "parts_ok ph (run_ending cfg (Called k) s1)"
      using p1 parts_cong [of "run_ending cfg (Called k) s1" s1 ph] by simp
    have "base_ok ph s2" unfolding s2_def h
      by (rule base_ok_fields [OF b1 _ _ _ _ _ _ _ _ _ pc timers_ok_called [OF base_okD(3) [OF b1]]])
        (simp_all add: base_okD(5) [OF b1])
    ultimately show ?thesis using Cons.prems(2) by (auto simp: modal_ok_def s2_def h s1_def called_timers)
  qed
  have "modal_ok ph (run_endings cfg (Dialog d) hs s2) \<and> bm_isShown (run_endings cfg (Dialog d) hs s2) = bm_isShown s2
    \<and> bm_displayed (run_endings cfg (Dialog d) hs s2) = bm_displayed s2
    \<and> length (bm_timers (run_endings cfg (Dialog d) hs s2)) = length (bm_timers s2)"
  proof (rule Cons.IH)
    show "q = Dialog d" if "Called k \<in> set hs" "(k, q, c) \<in> set (bm_timers s2)" for k q c
      using s2 that Cons.prems(4) [of k q] by auto
  qed (use s2 Cons.prems(3) in auto)
  moreover have "run_endings cfg (Dialog d) (h # hs) s = (if bm_thrown s2 then s2 else run_endings cfg (Dialog d) hs s2)"
    by (simp only: run_endings.simps Let_def s2_def s1_def)
  ultimately show ?case using s2 by simp
qed simp

text \<open>The step that is awaited.\<close>

fun next_phase :: "phase \<Rightarrow> phase" where
  "next_phase (Opening b) = Open b"
| "next_phase (Closing b) = ClosingBackdrop b"
| "next_phase (ClosingBackdrop b) = Hidden"
| "next_phase ph = ph"

fun weight :: "phase \<Rightarrow> nat" where
  "weight (Opening b) = 1"
| "weight (Closing b) = 1"
| "weight ph = 0"

lemma transition_end_awaited:
  assumes "bm_ends s q = [h, Called k]" "h \<noteq> Called k" "s2 = run_ending cfg h (set_ends q [Called k] s)" "\<not> bm_thrown s2"
  shows "transition_end cfg q s = run_ending cfg (Called k) (set_ends q (remove1 (Called k) (bm_ends s2 q)) s2)"
  using assms(2,4) unfolding transition_end_def assms(1,3) by (simp add: assms(1) Let_def)

lemma base_ok_remove1:
  assumes "timers_ok s"
  shows "timers_ok (set_ends q (remove1 h (bm_ends s q)) s)"
  using assms by (rule timers_ok_mono) (auto dest: set_remove1_subset [THEN subsetD] split: if_splits)

definition progress :: "modal_config \<Rightarrow> phase \<Rightarrow> bs_modal \<Rightarrow> bs_modal \<Rightarrow> bool" where
  "progress cfg ph s t \<longleftrightarrow>
     modal_ok (next_phase ph) t \<and> \<not> bm_thrown t \<and> bm_isShown t = bm_isShown s
     \<and> length (bm_timers t) + weight (next_phase ph) \<le> length (bm_timers s) + weight ph"

lemma opening_ends:
  assumes b: "base_ok (Opening b) s" and cfg: "viewer_config cfg" and t: "\<not> bm_thrown s"
  shows "progress cfg (Opening b) s (transition_end cfg (Backdrop b) s)"
proof -
  note base = base_okD [OF b]
  obtain k where k: "bm_ends s (Backdrop b) = [Run ShowElement, Called k]"
    using parts_awaited(1) [OF base(2), of "Backdrop b"] by auto
  have sh: "bm_isShown s" "bm_backdrop s = Some b" "bm_modalOpen s" "bm_children s = [b]" "modal_handlers s = (1, 1, 1, 0)"
    using base(1) by simp_all
  define s1 where "s1 = (adjustDialog cfg (set_ends (Backdrop b) [Called k] s\<lparr>bm_displayed := True\<rparr>))
    \<lparr>bm_in := True, bm_ariaHidden := False, bm_focusin := 1\<rparr>"
  define s2 where "s2 = (case bm_dialog s of None \<Rightarrow> s1 | Some d \<Rightarrow> when_ended (Dialog d) FocusShown s1)"
  have r: "run_ending cfg (Run ShowElement) (set_ends (Backdrop b) [Called k] s) = s2"
    using cfg sh by (simp add: s2_def s1_def show_element_def lacks_backdrop_def enforceFocus_def viewer_config_def Let_def split: option.split)
  have f1: "bm_isShown s1" "bm_displayed s1" "bm_in s1" "bm_modalOpen s1" "bm_backdrop s1 = Some b" "bm_children s1 = [b]"
    "modal_handlers s1 = (1, 1, 1, 1)" "\<not> bm_thrown s1" "bm_next s1 = bm_next s" "bm_ends s1 = (bm_ends s)(Backdrop b := [Called k])"
    "bm_timers s1 = bm_timers s"
    using sh t by (simp_all add: s1_def modal_handlers_def)
  have "timers_ok s1" using base(3) by (rule timers_ok_mono) (auto simp: f1 k split: if_splits)
  then have t2: "timers_ok s2" by (simp add: s2_def timers_ok_when_ended split: option.split)
  have f2: "bm_isShown s2" "bm_displayed s2" "bm_in s2" "bm_modalOpen s2" "bm_backdrop s2 = Some b" "bm_children s2 = [b]"
    "modal_handlers s2 = (1, 1, 1, 1)" "\<not> bm_thrown s2" "bm_next s \<le> bm_next s2" "bm_ends s2 (Backdrop b) = [Called k]"
    "\<And>c. c \<noteq> b \<Longrightarrow> bm_ends s2 (Backdrop c) = bm_ends s (Backdrop c)" "bm_ends s2 Element = bm_ends s Element"
    "length (bm_timers s2) \<le> Suc (length (bm_timers s))"
    by (simp_all add: s2_def f1 split: option.split)
  have idle: "idle p (bm_ends s p)" if "p \<noteq> Backdrop b" for p
    using that by (intro parts_awaited(2) [OF base(2)]) simp_all
  then have d2: "idle (Dialog d) (bm_ends s2 (Dialog d))" for d
    using idle [of "Dialog d"] by (auto simp: s2_def f1 idle_end_def split: option.split)
  have e: "transition_end cfg (Backdrop b) s
      = run_ending cfg (Called k) (set_ends (Backdrop b) (remove1 (Called k) (bm_ends s2 (Backdrop b))) s2)"
    by (rule transition_end_awaited [OF k]) (use r f2(8) in simp_all)
  let ?t = "run_ending cfg (Called k) (set_ends (Backdrop b) (remove1 (Called k) (bm_ends s2 (Backdrop b))) s2)"
  have "parts_ok (Open b) ?t"
  proof (rule parts_okI)
    fix p
    show "idle p (bm_ends ?t p)"
      using idle [of p] d2 f2(10-12) by (cases p) auto
  qed simp
  moreover have "timers_ok ?t" by (intro timers_ok_called base_ok_remove1 t2)
  moreover have "b < bm_next s2" using base(4) [OF sh(2)] f2(9) by simp
  ultimately have "base_ok (Open b) ?t"
    using f2 base(5) by (auto simp: base_ok_def)
  then show ?thesis
    unfolding e progress_def using f2(8,13) sh(1) f2(1) by (simp add: modal_ok_def armed_def)
qed

lemma closing_ends:
  assumes b: "base_ok (Closing b) s" and cfg: "viewer_config cfg" and t: "\<not> bm_thrown s"
  shows "progress cfg (Closing b) s (transition_end cfg Element s)"
proof -
  note base = base_okD [OF b]
  obtain k where k: "bm_ends s Element = [HideModal, Called k]"
    using parts_awaited(1) [OF base(2), of Element] by auto
  have sh: "\<not> bm_isShown s" "bm_backdrop s = Some b" "bm_modalOpen s" "bm_children s \<in> {[], [b]}" "\<not> bm_in s" "modal_handlers s = (0, 0, 0, 0)"
    using base(1) by simp_all
  have idle: "idle p (bm_ends s p)" if "p \<noteq> Element" for p
    using that by (intro parts_awaited(2) [OF base(2)]) simp_all
  define s1 where "s1 = set_ends Element [Called k] s\<lparr>bm_displayed := False\<rparr>"
  define s2 where "s2 = when_ended (Backdrop b) (RemoveThen AfterHide) s1"
  have r: "run_ending cfg HideModal (set_ends Element [Called k] s) = s2"
    using cfg sh by (simp add: s2_def s1_def hideModal_def backdrop_def viewer_config_def)
  have f1: "\<not> bm_isShown s1" "\<not> bm_displayed s1" "\<not> bm_in s1" "bm_modalOpen s1" "bm_backdrop s1 = Some b" "bm_children s1 \<in> {[], [b]}"
    "modal_handlers s1 = (0, 0, 0, 0)" "\<not> bm_thrown s1" "bm_next s1 = bm_next s" "bm_ends s1 = (bm_ends s)(Element := [Called k])"
    "bm_timers s1 = bm_timers s"
    using sh t by (simp_all add: s1_def modal_handlers_def)
  have "timers_ok s1" using base(3) by (rule timers_ok_mono) (auto simp: f1 k split: if_splits)
  then have t2: "timers_ok s2" by (simp add: s2_def timers_ok_when_ended)
  have e: "transition_end cfg Element s = run_ending cfg (Called k) (set_ends Element (remove1 (Called k) (bm_ends s2 Element)) s2)"
    by (rule transition_end_awaited [OF k]) (use r in \<open>simp_all add: s2_def f1\<close>)
  let ?t = "run_ending cfg (Called k) (set_ends Element (remove1 (Called k) (bm_ends s2 Element)) s2)"
  have e0: "bm_ends s (Backdrop b) = []" using idle [of "Backdrop b"] by simp
  have p: "parts_ok (ClosingBackdrop b) ?t"
  proof (rule parts_okI)
    fix p
    assume "\<And>h. awaited (ClosingBackdrop b) \<noteq> Some (p, h)"
    then show "idle p (bm_ends ?t p)"
      using idle [of p] by (cases p) (auto simp: s2_def f1)
  qed (auto simp: s2_def f1 e0)
  have less: "b < bm_next s" by (rule base(4) [OF sh(2)])
  have "timers_ok ?t" by (intro timers_ok_called base_ok_remove1 t2)
  then have "base_ok (ClosingBackdrop b) ?t"
    using p f1 base(5) less by (auto simp: base_ok_def s2_def)
  moreover have "armed (ClosingBackdrop b) ?t"
  proof -
    have "k < bm_next s" using timers_okD(2) [OF base(3), of k Element] k by simp
    then show ?thesis by (auto simp: armed_def s2_def f1 e0 called_timers)
  qed
  ultimately show ?thesis
    unfolding e progress_def using sh(1) by (simp add: modal_ok_def s2_def f1)
qed

lemma closing_backdrop_ends:
  assumes b: "base_ok (ClosingBackdrop b) s" and cfg: "viewer_config cfg" and t: "\<not> bm_thrown s"
  shows "progress cfg (ClosingBackdrop b) s (transition_end cfg (Backdrop b) s)"
proof -
  note base = base_okD [OF b]
  obtain k where k: "bm_ends s (Backdrop b) = [RemoveThen AfterHide, Called k]"
    using parts_awaited(1) [OF base(2), of "Backdrop b"] by auto
  have sh: "\<not> bm_isShown s" "\<not> bm_displayed s" "bm_backdrop s = Some b" "bm_children s \<in> {[], [b]}" "\<not> bm_in s" "modal_handlers s = (0, 0, 0, 0)"
    using base(1) by simp_all
  have idle: "idle p (bm_ends s p)" if "p \<noteq> Backdrop b" for p
    using that by (intro parts_awaited(2) [OF base(2)]) simp_all
  define s2 where "s2 = after_hide (removeBackdrop (set_ends (Backdrop b) [Called k] s))"
  have f2: "\<not> bm_isShown s2" "\<not> bm_displayed s2" "\<not> bm_in s2" "\<not> bm_modalOpen s2" "bm_backdrop s2 = None" "bm_children s2 = []"
    "bm_bodyRight s2 = None" "modal_handlers s2 = (0, 0, 0, 0)" "\<not> bm_thrown s2" "bm_next s2 = bm_next s"
    "bm_ends s2 = (bm_ends s)(Backdrop b := [])" "bm_timers s2 = bm_timers s"
    using sh t by (auto simp: s2_def after_hide_def removeBackdrop_def remove_child_def resetScrollbar_def resetAdjustments_def
        trigger_event_def set_ends_def modal_handlers_def)
  have "timers_ok s2" using base(3) by (rule timers_ok_mono) (auto simp: f2 split: if_splits)
  have e: "transition_end cfg (Backdrop b) s
      = run_ending cfg (Called k) (set_ends (Backdrop b) (remove1 (Called k) (bm_ends s2 (Backdrop b))) s2)"
    by (rule transition_end_awaited [OF k]) (simp_all add: f2 s2_def [symmetric])
  let ?t = "run_ending cfg (Called k) (set_ends (Backdrop b) (remove1 (Called k) (bm_ends s2 (Backdrop b))) s2)"
  have "parts_ok Hidden ?t"
  proof (rule parts_okI)
    fix p
    show "idle p (bm_ends ?t p)" using idle [of p] by (cases p) (auto simp: f2)
  qed simp
  moreover have "timers_ok ?t" by (intro timers_ok_called base_ok_remove1) fact
  ultimately have "base_ok Hidden ?t"
    using f2 base(5) by (auto simp: base_ok_def)
  then show ?thesis
    unfolding e progress_def using sh(1) by (simp add: modal_ok_def armed_def f2)
qed

text \<open>What a step of the browser does: the phase stays or goes on, and what is wanted stays.\<close>

definition moves :: "phase \<Rightarrow> bs_modal \<Rightarrow> bs_modal \<Rightarrow> bool" where
  "moves ph s t \<longleftrightarrow> (\<exists>ph'. modal_ok ph' t \<and> bm_isShown t = bm_isShown s
     \<and> length (bm_timers t) + weight ph' \<le> length (bm_timers s) + weight ph)"

lemma progress_moves: "progress cfg ph s t \<Longrightarrow> moves ph s t"
  by (auto simp: progress_def moves_def)

lemma transition_moves:
  assumes b: "base_ok ph s" and cfg: "viewer_config cfg" and t: "\<not> bm_thrown s"
    and a: "armed ph s \<or> (\<exists>h. awaited ph = Some (p, h))"
  shows "moves ph s (transition_end cfg p s)"
proof (cases "\<exists>h. awaited ph = Some (p, h)")
  case True
  then have "progress cfg ph s (transition_end cfg p s)"
    using opening_ends [OF _ cfg t] closing_ends [OF _ cfg t] closing_backdrop_ends [OF _ cfg t] b by (cases ph) auto
  then show ?thesis by (rule progress_moves)
next
  case False
  then have ok: "modal_ok ph s" using a b by (simp add: modal_ok_def)
  have idle: "idle p (bm_ends s p)"
    using base_okD(2) [OF b] False by (cases "awaited ph") (auto simp: parts_idle intro: parts_awaited(2))
  show ?thesis
  proof (cases p)
    case (Dialog d)
    have "modal_ok ph (transition_end cfg p s) \<and> bm_isShown (transition_end cfg p s) = bm_isShown s
      \<and> bm_displayed (transition_end cfg p s) = bm_displayed s \<and> length (bm_timers (transition_end cfg p s)) = length (bm_timers s)"
      unfolding transition_end_def Dialog
      by (rule idle_endings [OF ok t]) (use idle Dialog timers_okD(3) [OF base_okD(3) [OF b]] in auto)
    then show ?thesis unfolding moves_def by (intro exI [of _ ph]) simp
  qed (use idle ok in \<open>auto simp: transition_end_def moves_def\<close>)
qed

lemma set_remove_nth: "x \<in> set xs \<Longrightarrow> i < length xs \<Longrightarrow> x \<noteq> xs ! i \<Longrightarrow> x \<in> set (take i xs @ drop (Suc i) xs)"
  using id_take_nth_drop [of i xs] by (metis Un_iff set_ConsD set_append)

lemma timeout_moves:
  assumes ok: "modal_ok ph s" and cfg: "viewer_config cfg" and t: "\<not> bm_thrown s" and i: "i < length (bm_timers s)"
  shows "\<exists>ph'. modal_ok ph' (timer_fires cfg i s) \<and> bm_isShown (timer_fires cfg i s) = bm_isShown s
    \<and> length (bm_timers (timer_fires cfg i s)) + weight ph' < length (bm_timers s) + weight ph"
proof -
  obtain k p called where x: "bm_timers s ! i = (k, p, called)" by (metis prod_cases3)
  define s1 where "s1 = s\<lparr>bm_timers := take i (bm_timers s) @ drop (Suc i) (bm_timers s)\<rparr>"
  have b: "base_ok ph s" and a: "armed ph s" using ok by (simp_all add: modal_ok_def)
  have p1: "parts_ok ph s1" using base_okD(2) [OF b] parts_cong [of s1 s ph] by (simp add: s1_def)
  have "timers_ok s1"
    using base_okD(3) [OF b] by (rule timers_ok_mono) (auto simp: s1_def dest: in_set_takeD in_set_dropD)
  then have b1: "base_ok ph s1"
    by (intro base_ok_fields [OF b _ _ _ _ _ _ _ _ _ p1]) (simp_all add: s1_def modal_handlers_def base_okD(5) [OF b])
  have len: "length (bm_timers s1) < length (bm_timers s)" using i by (simp add: s1_def)
  have a1: "armed ph s1" if "called \<or> (\<forall>h. awaited ph \<noteq> Some (p, h))"
  proof (cases "awaited ph")
    case (Some y)
    obtain q h where y: "y = (q, h)" by fastforce
    then obtain j where j: "Called j \<in> set (bm_ends s q)" "(j, q, False) \<in> set (bm_timers s)"
      using a Some by (auto simp: armed_def)
    have "(j, q, False) \<noteq> bm_timers s ! i" using that Some y x by auto
    then have "(j, q, False) \<in> set (bm_timers s1)" using set_remove_nth [OF j(2) i] by (simp add: s1_def)
    then show ?thesis using j(1) by (auto simp: armed_def Some y s1_def)
  qed (simp add: armed_def)
  show ?thesis
  proof (cases called)
    case True
    then have "timer_fires cfg i s = s1" by (simp add: timer_fires_def x s1_def)
    moreover have "modal_ok ph s1" using b1 a1 True by (simp add: modal_ok_def)
    moreover have "bm_isShown s1 = bm_isShown s" by (simp add: s1_def)
    ultimately show ?thesis using len by (intro exI [of _ ph]) simp
  next
    case False
    then have f: "timer_fires cfg i s = transition_end cfg p s1" by (simp add: timer_fires_def x s1_def)
    have "armed ph s1 \<or> (\<exists>h. awaited ph = Some (p, h))" using a1 by blast
    then have "moves ph s1 (transition_end cfg p s1)" using t by (intro transition_moves [OF b1 cfg]) (simp_all add: s1_def)
    then show ?thesis unfolding moves_def f using len by (fastforce simp: s1_def)
  qed
qed

section \<open>Steps of the user\<close>

lemma fold_set_ends [simp]:
  "bm_isShown (fold (\<lambda>p. set_ends p []) ps s) = bm_isShown s"
  "bm_displayed (fold (\<lambda>p. set_ends p []) ps s) = bm_displayed s"
  "bm_in (fold (\<lambda>p. set_ends p []) ps s) = bm_in s"
  "bm_modalOpen (fold (\<lambda>p. set_ends p []) ps s) = bm_modalOpen s"
  "bm_backdrop (fold (\<lambda>p. set_ends p []) ps s) = bm_backdrop s"
  "bm_bodyRight (fold (\<lambda>p. set_ends p []) ps s) = bm_bodyRight s"
  "bm_thrown (fold (\<lambda>p. set_ends p []) ps s) = bm_thrown s"
  "bm_next (fold (\<lambda>p. set_ends p []) ps s) = bm_next s"
  "bm_timers (fold (\<lambda>p. set_ends p []) ps s) = bm_timers s"
  "bm_dismiss (fold (\<lambda>p. set_ends p []) ps s) = bm_dismiss s"
  "bm_keydown (fold (\<lambda>p. set_ends p []) ps s) = bm_keydown s"
  "bm_resize (fold (\<lambda>p. set_ends p []) ps s) = bm_resize s"
  "bm_focusin (fold (\<lambda>p. set_ends p []) ps s) = bm_focusin s"
  "bm_ends (fold (\<lambda>p. set_ends p []) ps s) p = (if p \<in> set ps then [] else bm_ends s p)"
  by (induction ps arbitrary: s) auto

lemma html_ok:
  assumes ok: "modal_ok ph s" and idle: "awaited ph = None"
  shows "modal_ok ph (set_html True s) \<and> bm_thrown (set_html True s) = bm_thrown s \<and> bm_isShown (set_html True s) = bm_isShown s"
proof -
  let ?gone = "map Backdrop (bm_children s) @ (case bm_dialog s of None \<Rightarrow> [] | Some d \<Rightarrow> [Dialog d])"
  define s1 where "s1 = fold (\<lambda>p. set_ends p []) ?gone s"
  define t where "t = set_html True s"
  have t: "t = s1\<lparr>bm_children := [], bm_dialog := Some (bm_next s), bm_next := Suc (bm_next s)\<rparr>"
    by (simp add: t_def set_html_def Let_def s1_def)
  have b: "base_ok ph s" using ok by (simp add: modal_ok_def)
  have tf: "bm_isShown t = bm_isShown s" "bm_displayed t = bm_displayed s" "bm_in t = bm_in s" "bm_modalOpen t = bm_modalOpen s"
    "bm_backdrop t = bm_backdrop s" "bm_children t = []" "bm_bodyRight t = bm_bodyRight s" "modal_handlers t = modal_handlers s"
    "bm_thrown t = bm_thrown s" "bm_next t = Suc (bm_next s)" "bm_timers t = bm_timers s"
    by (simp_all add: t s1_def modal_handlers_def)
  have e: "bm_ends t p = (if p \<in> set ?gone then [] else bm_ends s p)" for p
    unfolding t s1_def by (simp del: fold_append set_append)
  have "shape ph t" using base_okD(1) [OF b] idle tf by (cases ph) auto
  moreover have "parts_ok ph t"
    using parts_idle [OF base_okD(2) [OF b] idle] idle by (intro parts_okI) (simp_all add: e)
  moreover have "timers_ok t"
    using base_okD(3) [OF b] by (rule timers_ok_mono) (auto simp: tf e split: if_splits)
  ultimately have "base_ok ph t"
    using base_okD(4,5) [OF b] by (auto simp: base_ok_def tf e less_Suc_eq)
  then show ?thesis using idle tf by (simp add: modal_ok_def armed_def t_def)
qed

lemma show_opens:
  assumes ok: "modal_ok Hidden s" and cfg: "viewer_config cfg"
  shows "modal_ok (Opening (bm_next s)) (show_modal cfg s)"
proof -
  have b: "base_ok Hidden s" using ok by (simp add: modal_ok_def)
  define n where "n = bm_next s"
  define s1 where "s1 = (setScrollbar cfg (checkScrollbar cfg ((trigger_event ''show'' s)\<lparr>bm_isShown := True\<rparr>)))"
  define s2 where "s2 = s1\<lparr>bm_modalOpen := True, bm_keydown := 1, bm_resize := 1, bm_dismiss := 1,
    bm_backdrop := Some n, bm_children := [n], bm_next := Suc n\<rparr>"
  have sh: "\<not> bm_isShown s" "\<not> bm_displayed s" "\<not> bm_in s" "bm_children s = []" "modal_handlers s = (0, 0, 0, 0)"
    using base_okD(1) [OF b] by simp_all
  have f1: "bm_isShown s1" "bm_displayed s1 = bm_displayed s" "bm_in s1 = bm_in s" "bm_children s1 = bm_children s"
    "modal_handlers s1 = modal_handlers s" "bm_next s1 = n" "bm_ends s1 = bm_ends s" "bm_timers s1 = bm_timers s"
    by (simp_all add: s1_def setScrollbar_def checkScrollbar_def Let_def modal_handlers_def n_def)
  have r: "show_modal cfg s = when_ended (Backdrop n) (Run ShowElement) s2"
    using sh f1 cfg unfolding show_modal_def Let_def
    by (simp add: s1_def [symmetric] viewer_config_def escape_keys_def resize_modal_def backdrop_def modal_handlers_def s2_def)
  have f2: "bm_isShown s2" "\<not> bm_displayed s2" "\<not> bm_in s2" "bm_modalOpen s2" "bm_backdrop s2 = Some n" "bm_children s2 = [n]"
    "modal_handlers s2 = (1, 1, 1, 0)" "bm_next s2 = Suc n" "bm_ends s2 = bm_ends s" "bm_timers s2 = bm_timers s"
    using sh f1 by (simp_all add: s2_def modal_handlers_def)
  have e0: "bm_ends s (Backdrop n) = []" using base_okD(5) [OF b] by (simp add: n_def)
  have "timers_ok s2" using base_okD(3) [OF b] by (rule timers_ok_mono) (simp_all add: f2 n_def)
  then have "timers_ok (show_modal cfg s)" by (simp add: r timers_ok_when_ended)
  moreover have "parts_ok (Opening n) (show_modal cfg s)"
    unfolding r
  proof (rule parts_okI)
    fix p
    assume "\<And>h. awaited (Opening n) \<noteq> Some (p, h)"
    then show "idle p (bm_ends (when_ended (Backdrop n) (Run ShowElement) s2) p)"
      using parts_idle [OF base_okD(2) [OF b], of p] by (auto simp: f2)
  qed (auto simp: f2 e0)
  moreover have "armed (Opening n) (show_modal cfg s)" by (auto simp: r armed_def f2 e0)
  ultimately show ?thesis
    using f2 base_okD(5) [OF b] by (simp add: modal_ok_def base_ok_def r n_def)
qed

lemma hide_closes:
  assumes ok: "modal_ok (Open b) s" and cfg: "viewer_config cfg"
  shows "modal_ok (Closing b) (hide_modal cfg s)" "bm_thrown (hide_modal cfg s) = bm_thrown s"
proof -
  have base: "base_ok (Open b) s" using ok by (simp add: modal_ok_def)
  define s1 where "s1 = (trigger_event ''hide'' s)\<lparr>bm_isShown := False, bm_keydown := 0, bm_resize := 0, bm_focusin := 0, bm_in := False,
    bm_ariaHidden := True, bm_dismiss := 0\<rparr>"
  have sh: "bm_isShown s" "bm_displayed s" "bm_modalOpen s" "bm_backdrop s = Some b" "bm_children s \<in> {[], [b]}"
    using base_okD(1) [OF base] by simp_all
  have r: "hide_modal cfg s = when_ended Element HideModal s1"
    using sh cfg unfolding hide_modal_def Let_def
    by (simp add: viewer_config_def escape_keys_def resize_modal_def s1_def)
  have f1: "\<not> bm_isShown s1" "bm_displayed s1" "\<not> bm_in s1" "bm_modalOpen s1" "bm_backdrop s1 = Some b" "bm_children s1 \<in> {[], [b]}"
    "modal_handlers s1 = (0, 0, 0, 0)" "bm_next s1 = bm_next s" "bm_ends s1 = bm_ends s" "bm_timers s1 = bm_timers s" "bm_thrown s1 = bm_thrown s"
    using sh by (simp_all add: s1_def modal_handlers_def)
  have idle: "idle p (bm_ends s p)" for p using parts_idle [OF base_okD(2) [OF base]] by simp
  have e0: "bm_ends s Element = []" using idle [of Element] by simp
  have "timers_ok s1" using base_okD(3) [OF base] by (rule timers_ok_mono) (simp_all add: f1)
  then have "timers_ok (hide_modal cfg s)" by (simp add: r timers_ok_when_ended)
  moreover have "parts_ok (Closing b) (hide_modal cfg s)"
    unfolding r
  proof (rule parts_okI)
    fix p
    assume "\<And>h. awaited (Closing b) \<noteq> Some (p, h)"
    then show "idle p (bm_ends (when_ended Element HideModal s1) p)" using idle [of p] by (auto simp: f1)
  qed (auto simp: f1 e0)
  moreover have "armed (Closing b) (hide_modal cfg s)" by (auto simp: r armed_def f1 e0)
  moreover have "b < bm_next s" by (rule base_okD(4) [OF base sh(4)])
  ultimately show "modal_ok (Closing b) (hide_modal cfg s)"
    using f1 base_okD(5) [OF base] by (simp add: modal_ok_def base_ok_def r)
  show "bm_thrown (hide_modal cfg s) = bm_thrown s" by (simp add: r f1)
qed

section \<open>Every step\<close>

definition dialog_inv :: "modal_config \<Rightarrow> bs_modal \<Rightarrow> bool" where
  "dialog_inv cfg s \<longleftrightarrow> (viewer_config cfg \<longrightarrow> (\<exists>ph. modal_ok ph s))"

lemma run_handlers_keep:
  assumes "\<And>s. P s \<Longrightarrow> P (f s)"
  shows "P s \<Longrightarrow> P (run_handlers n f s)"
  by (induction n arbitrary: s) (simp_all add: Let_def assms)

lemma hide_hidden: "\<not> bm_isShown s \<Longrightarrow> hide_modal cfg s = trigger_event ''hide'' s"
  by (simp add: hide_modal_def)

lemma show_shown: "bm_isShown s \<Longrightarrow> show_modal cfg s = trigger_event ''show'' s"
  by (simp add: show_modal_def)

lemma update_ok: "modal_ok ph s \<Longrightarrow> modal_ok ph (handleUpdate cfg s)"
  by (simp add: handleUpdate_def)

lemma modal_okD: "modal_ok ph s \<Longrightarrow> shape ph s"
  by (simp add: modal_ok_def base_ok_def)

lemma settled_cases:
  assumes "modal_ok ph s" "nothing_fades s"
  obtains "ph = Hidden" "\<not> bm_isShown s" | b where "ph = Open b" "bm_isShown s"
  using assms settled_phase [OF assms(1)] modal_okD [OF assms(1)] by (cases ph) auto

lemma hidden_cases:
  assumes "modal_ok ph s" "nothing_fades s \<or> \<not> bm_isShown s"
  obtains "modal_handlers s = (0, 0, 0, 0)" "\<not> bm_isShown s" | b where "ph = Open b" "bm_isShown s" "bm_dismiss s = 1" "bm_keydown s = 1"
  using assms settled_phase [OF assms(1)] modal_okD [OF assms(1)] by (cases ph) (auto simp: modal_handlers_def)

lemma dismiss_ok:
  assumes cfg: "viewer_config cfg" and ok: "modal_ok ph s" "\<not> bm_thrown s" and w: "nothing_fades s \<or> \<not> bm_isShown s"
    and n: "n = bm_dismiss s \<or> n = bm_keydown s \<or> n = 0"
  shows "\<exists>ph. modal_ok ph (run_handlers n (hide_modal cfg) s)"
  using hidden_cases [OF ok(1) w]
proof cases
  case 1
  then have "n = 0" using n by (auto simp: modal_handlers_def)
  then show ?thesis using ok(1) by auto
next
  case (2 b)
  have "modal_ok (Closing b) (hide_modal cfg s)" "\<not> bm_thrown (hide_modal cfg s)"
    using hide_closes [OF ok(1) [unfolded 2(1)] cfg] ok(2) by simp_all
  moreover have "n = 1 \<or> n = 0" using n 2 by auto
  ultimately show ?thesis using ok(1) by (auto simp: Let_def)
qed

lemma dialog_step:
  assumes cfg: "viewer_config cfg" and ok: "modal_ok ph s" and e: "in_time e s"
  shows "\<exists>ph. modal_ok ph (modal_step cfg e s)"
proof -
  define s0 where "s0 = s\<lparr>bm_thrown := False\<rparr>"
  have ok0: "modal_ok ph s0" "\<not> bm_thrown s0" using ok by (simp_all add: s0_def)
  have same: "nothing_fades s0 = nothing_fades s" "bm_isShown s0 = bm_isShown s" by (simp_all add: s0_def nothing_fades_def split: option.split)
  have "\<exists>ph. modal_ok ph (handle_event cfg e s0)"
  proof (cases e)
    case ShowDialog
    then have "nothing_fades s0" using e same by simp
    from settled_cases [OF ok0(1) this] show ?thesis
    proof cases
      case 1
      then show ?thesis using html_ok [OF ok0(1)] show_opens [OF _ cfg] ShowDialog by auto
    next
      case (2 b)
      then have "modal_ok ph (set_html True s0)" "bm_isShown (set_html True s0)" using html_ok [OF ok0(1)] by simp_all
      then have "modal_ok ph (show_modal cfg (set_html True s0))" by (simp add: show_shown)
      then show ?thesis using ShowDialog by auto
    qed
  next
    case ToggleDialog
    then have "nothing_fades s0" using e same by simp
    from settled_cases [OF ok0(1) this] show ?thesis
    proof cases
      case 1
      then show ?thesis using show_opens [OF _ cfg] ok0(1) ToggleDialog by (auto simp: toggle_modal_def)
    next
      case (2 b)
      then show ?thesis using hide_closes(1) [OF _ cfg] ok0(1) ToggleDialog by (auto simp: toggle_modal_def)
    qed
  next
    case Dismiss
    then show ?thesis using dismiss_ok [OF cfg ok0] e same by simp
  next
    case (KeyDown which)
    then show ?thesis using dismiss_ok [OF cfg ok0] e same by simp
  next
    case (ClickBackdrop b)
    then have "nothing_fades s0 \<or> \<not> bm_isShown s0" using e same by simp
    from hidden_cases [OF ok0(1) this] have "\<exists>ph. modal_ok ph (hide_modal cfg s0)"
    proof cases
      case 1
      then have "modal_ok ph (hide_modal cfg s0)" using ok0(1) by (simp add: hide_hidden)
      then show ?thesis by blast
    next
      case (2 c)
      then show ?thesis using hide_closes(1) [OF _ cfg] ok0(1) by auto
    qed
    then show ?thesis using ok0(1) cfg ClickBackdrop by (auto simp: click_backdrop_def viewer_config_def)
  next
    case Resized
    have "modal_ok ph (run_handlers (bm_resize s0) (handleUpdate cfg) s0)"
      using ok0(1) by (rule run_handlers_keep [rotated]) (rule update_ok)
    then show ?thesis using Resized by auto
  next
    case (FocusIn inside)
    have "modal_ok ph (run_handlers n (trigger_event ''focus'') s0)" for n
      using ok0(1) by (rule run_handlers_keep [rotated]) (rule trigger_ok)
    then have "modal_ok ph (handle_event cfg e s0)" unfolding FocusIn handle_event.simps .
    then show ?thesis by blast
  next
    case (TransitionEnd p)
    then show ?thesis
      using transition_moves [OF _ cfg ok0(2)] ok0(1) by (fastforce simp: modal_ok_def moves_def)
  next
    case (Timeout i)
    then show ?thesis using timeout_moves [OF ok0(1) cfg ok0(2)] ok0(1) by (cases "i < length (bm_timers s0)") (simp, blast, auto)
  qed
  then show ?thesis by (simp add: modal_step_def s0_def)
qed

interpretation dialogs: event_machine "modal_step cfg" "dialog_inv cfg" in_time for cfg
  by unfold_locales (use dialog_step in \<open>auto simp: dialog_inv_def\<close>)

lemma new_modal_ok: "modal_ok Hidden new_modal"
  by (simp add: modal_ok_def base_ok_def new_modal_def parts_ok_def timers_ok_def armed_def modal_handlers_def)

lemma reached:
  assumes "viewer_config cfg" "allowed_run in_time (modal_step cfg) es new_modal"
  shows "\<exists>ph. modal_ok ph (fold (modal_step cfg) es new_modal)"
  using dialogs.inv_run [of cfg new_modal es] assms new_modal_ok by (auto simp: dialog_inv_def)

section \<open>What fades comes to its end\<close>

lemma timeout_step:
  assumes ok: "modal_ok ph s" and cfg: "viewer_config cfg"
  shows "\<exists>ph'. modal_ok ph' (modal_step cfg (Timeout 0) s) \<and> bm_isShown (modal_step cfg (Timeout 0) s) = bm_isShown s
    \<and> length (bm_timers (modal_step cfg (Timeout 0) s)) + weight ph' \<le> length (bm_timers s) + weight ph - 1"
proof (cases "bm_timers s = []")
  case True
  have "awaited ph = None" using ok True by (auto simp: modal_ok_def armed_def split: option.splits prod.splits)
  then have "weight ph = 0" by (cases ph) simp_all
  then show ?thesis using ok True by (intro exI [of _ ph]) (simp add: modal_step_def)
next
  case False
  define s0 where "s0 = s\<lparr>bm_thrown := False\<rparr>"
  have "modal_ok ph s0" "\<not> bm_thrown s0" "0 < length (bm_timers s0)" "bm_timers s0 = bm_timers s" "bm_isShown s0 = bm_isShown s"
    using ok False by (simp_all add: s0_def)
  then show ?thesis
    using timeout_moves [of ph s0 cfg 0] cfg by (fastforce simp: modal_step_def s0_def [symmetric])
qed

lemma timeouts_settle:
  assumes cfg: "viewer_config cfg"
  shows "modal_ok ph s \<Longrightarrow> length (bm_timers s) + weight ph \<le> n \<Longrightarrow>
    \<exists>ph'. modal_ok ph' ((modal_step cfg (Timeout 0) ^^ n) s) \<and> bm_isShown ((modal_step cfg (Timeout 0) ^^ n) s) = bm_isShown s
      \<and> bm_timers ((modal_step cfg (Timeout 0) ^^ n) s) = []"
proof (induction n arbitrary: ph s)
  case (Suc n)
  obtain ph' where ph': "modal_ok ph' (modal_step cfg (Timeout 0) s)" "bm_isShown (modal_step cfg (Timeout 0) s) = bm_isShown s"
    "length (bm_timers (modal_step cfg (Timeout 0) s)) + weight ph' \<le> n"
    using timeout_step [OF Suc.prems(1) cfg] Suc.prems(2) by fastforce
  then show ?case using Suc.IH [OF ph'(1,3)] by (simp add: funpow_swap1)
qed auto

lemma no_timers_settled:
  assumes "modal_ok ph s" "bm_timers s = []"
  shows "nothing_fades s"
proof -
  have "awaited ph = None" using assms by (auto simp: modal_ok_def armed_def split: option.splits prod.splits)
  then show ?thesis using settled_phase [OF assms(1)] by simp
qed

text \<open>C16: If dialogs are opened and dismissed only while nothing fades, then at any time the page is locked when a
  dialog is displayed and there is one backdrop at most; when nothing fades, the dialog is displayed with its handlers
  if it is to be shown, and otherwise nothing is left of it; and the timers alone let everything that fades come to
  its end.\<close>

theorem dialog_consistent:
  assumes "viewer_config cfg" "allowed_run in_time (modal_step cfg) es new_modal"
    and s_def: "s = fold (modal_step cfg) es new_modal"
  shows "(bm_displayed s \<longrightarrow> bm_modalOpen s) \<and> length (bm_children s) \<le> 1
    \<and> (nothing_fades s \<longrightarrow>
         (if bm_isShown s then bm_displayed s \<and> bm_in s \<and> bm_modalOpen s \<and> modal_handlers s = (1, 1, 1, 1)
          else \<not> bm_displayed s \<and> \<not> bm_modalOpen s \<and> bm_children s = [] \<and> bm_bodyRight s = None \<and> modal_handlers s = (0, 0, 0, 0)))
    \<and> (let t = (modal_step cfg (Timeout 0) ^^ (length (bm_timers s) + 1)) s in nothing_fades t \<and> bm_isShown t = bm_isShown s)"
proof -
  obtain ph where ph: "modal_ok ph s" using reached [OF assms(1,2)] unfolding s_def by blast
  have "weight ph \<le> 1" by (cases ph) simp_all
  then obtain ph' where "modal_ok ph' ((modal_step cfg (Timeout 0) ^^ (length (bm_timers s) + 1)) s)"
    "bm_isShown ((modal_step cfg (Timeout 0) ^^ (length (bm_timers s) + 1)) s) = bm_isShown s"
    "bm_timers ((modal_step cfg (Timeout 0) ^^ (length (bm_timers s) + 1)) s) = []"
    using timeouts_settle [OF assms(1) ph, of "length (bm_timers s) + 1"] by auto
  moreover have "nothing_fades s \<longrightarrow>
         (if bm_isShown s then bm_displayed s \<and> bm_in s \<and> bm_modalOpen s \<and> modal_handlers s = (1, 1, 1, 1)
          else \<not> bm_displayed s \<and> \<not> bm_modalOpen s \<and> bm_children s = [] \<and> bm_bodyRight s = None \<and> modal_handlers s = (0, 0, 0, 0))"
    using modal_okD [OF ph] by (auto elim: settled_cases [OF ph])
  moreover have "bm_displayed s \<longrightarrow> bm_modalOpen s" "length (bm_children s) \<le> 1"
    using modal_okD [OF ph] by (cases ph; auto)+
  ultimately show ?thesis using no_timers_settled unfolding Let_def by blast
qed

section \<open>Lost dialogs\<close>

text \<open>The dialog is meant to be shown, but nothing will display it any more.\<close>

definition lost_end :: "ending \<Rightarrow> bool" where
  "lost_end h \<longleftrightarrow> idle_end h \<or> h = Run AfterHide"

definition lost :: "bs_modal \<Rightarrow> bool" where
  "lost s \<longleftrightarrow> bm_isShown s \<and> \<not> bm_displayed s \<and> (\<forall>p. \<forall>h\<in>set (bm_ends s p). lost_end h)"

text \<open>Everything but dismissing it, which \<open>enter\<close> does.\<close>

fun not_dismissing :: "modal_event \<Rightarrow> bool" where
  "not_dismissing ToggleDialog = False"
| "not_dismissing Dismiss = False"
| "not_dismissing (ClickBackdrop b) = False"
| "not_dismissing (KeyDown which) = False"
| "not_dismissing e = True"

lemma lost_fields:
  assumes "lost s" "bm_isShown t = bm_isShown s" "bm_displayed t = bm_displayed s"
    and "\<And>p h. h \<in> set (bm_ends t p) \<Longrightarrow> h \<in> set (bm_ends s p)"
  shows "lost t"
  using assms unfolding lost_def by blast

lemma lost_run_endings: "lost s \<Longrightarrow> \<forall>h\<in>set hs. lost_end h \<Longrightarrow> lost (run_endings cfg p hs s)"
proof (induction hs arbitrary: s)
  case (Cons h hs)
  let ?s = "set_ends p (remove1 h (bm_ends s p)) s"
  have l: "lost ?s"
    using Cons.prems(1) by (rule lost_fields) (auto dest: set_remove1_subset [THEN subsetD] split: if_splits)
  have "lost (run_ending cfg h ?s)"
  proof (cases "h = Run AfterHide")
    case True
    show ?thesis
      using l by (rule lost_fields) (simp_all add: True after_hide_def resetScrollbar_def resetAdjustments_def)
  next
    case False
    then have "h = FocusShown \<or> (\<exists>k. h = Called k)" using Cons.prems(2) by (simp add: lost_end_def idle_end_def)
    then show ?thesis using l by (elim disjE exE) (erule lost_fields; simp)+
  qed
  then show ?case using Cons by (simp add: Let_def)
qed simp

lemma lost_html: "lost s \<Longrightarrow> lost (set_html d s)"
  by (erule lost_fields) (simp_all add: set_html_def Let_def del: fold_append split: if_splits)

lemma lost_step:
  assumes "lost s" "not_dismissing e"
  shows "lost (modal_step cfg e s)"
proof -
  define s0 where "s0 = s\<lparr>bm_thrown := False\<rparr>"
  have l: "lost s0" using assms(1) by (rule lost_fields) (simp_all add: s0_def)
  have same: "lost (trigger_event ev t)" "lost (adjustDialog cfg t)" "lost (t\<lparr>bm_thrown := True\<rparr>)" if "lost t" for ev t
    using that by (rule lost_fields; simp)+
  have "lost (handle_event cfg e s0)"
  proof (cases e)
    case ShowDialog
    have "lost (set_html True s0)" using l by (rule lost_html)
    moreover from this have "bm_isShown (set_html True s0)" by (simp add: lost_def)
    ultimately show ?thesis by (simp add: ShowDialog show_shown same)
  next
    case Resized
    have "lost (run_handlers n (handleUpdate cfg) s0)" for n
      using l by (rule run_handlers_keep [rotated]) (simp add: handleUpdate_def same)
    then show ?thesis by (simp add: Resized)
  next
    case (FocusIn inside)
    have "lost (run_handlers n (trigger_event ''focus'') s0)" for n
      using l by (rule run_handlers_keep [rotated]) (rule same)
    then show ?thesis unfolding FocusIn handle_event.simps .
  next
    case (TransitionEnd p)
    have "lost (transition_end cfg p s0)"
      unfolding transition_end_def by (rule lost_run_endings [OF l]) (use l in \<open>simp add: lost_def\<close>)
    then show ?thesis by (simp add: TransitionEnd)
  next
    case (Timeout i)
    obtain k p called where x: "bm_timers s0 ! i = (k, p, called)" by (metis prod_cases3)
    define s1 where "s1 = s0\<lparr>bm_timers := take i (bm_timers s0) @ drop (Suc i) (bm_timers s0)\<rparr>"
    have l1: "lost s1" using l by (rule lost_fields) (simp_all add: s1_def)
    then have "lost (transition_end cfg p s1)"
      unfolding transition_end_def by (rule lost_run_endings) (use l1 in \<open>simp add: lost_def\<close>)
    then have "lost (timer_fires cfg i s0)" using l1 by (simp add: timer_fires_def x s1_def Let_def)
    then show ?thesis using l by (simp add: Timeout)
  qed (use assms(2) in simp_all)
  then show ?thesis by (simp add: modal_step_def s0_def)
qed

interpretation lost_dialogs: event_machine "modal_step cfg" lost "\<lambda>e s. not_dismissing e" for cfg
  by unfold_locales (rule lost_step)

lemma waiting_run: "\<forall>e\<in>set es. not_dismissing e \<Longrightarrow> allowed_run (\<lambda>e s. not_dismissing e) step es s"
  by (induction es arbitrary: s) simp_all

lemma lost_forever: "lost s \<Longrightarrow> \<forall>e\<in>set es. not_dismissing e \<Longrightarrow> lost (fold (modal_step cfg) es s)"
  by (rule lost_dialogs.inv_run) (simp_all add: waiting_run)

text \<open>A second dialog while the backdrop of the first one appears.\<close>

lemma lost_twice:
  assumes ok: "modal_ok Hidden s" and cfg: "viewer_config cfg"
  shows "lost (modal_step cfg ShowDialog (modal_step cfg ShowDialog s))"
proof -
  define s1 where "s1 = (modal_step cfg ShowDialog s)\<lparr>bm_thrown := False\<rparr>"
  have "modal_ok Hidden (set_html True (s\<lparr>bm_thrown := False\<rparr>))" using html_ok [of Hidden "s\<lparr>bm_thrown := False\<rparr>"] ok by simp
  from show_opens [OF this cfg] obtain b where o: "modal_ok (Opening b) s1"
    unfolding s1_def modal_step_def handle_event.simps by (blast intro: thrown_ok)
  have base: "base_ok (Opening b) s1" using o by (simp add: modal_ok_def)
  have sh: "bm_isShown s1" "\<not> bm_displayed s1" "bm_children s1 = [b]" using base_okD(1) [OF base] by simp_all
  have idle: "idle p (bm_ends s1 p)" if "p \<noteq> Backdrop b" for p
    using that by (intro parts_awaited(2) [OF base_okD(2) [OF base]]) simp_all
  have "lost (set_html True s1)"
  proof -
    have "h \<in> set (bm_ends (set_html True s1) p) \<Longrightarrow> lost_end h" for p h
      using idle [of p] sh(3) by (cases p) (auto simp: set_html_def Let_def lost_end_def split: if_splits)
    then show ?thesis using sh by (simp add: lost_def set_html_def Let_def del: fold_append)
  qed
  moreover from this have "bm_isShown (set_html True s1)" by (simp add: lost_def)
  ultimately have "lost (trigger_event ''show'' (set_html True s1))" by (auto simp: lost_def)
  then show ?thesis using \<open>bm_isShown (set_html True s1)\<close> by (simp add: modal_step_def s1_def show_shown)
qed

text \<open>A dialog that is opened while the one before fades, when its backdrop is there before the other is gone.\<close>

lemma show_result:
  assumes "\<not> bm_isShown s" "viewer_config cfg"
  shows "\<exists>t. show_modal cfg s = when_ended (Backdrop (bm_next s)) (Run ShowElement) t \<and> bm_isShown t
    \<and> bm_backdrop t = Some (bm_next s) \<and> bm_ends t = bm_ends s \<and> bm_thrown t = bm_thrown s"
proof -
  define s1 where "s1 = (setScrollbar cfg (checkScrollbar cfg ((trigger_event ''show'' s)\<lparr>bm_isShown := True\<rparr>)))"
  have f1: "bm_isShown s1" "bm_next s1 = bm_next s" "bm_ends s1 = bm_ends s" "bm_thrown s1 = bm_thrown s"
    by (simp_all add: s1_def setScrollbar_def checkScrollbar_def Let_def)
  define t where "t = s1\<lparr>bm_modalOpen := True, bm_keydown := bm_keydown s1 + 1, bm_resize := bm_resize s1 + 1, bm_dismiss := bm_dismiss s1 + 1,
    bm_backdrop := Some (bm_next s), bm_children := bm_next s # bm_children s1, bm_next := Suc (bm_next s)\<rparr>"
  have "show_modal cfg s = when_ended (Backdrop (bm_next s)) (Run ShowElement) t"
    using assms f1 unfolding show_modal_def Let_def
    by (simp add: s1_def [symmetric] viewer_config_def escape_keys_def resize_modal_def backdrop_def t_def Let_def)
  then show ?thesis using f1 by (intro exI [of _ t]) (simp add: t_def)
qed

lemma show_element_ends:
  assumes "bm_backdrop s \<noteq> None" "viewer_config cfg"
  shows "bm_isShown (show_element cfg s) = bm_isShown s" "bm_backdrop (show_element cfg s) = bm_backdrop s"
    "bm_thrown (show_element cfg s) = bm_thrown s"
    "\<And>p. (\<And>d. p \<noteq> Dialog d) \<Longrightarrow> bm_ends (show_element cfg s) p = bm_ends s p"
    "\<And>d. idle (Dialog d) (bm_ends s (Dialog d)) \<Longrightarrow> idle (Dialog d) (bm_ends (show_element cfg s) (Dialog d))"
  using assms
  by (auto simp: show_element_def lacks_backdrop_def enforceFocus_def viewer_config_def Let_def idle_end_def split: option.split)

lemma lost_fading:
  assumes ok: "modal_ok (Open b) s" and cfg: "viewer_config cfg"
    and s2_def: "s2 = modal_step cfg ShowDialog (modal_step cfg Dismiss s)" and n_def: "n = the (bm_backdrop s2)"
  shows "lost (modal_step cfg (TransitionEnd Element) (modal_step cfg (TransitionEnd (Backdrop n)) s2))"
proof -
  have ok0: "modal_ok (Open b) (s\<lparr>bm_thrown := False\<rparr>)" using ok by simp
  have "bm_dismiss s = 1" using modal_okD [OF ok] by (simp add: modal_handlers_def)
  then have s1: "modal_step cfg Dismiss s = hide_modal cfg (s\<lparr>bm_thrown := False\<rparr>)"
    using hide_closes(2) [OF ok0 cfg] by (simp add: modal_step_def Let_def)
  define s1 where "s1 = set_html True ((modal_step cfg Dismiss s)\<lparr>bm_thrown := False\<rparr>)"
  have base: "base_ok (Closing b) (modal_step cfg Dismiss s)"
    using hide_closes(1) [OF ok0 cfg] by (simp add: s1 modal_ok_def)
  have idle: "idle p (bm_ends (modal_step cfg Dismiss s) p)" if "p \<noteq> Element" for p
    using that by (intro parts_awaited(2) [OF base_okD(2) [OF base]]) simp_all
  obtain k where k: "bm_ends (modal_step cfg Dismiss s) Element = [HideModal, Called k]"
    using parts_awaited(1) [OF base_okD(2) [OF base], of Element] by auto
  have e1: "\<not> bm_isShown s1" "bm_ends s1 Element = [HideModal, Called k]" "bm_thrown s1 = False"
    "\<And>p. p \<noteq> Element \<Longrightarrow> idle p (bm_ends s1 p)"
    using base_okD(1) [OF base] k idle by (auto simp: s1_def set_html_def Let_def simp del: fold_append split: option.split)
  obtain t where t: "show_modal cfg s1 = when_ended (Backdrop (bm_next s1)) (Run ShowElement) t" "bm_isShown t"
    "bm_backdrop t = Some (bm_next s1)" "bm_ends t = bm_ends s1" "bm_thrown t = bm_thrown s1"
    using show_result [OF e1(1) cfg] by blast
  have s2: "s2 = when_ended (Backdrop (bm_next s1)) (Run ShowElement) t"
    using t(1) by (simp add: s2_def modal_step_def s1_def)
  have n: "n = bm_next s1" by (simp add: n_def s2 t(3))
  have e0: "bm_ends s1 (Backdrop c) = []" for c using e1(4) [of "Backdrop c"] by simp
  define u where "u = s2\<lparr>bm_thrown := False\<rparr>"
  have u: "bm_isShown u" "bm_backdrop u = Some n" "\<not> bm_thrown u" "bm_ends u (Backdrop n) = [Run ShowElement, Called (bm_next t)]"
    "\<And>p. p \<noteq> Backdrop n \<Longrightarrow> bm_ends u p = bm_ends s1 p"
    using t(2-5) e0 by (simp_all add: u_def s2 n)
  define v where "v = show_element cfg (set_ends (Backdrop n) [Called (bm_next t)] u)"
  have v: "bm_isShown v" "bm_backdrop v = Some n" "\<not> bm_thrown v" "bm_ends v (Backdrop n) = [Called (bm_next t)]"
    "\<And>c. c \<noteq> n \<Longrightarrow> bm_ends v (Backdrop c) = []" "bm_ends v Element = [HideModal, Called k]"
    using show_element_ends(1-4) [OF _ cfg, of "set_ends (Backdrop n) [Called (bm_next t)] u"] u e0 e1(2) by (simp_all add: v_def)
  have vd: "idle (Dialog d) (bm_ends v (Dialog d))" for d
    unfolding v_def by (rule show_element_ends(5) [OF _ cfg]) (use u(2,5) e1(4) [of "Dialog d"] in simp_all)
  define w where "w = run_ending cfg (Called (bm_next t)) (set_ends (Backdrop n) (remove1 (Called (bm_next t)) (bm_ends v (Backdrop n))) v)"
  have "transition_end cfg (Backdrop n) u = w"
    unfolding w_def by (rule transition_end_awaited [OF u(4)]) (simp_all add: v_def [symmetric] v(3))
  then have s3: "modal_step cfg (TransitionEnd (Backdrop n)) s2 = w" by (simp add: modal_step_def u_def)
  have w: "bm_isShown w" "\<not> bm_thrown w" "\<And>c. bm_ends w (Backdrop c) = []" "bm_ends w Element = [HideModal, Called k]"
    "\<And>d. idle (Dialog d) (bm_ends w (Dialog d))"
    using v vd by (auto simp: w_def)
  define x where "x = set_ends Element [Called k] (w\<lparr>bm_thrown := False\<rparr>)"
  define y where "y = hideModal cfg x"
  have y: "bm_isShown y" "\<not> bm_displayed y" "\<not> bm_thrown y" "bm_ends y Element = [Called k]"
    "\<And>d. idle (Dialog d) (bm_ends y (Dialog d))" "\<And>c h. h \<in> set (bm_ends y (Backdrop c)) \<Longrightarrow> lost_end h"
    using w cfg by (auto simp: y_def x_def hideModal_def backdrop_def viewer_config_def Let_def lost_end_def idle_end_def split: if_splits)
  have "transition_end cfg Element (w\<lparr>bm_thrown := False\<rparr>)
      = run_ending cfg (Called k) (set_ends Element (remove1 (Called k) (bm_ends y Element)) y)"
    using transition_end_awaited [of "w\<lparr>bm_thrown := False\<rparr>" Element HideModal k y cfg] w(4) y(3)
    by (simp add: y_def x_def)
  moreover have "lost (run_ending cfg (Called k) (set_ends Element (remove1 (Called k) (bm_ends y Element)) y))"
  proof -
    have "lost_end h" if "h \<in> set (((bm_ends y)(Element := [])) p)" for h p
      using that y(5,6) by (cases p) (auto simp: lost_end_def)
    then show ?thesis using y by (simp add: lost_def)
  qed
  ultimately show ?thesis unfolding s3 by (simp add: modal_step_def)
qed

text \<open>C18: From any state that dialogs opened and dismissed in time have led to, a dialog is lost that is opened while
  the backdrop of another one appears, and one that is opened while the one before fades, when its backdrop is there
  before that one is gone: whatever the browser does afterwards and however many dialogs are opened, none is displayed,
  until somebody dismisses what nobody sees.\<close>

theorem dialog_lost:
  assumes "viewer_config cfg" "allowed_run in_time (modal_step cfg) es new_modal"
    and s_def: "s = fold (modal_step cfg) es new_modal" and "nothing_fades s" and "\<forall>e\<in>set later. not_dismissing e"
  shows "if bm_isShown s
    then let s2 = modal_step cfg ShowDialog (modal_step cfg Dismiss s);
             s3 = modal_step cfg (TransitionEnd (Backdrop (the (bm_backdrop s2)))) s2;
             t = fold (modal_step cfg) later (modal_step cfg (TransitionEnd Element) s3)
         in bm_isShown t \<and> \<not> bm_displayed t
    else let t = fold (modal_step cfg) later (modal_step cfg ShowDialog (modal_step cfg ShowDialog s))
         in bm_isShown t \<and> \<not> bm_displayed t"
proof -
  obtain ph where ph: "modal_ok ph s" using reached [OF assms(1,2)] unfolding s_def by blast
  from settled_cases [OF ph assms(4)] show ?thesis
  proof cases
    case 1
    then have "lost (fold (modal_step cfg) later (modal_step cfg ShowDialog (modal_step cfg ShowDialog s)))"
      using lost_forever [OF lost_twice [OF _ assms(1)] assms(5)] ph by simp
    then show ?thesis using 1(2) by (simp add: lost_def Let_def)
  next
    case (2 b)
    let ?s2 = "modal_step cfg ShowDialog (modal_step cfg Dismiss s)"
    have "lost (fold (modal_step cfg) later (modal_step cfg (TransitionEnd Element)
        (modal_step cfg (TransitionEnd (Backdrop (the (bm_backdrop ?s2)))) ?s2)))"
      using lost_forever [OF lost_fading [OF _ assms(1) refl refl] assms(5)] ph 2(1) by simp
    then show ?thesis using 2(2) by (simp add: lost_def Let_def)
  qed
qed

section \<open>Examples\<close>

definition example_config :: modal_config where
  "example_config =
     \<lparr>mo_backdrop = Closes, mo_keyboard = True, mo_fade = True, mo_transition = True, mo_prevents = (\<lambda>e. False),
      mo_bodyOverflows = True, mo_elementOverflows = False, mo_scrollbar = 15, mo_bodyPadding = 0\<rparr>"

definition example_dialogs :: "modal_event list" where
  "example_dialogs = [ShowDialog, Timeout 0, Resized, FocusIn False, Timeout 0, KeyDown 27]"

lemma example_dialog_facts:
  "viewer_config example_config"
  "allowed_run in_time (modal_step example_config) example_dialogs new_modal"
  "bm_displayed (fold (modal_step example_config) example_dialogs new_modal)"
  "\<not> bm_isShown (fold (modal_step example_config) example_dialogs new_modal)"
  "nothing_fades new_modal" "\<not> bm_isShown new_modal"
  by (simp add: viewer_config_def animated_def example_config_def, code_simp+)

theorem dialog_consistent_witness:
  "bm_modalOpen (fold (modal_step example_config) example_dialogs new_modal)
   \<and> length (bm_children (fold (modal_step example_config) example_dialogs new_modal)) \<le> 1"
  using dialog_consistent [OF example_dialog_facts(1,2) refl] example_dialog_facts(3) by blast

theorem dialog_lost_witness:
  "\<not> bm_displayed (fold (modal_step example_config) [Timeout 0, Timeout 0, ShowDialog, TransitionEnd Element]
       (modal_step example_config ShowDialog (modal_step example_config ShowDialog new_modal)))"
proof -
  have "\<forall>e\<in>set [Timeout 0, Timeout 0, ShowDialog, TransitionEnd Element]. not_dismissing e" by simp
  from dialog_lost [OF example_dialog_facts(1) _ _ example_dialog_facts(5) this, of "[]"] show ?thesis
    using example_dialog_facts(6) by (simp add: Let_def)
qed

end
