(* ===== verification/Spec2Isabelle.thy ===== *)
theory Spec2Isabelle
  imports Htrace_Prelude Js_Number Js_String Js_Date Moment_Utc Htrace_String Search_Predicate
    Span_Model Htrace_Tree Span_Store Span_Reify Span_Props Canvas Widget_Manager Widgets Widget_Geometry
    Span_Details Backbone_Collection Results_View Results_Events View_Layout View_Invariant View_Total
    View_Handlers Search_View Search_Props View_Props
    Backbone_Router App_Router Router_Props Jquery_Callbacks Deferred_Props When_Props Hbase_Viewer Hbase_Props
    Underscore Underscore_Props Debounce Modal_Dialog Jquery_Events Event_Props Page_Events Page_Props
    Template Template_Props Js_Value Backbone_Events Backbone_Props Backbone_Model_Props
    Jquery_Ajax Jquery_Answer Jquery_Request Ajax_Props Param_Props Underscore_Functions Backbone_Sync Sync_Props
    Sizzle Sizzle_Props Bootstrap_Modal Dialog_Props
begin

text \<open>
  A verification development for the web interface of HTrace, the tracing framework: the viewer that
  htraced serves (\<open>htrace-webapp/src/main/web\<close>) and the older trace viewer of the HBase storage
  (\<open>htrace-hbase/src/main/webapps/htrace\<close>). Both are JavaScript that runs in the browser; the clients
  and the server are programs in other languages and are not modelled. File names without a directory
  are those of \<open>htrace-webapp/src/main/web/app\<close>.

  The program. The user builds a list of predicates on the search page (\<open>search_view.js\<close>,
  \<open>predicate_view.js\<close>, \<open>predicate.js\<close>), whose query fetches spans from the server (\<open>query_results.js\<close>,
  \<open>span.js\<close>). The results view (\<open>search_results_view.js\<close>) draws them on a canvas: for each result a
  group with a row for the span and each of its parents and children that were fetched
  (\<open>span_group_widget.js\<close>, \<open>span_widget.js\<close>, \<open>triangle_button.js\<close>), next to a movable partition and a
  cursor that shows a time (\<open>partition_widget.js\<close>, \<open>time_cursor.js\<close>). Events of the mouse reach the
  widgets through \<open>widget_manager.js\<close>. The buttons of a row fetch the parents or children of its span
  by several requests at once, joined with \<open>$.when\<close>. The spans form a graph of objects that
  \<open>tree.js\<close> traverses. \<open>router.js\<close> switches between the search page and the page about the server.

  How it is modelled. An operation that changes state is a function from state to state; a method of an
  object takes the record of the object, or an index of a list of such records where objects are shared.
  A call whose recursion or loop is not bounded by its input takes \<open>fuel\<close>, the depth of the call stack,
  and returns \<open>None\<close> when that is exhausted; the theorems say which depth is enough. A thrown error is a
  value (a sum, or the outcome \<open>TypeError\<close>). What is asynchronous, the answers of the server and the
  timers, is an event that may come at any later time, and the reachable states of the search page, of
  the application, of the store and of the resize handler are inductive predicates over all sequences
  of events. Numbers are exact rationals with the infinities, \<open>NaN\<close> and \<open>undefined\<close>; the rounding of
  doubles is not modelled, except that dates end where those of the language do.

  The theories, with what they model.

  \<^item> \<open>Htrace_Prelude\<close> (sums, sorting with a comparison function and its contract \<open>comparator\<close>, the
    contract \<open>codec\<close> of a printer with a reader), \<open>Js_Number\<close>, \<open>Js_String\<close>, \<open>Js_Date\<close>: the language.
  \<^item> \<open>Moment_Utc\<close>: formatting and strict parsing in UTC of \<open>lib/moment-2.10.3.js\<close>, with the tokens that
    the formats of the viewer have. \<open>Htrace_String\<close>: \<open>string.js\<close>. \<open>Search_Predicate\<close>: \<open>predicate.js\<close>.
  \<^item> \<open>Span_Model\<close>: parsing and unparsing in \<open>span.js\<close>. \<open>Htrace_Tree\<close>: \<open>tree.js\<close>, with the contract
    \<open>navigation\<close> of a function that gives the neighbours of a node. \<open>Span_Store\<close>, \<open>Span_Reify\<close>,
    \<open>Span_Props\<close>: the store of span objects and the operations of \<open>span.js\<close> on it. A reference is an
    index of the store; the reified fields of a span are lists of references.
  \<^item> \<open>Canvas\<close>: the calls of a drawing context and what they leave. \<open>Widget_Manager\<close>: \<open>widget_manager.js\<close>
    with the contract \<open>dispatch\<close> between manager and handlers. \<open>Widgets\<close>, \<open>Widget_Geometry\<close>: data and
    drawing of the widgets. \<open>Span_Details\<close>: the details dialog of \<open>span_widget.js\<close>.
  \<^item> \<open>Results_View\<close> (the record \<open>view\<close>, constructors, rendering), \<open>Results_Events\<close> (time line, zoom,
    clearing, events): \<open>search_results_view.js\<close> with the handlers of the widgets. \<open>View_Layout\<close>,
    \<open>View_Invariant\<close>, \<open>View_Total\<close>, \<open>View_Handlers\<close>: rows, invariant, and that everything returns.
    \<open>View_Props\<close>: what the operations achieve.
  \<^item> \<open>Backbone_Collection\<close>: the collection of the results (\<open>lib/backbone-1.1.2.js\<close>). \<open>Search_View\<close>,
    \<open>Search_Props\<close>: \<open>search_view.js\<close>, \<open>predicate_view.js\<close>, \<open>query_results.js\<close>, and everything that can
    happen to the page.
  \<^item> \<open>Backbone_Router\<close>: the router and the history of \<open>lib/backbone-1.1.2.js\<close>, in a browser with the event
    \<open>hashchange\<close>. \<open>App_Router\<close>, \<open>Router_Props\<close>: \<open>router.js\<close>, \<open>about_view.js\<close>, \<open>server_info.js\<close>, and the
    application as a whole. \<open>Modal_Dialog\<close>: \<open>modal.js\<close>.
  \<^item> \<open>Jquery_Callbacks\<close>: \<open>Callbacks\<close>, \<open>Deferred\<close>, \<open>then\<close> and \<open>when\<close> of \<open>lib/jquery-2.1.4.js\<close>, as a
    machine with a stack of pending work, since callbacks may change the lists that are being fired.
    \<open>Deferred_Props\<close>, \<open>When_Props\<close>: a deferred refines a promise, and \<open>when\<close>.
  \<^item> \<open>Jquery_Events\<close>: the handlers of events in jQuery, behind \<open>on\<close> and \<open>off\<close>, and the dispatch of an event;
    \<open>Event_Props\<close>: they implement a list of bindings for each element. \<open>Page_Events\<close>, \<open>Page_Props\<close>:
    which handlers the pages have on the document, from \<open>Backbone.View\<close> to \<open>router.js\<close>.
  \<^item> \<open>Js_Value\<close>: values as trees, with \<open>isEqual\<close> and the tests of types of \<open>lib/underscore-1.7.0.js\<close>.
    \<open>Backbone_Events\<close>: the events and the models of \<open>lib/backbone-1.1.2.js\<close>, as a machine with a stack of the
    calls that are under way, over a store of the arrays of callbacks, which are shared with the loops that
    call them. \<open>Backbone_Props\<close>: triggering, the refinement of plain lists, and stopping to listen.
    \<open>Backbone_Model_Props\<close>: \<open>set\<close> and the events \<open>change\<close>.
    \<open>Backbone_Sync\<close>: how a model is fetched, saved and destroyed over \<open>Backbone.sync\<close>; the objects that are
    its attributes in turn are in a store, since a save puts back the one it found. \<open>Sync_Props\<close>: validity,
    and \<open>save\<close> with \<open>wait\<close>.
  \<^item> \<open>Jquery_Ajax\<close>, \<open>Jquery_Answer\<close>, \<open>Jquery_Request\<close>: the requests of \<open>lib/jquery-2.1.4.js\<close>: the text of the
    parameters, the address and the headers; the conversion of the answer; and the life of many requests over
    \<open>XMLHttpRequest\<close>, as a page with events. \<open>Ajax_Props\<close>: a request settles once, the counter of active
    requests, and how a request of \<open>span.js\<close> is the call of the store. \<open>Param_Props\<close>: the text of the
    parameters is read back.
  \<^item> \<open>Sizzle\<close>: the selectors of jQuery where the browser does not do the work: matchers that walk over the
    document and leave their results in shared arrays in the elements, and the search for elements to start
    with. \<open>Sizzle_Props\<close>: they select what the selector means.
  \<^item> \<open>Bootstrap_Modal\<close>: the dialogs of \<open>lib/bootstrap-3.3.1/js/bootstrap.js\<close>, with transitions and timers, as
    \<open>modal.js\<close> opens them. \<open>Dialog_Props\<close>: the phases of a dialog, what is left of it, and how it is lost.
  \<^item> \<open>Template\<close>, \<open>Template_Props\<close>: \<open>escape\<close>, \<open>unescape\<close> and \<open>template\<close> of underscore, and the HTML that the
    dialogs make with the templates of \<open>index.html\<close>, read back by a small lexer of HTML.
  \<^item> \<open>Underscore\<close>, \<open>Underscore_Props\<close>: collections, arrays and objects of \<open>lib/underscore-1.7.0.js\<close>;
    \<open>Debounce\<close>: its \<open>debounce\<close>, with the resize handler of the results view. \<open>Underscore_Functions\<close>: the
    functions that wrap others (\<open>partial\<close>, \<open>compose\<close>, \<open>before\<close>, \<open>memoize\<close>), and \<open>throttle\<close>.
  \<^item> \<open>Hbase_Viewer\<close>, \<open>Hbase_Props\<close>: \<open>spans.js\<close> and \<open>traces.js\<close> of the HBase viewer.

  What is shown. (1) The store of spans stays a forest whatever the user fetches and the server answers,
  so every traversal returns, and visits what is reachable. (2) Fetching parents or children adds exactly
  the answered spans in the order of time; failures change nothing. (3) Every event of the search page
  and of the application is handled to the end in every reachable state, on a call stack that is deeper
  than the number of spans; only code that runs for a closed page fails. (4) At most one query is on its
  way. (5) The rows of a group show each visible span once, without gaps. (6) Drawing leaves the drawing
  context as it was, and stays in its rectangle; positions and times are inverse. (7) Zoom, selection,
  clearing and buttons do what they say, with the exceptions that the theorems state. (8) Dates, span
  ids, predicates and spans survive printing and parsing. (9) The libraries: a collection agrees with
  its index, a deferred with a promise, \<open>when\<close> resolves when all have, the binary search with a scan,
  \<open>debounce\<close> waits for quiet; the sort of underscore is the stable one, and shuffling is a permutation; the
  events of jQuery and of backbone call what lists of bindings hold, and a trigger calls what was bound when
  it began; a model tells every change. (10) The pages: the events of the document reach the handlers of the
  page that is shown and no other, and the table of the details dialog shows any text as it is. (11) Requests:
  each has one outcome, which stays; the counter of those under way is right as long as no handler aborts a
  request before it is sent; the parameters of a query survive the address; a throttled function never runs
  twice within its time; a model that is saved with validation is valid at any time, as is what was sent.
  (12) The selectors of jQuery give the elements that match, whatever the caches hold. (13) Dialogs that are opened
  and dismissed while nothing fades are displayed and go without leaving anything; those opened while another one
  appears are lost.

  Bounds. Fuel is a depth of recursion: the number of spans of the store plus one is enough for every
  traversal, since a path in a forest visits no span twice. The binary search needs fewer than \<open>2 ^ 31\<close>
  elements, since its middle is computed with 32 bits; as a partial function it is \<open>None\<close> when it does
  not end, so the theorem that it gives \<open>Some\<close> includes that it does. Dates are printed and read back in
  the years 1 to 9999.

  Not modelled. The HTML of the other templates, CSS sizes (they are parameters of the view) and the console;
  \<open>JSON\<close> texts (an answer is the record of its fields, or unusable); characters above 255 in texts; the
  local time zone, which the viewer does not use. \<open>search_result.js\<close> and \<open>span_details_view.js\<close> are not
  loaded by the page (the latter is a syntax error). Of the libraries, what the viewer does not reach or
  what only calls the DOM: the animations of jQuery and what it does with elements and styles, its requests
  for scripts of other sites, the plugins of bootstrap other than dialogs, d3, the chaining and binding of
  underscore, the locales and durations of moment.
\<close>

end
